(* ===== verification/Utf.thy ===== *)
theory Utf
  imports Prelude
begin

text \<open>
  \<^verbatim>\<open>internal/canonical/string.go\<close>: JCS string serialization, the UTF-16 key order and the
  lexical scan for unpaired surrogate escapes, over a model of the standard library's
  \<open>unicode/utf8\<close> and \<open>unicode/utf16\<close> packages.  Bytes are natural numbers below 256 and
  runes are natural numbers; \<open>bytes\<close> reads a Go string as its byte list.
\<close>

section \<open>The utf8 and utf16 packages\<close>

definition bytes :: "string \<Rightarrow> nat list" where
  "bytes s = map of_char s"

definition of_bytes :: "nat list \<Rightarrow> string" where
  "of_bytes bs = map char_of bs"

lemma of_bytes_bytes [simp]: "of_bytes (bytes s) = s"
  by (simp add: of_bytes_def bytes_def comp_def)

lemma bytes_of_bytes: "\<forall>b \<in> set bs. b < 256 \<Longrightarrow> bytes (of_bytes bs) = bs"
  by (simp add: of_bytes_def bytes_def comp_def map_idI)

lemma bytes_inj [simp]: "bytes a = bytes b \<longleftrightarrow> a = b"
  by (metis of_bytes_bytes)

lemma of_bytes_append [simp]: "of_bytes (xs @ ys) = of_bytes xs @ of_bytes ys"
  by (simp add: of_bytes_def)

lemma of_bytes_Nil [simp]: "of_bytes [] = []"
  by (simp add: of_bytes_def)

text \<open>A Unicode scalar value: what a well-formed UTF-8 sequence can decode to.\<close>

definition scalar :: "nat \<Rightarrow> bool" where
  "scalar r \<longleftrightarrow> r < 0xD800 \<or> (0xE000 \<le> r \<and> r \<le> 0x10FFFF)"

definition cont :: "nat \<Rightarrow> bool" where
  "cont b \<longleftrightarrow> 0x80 \<le> b \<and> b \<le> 0xBF"

text \<open>
  \<open>take_rune bs\<close> decodes one well-formed sequence at the front of \<open>bs\<close>; \<^const>\<open>None\<close> is the
  case \<open>utf8.DecodeRune\<close> answers with \<open>(RuneError, 1)\<close>.  The ranges of the second byte are
  those of the package's \<open>acceptRanges\<close> table: no overlong form, no surrogate, nothing above
  U+10FFFF.
\<close>

fun take_rune :: "nat list \<Rightarrow> (nat \<times> nat list) option" where
  "take_rune [] = None"
| "take_rune (a # bs) =
    (if a < 0x80 then Some (a, bs)
     else if 0xC2 \<le> a \<and> a \<le> 0xDF then
       (case bs of
          b # r \<Rightarrow> if cont b then Some ((a - 0xC0) * 64 + (b - 0x80), r) else None
        | _ \<Rightarrow> None)
     else if 0xE0 \<le> a \<and> a \<le> 0xEF then
       (case bs of
          b # c # r \<Rightarrow>
            if cont b \<and> cont c \<and> (a = 0xE0 \<longrightarrow> 0xA0 \<le> b) \<and> (a = 0xED \<longrightarrow> b \<le> 0x9F)
            then Some ((a - 0xE0) * 4096 + (b - 0x80) * 64 + (c - 0x80), r) else None
        | _ \<Rightarrow> None)
     else if 0xF0 \<le> a \<and> a \<le> 0xF4 then
       (case bs of
          b # c # d # r \<Rightarrow>
            if cont b \<and> cont c \<and> cont d \<and> (a = 0xF0 \<longrightarrow> 0x90 \<le> b) \<and> (a = 0xF4 \<longrightarrow> b \<le> 0x8F)
            then Some ((a - 0xF0) * 262144 + (b - 0x80) * 4096 + (c - 0x80) * 64 + (d - 0x80), r)
            else None
        | _ \<Rightarrow> None)
     else None)"

lemma take_rune_shorter: "take_rune bs = Some (r, rest) \<Longrightarrow> length rest < length bs"
  by (cases bs) (auto split: if_splits list.splits)

text \<open>\<open>utf8.ValidString\<close>, and the conversion \<open>[]rune(s)\<close>, where an ill-formed byte becomes
  U+FFFD and one byte is consumed.\<close>

function valid_utf8 :: "nat list \<Rightarrow> bool" where
  "valid_utf8 [] = True"
| "valid_utf8 (b # bs) =
     (case take_rune (b # bs) of None \<Rightarrow> False | Some (r, rest) \<Rightarrow> valid_utf8 rest)"
  by pat_completeness auto
termination
  by (relation "measure length") (auto dest: take_rune_shorter simp del: take_rune.simps)

function runes :: "nat list \<Rightarrow> nat list" where
  "runes [] = []"
| "runes (b # bs) =
     (case take_rune (b # bs) of None \<Rightarrow> 0xFFFD # runes bs | Some (r, rest) \<Rightarrow> r # runes rest)"
  by pat_completeness auto
termination
  by (relation "measure length") (auto dest: take_rune_shorter simp del: take_rune.simps)

text \<open>\<open>utf8.AppendRune\<close>, which \<open>strings.Builder.WriteRune\<close> is.\<close>

definition encode_rune :: "nat \<Rightarrow> nat list" where
  "encode_rune r =
     (if r < 0x80 then [r]
      else if r < 0x800 then [0xC0 + r div 64, 0x80 + r mod 64]
      else if r < 0x10000 then [0xE0 + r div 4096, 0x80 + r div 64 mod 64, 0x80 + r mod 64]
      else [0xF0 + r div 262144, 0x80 + r div 4096 mod 64, 0x80 + r div 64 mod 64, 0x80 + r mod 64])"

text \<open>\<open>utf16.Encode\<close>.\<close>

definition utf16_units :: "nat \<Rightarrow> nat list" where
  "utf16_units r =
     (if scalar r then
        (if r < 0x10000 then [r]
         else [0xD800 + (r - 0x10000) div 1024, 0xDC00 + (r - 0x10000) mod 1024])
      else [0xFFFD])"

definition utf16_encode :: "nat list \<Rightarrow> nat list" where
  "utf16_encode rs = concat (map utf16_units rs)"

lemma encode_rune_byte: "scalar r \<Longrightarrow> b \<in> set (encode_rune r) \<Longrightarrow> b < 256"
  by (auto simp: encode_rune_def scalar_def split: if_splits)

lemma encode_rune_nonempty [simp]: "encode_rune r \<noteq> []"
  by (simp add: encode_rune_def)

text \<open>Runes in base 64, which is how the continuation bytes carry them.\<close>

lemma base64_2: "(r::nat) = r div 4096 * 4096 + r div 64 mod 64 * 64 + r mod 64"
proof -
  have "r div 64 div 64 = r div 4096" by (simp flip: div_mult2_eq)
  moreover have "r div 64 = r div 64 div 64 * 64 + r div 64 mod 64" by simp
  moreover have "r = r div 64 * 64 + r mod 64" by simp
  ultimately show ?thesis by linarith
qed

lemma base64_3:
  "(r::nat) = r div 262144 * 262144 + r div 4096 mod 64 * 4096 + r div 64 mod 64 * 64 + r mod 64"
proof -
  have "r div 4096 div 64 = r div 262144" by (simp flip: div_mult2_eq)
  moreover have "r div 4096 = r div 4096 div 64 * 64 + r div 4096 mod 64" by simp
  ultimately show ?thesis using base64_2 [of r] by linarith
qed

lemma base64_digits_2:
  assumes "b < 64" and "c < 64"
  shows "(a * 4096 + b * 64 + c) div 4096 = a" "(a * 4096 + b * 64 + c) div 64 mod 64 = b"
    "(a * 4096 + b * 64 + c) mod 64 = (c::nat)"
proof -
  have "b * 64 + c < 4096" using assms by linarith
  then show "(a * 4096 + b * 64 + c) div 4096 = a"
    by (simp add: add.assoc)
  have "(a * 4096 + b * 64 + c) div 64 = ((a * 64 + b) * 64 + c) div 64" by (simp add: algebra_simps)
  also have "\<dots> = a * 64 + b" using assms by (simp only: div_mult_self3 div_less)
  finally have "(a * 4096 + b * 64 + c) div 64 = a * 64 + b" .
  then show "(a * 4096 + b * 64 + c) div 64 mod 64 = b" using assms by simp
  have "(a * 4096 + b * 64 + c) mod 64 = ((a * 64 + b) * 64 + c) mod 64" by (simp add: algebra_simps)
  also have "\<dots> = c" using assms by (simp only: mod_mult_self3 mod_less)
  finally show "(a * 4096 + b * 64 + c) mod 64 = c" .
qed

lemma base64_digits_3:
  assumes "b < 64" and "c < 64" and "d < 64"
  shows "(a * 262144 + b * 4096 + c * 64 + d) div 262144 = a"
    "(a * 262144 + b * 4096 + c * 64 + d) div 4096 mod 64 = b"
    "(a * 262144 + b * 4096 + c * 64 + d) div 64 mod 64 = c"
    "(a * 262144 + b * 4096 + c * 64 + d) mod 64 = (d::nat)"
proof -
  have eq: "a * 262144 + b * 4096 + c * 64 + d = (a * 64 + b) * 4096 + c * 64 + d" by simp
  have "b * 4096 + c * 64 + d < 262144" using assms by linarith
  then show "(a * 262144 + b * 4096 + c * 64 + d) div 262144 = a"
    by (simp add: add.assoc)
  show "(a * 262144 + b * 4096 + c * 64 + d) div 4096 mod 64 = b"
    unfolding eq base64_digits_2(1) [OF assms(2,3)] using assms by simp
  show "(a * 262144 + b * 4096 + c * 64 + d) div 64 mod 64 = c"
    unfolding eq by (rule base64_digits_2(2) [OF assms(2,3)])
  show "(a * 262144 + b * 4096 + c * 64 + d) mod 64 = d"
    unfolding eq by (rule base64_digits_2(3) [OF assms(2,3)])
qed

lemma take_encode_rune:
  assumes "scalar r"
  shows "take_rune (encode_rune r @ rest) = Some (r, rest)"
proof -
  consider "r < 0x80" | "0x80 \<le> r" "r < 0x800" | "0x800 \<le> r" "r < 0x10000" | "0x10000 \<le> r"
    by linarith
  then show ?thesis
  proof cases
    case 1
    then show ?thesis by (simp add: encode_rune_def)
  next
    case 2
    then have "0xC2 \<le> 0xC0 + r div 64" "0xC0 + r div 64 \<le> 0xDF" by simp_all
    with 2 show ?thesis by (simp add: encode_rune_def cont_def)
  next
    case 3
    define a where "a = r div 4096"
    define b where "b = r div 64 mod 64"
    define c where "c = r mod 64"
    have lt: "b < 64" "c < 64" by (simp_all add: b_def c_def)
    have r: "r = a * 4096 + b * 64 + c"
      using base64_2 [of r] by (simp add: a_def b_def c_def)
    have rng: "a \<le> 15" "a = 0 \<Longrightarrow> 32 \<le> b" "a = 13 \<Longrightarrow> b < 32"
      using 3 assms lt unfolding r scalar_def by linarith+
    have enc: "encode_rune r = [0xE0 + a, 0x80 + b, 0x80 + c]"
      using 3 by (simp add: encode_rune_def a_def b_def c_def)
    show ?thesis
      unfolding enc using rng lt by (auto simp: cont_def r)
  next
    case 4
    define a where "a = r div 262144"
    define b where "b = r div 4096 mod 64"
    define c where "c = r div 64 mod 64"
    define d where "d = r mod 64"
    have lt: "b < 64" "c < 64" "d < 64" by (simp_all add: b_def c_def d_def)
    have r: "r = a * 262144 + b * 4096 + c * 64 + d"
      using base64_3 [of r] by (simp add: a_def b_def c_def d_def)
    have rng: "a \<le> 4" "a = 0 \<Longrightarrow> 16 \<le> b" "a = 4 \<Longrightarrow> b < 16"
      using 4 assms lt unfolding r scalar_def by linarith+
    have enc: "encode_rune r = [0xF0 + a, 0x80 + b, 0x80 + c, 0x80 + d]"
      using 4 by (simp add: encode_rune_def a_def b_def c_def d_def)
    show ?thesis
      unfolding enc using rng lt by (auto simp: cont_def r)
  qed
qed

lemma take_rune_encode:
  assumes "take_rune bs = Some (r, rest)"
  shows "bs = encode_rune r @ rest \<and> scalar r"
proof (cases bs)
  case Nil
  with assms show ?thesis by simp
next
  case (Cons a cs)
  show ?thesis
  proof (cases "a < 0x80")
    case True
    with assms Cons show ?thesis by (auto simp: encode_rune_def scalar_def)
  next
    case False
    show ?thesis
    proof (cases "a \<le> 0xDF")
      case True
      with assms Cons False obtain b where b: "cs = b # rest" "cont b" "0xC2 \<le> a"
        and r: "r = (a - 0xC0) * 64 + (b - 0x80)"
        by (auto split: if_splits list.splits)
      from b obtain a' b' where "a = 0xC0 + a'" "b = 0x80 + b'" "b' < 64" "2 \<le> a'" "a' < 32"
        using True by (auto simp: cont_def le_iff_add)
      with r b Cons show ?thesis by (auto simp: encode_rune_def scalar_def)
    next
      case nle: False
      show ?thesis
      proof (cases "a \<le> 0xEF")
        case True
        with assms Cons nle obtain b c where b: "cs = b # c # rest" "cont b" "cont c"
            "a = 0xE0 \<longrightarrow> 0xA0 \<le> b" "a = 0xED \<longrightarrow> b \<le> 0x9F"
          and r: "r = (a - 0xE0) * 4096 + (b - 0x80) * 64 + (c - 0x80)"
          by (auto split: if_splits list.splits)
        define a' where "a' = a - 0xE0"
        define b' where "b' = b - 0x80"
        define c' where "c' = c - 0x80"
        have e: "a = 0xE0 + a'" "b = 0x80 + b'" "c = 0x80 + c'" "a' < 16" "b' < 64" "c' < 64"
          using True nle b by (auto simp: a'_def b'_def c'_def cont_def)
        have r': "r = a' * 4096 + b' * 64 + c'" by (simp add: r a'_def b'_def c'_def)
        have d: "r div 4096 = a'" "r div 64 mod 64 = b'" "r mod 64 = c'"
          unfolding r' using e(5,6) by (simp_all add: base64_digits_2)
        have sec: "a' = 0 \<longrightarrow> 32 \<le> b'" "a' = 13 \<longrightarrow> b' < 32" using b e by auto
        from sec e r' have rng: "0x800 \<le> r" "r < 0x10000" by (cases "a' = 0"; linarith)+
        have "r < 0xD800 \<or> 0xE000 \<le> r"
        proof (cases "a' = 13")
          case True
          with sec(2) e r' show ?thesis by simp
        next
          case False
          with e r' show ?thesis by linarith
        qed
        with rng have "scalar r" by (auto simp: scalar_def)
        with rng d e b Cons show ?thesis by (auto simp: encode_rune_def)
      next
        case False
        with assms Cons nle obtain b c d where b: "cs = b # c # d # rest" "cont b" "cont c" "cont d"
            "a = 0xF0 \<longrightarrow> 0x90 \<le> b" "a = 0xF4 \<longrightarrow> b \<le> 0x8F" "a \<le> 0xF4"
          and r: "r = (a - 0xF0) * 262144 + (b - 0x80) * 4096 + (c - 0x80) * 64 + (d - 0x80)"
          by (auto split: if_splits list.splits)
        define a' where "a' = a - 0xF0"
        define b' where "b' = b - 0x80"
        define c' where "c' = c - 0x80"
        define d' where "d' = d - 0x80"
        have e: "a = 0xF0 + a'" "b = 0x80 + b'" "c = 0x80 + c'" "d = 0x80 + d'"
          "a' \<le> 4" "b' < 64" "c' < 64" "d' < 64"
          using False b by (auto simp: a'_def b'_def c'_def d'_def cont_def)
        have r': "r = a' * 262144 + b' * 4096 + c' * 64 + d'"
          by (simp add: r a'_def b'_def c'_def d'_def)
        have q: "r div 262144 = a'" "r div 4096 mod 64 = b'" "r div 64 mod 64 = c'" "r mod 64 = d'"
          unfolding r' using e(6-8) by (simp_all add: base64_digits_3)
        have "a' = 0 \<longrightarrow> 16 \<le> b'" "a' = 4 \<longrightarrow> b' < 16" using b e by auto
        with e r' have rng: "0x10000 \<le> r" "scalar r" by (auto simp: scalar_def)
        with q e b Cons show ?thesis by (auto simp: encode_rune_def)
      qed
    qed
  qed
qed

lemma take_rune_iff: "take_rune bs = Some (r, rest) \<longleftrightarrow> scalar r \<and> bs = encode_rune r @ rest"
  using take_rune_encode take_encode_rune by metis

lemma valid_utf8_encode_append:
  assumes "scalar r"
  shows "valid_utf8 (encode_rune r @ bs) = valid_utf8 bs" "runes (encode_rune r @ bs) = r # runes bs"
proof -
  obtain b cs where eq: "encode_rune r @ bs = b # cs"
    by (metis append_is_Nil_conv encode_rune_nonempty list.exhaust)
  have t: "take_rune (b # cs) = Some (r, bs)"
    using take_encode_rune [OF assms, of bs] by (simp only: eq)
  show "valid_utf8 (encode_rune r @ bs) = valid_utf8 bs" "runes (encode_rune r @ bs) = r # runes bs"
    unfolding eq by (simp_all add: t del: take_rune.simps)
qed

text \<open>Well-formed UTF-8 is exactly the image of the scalar sequences, and \<^const>\<open>runes\<close> inverts it.\<close>

lemma valid_utf8_runes:
  "valid_utf8 bs \<Longrightarrow> concat (map encode_rune (runes bs)) = bs \<and> (\<forall>r \<in> set (runes bs). scalar r)"
proof (induction bs rule: valid_utf8.induct)
  case 1
  show ?case by simp
next
  case (2 b bs)
  then obtain r rest where t: "take_rune (b # bs) = Some (r, rest)" "valid_utf8 rest"
    by (auto simp del: take_rune.simps split: option.splits)
  with "2.IH" [of "(r, rest)" r rest] take_rune_encode [OF t(1)] show ?case
    by (simp del: take_rune.simps runes.simps add: valid_utf8_encode_append)
qed

lemma valid_utf8_encode: "\<forall>r \<in> set rs. scalar r \<Longrightarrow> valid_utf8 (concat (map encode_rune rs))"
  by (induction rs) (auto simp: valid_utf8_encode_append)

lemma runes_encode: "\<forall>r \<in> set rs. scalar r \<Longrightarrow> runes (concat (map encode_rune rs)) = rs"
  by (induction rs) (auto simp: valid_utf8_encode_append)

lemma runes_inj: "valid_utf8 a \<Longrightarrow> valid_utf8 b \<Longrightarrow> runes a = runes b \<Longrightarrow> a = b"
  by (metis valid_utf8_runes)

text \<open>Text in ASCII is well formed.\<close>

definition ascii :: "string \<Rightarrow> bool" where
  "ascii s \<longleftrightarrow> (\<forall>c \<in> set s. (of_char c :: nat) < 128)"

lemma valid_utf8_ascii: "\<forall>b \<in> set bs. b < 128 \<Longrightarrow> valid_utf8 bs"
  by (induction bs) simp_all

lemma ascii_valid: "ascii s \<Longrightarrow> valid_utf8 (bytes s)"
  by (rule valid_utf8_ascii) (simp add: ascii_def bytes_def)

section \<open>writeString\<close>

datatype cerr = ErrNotFinite | ErrIntegerTooLarge | ErrLoneSurrogate | ErrDuplicateKey
  | ErrInvalidUTF8 | ErrUnsupportedType | ErrSyntax

text \<open>\<open>hexDigits\<close> indexed: lowercase.\<close>

definition hex_digit :: "nat \<Rightarrow> nat" where
  "hex_digit n = (if n < 10 then 48 + n else 87 + n)"

text \<open>The escape of one rune; 34 is the quote, 92 the backslash, 117 the letter u.\<close>

definition write_rune :: "nat \<Rightarrow> nat list" where
  "write_rune r =
     (if r = 34 then [92, 34]
      else if r = 92 then [92, 92]
      else if r = 8 then [92, 98]
      else if r = 9 then [92, 116]
      else if r = 10 then [92, 110]
      else if r = 12 then [92, 102]
      else if r = 13 then [92, 114]
      else if r < 0x20 then [92, 117, 48, 48, hex_digit (r div 16), hex_digit (r mod 16)]
      else encode_rune r)"

definition write_runes :: "nat list \<Rightarrow> nat list" where
  "write_runes rs = 34 # concat (map write_rune rs) @ [34]"

definition write_string :: "string \<Rightarrow> cerr + string" where
  "write_string s =
     (if \<not> valid_utf8 (bytes s) then Inl ErrInvalidUTF8
      else Inr (of_bytes (write_runes (runes (bytes s)))))"

section \<open>Reading a JSON string literal\<close>

text \<open>
  What \<open>encoding/json\<close> decodes a string literal to: \<open>read_body\<close> starts after the opening quote and
  returns the decoded runes, whether a lone surrogate escape was replaced by U+FFFD on the way,
  and the bytes after the closing quote.
\<close>

definition hex_val :: "nat \<Rightarrow> nat option" where
  "hex_val b =
     (if 48 \<le> b \<and> b \<le> 57 then Some (b - 48)
      else if 97 \<le> b \<and> b \<le> 102 then Some (b - 87)
      else if 65 \<le> b \<and> b \<le> 70 then Some (b - 55)
      else None)"

fun hex4 :: "nat list \<Rightarrow> nat option" where
  "hex4 (a # b # c # d # r) =
     (case (hex_val a, hex_val b, hex_val c, hex_val d) of
        (Some w, Some x, Some y, Some z) \<Rightarrow> Some (((w * 16 + x) * 16 + y) * 16 + z)
      | _ \<Rightarrow> None)"
| "hex4 _ = None"

definition short_escape :: "nat \<Rightarrow> nat option" where
  "short_escape c =
     map_of [(34, 34), (92, 92), (47, 47), (98, 8), (102, 12), (110, 10), (114, 13), (116, 9)] c"

definition trail_escape :: "nat list \<Rightarrow> nat option" where
  "trail_escape bs =
     (case bs of
        x # y # r \<Rightarrow>
          if x = 92 \<and> y = 117 then
            (case hex4 r of Some lo \<Rightarrow> if 0xDC00 \<le> lo \<and> lo \<le> 0xDFFF then Some lo else None
                          | None \<Rightarrow> None)
          else None
      | _ \<Rightarrow> None)"

definition emit_rune :: "nat \<Rightarrow> bool \<Rightarrow> (nat list \<times> bool \<times> nat list) option \<Rightarrow> (nat list \<times> bool \<times> nat list) option" where
  "emit_rune r lone k = map_option (\<lambda>(rs, l, rest). (r # rs, lone \<or> l, rest)) k"

function read_body :: "nat list \<Rightarrow> (nat list \<times> bool \<times> nat list) option" where
  "read_body [] = None"
| "read_body (a # bs) =
     (if a = 34 then Some ([], False, bs)
      else if a = 92 then
        (case bs of
           [] \<Rightarrow> None
         | c # cs \<Rightarrow>
             if c = 117 then
               (case hex4 cs of
                  None \<Rightarrow> None
                | Some u \<Rightarrow>
                    if 0xD800 \<le> u \<and> u \<le> 0xDFFF then
                      (case trail_escape (drop 4 cs) of
                         Some lo \<Rightarrow>
                           if u \<le> 0xDBFF
                           then emit_rune (0x10000 + (u - 0xD800) * 1024 + (lo - 0xDC00)) False (read_body (drop 10 cs))
                           else emit_rune 0xFFFD True (read_body (drop 4 cs))
                       | None \<Rightarrow> emit_rune 0xFFFD True (read_body (drop 4 cs)))
                    else emit_rune u False (read_body (drop 4 cs)))
             else (case short_escape c of
                     None \<Rightarrow> None
                   | Some r \<Rightarrow> emit_rune r False (read_body cs)))
      else if a < 0x20 then None
      else (case take_rune (a # bs) of
              Some (r, rest) \<Rightarrow> emit_rune r False (read_body rest)
            | None \<Rightarrow> emit_rune 0xFFFD False (read_body bs)))"
  by pat_completeness auto
termination
  by (relation "measure length") (auto dest: take_rune_shorter simp del: take_rune.simps)

declare read_body.simps [simp del]

lemma hex_val_digit: "n < 16 \<Longrightarrow> hex_val (hex_digit n) = Some n"
  by (auto simp: hex_val_def hex_digit_def)

lemma read_body_step:
  assumes "scalar r"
  shows "read_body (write_rune r @ bs) = emit_rune r False (read_body bs)"
proof -
  consider "r = 34" | "r = 92" | "r = 8" | "r = 9" | "r = 10" | "r = 12" | "r = 13"
    | "r < 0x20" "r \<notin> {8, 9, 10, 12, 13}" | "0x20 \<le> r" "r \<noteq> 34" "r \<noteq> 92"
    by force
  then show ?thesis
  proof cases
    case 8
    have "hex_val 48 = Some 0" by (simp add: hex_val_def)
    moreover have "r div 16 < 16" using 8 by simp
    moreover have "r div 16 * 16 + r mod 16 = r" by simp
    ultimately have "hex4 (48 # 48 # hex_digit (r div 16) # hex_digit (r mod 16) # bs) = Some r"
      by (simp add: hex_val_digit)
    with 8 show ?thesis by (simp add: write_rune_def read_body.simps)
  next
    case 9
    obtain a cs where eq: "encode_rune r @ bs = a # cs"
      by (metis append_is_Nil_conv encode_rune_nonempty list.exhaust)
    have "a = hd (encode_rune r)" using eq by (metis encode_rune_nonempty hd_append2 list.sel(1))
    then have a: "a \<noteq> 34" "a \<noteq> 92" "\<not> a < 0x20"
      using 9 by (auto simp: encode_rune_def)
    have t: "take_rune (a # cs) = Some (r, bs)"
      using take_encode_rune [OF assms, of bs] by (simp only: eq)
    have "write_rune r @ bs = a # cs" using 9 eq by (simp add: write_rune_def)
    with a t show ?thesis by (simp add: read_body.simps del: take_rune.simps)
  qed (simp_all add: write_rune_def read_body.simps short_escape_def)
qed

lemma read_body_write:
  "\<forall>r \<in> set rs. scalar r \<Longrightarrow>
   read_body (concat (map write_rune rs) @ 34 # rest) = Some (rs, False, rest)"
proof (induction rs)
  case Nil
  show ?case by (simp add: read_body.simps)
next
  case (Cons r rs)
  then show ?case by (simp add: read_body_step emit_rune_def)
qed

lemma write_rune_byte: "scalar r \<Longrightarrow> b \<in> set (write_rune r) \<Longrightarrow> b < 256"
  by (auto simp: write_rune_def hex_digit_def encode_rune_byte split: if_splits)

lemma bytes_write_string:
  assumes "write_string s = Inr out"
  shows "bytes out = write_runes (runes (bytes s))" "valid_utf8 (bytes s)"
proof -
  from assms show v: "valid_utf8 (bytes s)" by (auto simp: write_string_def split: if_splits)
  then have "\<forall>r \<in> set (runes (bytes s)). scalar r" by (simp add: valid_utf8_runes)
  then have "\<forall>b \<in> set (write_runes (runes (bytes s))). b < 256"
    using write_rune_byte by (auto simp: write_runes_def)
  with assms v show "bytes out = write_runes (runes (bytes s))"
    by (auto simp: write_string_def bytes_of_bytes)
qed

text \<open>The literal reads back as the string it was written for, whatever follows it.\<close>

lemma write_string_reads_back:
  assumes "write_string s = Inr out"
  shows "\<exists>body. bytes (out @ rest) = 34 # body \<and>
    read_body body = Some (runes (bytes s), False, bytes rest)"
proof -
  from bytes_write_string [OF assms] have "\<forall>r \<in> set (runes (bytes s)). scalar r"
    and b: "bytes out = write_runes (runes (bytes s))"
    by (simp_all add: valid_utf8_runes)
  moreover have "bytes (out @ rest) = bytes out @ bytes rest" by (simp add: bytes_def)
  ultimately show ?thesis by (simp add: write_runes_def read_body_write)
qed

lemma write_string_prefix_inj:
  assumes "write_string s = Inr a" and "write_string t = Inr b" and "a @ x = b @ y"
  shows "s = t \<and> x = y"
proof -
  from write_string_reads_back [OF assms(1), of x] write_string_reads_back [OF assms(2), of y]
  have "runes (bytes s) = runes (bytes t)" "bytes x = bytes y" using assms(3) by auto
  then show ?thesis
    using runes_inj bytes_write_string(2) [OF assms(1)] bytes_write_string(2) [OF assms(2)]
    by (metis bytes_inj)
qed

section \<open>lessUTF16\<close>

fun less_units :: "nat list \<Rightarrow> nat list \<Rightarrow> bool" where
  "less_units [] ys = (ys \<noteq> [])"
| "less_units (x # xs) [] = False"
| "less_units (x # xs) (y # ys) = (if x \<noteq> y then x < y else less_units xs ys)"

definition key_units :: "string \<Rightarrow> nat list" where
  "key_units s = utf16_encode (runes (bytes s))"

definition less_utf16 :: "string \<Rightarrow> string \<Rightarrow> bool" where
  "less_utf16 a b = less_units (key_units a) (key_units b)"

text \<open>The loop is the library's lexicographic order on code units, so the library's linear order
  facts apply to it.\<close>

lemma less_units_lex: "less_units xs ys \<longleftrightarrow> xs < ys"
proof (induction xs ys rule: less_units.induct)
  case (1 ys)
  then show ?case by (cases ys) auto
qed auto

lemma less_utf16_lex: "less_utf16 a b \<longleftrightarrow> key_units a < key_units b"
  by (simp add: less_utf16_def less_units_lex)

lemma utf16_units_append_inj:
  assumes "scalar r" and "scalar q" and "utf16_units r @ xs = utf16_units q @ ys"
  shows "r = q \<and> xs = ys"
proof (cases "r < 0x10000 \<longleftrightarrow> q < 0x10000")
  case True
  show ?thesis
  proof (cases "r < 0x10000")
    case True
    with \<open>r < 0x10000 \<longleftrightarrow> q < 0x10000\<close> assms show ?thesis by (simp add: utf16_units_def)
  next
    case False
    define a where "a = r - 0x10000"
    define b where "b = q - 0x10000"
    have "a div 1024 = b div 1024" "a mod 1024 = b mod 1024" "xs = ys"
      using False \<open>r < 0x10000 \<longleftrightarrow> q < 0x10000\<close> assms
      by (simp_all add: utf16_units_def a_def b_def)
    then have "a = b" by (metis div_mult_mod_eq)
    then show ?thesis
      using False \<open>r < 0x10000 \<longleftrightarrow> q < 0x10000\<close> \<open>xs = ys\<close> by (simp add: a_def b_def)
  qed
next
  case False
  have hi: "0xD800 \<le> 0xD800 + (n - 0x10000) div 1024 \<and> 0xD800 + (n - 0x10000) div 1024 < 0xE000"
    if "scalar n" "\<not> n < 0x10000" for n :: nat
    using that by (auto simp: scalar_def)
  have lo: "n < 0xD800 \<or> 0xE000 \<le> n" if "scalar n" for n
    using that by (auto simp: scalar_def)
  have no_clash: "n \<noteq> 0xD800 + (m - 0x10000) div 1024"
    if "scalar n" "scalar m" "\<not> m < 0x10000" for n m
    using lo [OF that(1)] hi [OF that(2,3)] by linarith
  show ?thesis
  proof (cases "r < 0x10000")
    case True
    with False assms no_clash [of r q] show ?thesis by (simp add: utf16_units_def)
  next
    case nr: False
    with False assms no_clash [of q r] show ?thesis by (simp add: utf16_units_def)
  qed
qed

lemma utf16_units_nonempty [simp]: "utf16_units r \<noteq> []"
  by (simp add: utf16_units_def)

lemma utf16_encode_simps [simp]:
  "utf16_encode [] = []" "utf16_encode (r # rs) = utf16_units r @ utf16_encode rs"
  by (simp_all add: utf16_encode_def)

lemma utf16_encode_inj:
  "\<forall>r \<in> set rs. scalar r \<Longrightarrow> \<forall>r \<in> set qs. scalar r \<Longrightarrow>
   utf16_encode rs = utf16_encode qs \<Longrightarrow> rs = qs"
proof (induction rs arbitrary: qs)
  case Nil
  then show ?case by (cases qs) auto
next
  case (Cons r rs)
  then obtain q qs' where qs: "qs = q # qs'"
    by (cases qs) auto
  with Cons.prems have "scalar r" "scalar q" "\<forall>r \<in> set rs. scalar r" "\<forall>r \<in> set qs'. scalar r"
    "utf16_units r @ utf16_encode rs = utf16_units q @ utf16_encode qs'"
    by simp_all
  with utf16_units_append_inj [of r q] Cons.IH [of qs'] qs show ?case by blast
qed

lemma key_units_inj:
  "valid_utf8 (bytes a) \<Longrightarrow> valid_utf8 (bytes b) \<Longrightarrow> key_units a = key_units b \<Longrightarrow> a = b"
  using utf16_encode_inj [of "runes (bytes a)" "runes (bytes b)"] runes_inj [of "bytes a" "bytes b"]
    valid_utf8_runes [of "bytes a"] valid_utf8_runes [of "bytes b"]
  by (simp add: key_units_def)

lemma inj_on_key_units: "(\<And>k. k \<in> K \<Longrightarrow> valid_utf8 (bytes k)) \<Longrightarrow> inj_on key_units K"
  by (meson inj_onI key_units_inj)

section \<open>checkSurrogateEscapes\<close>

text \<open>
  The Go loop indexes \<open>data\<close>; the model recurses on the suffix from \<open>i\<close>.  \<open>i + 5 >= len(data)\<close> is
  \<^term>\<open>length r < 4\<close> for the suffix \<open>92 # 117 # r\<close>, and \<open>j + 5 >= len(data)\<close> is \<^term>\<open>length r < 10\<close>.
\<close>

function check_surrogates :: "nat list \<Rightarrow> cerr + unit" where
  "check_surrogates (a # b # r) =
     (if a \<noteq> 92 then check_surrogates (b # r)
      else if b = 92 then check_surrogates r
      else if b \<noteq> 117 \<or> length r < 4 then check_surrogates (b # r)
      else (case hex4 r of
              None \<Rightarrow> check_surrogates (b # r)
            | Some hi \<Rightarrow>
                if 0xDC00 \<le> hi \<and> hi \<le> 0xDFFF then Inl ErrLoneSurrogate
                else if 0xD800 \<le> hi \<and> hi \<le> 0xDBFF then
                  (if length r < 10 \<or> r ! 4 \<noteq> 92 \<or> r ! 5 \<noteq> 117 then Inl ErrLoneSurrogate
                   else (case hex4 (drop 6 r) of
                           None \<Rightarrow> Inl ErrLoneSurrogate
                         | Some lo \<Rightarrow>
                             if lo < 0xDC00 \<or> 0xDFFF < lo then Inl ErrLoneSurrogate
                             else check_surrogates (drop 10 r)))
                else check_surrogates (b # r)))"
| "check_surrogates [a] = Inr ()"
| "check_surrogates [] = Inr ()"
  by pat_completeness auto
termination by (relation "measure length") auto

declare check_surrogates.simps [simp del]
lemmas check_surrogates_short [simp] = check_surrogates.simps(2,3)

lemma check_skip: "a \<noteq> 92 \<Longrightarrow> check_surrogates (a # r) = check_surrogates r"
  by (cases r) (simp_all add: check_surrogates.simps)

lemma check_skip_all: "92 \<notin> set xs \<Longrightarrow> check_surrogates (xs @ r) = check_surrogates r"
  by (induction xs) (auto simp: check_skip)

lemma hex4_Some:
  assumes "hex4 r = Some u"
  obtains a b c d r' where "r = a # b # c # d # r'" "92 \<notin> {a, b, c, d}" "4 \<le> length r"
proof -
  from assms obtain a b c d r' where r: "r = a # b # c # d # r'"
    by (metis hex4.elims option.distinct(1))
  have nb: "hex_val 92 = None" by (simp add: hex_val_def)
  from assms r have "92 \<notin> {a, b, c, d}" by (auto simp: nb split: option.splits)
  with r that show ?thesis by simp
qed

lemma hex4_skip: "hex4 r = Some u \<Longrightarrow> check_surrogates (117 # r) = check_surrogates (drop 4 r)"
  by (erule hex4_Some) (auto simp: check_skip)

lemma encode_rune_no_backslash: "scalar r \<Longrightarrow> r \<noteq> 92 \<Longrightarrow> 92 \<notin> set (encode_rune r)"
  by (auto simp: encode_rune_def)

text \<open>Reaching a hexadecimal escape, the scan decides as the decoder does.\<close>

lemma check_u_escape:
  assumes "hex4 cs = Some u"
  shows "check_surrogates (92 # 117 # cs) =
    (if 0xD800 \<le> u \<and> u \<le> 0xDFFF then
       (case trail_escape (drop 4 cs) of
          Some lo \<Rightarrow> if u \<le> 0xDBFF then check_surrogates (drop 10 cs) else Inl ErrLoneSurrogate
        | None \<Rightarrow> Inl ErrLoneSurrogate)
     else check_surrogates (drop 4 cs))"
proof -
  from assms obtain a b c d r where cs: "cs = a # b # c # d # r" and len: "4 \<le> length cs"
    by (erule_tac hex4_Some) auto
  have trail: "trail_escape r =
      (if length cs < 10 \<or> cs ! 4 \<noteq> 92 \<or> cs ! 5 \<noteq> 117 then None
       else (case hex4 (drop 6 cs) of
               None \<Rightarrow> None
             | Some lo \<Rightarrow> if lo < 0xDC00 \<or> 0xDFFF < lo then None else Some lo))"
  proof (cases "\<exists>x y q. r = x # y # q")
    case True
    then obtain x y q where r: "r = x # y # q" by blast
    have "hex4 q = None" if "length q < 4"
      using that by (metis hex4_Some not_le option.exhaust)
    then show ?thesis by (auto simp: cs r trail_escape_def split: option.splits)
  next
    case False
    then have "length r < 2" by (cases r; cases "tl r") auto
    with False show ?thesis by (auto simp: cs trail_escape_def split: list.splits)
  qed
  have "drop 4 cs = r" by (simp add: cs)
  with assms len hex4_skip [OF assms] show ?thesis
    by (auto simp: check_surrogates.simps(1) [of 92 117] trail split: option.splits)
qed

lemma emit_rune_Some:
  "emit_rune r l k = Some (rs, lone, rest) \<longleftrightarrow>
   (\<exists>rs' l'. k = Some (rs', l', rest) \<and> rs = r # rs' \<and> lone = (l \<or> l'))"
  by (auto simp: emit_rune_def)

text \<open>
  the lexical scan and the JSON decoder agree about every string literal: the scan refuses
  exactly the literals in which the decoder would silently substitute U+FFFD for an unpaired
  surrogate escape, and otherwise goes on with the bytes after the literal.
\<close>

theorem surrogate_scan_agrees:
  "read_body bs = Some (rs, lone, rest) \<Longrightarrow>
   check_surrogates bs = (if lone then Inl ErrLoneSurrogate else check_surrogates rest)"
proof (induction bs arbitrary: rs lone rest rule: read_body.induct)
  case 1
  then show ?case by (simp add: read_body.simps)
next
  case (2 a bs)
  consider "a = 34" | "a = 92" | "a \<noteq> 34" "a \<noteq> 92" "\<not> a < 0x20"
    using "2.prems" by (auto simp: read_body.simps split: if_splits)
  then show ?case
  proof cases
    case 1
    with "2.prems" show ?thesis by (auto simp: read_body.simps check_skip)
  next
    case a: 2
    with "2.prems" obtain c cs where bs: "bs = c # cs"
      by (cases bs) (auto simp: read_body.simps)
    show ?thesis
    proof (cases "c = 117")
      case True
      with "2.prems" a bs obtain u where u: "hex4 cs = Some u"
        by (auto simp: read_body.simps split: option.splits)
      with "2.prems" a bs True "2.IH"(1-4) [OF _ a bs True u] show ?thesis
        by (auto simp: read_body.simps check_u_escape [OF u] emit_rune_Some split: if_splits option.splits)
    next
      case False
      with "2.prems" a bs obtain r where r: "short_escape c = Some r"
        and k: "emit_rune r False (read_body cs) = Some (rs, lone, rest)"
        by (auto simp: read_body.simps split: option.splits)
      then have "check_surrogates cs = (if lone then Inl ErrLoneSurrogate else check_surrogates rest)"
        using "2.IH"(5) [OF _ a bs False r] a by (auto simp: emit_rune_Some)
      moreover have "check_surrogates (92 # c # cs) = check_surrogates cs"
        using False by (cases "c = 92") (auto simp: check_surrogates.simps(1) check_skip)
      ultimately show ?thesis by (simp add: a bs)
    qed
  next
    case plain: 3
    show ?thesis
    proof (cases "take_rune (a # bs)")
      case None
      with "2.prems" plain obtain rs' where "read_body bs = Some (rs', lone, rest)"
        by (auto simp: read_body.simps emit_rune_Some simp del: take_rune.simps)
      with "2.IH"(6) [OF plain None] plain show ?thesis by (simp add: check_skip)
    next
      case (Some p)
      obtain r q where t: "take_rune (a # bs) = Some (r, q)" using Some by (cases p) auto
      with "2.prems" plain obtain rs' where "read_body q = Some (rs', lone, rest)"
        by (auto simp: read_body.simps emit_rune_Some simp del: take_rune.simps)
      with "2.IH"(7) [OF plain t refl]
      have ih: "check_surrogates q = (if lone then Inl ErrLoneSurrogate else check_surrogates rest)"
        by blast
      from take_rune_encode [OF t] have e: "a # bs = encode_rune r @ q" "scalar r" by simp_all
      have "r \<noteq> 92" using e plain by (auto simp: encode_rune_def)
      with e show ?thesis
        by (simp add: check_skip_all [OF encode_rune_no_backslash] ih)
    qed
  qed
qed

theorem surrogate_scan_agrees_witness:
  "read_body [92, 117, 68, 56, 48, 48, 34] = Some ([0xFFFD], True, []) \<and>
   check_surrogates [92, 117, 68, 56, 48, 48, 34] = Inl ErrLoneSurrogate"
proof -
  have h: "read_body [92, 117, 68, 56, 48, 48, 34] = Some ([0xFFFD], True, [])"
    by (simp add: read_body.simps hex_val_def trail_escape_def emit_rune_def)
  show ?thesis using h surrogate_scan_agrees [OF h] by simp
qed

end
