(* ===== verification/Numbers.thy ===== *)
theory Numbers
  imports Utf
begin

text \<open>
  \<^verbatim>\<open>internal/canonical/number.go\<close>: ECMAScript number formatting over IEEE-754 doubles.  A finite
  double is its sign, mantissa and binary exponent; the two services of the standard library
  the file relies on, rounding a rational to the nearest double (\<open>big.Float.Float64\<close>,
  \<open>strconv.ParseFloat\<close>) and the shortest decimal that rounds back to a double
  (\<open>strconv.AppendFloat(f, 'e', -1, 64)\<close>), are computed exactly on integers.
\<close>

section \<open>Doubles\<close>

text \<open>\<open>Fin neg m e\<close> is \<open>(-1)^neg * m * 2^e\<close>.\<close>

datatype f64 = NaN | Inf bool | Fin bool nat int

fun wf_f64 :: "f64 \<Rightarrow> bool" where
  "wf_f64 (Fin neg m e) \<longleftrightarrow>
     (m = 0 \<and> e = 0) \<or> (0 < m \<and> m < 2 ^ 52 \<and> e = - 1074) \<or>
     (2 ^ 52 \<le> m \<and> m < 2 ^ 53 \<and> - 1074 \<le> e \<and> e \<le> 971)"
| "wf_f64 _ \<longleftrightarrow> True"

fun flog2 :: "nat \<Rightarrow> nat" where
  "flog2 n = (if n < 2 then 0 else Suc (flog2 (n div 2)))"

declare flog2.simps [simp del]

text \<open>The exponent \<open>p\<close> with \<open>2^p \<le> num/den < 2^(p+1)\<close>.\<close>

definition ratio_log2 :: "nat \<Rightarrow> nat \<Rightarrow> int" where
  "ratio_log2 num den =
     (if den \<le> num then int (flog2 (num div den))
      else (let d = flog2 den - flog2 num in
            if den \<le> num * 2 ^ d then - int d else - int d - 1))"

text \<open>Round to nearest, ties to even; the flag is \<open>big.Exact\<close>.\<close>

definition round_ratio :: "bool \<Rightarrow> nat \<Rightarrow> nat \<Rightarrow> f64 \<times> bool" where
  "round_ratio neg num den =
     (if num = 0 then (Fin neg 0 0, True)
      else
        let e = max (ratio_log2 num den - 52) (- 1074);
            a = (if 0 \<le> e then num else num * 2 ^ nat (- e));
            b = (if 0 \<le> e then den * 2 ^ nat e else den);
            q = a div b; r = a mod b;
            q' = (if b < 2 * r \<or> (2 * r = b \<and> odd q) then Suc q else q)
        in (let (m, e') = (if q' = 2 ^ 53 then (2 ^ 52, e + 1) else (q', e))
            in if 971 < e' then (Inf neg, False)
               else (if m = 0 then Fin neg 0 0 else Fin neg m e', r = 0)))"

definition float64_of_int :: "int \<Rightarrow> f64" where
  "float64_of_int i = fst (round_ratio (i < 0) (nat \<bar>i\<bar>) 1)"

text \<open>\<open>exactFloat64\<close>: the nearest double and whether nothing was lost.\<close>

definition exactFloat64 :: "int \<Rightarrow> f64 \<times> bool" where
  "exactFloat64 i = round_ratio (i < 0) (nat \<bar>i\<bar>) 1"

section \<open>The shortest decimal\<close>

text \<open>
  In units of \<open>2^(e-2)\<close> the double \<open>m * 2^e\<close> is \<open>4 m\<close>, the half-way point above it \<open>4 m + 2\<close>
  and the one below \<open>4 m - 2\<close>, or \<open>4 m - 1\<close> at a power of two, where the spacing below is
  halved.  Half-way points round to the even mantissa, so they belong to an even \<open>m\<close>.
\<close>

definition in_interval :: "nat \<Rightarrow> int \<Rightarrow> nat \<Rightarrow> nat \<Rightarrow> bool" where
  "in_interval m e x den =
     (let lo = (if m = 2 ^ 52 \<and> - 1074 < e then 4 * m - 1 else 4 * m - 2) * den;
          hi = (4 * m + 2) * den
      in if even m then lo \<le> x \<and> x \<le> hi else lo < x \<and> x < hi)"

definition ratio_log10 :: "nat \<Rightarrow> nat \<Rightarrow> int" where
  "ratio_log10 num den =
     (if den \<le> num then int (length (show_nat (num div den))) - 1
      else (case find (\<lambda>j. den \<le> num * 10 ^ j) [1..<400] of
              Some j \<Rightarrow> - int j | None \<Rightarrow> - 400))"

text \<open>
  \<open>decimal_at m e p k\<close> looks for a \<open>k\<close>-digit decimal \<open>c * 10^(p+1-k)\<close> inside the rounding interval
  of \<open>m * 2^e\<close>, the nearer of the two that bracket it.  Everything is scaled to integers:
  \<open>u/w\<close> is \<open>2^(e-2)\<close> and \<open>s/t\<close> is \<open>10^(p+1-k)\<close>, so \<open>c s/t\<close> in units of \<open>u/w\<close> is
  \<open>c s w / (t u)\<close>.
\<close>

definition decimal_at :: "nat \<Rightarrow> int \<Rightarrow> int \<Rightarrow> nat \<Rightarrow> nat option" where
  "decimal_at m e p k =
     (let u = 2 ^ nat (e - 2); w = 2 ^ nat (2 - e);
          g = p + 1 - int k; s = 10 ^ nat g; t = 10 ^ nat (- g);
          num = 4 * m * u * t; den = s * w;
          c = num div den;
          down = in_interval m e (c * den) (t * u);
          up = in_interval m e (Suc c * den) (t * u);
          r = num mod den
      in if down \<and> up then
           Some (if 2 * r < den \<or> (2 * r = den \<and> even c) then c else Suc c)
         else if down then Some c else if up then Some (Suc c) else None)"

fun strip_zeros :: "nat \<Rightarrow> nat" where
  "strip_zeros n = (if n \<noteq> 0 \<and> n mod 10 = 0 then strip_zeros (n div 10) else n)"

declare strip_zeros.simps [simp del]

text \<open>
  Digits (no trailing zero) and decimal exponent of the leading digit; seventeen digits always
  suffice for a double (\<open>shortest_total\<close> in FloatText), so the search runs over one to seventeen and
  its \<open>None\<close> is never reached from a finite double.
\<close>

definition shortest :: "nat \<Rightarrow> int \<Rightarrow> (string \<times> int) option" where
  "shortest m e =
     (let p = ratio_log10 (m * 2 ^ nat e) (2 ^ nat (- e))
      in (case find (\<lambda>k. decimal_at m e p k \<noteq> None) [1..<18] of
            None \<Rightarrow> None
          | Some k \<Rightarrow>
              let c = the (decimal_at m e p k)
              in Some (show_nat (strip_zeros c),
                       p + 1 - int k + int (length (show_nat c)) - 1)))"

section \<open>formatNumber\<close>

text \<open>The switch on \<open>k\<close> and \<open>n\<close>: \<open>digits\<close> has \<open>k\<close> digits and the value is \<open>digits * 10^(n-k)\<close>.\<close>

definition es6_layout :: "string \<Rightarrow> int \<Rightarrow> string" where
  "es6_layout digits n =
     (let k = int (length digits) in
      if k \<le> n \<and> n \<le> 21 then digits @ replicate (nat (n - k)) (CHR ''0'')
      else if 0 < n \<and> n \<le> 21 then take (nat n) digits @ ''.'' @ drop (nat n) digits
      else if - 6 < n \<and> n \<le> 0 then ''0.'' @ replicate (nat (- n)) (CHR ''0'') @ digits
      else (if k = 1 then digits else take 1 digits @ ''.'' @ drop 1 digits) @ ''e'' @
           (if 0 \<le> n - 1 then ''+'' else ''-'') @ show_nat (nat \<bar>n - 1\<bar>))"

fun formatNumber :: "f64 \<Rightarrow> cerr + string" where
  "formatNumber NaN = Inl ErrNotFinite"
| "formatNumber (Inf neg) = Inl ErrNotFinite"
| "formatNumber (Fin neg m e) =
     (if m = 0 then Inr ''0''
      else (case shortest m e of
              None \<Rightarrow> Inl ErrNotFinite
            | Some (digits, exp10) \<Rightarrow>
                Inr ((if neg then ''-'' else []) @ es6_layout digits (exp10 + 1))))"

section \<open>Integers\<close>

definition formatBigInt :: "int \<Rightarrow> cerr + string" where
  "formatBigInt i =
     (let (f, exact) = exactFloat64 i in
      if exact then formatNumber f
      else (case formatNumber f of
              Inl e \<Rightarrow> Inl ErrIntegerTooLarge
            | Inr out \<Rightarrow> if out \<noteq> show_int i then Inl ErrIntegerTooLarge else Inr out))"

definition smallEnoughForExactInt :: int where
  "smallEnoughForExactInt = 2 ^ 53"

definition formatInt :: "int \<Rightarrow> cerr + string" where
  "formatInt i =
     (if i \<le> smallEnoughForExactInt \<and> - smallEnoughForExactInt \<le> i
      then formatNumber (float64_of_int i) else formatBigInt i)"

definition formatUint :: "int \<Rightarrow> cerr + string" where
  "formatUint u =
     (if u \<le> smallEnoughForExactInt then formatNumber (float64_of_int u) else formatBigInt u)"

text \<open>\<open>(*big.Int).SetString(lit, 10)\<close>: an optional sign and at least one digit.\<close>

definition read_digits :: "string \<Rightarrow> nat option" where
  "read_digits s = (if s \<noteq> [] \<and> list_all is_digit s then Some (read_nat s) else None)"

definition split_sign :: "string \<Rightarrow> bool \<times> string" where
  "split_sign s = (case s of [] \<Rightarrow> (False, [])
     | c # r \<Rightarrow> if c = CHR ''-'' then (True, r) else if c = CHR ''+'' then (False, r) else (False, s))"

definition read_int :: "string \<Rightarrow> int option" where
  "read_int s = (case split_sign s of (neg, ds) \<Rightarrow>
     map_option (\<lambda>n. if neg then - int n else int n) (read_digits ds))"

definition formatIntLiteral :: "string \<Rightarrow> cerr + string" where
  "formatIntLiteral lit =
     (case read_int lit of None \<Rightarrow> Inl ErrNotFinite | Some i \<Rightarrow> formatBigInt i)"

text \<open>
  \<open>strconv.ParseFloat\<close> on decimal syntax: the digits before and after the point as one integer,
  and the power of ten it is scaled by.
\<close>

definition read_decimal :: "string \<Rightarrow> (bool \<times> nat \<times> int) option" where
  "read_decimal s =
     (let (neg, r) = split_sign s;
          mant = takeWhile (\<lambda>c. c \<noteq> CHR ''e'' \<and> c \<noteq> CHR ''E'') r;
          ex = drop (length mant) r;
          ip = takeWhile (\<lambda>c. c \<noteq> CHR ''.'') mant;
          fp = drop (Suc (length ip)) mant
      in (case (read_digits (ip @ fp), if ex = [] then Some 0 else read_int (tl ex)) of
            (Some d, Some x) \<Rightarrow> Some (neg, d, x - int (length fp))
          | _ \<Rightarrow> None))"

definition parseFloat :: "string \<Rightarrow> f64 option" where
  "parseFloat s =
     (case read_decimal s of
        None \<Rightarrow> None
      | Some (neg, d, x) \<Rightarrow>
          (case fst (round_ratio neg (d * 10 ^ nat x) (10 ^ nat (- x))) of
             Inf _ \<Rightarrow> None | f \<Rightarrow> Some f))"

definition formatJSONNumber :: "string \<Rightarrow> cerr + string" where
  "formatJSONNumber s =
     (if \<not> contains_any s ''.eE'' then formatIntLiteral s
      else (case parseFloat s of None \<Rightarrow> Inl ErrNotFinite | Some f \<Rightarrow> formatNumber f))"

section \<open>Integers in the exact range print their own digits\<close>

lemma strip_zeros_id: "n mod 10 \<noteq> 0 \<Longrightarrow> strip_zeros n = n"
  by (simp add: strip_zeros.simps [of n])

lemma flog2_bounds: "0 < n \<Longrightarrow> 2 ^ flog2 n \<le> n \<and> n < 2 ^ Suc (flog2 n)"
proof (induction n rule: flog2.induct)
  case (1 n)
  show ?case
  proof (cases "n < 2")
    case True
    with "1.prems" show ?thesis by (simp add: flog2.simps)
  next
    case False
    then have ih: "2 ^ flog2 (n div 2) \<le> n div 2" "n div 2 < 2 ^ Suc (flog2 (n div 2))"
      using 1 by simp_all
    have "flog2 n = Suc (flog2 (n div 2))" using False by (simp add: flog2.simps [of n])
    moreover have "2 * 2 ^ flog2 (n div 2) \<le> n" "n < 2 * 2 ^ Suc (flog2 (n div 2))"
      using ih by linarith+
    ultimately show ?thesis by simp
  qed
qed

lemma round_exact_int:
  assumes "0 < n" and "n < 2 ^ 53"
  shows "round_ratio neg n 1 = (Fin neg (n * 2 ^ (52 - flog2 n)) (int (flog2 n) - 52), True)"
    and "flog2 n \<le> 52"
proof -
  have L: "2 ^ flog2 n \<le> n" "n < 2 ^ Suc (flog2 n)" using flog2_bounds [OF assms(1)] by simp_all
  from L(1) assms(2) have "(2::nat) ^ flog2 n < 2 ^ 53" by (rule order.strict_trans1)
  then show le: "flog2 n \<le> 52"
    using power_less_imp_less_exp [of "2::nat" "flog2 n" 53] by simp
  let ?d = "52 - flog2 n"
  have e: "max (ratio_log2 n 1 - 52) (- 1074) = int (flog2 n) - 52"
    using assms(1) le by (simp add: ratio_log2_def)
  have neg_e: "nat (- (int (flog2 n) - 52)) = ?d" using le by simp
  have q: "(if 0 \<le> int (flog2 n) - 52 then n else n * 2 ^ ?d) = n * 2 ^ ?d"
    using le by auto
  have b: "(if 0 \<le> int (flog2 n) - 52 then 1 * 2 ^ nat (int (flog2 n) - 52) else 1) = (1::nat)"
    using le by auto
  have "n * 2 ^ ?d < 2 ^ Suc (flog2 n) * 2 ^ ?d" using L by simp
  also have "\<dots> = 2 ^ 53" using le by (simp flip: power_add)
  finally have lt: "n * 2 ^ ?d \<noteq> 2 ^ 53" by simp
  show "round_ratio neg n 1 = (Fin neg (n * 2 ^ ?d) (int (flog2 n) - 52), True)"
    using assms(1) le lt unfolding round_ratio_def e neg_e q b Let_def by simp
qed


text \<open>Below 2^53 the rounding interval of an integer holds no other integer.\<close>

lemma decimal_at_int:
  assumes n: "0 < n" and m: "m = n * 2 ^ j" and e: "e = - int j"
    and k: "k \<le> D"
  shows "decimal_at m e (int D - 1) k =
    (if n mod 10 ^ (D - k) = 0 then Some (n div 10 ^ (D - k)) else None)"
proof -
  define G :: nat where "G = 10 ^ (D - k)"
  define W :: nat where "W = 2 ^ (j + 2)"
  have G: "0 < G" and W: "4 \<le> W" by (simp_all add: G_def W_def)
  have g: "nat (int D - 1 + 1 - int k) = D - k" "nat (- (int D - 1 + 1 - int k)) = 0"
    "nat (e - 2) = 0" "nat (2 - e) = j + 2" using k e by simp_all
  have num: "4 * m * 2 ^ 0 * 10 ^ 0 = n * W" by (simp add: m W_def)
  have c: "n * W div (G * W) = n div G" and r: "n * W mod (G * W) = n mod G * W"
    using W by (simp_all add: mult_mod_left)
  have mW: "4 * m = n * W" by (simp add: m W_def)
  have mpos: "0 < 4 * m" using n by (simp add: m)
  have hi: "n * W + 4 \<le> Suc (n div G) * (G * W)"
  proof -
    have "n < Suc (n div G) * G" using G by (metis dividend_less_div_times mult_Suc)
    then have "Suc n * W \<le> Suc (n div G) * G * W" by (intro mult_right_mono) simp_all
    with W show ?thesis by (simp add: algebra_simps)
  qed
  have up: "\<not> in_interval m e (Suc (n div G) * (G * W)) (10 ^ 0 * 2 ^ 0)"
    using hi by (simp add: in_interval_def Let_def mW del: mult_Suc)
  have down: "in_interval m e (n div G * (G * W)) (10 ^ 0 * 2 ^ 0) \<longleftrightarrow> n mod G = 0"
  proof (cases "n mod G = 0")
    case True
    then have "n div G * (G * W) = 4 * m" using mW by (metis add.right_neutral div_mult_mod_eq mult.assoc)
    with True mpos show ?thesis by (auto simp: in_interval_def Let_def)
  next
    case False
    have "n div G * G < n" using False by (metis div_mult_mod_eq less_add_same_cancel1 neq0_conv)
    then have "Suc (n div G * G) * W \<le> n * W" by (intro mult_right_mono) simp_all
    then have "n div G * (G * W) + 4 \<le> 4 * m" using W mW by (simp add: mult.assoc)
    with False show ?thesis by (auto simp: in_interval_def Let_def)
  qed
  show ?thesis
    unfolding decimal_at_def Let_def g num G_def [symmetric] W_def [symmetric] c
    using up down by simp
qed

lemma find_upt_least:
  "find P [a..<b] = Some k \<longleftrightarrow> a \<le> k \<and> k < b \<and> P k \<and> (\<forall>i. a \<le> i \<and> i < k \<longrightarrow> \<not> P i)"
proof -
  have "find P [a..<b] = Some k \<longleftrightarrow>
      (\<exists>i<b - a. P (a + i) \<and> k = a + i \<and> (\<forall>j<i. \<not> P (a + j)))"
    by (auto simp: find_Some_iff)
  also have "\<dots> \<longleftrightarrow> a \<le> k \<and> k < b \<and> P k \<and> (\<forall>i. a \<le> i \<and> i < k \<longrightarrow> \<not> P i)"
    by (auto simp: le_iff_add intro!: exI [of _ "k - a"])
  finally show ?thesis .
qed


lemma shortest_int:
  assumes n: "0 < n" "n < 2 ^ 53" and m: "m = n * 2 ^ j" and e: "e = - int j"
  shows "\<exists>c i. shortest m e = Some (show_nat c, int (length (show_nat n)) - 1) \<and>
    n = c * 10 ^ i \<and> 0 < c"
proof -
  define D where "D = length (show_nat n)"
  have D: "0 < D" "10 ^ (D - 1) \<le> n" "n < 10 ^ D"
    using show_nat_bounds [OF n(1)] by (simp_all add: D_def)
  have "D \<le> 16"
  proof (rule ccontr)
    assume "\<not> D \<le> 16"
    then have "(10::nat) ^ 16 \<le> 10 ^ (D - 1)" by (intro power_increasing) simp_all
    with D n(2) show False by simp
  qed
  have "m div 2 ^ j = n" by (simp add: m)
  have p: "ratio_log10 (m * 2 ^ nat e) (2 ^ nat (- e)) = int D - 1"
    using n(1) by (simp add: ratio_log10_def e m D_def)
  note at = decimal_at_int [OF n(1) m e, of _ D]
  define k where "k = (LEAST k. 1 \<le> k \<and> k \<le> D \<and> n mod 10 ^ (D - k) = 0)"
  have "1 \<le> D \<and> D \<le> D \<and> n mod 10 ^ (D - D) = 0" using D by simp
  then have k: "1 \<le> k \<and> k \<le> D \<and> n mod 10 ^ (D - k) = 0" unfolding k_def by (rule LeastI)
  have least: "\<not> (1 \<le> i \<and> i \<le> D \<and> n mod 10 ^ (D - i) = 0)" if "i < k" for i
    using that unfolding k_def by (rule not_less_Least)
  define c where "c = n div 10 ^ (D - k)"
  have nc: "n = c * 10 ^ (D - k)" using k by (metis add.right_neutral c_def div_mult_mod_eq)
  with n(1) have c: "0 < c" by (cases c) simp_all
  have find: "find (\<lambda>k. decimal_at m e (int D - 1) k \<noteq> None) [1..<18] = Some k"
  proof (unfold find_upt_least, intro conjI allI impI)
    fix i assume "1 \<le> i \<and> i < k"
    then show "\<not> decimal_at m e (int D - 1) i \<noteq> None"
      using least [of i] k at [of i] by simp
  qed (use k at [of k] \<open>D \<le> 16\<close> in simp_all)
  have strip: "strip_zeros c = c"
  proof (rule strip_zeros_id, rule notI)
    assume "c mod 10 = 0"
    then obtain c' where c': "c = c' * 10" by (metis mod_0_imp_dvd dvd_def mult.commute)
    show False
    proof (cases "k = 1")
      case True
      have "10 ^ D \<le> c * 10 ^ (D - 1)"
        using c c' D(1) by (cases D) simp_all
      with nc True D(3) show False by simp
    next
      case False
      then obtain k' where k': "k = Suc k'" "1 \<le> k'" using k by (cases k) auto
      then have "D - k' = Suc (D - k)" using k by linarith
      then have "n = c' * 10 ^ (D - k')" using nc c' by simp
      then have "n mod 10 ^ (D - k') = 0" by simp
      with least [of k'] k' k show False by simp
    qed
  qed
  have "show_nat n = show_nat c @ replicate (D - k) (CHR ''0'')"
    using show_nat_scaled [OF c, of "D - k"] nc by simp
  from arg_cong [OF this, of length] have "D = length (show_nat c) + (D - k)"
    unfolding D_def [symmetric] by simp
  then have len: "length (show_nat c) = k" using k by linarith
  have dk: "the (decimal_at m e (int D - 1) k) = c" using at [of k] k by (simp add: c_def)
  have "shortest m e = Some (show_nat c, int D - 1)"
    unfolding shortest_def p Let_def find by (simp add: dk strip len)
  with nc c show ?thesis unfolding D_def by blast
qed

lemma shortest_of_2_60: "shortest (2 ^ 52) 8 = Some (''1152921504606847'', 18)"
  by (simp add: shortest_def ratio_log10_def show_nat.simps strip_zeros.simps decimal_at_def
      in_interval_def upt_rec Let_def)

lemma format_small_int:
  assumes "\<bar>i\<bar> \<le> 2 ^ 53"
  shows "formatNumber (float64_of_int i) = Inr (show_int i)"
proof -
  define n where "n = nat \<bar>i\<bar>"
  consider "n = 0" | "n = 2 ^ 53" | "0 < n" "n < 2 ^ 53"
    using assms by (auto simp: n_def) linarith
  then show ?thesis
  proof cases
    case 1
    then show ?thesis by (simp add: n_def float64_of_int_def round_ratio_def show_int_def show_nat_small)
  next
    case 2
    have r: "fst (round_ratio neg (2 ^ 53) 1) = Fin neg (2 ^ 52) 1" for neg
      by (simp add: round_ratio_def ratio_log2_def flog2.simps)
    have s: "shortest (2 ^ 52) 1 = Some (''9007199254740992'', 15)"
      by (simp add: shortest_def ratio_log10_def show_nat.simps strip_zeros.simps decimal_at_def
          in_interval_def upt_rec Let_def)
    have "i = 2 ^ 53 \<or> i = - (2 ^ 53)" using 2 by (auto simp: n_def)
    then show ?thesis
    proof
      assume "i = 2 ^ 53"
      then show ?thesis using r [of False] s
        by (simp add: float64_of_int_def show_int_def show_nat.simps es6_layout_def)
    next
      assume "i = - (2 ^ 53)"
      then show ?thesis using r [of True] s
        by (simp add: float64_of_int_def show_int_def show_nat.simps es6_layout_def)
    qed
  next
    case 3
    define L where "L = flog2 n"
    have le: "L \<le> 52" using round_exact_int(2) [OF 3] by (simp add: L_def)
    have r: "float64_of_int i = Fin (i < 0) (n * 2 ^ (52 - L)) (- int (52 - L))"
      using round_exact_int(1) [OF 3, of "i < 0"] le
      by (simp add: float64_of_int_def n_def [symmetric] L_def)
    obtain c j where c: "shortest (n * 2 ^ (52 - L)) (- int (52 - L)) =
        Some (show_nat c, int (length (show_nat n)) - 1)" "n = c * 10 ^ j" "0 < c"
      using shortest_int [OF 3, of _ "52 - L"] by blast
    have sn: "show_nat n = show_nat c @ replicate j (CHR ''0'')"
      using c show_nat_scaled by blast
    have "length (show_nat n) \<le> 21"
    proof (rule ccontr)
      assume "\<not> length (show_nat n) \<le> 21"
      then have "(10::nat) ^ 16 \<le> 10 ^ (length (show_nat n) - 1)" by (intro power_increasing) simp_all
      with show_nat_bounds [OF 3(1)] 3(2) show False by simp
    qed
    then have lay: "es6_layout (show_nat c) (int (length (show_nat n))) = show_nat n"
      by (simp add: es6_layout_def sn)
    have si: "show_int i = (if i < 0 then ''-'' else []) @ show_nat n"
      by (simp add: show_int_def n_def)
    show ?thesis using 3(1) lay by (simp add: r c(1) si)
  qed
qed

lemma formatInt_small: "\<bar>i\<bar> \<le> 2 ^ 53 \<Longrightarrow> formatInt i = Inr (show_int i)"
  by (simp add: formatInt_def smallEnoughForExactInt_def format_small_int abs_le_iff)

lemma formatUint_small: "0 \<le> u \<Longrightarrow> u \<le> 2 ^ 53 \<Longrightarrow> formatUint u = Inr (show_int u)"
  by (simp add: formatUint_def smallEnoughForExactInt_def format_small_int)

text \<open>
  every integer up to 2^53 in magnitude is rendered as its own decimal digits, through the
  float path: rounding to a double, the search for the shortest decimal and the ECMAScript
  layout together lose nothing there.
\<close>

theorem formatInt_prints_decimal:
  "\<bar>i\<bar> \<le> 2 ^ 53 \<Longrightarrow> formatInt i = Inr (show_int i)"
  by (rule formatInt_small)

theorem formatInt_prints_decimal_witness:
  "\<bar>- 9007199254740992\<bar> \<le> (2 ^ 53 :: int) \<and> formatInt (- 9007199254740992) = Inr ''-9007199254740992''"
proof -
  have h: "\<bar>- 9007199254740992\<bar> \<le> (2 ^ 53 :: int)" by simp
  have "show_int (- 9007199254740992) = ''-9007199254740992''"
    by (simp add: show_int_def show_nat.simps)
  with h formatInt_prints_decimal [OF h] show ?thesis by simp
qed

text \<open>
  an integer that a double holds exactly is never refused, whatever its canonical form does
  to its digits: 2^60 is emitted with its last digits rounded away, and is not
  \<^const>\<open>ErrIntegerTooLarge\<close>.
\<close>

theorem formatBigInt_changes_digits:
  "formatBigInt (2 ^ 60) = Inr ''1152921504606847000'' \<and> show_int (2 ^ 60) = ''1152921504606846976''"
proof
  have r: "exactFloat64 (2 ^ 60) = (Fin False (2 ^ 52) 8, True)"
    by (simp add: exactFloat64_def round_ratio_def ratio_log2_def flog2.simps)
  note s = shortest_of_2_60
  have "replicate 3 (CHR ''0'') = ''000''" by (simp add: numeral_eq_Suc)
  then show "formatBigInt (2 ^ 60) = Inr ''1152921504606847000''"
    using s unfolding formatBigInt_def r by (simp add: es6_layout_def)
  show "show_int (2 ^ 60) = ''1152921504606846976''"
    by (simp add: show_int_def show_nat.simps)
qed

section \<open>The layout denotes the shortest decimal\<close>

lemma not_is_digit [simp]:
  "\<not> is_digit (CHR ''e'')" "\<not> is_digit (CHR ''E'')" "\<not> is_digit (CHR ''.'')"
  "\<not> is_digit (CHR ''-'')" "\<not> is_digit (CHR ''+'')"
  by (auto simp: is_digit_def)

lemma is_digit_zero [simp]: "is_digit (CHR ''0'')"
  by (simp add: is_digit_def)

lemma read_nat_append: "read_nat (a @ b) = read_nat a * 10 ^ length b + read_nat b"
proof (induction b rule: rev_induct)
  case (snoc x xs)
  then show ?case by (simp add: read_nat_def algebra_simps)
qed (simp add: read_nat_def)

lemma read_nat_zeros [simp]: "read_nat (replicate n (CHR ''0'')) = 0"
  by (induction n) (simp_all add: read_nat_def digit_val_def)

lemma read_digits_Some: "ds \<noteq> [] \<Longrightarrow> list_all is_digit ds \<Longrightarrow> read_digits ds = Some (read_nat ds)"
  by (simp add: read_digits_def)

lemma read_digits_show [simp]: "read_digits (show_nat n) = Some n"
  using show_nat_digits [of n] by (simp add: read_digits_def read_show_nat list_all_iff)

lemma split_sign_digit [simp]: "is_digit c \<Longrightarrow> split_sign (c # r) = (False, c # r)"
  by (auto simp: split_sign_def)

lemma read_int_signed [simp]:
  "read_int (CHR ''+'' # show_nat n) = Some (int n)" "read_int (CHR ''-'' # show_nat n) = Some (- int n)"
  by (simp_all add: read_int_def split_sign_def)

text \<open>A mantissa \<open>ip.fp\<close> and an exponent, read back.\<close>

lemma read_decimal_parts:
  assumes ip: "ip \<noteq> []" "list_all is_digit ip" and fp: "list_all is_digit fp"
    and ex: "(ex = [] \<and> x = 0) \<or> (\<exists>r. ex = CHR ''e'' # r \<and> read_int r = Some x)"
  shows "read_decimal ((if neg then ''-'' else []) @ ip @ (if dot then CHR ''.'' # fp else []) @ ex) =
    Some (neg, read_nat (ip @ (if dot then fp else [])), x - (if dot then int (length fp) else 0))"
proof -
  let ?mant = "ip @ (if dot then CHR ''.'' # fp else [])"
  have sign: "split_sign ((if neg then ''-'' else []) @ ?mant @ ex) = (neg, ?mant @ ex)"
    using ip by (cases ip) (auto simp: split_sign_def)
  have no_e: "\<forall>c \<in> set ?mant. c \<noteq> CHR ''e'' \<and> c \<noteq> CHR ''E''"
    using ip fp by (auto simp: list_all_iff)
  have tw: "takeWhile (\<lambda>c. c \<noteq> CHR ''e'' \<and> c \<noteq> CHR ''E'') (?mant @ ex) = ?mant"
  proof -
    have "takeWhile (\<lambda>c. c \<noteq> CHR ''e'' \<and> c \<noteq> CHR ''E'') (?mant @ ex) =
        ?mant @ takeWhile (\<lambda>c. c \<noteq> CHR ''e'' \<and> c \<noteq> CHR ''E'') ex"
      using no_e by (intro takeWhile_append2) blast
    moreover have "takeWhile (\<lambda>c. c \<noteq> CHR ''e'' \<and> c \<noteq> CHR ''E'') ex = []" using ex by auto
    ultimately show ?thesis by (simp only: append_Nil2)
  qed
  have tp: "takeWhile (\<lambda>c. c \<noteq> CHR ''.'') ?mant = ip"
    using ip by (subst takeWhile_append2) (auto simp: list_all_iff)
  have rd: "read_digits (ip @ fp) = Some (read_nat (ip @ fp))" "read_digits ip = Some (read_nat ip)"
    using ip fp by (simp_all add: read_digits_Some)
  have rx: "(if ex = [] then Some 0 else read_int (tl ex)) = Some x" using ex by auto
  have dr: "drop (length ?mant) (?mant @ ex) = ex" by simp
  have fpx: "drop (Suc (length ip)) ?mant = (if dot then fp else [])" by (cases dot) auto
  have assoc: "(if neg then ''-'' else []) @ ip @ (if dot then CHR ''.'' # fp else []) @ ex =
      (if neg then ''-'' else []) @ ?mant @ ex" by simp
  have "read_decimal ((if neg then ''-'' else []) @ ?mant @ ex) =
      (case (read_digits (ip @ (if dot then fp else [])), if ex = [] then Some 0 else read_int (tl ex)) of
         (Some d, Some x) \<Rightarrow> Some (neg, d, x - int (length (if dot then fp else [])))
       | _ \<Rightarrow> None)"
    by (simp only: read_decimal_def Let_def sign split tw dr tp fpx)
  then show ?thesis
    unfolding assoc rx using rd by (cases dot) simp_all
qed

lemma read_decimal_layout:
  assumes "ds \<noteq> []" and "list_all is_digit ds"
  defines "k \<equiv> int (length ds)"
  shows "read_decimal ((if neg then ''-'' else []) @ es6_layout ds n) =
    (if k \<le> n \<and> n \<le> 21 then Some (neg, read_nat ds * 10 ^ nat (n - k), 0)
     else Some (neg, read_nat ds, n - k))"
proof -
  let ?sg = "if neg then ''-'' else []"
  consider (whole) "k \<le> n" "n \<le> 21" | (point) "\<not> k \<le> n" "0 < n" "n \<le> 21"
    | (lead) "\<not> (k \<le> n \<and> n \<le> 21)" "- 6 < n" "n \<le> 0"
    | (expo) "\<not> (k \<le> n \<and> n \<le> 21)" "\<not> (0 < n \<and> n \<le> 21)" "\<not> (- 6 < n \<and> n \<le> 0)"
    by linarith
  then show ?thesis
  proof cases
    case whole
    have "list_all is_digit (ds @ replicate (nat (n - k)) (CHR ''0''))"
      using assms(2) by (auto simp: list_all_iff)
    with whole read_decimal_parts [of "ds @ replicate (nat (n - k)) (CHR ''0'')" "[]" "[]" 0 neg False] assms(1)
    show ?thesis by (simp add: es6_layout_def read_nat_append k_def)
  next
    case point
    have "take (nat n) ds \<noteq> []" "length (drop (nat n) ds) = nat (k - n)"
      using point assms by (simp_all add: k_def)
    moreover have "list_all is_digit (take (nat n) ds)" "list_all is_digit (drop (nat n) ds)"
      using assms(2) by (auto simp: list_all_iff dest: in_set_takeD in_set_dropD)
    ultimately show ?thesis
      using read_decimal_parts [of "take (nat n) ds" "drop (nat n) ds" "[]" 0 neg True] point
      by (simp add: es6_layout_def k_def)
  next
    case lead
    have "read_nat (''0'' @ replicate (nat (- n)) (CHR ''0'') @ ds) = read_nat ds"
      by (simp only: read_nat_append read_nat_zeros) (simp add: read_nat_def digit_val_def)
    moreover have "list_all is_digit (replicate (nat (- n)) (CHR ''0'') @ ds)"
      using assms(2) by (auto simp: list_all_iff)
    ultimately show ?thesis
      using read_decimal_parts [of "''0''" "replicate (nat (- n)) (CHR ''0'') @ ds" "[]" 0 neg True] lead
      by (simp add: es6_layout_def k_def)
  next
    case expo
    define ex where "ex = CHR ''e'' # (if 0 \<le> n - 1 then CHR ''+'' else CHR ''-'') # show_nat (nat \<bar>n - 1\<bar>)"
    have ex: "(ex = [] \<and> n - 1 = 0) \<or> (\<exists>r. ex = CHR ''e'' # r \<and> read_int r = Some (n - 1))"
      by (auto simp: ex_def)
    have lay: "es6_layout ds n = take 1 ds @ (if k \<noteq> 1 then CHR ''.'' # drop 1 ds else []) @ ex"
      using expo assms(1) by (cases ds) (auto simp: es6_layout_def k_def ex_def)
    have parts: "take 1 ds \<noteq> []" "list_all is_digit (take 1 ds)" "list_all is_digit (drop 1 ds)"
      using assms(1,2) by (auto simp: list_all_iff dest: in_set_takeD in_set_dropD)
    have "k = 1 \<Longrightarrow> take 1 ds = ds" "int (length (drop 1 ds)) = k - 1"
      using assms(1) by (cases ds; simp add: k_def)+
    then show ?thesis
      using read_decimal_parts [OF parts ex, of neg "k \<noteq> 1"] expo(1) unfolding lay
      by (cases "k = 1") (auto simp del: take_Suc)
  qed
qed

lemma shortest_digits:
  assumes "shortest m e = Some (ds, x)"
  shows "ds \<noteq> []" "list_all is_digit ds"
proof -
  from assms obtain n where "ds = show_nat n"
    by (auto simp: shortest_def Let_def split: option.splits)
  then show "ds \<noteq> []" "list_all is_digit ds"
    using show_nat_digits by (auto simp: list_all_iff)
qed

text \<open>
  whichever of the four ECMAScript layouts is chosen, the text that \<^const>\<open>formatNumber\<close> emits
  denotes exactly the shortest decimal it was given: read back as sign, integer and power of
  ten it is \<open>digits * 10^(x + 1 - k)\<close>, with at most a shift of zeros between the two factors.
\<close>

theorem formatNumber_denotes:
  assumes "m \<noteq> 0" and "shortest m e = Some (ds, x)"
  shows "\<exists>out z. formatNumber (Fin neg m e) = Inr out \<and>
    read_decimal out = Some (neg, read_nat ds * 10 ^ z, x + 1 - int (length ds) - int z)"
proof -
  define n where "n = x + 1"
  define k where "k = int (length ds)"
  note rd = read_decimal_layout [OF shortest_digits [OF assms(2)], of neg n, folded k_def]
  define z where "z = (if k \<le> n \<and> n \<le> 21 then nat (n - k) else 0)"
  have "read_decimal ((if neg then ''-'' else []) @ es6_layout ds n) =
      Some (neg, read_nat ds * 10 ^ z, n - k - int z)"
    unfolding rd by (simp add: z_def)
  then show ?thesis
    using assms unfolding n_def k_def by (intro exI [of _ z] exI) simp
qed

theorem formatNumber_denotes_witness:
  "\<exists>out z. formatNumber (Fin True (2 ^ 52) 8) = Inr out \<and>
    read_decimal out = Some (True, read_nat ''1152921504606847'' * 10 ^ z, 18 + 1 - int 16 - int z)"
proof -
  note s = shortest_of_2_60
  have "(2 ^ 52 :: nat) \<noteq> 0" by simp
  from formatNumber_denotes [OF this s, of True] show ?thesis by simp
qed

end
