(* ===== verification/Canonical.thy ===== *)
theory Canonical
  imports Numbers
begin

text \<open>
  \<^verbatim>\<open>internal/canonical/canonical.go\<close> and \<^verbatim>\<open>internal/canonical/value.go\<close>: the closed domain of Go
  values, its conversion to the intermediate representation, and the canonical serialization
  of that representation.  A \<open>map[string]any\<close> is an association list; its iteration order is the
  list's order, and the properties show the output does not depend on it.
\<close>

section \<open>The intermediate representation\<close>

datatype ir = INull | IBool bool | IStr string | IInt int | IUint int | IFloat f64 | INum string
  | IArr "ir list" | IObj "(string \<times> ir) list"

text \<open>A \<open>PathError\<close> is the path and the rejection; \<open>at\<close> locates a bare rejection.\<close>

type_synonym path_error = "string \<times> cerr"

definition at :: "string \<Rightarrow> cerr + 'a \<Rightarrow> path_error + 'a" where
  "at path r = (case r of Inl e \<Rightarrow> Inl (path, e) | Inr x \<Rightarrow> Inr x)"

lemma at_Inr [simp]: "at p r = Inr x \<longleftrightarrow> r = Inr x"
  by (auto simp: at_def split: sum.splits)

lemma at_Inl [simp]: "at p r = Inl e \<longleftrightarrow> (\<exists>c. r = Inl c \<and> e = (p, c))"
  by (auto simp: at_def split: sum.splits)

definition index_path :: "string \<Rightarrow> nat \<Rightarrow> string" where
  "index_path path i = path @ ''['' @ show_nat i @ '']''"

definition member_path :: "string \<Rightarrow> string \<Rightarrow> string" where
  "member_path path k = path @ ''.'' @ k"

section \<open>encodeValue\<close>

text \<open>
  The members of an object are encoded one by one in key order; the first key or value that
  cannot be encoded decides the error.
\<close>

fun write_members :: "string \<Rightarrow> (string \<times> (path_error + string)) list \<Rightarrow> path_error + string list" where
  "write_members path [] = Inr []"
| "write_members path ((k, r) # ms) =
     sbind (at (member_path path k) (write_string k)) (\<lambda>ks.
     sbind r (\<lambda>vs.
     sbind (write_members path ms) (\<lambda>xs.
     Inr ((ks @ '':'' @ vs) # xs))))"

definition key_less :: "string \<times> 'a \<Rightarrow> string \<times> 'a \<Rightarrow> bool" where
  "key_less a b = less_utf16 (fst a) (fst b)"

fun encode_value :: "string \<Rightarrow> ir \<Rightarrow> path_error + string"
  and encode_items :: "string \<Rightarrow> nat \<Rightarrow> ir list \<Rightarrow> path_error + string list"
  and encode_members :: "string \<Rightarrow> (string \<times> ir) list \<Rightarrow> (string \<times> (path_error + string)) list"
where
  "encode_value path INull = Inr ''null''"
| "encode_value path (IBool b) = Inr (if b then ''true'' else ''false'')"
| "encode_value path (IStr s) = at path (write_string s)"
| "encode_value path (IInt i) = at path (formatInt i)"
| "encode_value path (IUint u) = at path (formatUint u)"
| "encode_value path (IFloat f) = at path (formatNumber f)"
| "encode_value path (INum s) = at path (formatJSONNumber s)"
| "encode_value path (IArr vs) =
     sbind (encode_items path 0 vs) (\<lambda>xs. Inr (''['' @ join '','' xs @ '']''))"
| "encode_value path (IObj ms) =
     sbind (write_members path (sort_by key_less (encode_members path ms))) (\<lambda>xs.
     Inr (''{'' @ join '','' xs @ ''}''))"
| "encode_items path i [] = Inr []"
| "encode_items path i (v # vs) =
     sbind (encode_value (index_path path i) v) (\<lambda>x.
     sbind (encode_items path (Suc i) vs) (\<lambda>xs. Inr (x # xs)))"
| "encode_members path [] = []"
| "encode_members path ((k, v) # ms) =
     (k, encode_value (member_path path k) v) # encode_members path ms"

definition marshal :: "ir \<Rightarrow> path_error + string" where
  "marshal v = encode_value [] v"

lemma encode_members_map:
  "encode_members path ms = map (\<lambda>(k, v). (k, encode_value (member_path path k) v)) ms"
  by (induction ms) auto

lemma sort_members: "sort_by key_less ms = sort_key (\<lambda>m. key_units (fst m)) ms"
  unfolding key_less_def [abs_def] less_utf16_lex by (rule sort_by_key)

section \<open>fromGo\<close>

text \<open>
  A Go value as \<open>reflect\<close> presents it.  \<open>GMarshaler\<close> is any value whose type, or the pointer to it,
  implements \<open>json.Marshaler\<close> or \<open>encoding.TextMarshaler\<close>; \<open>GBytes\<close> a slice or array of uint8;
  \<open>GOther\<close> every remaining kind (float32, complex, channel, function).  A map records whether
  its key kind is string.
\<close>

record field =
  fexported :: bool
  fname :: string
  ftag :: string

datatype goval = GNil | GNumber string | GMarshaler | GPtr "goval option" | GBool bool | GStr string
  | GInt int | GUint int | GFloat64 f64 | GBytes | GSlice "goval list option" | GArray "goval list"
  | GMap bool "(string \<times> goval) list option" | GStruct "(field \<times> goval) list" | GOther

text \<open>\<open>strings.Cut(tag, ",")\<close>, giving the name and the options.\<close>

definition cut_tag :: "string \<Rightarrow> string \<times> string" where
  "cut_tag tag =
     (let name = takeWhile (\<lambda>c. c \<noteq> CHR '','') tag in (name, drop (Suc (length name)) tag))"

text \<open>
  What \<open>fromStruct\<close> decides about one field before looking at its value: an unexported or \<open>-\<close> field
  is skipped, a tag option is refused, and otherwise the member's name is the tag's or the field's.
\<close>

definition field_member :: "string \<Rightarrow> field \<Rightarrow> path_error + string option" where
  "field_member path f =
     (if \<not> fexported f then Inr None
      else let (name, opts) = cut_tag (ftag f) in
        if name = ''-'' \<and> opts = [] then Inr None
        else if opts \<noteq> [] then Inl (member_path path (fname f), ErrUnsupportedType)
        else Inr (Some (if name = [] then fname f else name)))"

fun from_value :: "string \<Rightarrow> goval \<Rightarrow> path_error + ir"
  and from_items :: "string \<Rightarrow> nat \<Rightarrow> goval list \<Rightarrow> path_error + ir list"
  and from_map :: "string \<Rightarrow> (string \<times> goval) list \<Rightarrow> path_error + (string \<times> ir) list"
  and from_struct :: "string \<Rightarrow> (string \<times> ir) list \<Rightarrow> (field \<times> goval) list \<Rightarrow> path_error + (string \<times> ir) list"
where
  "from_value path GNil = Inr INull"
| "from_value path (GNumber s) = Inr (INum s)"
| "from_value path GMarshaler = Inl (path, ErrUnsupportedType)"
| "from_value path (GPtr None) = Inr INull"
| "from_value path (GPtr (Some v)) = from_value path v"
| "from_value path (GBool b) = Inr (IBool b)"
| "from_value path (GStr s) = Inr (IStr s)"
| "from_value path (GInt i) = Inr (IInt i)"
| "from_value path (GUint u) = Inr (IUint u)"
| "from_value path (GFloat64 f) = Inr (IFloat f)"
| "from_value path GBytes = Inl (path, ErrUnsupportedType)"
| "from_value path (GSlice None) = Inr INull"
| "from_value path (GSlice (Some vs)) = sbind (from_items path 0 vs) (\<lambda>xs. Inr (IArr xs))"
| "from_value path (GArray vs) = sbind (from_items path 0 vs) (\<lambda>xs. Inr (IArr xs))"
| "from_value path (GMap string_key m) =
     (if \<not> string_key then Inl (path, ErrUnsupportedType)
      else (case m of None \<Rightarrow> Inr INull
            | Some ms \<Rightarrow> sbind (from_map path ms) (\<lambda>xs. Inr (IObj xs))))"
| "from_value path (GStruct fs) = sbind (from_struct path [] fs) (\<lambda>xs. Inr (IObj xs))"
| "from_value path GOther = Inl (path, ErrUnsupportedType)"
| "from_items path i [] = Inr []"
| "from_items path i (v # vs) =
     sbind (from_value (index_path path i) v) (\<lambda>x.
     sbind (from_items path (Suc i) vs) (\<lambda>xs. Inr (x # xs)))"
| "from_map path [] = Inr []"
| "from_map path ((k, v) # ms) =
     sbind (from_value (member_path path k) v) (\<lambda>x.
     sbind (from_map path ms) (\<lambda>xs. Inr ((k, x) # xs)))"
| "from_struct path out [] = Inr out"
| "from_struct path out ((f, v) # fs) =
     sbind (field_member path f) (\<lambda>member.
     case member of
       None \<Rightarrow> from_struct path out fs
     | Some nm \<Rightarrow>
         if nm \<in> fst ` set out then Inl (member_path path nm, ErrDuplicateKey)
         else sbind (from_value (member_path path nm) v) (\<lambda>x.
              from_struct path (out @ [(nm, x)]) fs))"

lemma field_member_path: "field_member p f = Inr mo \<Longrightarrow> field_member q f = Inr mo"
  by (auto simp: field_member_def split: if_splits prod.splits)

text \<open>The path only locates a rejection: where a value converts, it converts under any path.\<close>

lemma from_value_path:
  "from_value p v = Inr x \<Longrightarrow> from_value q v = Inr x"
  "from_items p i vs = Inr xs \<Longrightarrow> from_items q j vs = Inr xs"
  "from_map p ms = Inr ys \<Longrightarrow> from_map q ms = Inr ys"
  "from_struct p out fs = Inr zs \<Longrightarrow> from_struct q out fs = Inr zs"
proof (induction p v and p i vs and p ms and p out fs arbitrary: x q and xs q j and ys q and zs q
    rule: from_value_from_items_from_map_from_struct.induct)
  case (5 path v)
  from 5(2) have "from_value path v = Inr x" by simp
  from 5(1) [OF this] show ?case by simp
next
  case (13 path vs)
  from 13(2) obtain xs where xs: "from_items path 0 vs = Inr xs" "x = IArr xs" by auto
  from 13(1) [OF xs(1), of q 0] xs(2) show ?case by simp
next
  case (14 path vs)
  from 14(2) obtain xs where xs: "from_items path 0 vs = Inr xs" "x = IArr xs" by auto
  from 14(1) [OF xs(1), of q 0] xs(2) show ?case by simp
next
  case (16 path fs)
  from 16(2) obtain ys where ys: "from_struct path [] fs = Inr ys" "x = IObj ys" by auto
  from 16(1) [OF ys(1), of q] ys(2) show ?case by simp
next
  case (19 path i v vs)
  from 19(3) obtain y ys where y: "from_value (index_path path i) v = Inr y"
    "from_items path (Suc i) vs = Inr ys" "xs = y # ys" by auto
  from 19(1) [OF y(1), of "index_path q j"] 19(2) [OF y(1,2), of q "Suc j"] y(3) show ?case by simp
next
  case (21 path k v ms)
  from 21(3) obtain y zs where y: "from_value (member_path path k) v = Inr y"
    "from_map path ms = Inr zs" "ys = (k, y) # zs" by auto
  from 21(1) [OF y(1), of "member_path q k"] 21(2) [OF y(1,2), of q] y(3) show ?case by simp
next
  case (15 path string_key m)
  note prems = 15(2) and IH = 15(1)
  show ?case
  proof (cases m)
    case None
    with prems show ?thesis by (simp split: if_splits)
  next
    case (Some ms)
    with prems obtain ys where ys: "string_key" "from_map path ms = Inr ys" "x = IObj ys"
      by (auto split: if_splits)
    with IH [of ms ys q] Some show ?thesis by simp
  qed
next
  case (23 path out f v fs)
  note prems = 23(4) and IH = 23(1-3)
  from prems obtain mo where mo: "field_member path f = Inr mo" by auto
  with field_member_path have mq: "field_member q f = Inr mo" by blast
  show ?case
  proof (cases mo)
    case None
    with prems mo have "from_struct path out fs = Inr zs" by simp
    with IH(1) [OF mo None] mq None show ?thesis by simp
  next
    case (Some nm)
    with prems mo obtain x where x: "nm \<notin> fst ` set out" "from_value (member_path path nm) v = Inr x"
      "from_struct path (out @ [(nm, x)]) fs = Inr zs" by (auto split: if_splits)
    from IH(2) [OF mo Some x(1) x(2)] IH(3) [OF mo Some x(1,2,3)] mq Some x(1) show ?thesis by simp
  qed
qed simp_all

definition same_member :: "string \<times> (path_error + string) \<Rightarrow> string \<times> (path_error + string) \<Rightarrow> bool" where
  "same_member x y \<longleftrightarrow> fst x = fst y \<and> (\<forall>b. snd x = Inr b \<longrightarrow> snd y = Inr b)"

lemma same_member_fst: "same_member x y \<Longrightarrow> fst x = fst y"
  by (simp add: same_member_def)

lemma same_member_less: "same_member x y \<Longrightarrow> same_member a b \<Longrightarrow> key_less x a = key_less y b"
  by (simp add: key_less_def same_member_fst)

lemma insert_members:
  "list_all2 same_member xs ys \<Longrightarrow> same_member x y \<Longrightarrow>
   list_all2 same_member (insert_by key_less x xs) (insert_by key_less y ys)"
proof (induction xs ys rule: list_all2_induct)
  case Nil
  then show ?case by simp
next
  case (Cons a as b bs)
  from same_member_less [OF Cons(1,4)] same_member_less [OF Cons(4,1)] Cons show ?case by simp
qed

lemma sort_same_members:
  "list_all2 same_member xs ys \<Longrightarrow> list_all2 same_member (sort_by key_less xs) (sort_by key_less ys)"
  by (induction xs ys rule: list_all2_induct) (simp_all add: sort_by_def insert_members)

lemma write_same_members:
  "list_all2 same_member xs ys \<Longrightarrow> write_members p xs = Inr zs \<Longrightarrow> write_members q ys = Inr zs"
proof (induction xs ys arbitrary: zs rule: list_all2_induct)
  case Nil
  then show ?case by simp
next
  case (Cons x xs y ys)
  obtain k r where x: "x = (k, r)" by (cases x)
  obtain k' r' where y: "y = (k', r')" by (cases y)
  from Cons.prems x obtain ks vs ws where 1: "write_string k = Inr ks" "r = Inr vs"
    "write_members p xs = Inr ws" "zs = (ks @ '':'' @ vs) # ws" by auto
  from Cons(1) x y 1(2) have "k' = k" "r' = Inr vs" by (auto simp: same_member_def)
  with Cons.IH [OF 1(3)] 1 y show ?case by simp
qed

lemma encode_value_path:
  "encode_value p v = Inr a \<Longrightarrow> encode_value q v = Inr a"
  "encode_items p i vs = Inr xs \<Longrightarrow> encode_items q j vs = Inr xs"
  "list_all2 same_member (encode_members p ms) (encode_members q ms)"
proof (induction p v and p i vs and p ms arbitrary: a q and xs q j and q
    rule: encode_value_encode_items_encode_members.induct)
  case (8 path vs)
  from 8(2) obtain xs where xs: "encode_items path 0 vs = Inr xs" "a = ''['' @ join '','' xs @ '']''" by auto
  from 8(1) [OF xs(1), of q 0] xs(2) show ?case by simp
next
  case (9 path ms)
  from 9(2) obtain xs where xs: "write_members path (sort_by key_less (encode_members path ms)) = Inr xs"
    "a = ''{'' @ join '','' xs @ ''}''" by auto
  from write_same_members [OF sort_same_members [OF 9(1)] xs(1)] xs(2) show ?case by simp
next
  case (11 path i v vs)
  from 11(3) obtain y ys where y: "encode_value (index_path path i) v = Inr y"
    "encode_items path (Suc i) vs = Inr ys" "xs = y # ys" by auto
  from 11(1) [OF y(1), of "index_path q j"] 11(2) [OF y(1,2), of q "Suc j"] y(3) show ?case by simp
next
  case (13 path k v ms)
  have "same_member (k, encode_value (member_path path k) v) (k, encode_value (member_path q k) v)"
    unfolding same_member_def fst_conv snd_conv using 13(1) by blast
  with 13(2) [of q] show ?case by simp
qed simp_all

definition Encode :: "goval \<Rightarrow> path_error + string" where
  "Encode v = sbind (from_value [] v) marshal"

text \<open>\<open>HashHex\<close>: SHA-256 in lowercase hex is the argument \<open>sha\<close>.\<close>

definition HashHex :: "(string \<Rightarrow> string) \<Rightarrow> goval \<Rightarrow> path_error + string" where
  "HashHex sha v = sbind (Encode v) (\<lambda>b. Inr (sha b))"

section \<open>The bytes do not depend on map iteration order\<close>

lemma fst_encode_members [simp]: "map fst (encode_members path ms) = map fst ms"
  by (induction ms) auto

lemma encode_object_perm:
  assumes "mset ms = mset ms'" and "distinct (map fst ms)"
    and "\<forall>k \<in> fst ` set ms. valid_utf8 (bytes k)"
  shows "encode_value path (IObj ms) = encode_value path (IObj ms')"
proof -
  let ?e = "encode_members path"
  have "mset (?e ms) = mset (?e ms')"
    using assms(1) by (simp add: encode_members_map)
  moreover have "inj_on (\<lambda>m. key_units (fst m)) (set (?e ms))"
  proof (rule inj_onI)
    fix a b assume ab: "a \<in> set (?e ms)" "b \<in> set (?e ms)" "key_units (fst a) = key_units (fst b)"
    have "fst ` set (?e ms) = fst ` set ms"
      using fst_encode_members [of path ms] by (metis list.set_map)
    then have "fst a = fst b"
      using ab assms(3) key_units_inj by (metis imageI)
    moreover have "distinct (map fst (?e ms))" using assms(2) by simp
    ultimately show "a = b" using ab by (metis eq_key_imp_eq_value prod.collapse)
  qed
  ultimately have "sort_by key_less (?e ms) = sort_by key_less (?e ms')"
    unfolding sort_members by (rule sort_key_perm)
  then show ?thesis by simp
qed

text \<open>
  an object with distinct, well-formed keys serializes to the same bytes (or to the same
  rejection) whatever order the Go map hands its entries out in.
\<close>

theorem encode_ignores_map_order:
  assumes "mset ms = mset ms'" and "distinct (map fst ms)"
    and "\<forall>k \<in> fst ` set ms. valid_utf8 (bytes k)"
  shows "marshal (IObj ms) = marshal (IObj ms')"
  unfolding marshal_def by (rule encode_object_perm [OF assms])

theorem encode_ignores_map_order_witness:
  "marshal (IObj [(''b'', IBool True), (''a'', INull)]) = Inr ''{\"a\":null,\"b\":true}''"
proof -
  have 1: "mset [(''b'', IBool True), (''a'', INull)] = mset [(''a'', INull), (''b'', IBool True)]"
    by simp
  have 2: "distinct (map fst [(''b'', IBool True), (''a'', INull)])" by simp
  have 3: "\<forall>k \<in> fst ` set [(''b'', IBool True), (''a'', INull)]. valid_utf8 (bytes k)"
    by (simp add: bytes_def)
  have w: "write_string [c] = Inr [CHR 0x22, c, CHR 0x22]" if "c \<in> {CHR ''a'', CHR ''b''}" for c
    using that by (auto simp: write_string_def bytes_def of_bytes_def write_runes_def write_rune_def
        encode_rune_def char_of_def bit_simps)
  have "marshal (IObj [(''a'', INull), (''b'', IBool True)]) = Inr ''{\"a\":null,\"b\":true}''"
    by (simp add: marshal_def sort_by_def key_less_def less_utf16_def key_units_def bytes_def
        utf16_units_def scalar_def w)
  then show ?thesis using encode_ignores_map_order [OF 1 2 3] by simp
qed

end
