(* ===== verification/Framing.thy ===== *)
theory Framing
  imports Canonical
begin

text \<open>
  The canonical form is self-delimiting: a byte string is the encoding of at most one value shape,
  and inside an object every member's name and encoding can be told from the bytes alone.  The
  grammar \<open>jval\<close> over-approximates what \<^const>\<open>encode_value\<close> emits and is unambiguous, which is
  what makes a hash over these bytes cover each field of a record.
\<close>

section \<open>An unambiguous grammar for the output\<close>

definition num_char :: "char \<Rightarrow> bool" where
  "num_char c \<longleftrightarrow> is_digit c \<or> c \<in> {CHR ''-'', CHR ''+'', CHR ''.'', CHR ''e''}"

definition jnum :: "string \<Rightarrow> bool" where
  "jnum s \<longleftrightarrow> s \<noteq> [] \<and> list_all num_char s \<and> (is_digit (hd s) \<or> hd s = CHR ''-'')"

inductive jval :: "string \<Rightarrow> bool" and jelems :: "string \<Rightarrow> bool" and jmems :: "string \<Rightarrow> bool" where
  j_null: "jval ''null''"
| j_true: "jval ''true''"
| j_false: "jval ''false''"
| j_num: "jnum s \<Longrightarrow> jval s"
| j_str: "write_string t = Inr s \<Longrightarrow> jval s"
| j_arr0: "jval ''[]''"
| j_arr: "jelems e \<Longrightarrow> jval (''['' @ e @ '']'')"
| j_obj0: "jval ''{}''"
| j_obj: "jmems e \<Longrightarrow> jval (''{'' @ e @ ''}'')"
| e_one: "jval a \<Longrightarrow> jelems a"
| e_more: "jval a \<Longrightarrow> jelems e \<Longrightarrow> jelems (a @ '','' @ e)"
| m_one: "write_string k = Inr ks \<Longrightarrow> jval a \<Longrightarrow> jmems (ks @ '':'' @ a)"
| m_more: "write_string k = Inr ks \<Longrightarrow> jval a \<Longrightarrow> jmems e \<Longrightarrow> jmems (ks @ '':'' @ a @ '','' @ e)"

definition closed :: "string \<Rightarrow> bool" where
  "closed x \<longleftrightarrow> x = [] \<or> hd x \<in> {CHR '','', CHR '']'', CHR ''}''}"

lemma closed_simps [simp]: "closed []" "closed (CHR '','' # x)" "closed (CHR '']'' # x)" "closed (CHR ''}'' # x)"
  by (simp_all add: closed_def)

lemma write_string_quote:
  assumes "write_string t = Inr s"
  obtains r where "s = CHR 0x22 # r"
proof -
  from bytes_write_string(1) [OF assms] obtain bs where "bytes s = 34 # bs"
    by (simp add: write_runes_def)
  then have "of_bytes (34 # bs) = s" by (metis of_bytes_bytes)
  moreover have "char_of (34 :: nat) = CHR 0x22" by (simp add: char_of_def bit_simps)
  ultimately have "s = CHR 0x22 # map char_of bs" by (simp add: of_bytes_def)
  then show thesis by (rule that)
qed

lemma jnum_first:
  assumes "jnum s"
  obtains c r where "s = c # r" "is_digit c \<or> c = CHR ''-''" 
  using assms by (cases s) (auto simp: jnum_def)

lemma first_chars [simp]:
  "\<not> is_digit (CHR ''n'')" "\<not> is_digit (CHR ''t'')" "\<not> is_digit (CHR ''f'')" "\<not> is_digit (CHR 0x22)"
  "\<not> is_digit (CHR ''['')" "\<not> is_digit (CHR ''{'')" "\<not> is_digit (CHR '','')" "\<not> is_digit (CHR '']'')"
  "\<not> is_digit (CHR ''}'')"
  by (simp_all add: is_digit_def)

lemma closed_not_num: "closed (c # x) \<Longrightarrow> \<not> num_char c"
  by (auto simp: closed_def num_char_def)

lemma jnum_munch:
  assumes "jnum a" "jnum b" "a @ x = b @ y" "closed x" "closed y"
  shows "a = b \<and> x = y"
proof -
  have m: "takeWhile num_char (s @ z) = s" if "jnum s" "closed z" for s z
  proof -
    have "takeWhile num_char (s @ z) = s @ takeWhile num_char z"
      using that by (intro takeWhile_append2) (auto simp: jnum_def list_all_iff)
    moreover have "takeWhile num_char z = []"
      using that closed_not_num by (cases z) auto
    ultimately show ?thesis by simp
  qed
  from m [OF assms(1,4)] m [OF assms(2,5)] assms(3) show ?thesis by simp
qed

text \<open>The kind of a value shows in its first character.\<close>

lemma jval_first:
  "jval a \<Longrightarrow> \<exists>c r. a = c # r \<and> c \<noteq> CHR '']'' \<and> c \<noteq> CHR ''}''"
  by (erule jval.cases) (auto elim!: write_string_quote jnum_first)

lemma jval_cases_first:
  assumes "jval (c # r)"
  shows "(c = CHR ''n'' \<and> r = ''ull'') \<or> (c = CHR ''t'' \<and> r = ''rue'') \<or> (c = CHR ''f'' \<and> r = ''alse'') \<or>
    (jnum (c # r) \<and> (is_digit c \<or> c = CHR ''-'')) \<or> (c = CHR 0x22 \<and> (\<exists>t. write_string t = Inr (c # r))) \<or>
    (c = CHR ''['' \<and> (r = '']'' \<or> (\<exists>e. jelems e \<and> r = e @ '']''))) \<or>
    (c = CHR ''{'' \<and> (r = ''}'' \<or> (\<exists>e. jmems e \<and> r = e @ ''}'')))"
  using assms
proof (cases rule: jval.cases)
  case j_num
  then show ?thesis by (auto elim: jnum_first)
next
  case (j_str t)
  then show ?thesis by (auto elim: write_string_quote)
qed auto

lemma jelems_first: "jelems e \<Longrightarrow> \<exists>a r. e = a @ r \<and> jval a"
  by (erule jelems.cases) auto

lemma jmems_first: "jmems e \<Longrightarrow> \<exists>r. e = CHR 0x22 # r"
  by (erule jmems.cases) (auto elim!: write_string_quote)

lemma jval_start:
  "jval (CHR ''n'' # r) \<Longrightarrow> r = ''ull''" "jval (CHR ''t'' # r) \<Longrightarrow> r = ''rue''"
  "jval (CHR ''f'' # r) \<Longrightarrow> r = ''alse''"
  "jval (CHR 0x22 # r) \<Longrightarrow> \<exists>t. write_string t = Inr (CHR 0x22 # r)"
  "jval (CHR ''['' # r) \<Longrightarrow> r = '']'' \<or> (\<exists>e. jelems e \<and> r = e @ '']'')"
  "jval (CHR ''{'' # r) \<Longrightarrow> r = ''}'' \<or> (\<exists>e. jmems e \<and> r = e @ ''}'')"
  "is_digit c \<or> c = CHR ''-'' \<Longrightarrow> jval (c # r) \<Longrightarrow> jnum (c # r)"
  by (auto dest!: jval_cases_first)

lemma jval_shared_first:
  assumes "jval (c # a)" and "jval b" and "c # z = b @ y"
  obtains r where "b = c # r" "jval (c # r)" "z = r @ y"
  using assms jval_first [OF assms(2)] by auto

lemma jelems_not_bracket: "jelems e \<Longrightarrow> \<not> (\<exists>z. e @ r = CHR '']'' # z)"
  by (auto dest!: jelems_first jval_first)

lemma jmems_not_brace: "jmems e \<Longrightarrow> \<not> (\<exists>z. e @ r = CHR ''}'' # z)"
  by (auto dest!: jmems_first)

lemma jval_unambiguous:
  "jval a \<Longrightarrow> jval b \<Longrightarrow> a @ x = b @ y \<Longrightarrow> closed x \<Longrightarrow> closed y \<Longrightarrow> a = b \<and> x = y"
  "jelems e \<Longrightarrow> jelems e' \<Longrightarrow> e @ CHR '']'' # x = e' @ CHR '']'' # y \<Longrightarrow> e = e' \<and> x = y"
  "jmems m \<Longrightarrow> jmems m' \<Longrightarrow> m @ CHR ''}'' # x = m' @ CHR ''}'' # y \<Longrightarrow> m = m' \<and> x = y"
proof (induction arbitrary: b x y and e' x y and m' x y rule: jval_jelems_jmems.inducts)
  case j_null
  then obtain r where "b = CHR ''n'' # r" "jval (CHR ''n'' # r)" "''ull'' @ x = r @ y"
    using jval_first [OF j_null(1)] by auto
  with jval_start(1) show ?case by auto
next
  case j_true
  then obtain r where "b = CHR ''t'' # r" "jval (CHR ''t'' # r)" "''rue'' @ x = r @ y"
    using jval_first [OF j_true(1)] by auto
  with jval_start(2) show ?case by auto
next
  case j_false
  then obtain r where "b = CHR ''f'' # r" "jval (CHR ''f'' # r)" "''alse'' @ x = r @ y"
    using jval_first [OF j_false(1)] by auto
  with jval_start(3) show ?case by auto
next
  case (j_num s)
  obtain c z where c: "s = c # z" "is_digit c \<or> c = CHR ''-''" using jnum_first [OF j_num(1)] by metis
  with jval_first [OF j_num(2)] j_num(3) obtain r where "b = c # r" by auto
  with j_num(2) have "b = c # r" "jval (c # r)" by simp_all
  with jval_start(7) [OF c(2)] jnum_munch [OF j_num(1)] j_num(3-5) show ?case by blast
next
  case (j_str t s)
  obtain z where "s = CHR 0x22 # z" using write_string_quote [OF j_str(1)] by metis
  with jval_first [OF j_str(2)] j_str(3) obtain r where b: "b = CHR 0x22 # r" by auto
  with j_str(2) have "jval (CHR 0x22 # r)" by simp
  with b obtain u where "write_string u = Inr b" using jval_start(4) by blast
  then show ?case using write_string_prefix_inj [OF j_str(1) _ j_str(3)] j_str(1) by auto
next
  case j_arr0
  then obtain r where r: "b = CHR ''['' # r" "jval (CHR ''['' # r)" "'']'' @ x = r @ y"
    using jval_first [OF j_arr0(1)] by auto
  from jval_start(5) [OF r(2)] r(3) jelems_not_bracket show ?case
    unfolding r(1) by (auto simp: append_eq_Cons_conv Cons_eq_append_conv) metis+
next
  case (j_arr e)
  then obtain r where r: "b = CHR ''['' # r" "jval (CHR ''['' # r)" "e @ CHR '']'' # x = r @ y"
    using jval_first [OF j_arr(3)] by auto
  from jval_start(5) [OF r(2)] show ?case
  proof
    assume "r = '']''"
    with r(3) jelems_not_bracket [OF j_arr(1)] show ?thesis by auto
  next
    assume "\<exists>e'. jelems e' \<and> r = e' @ '']''"
    then show ?thesis using j_arr(2) r by auto
  qed
next
  case j_obj0
  then obtain r where r: "b = CHR ''{'' # r" "jval (CHR ''{'' # r)" "''}'' @ x = r @ y"
    using jval_first [OF j_obj0(1)] by auto
  from jval_start(6) [OF r(2)] r(3) jmems_not_brace show ?case
    unfolding r(1) by (auto simp: append_eq_Cons_conv Cons_eq_append_conv) metis+
next
  case (j_obj e)
  then obtain r where r: "b = CHR ''{'' # r" "jval (CHR ''{'' # r)" "e @ CHR ''}'' # x = r @ y"
    using jval_first [OF j_obj(3)] by auto
  from jval_start(6) [OF r(2)] show ?case
  proof
    assume "r = ''}''"
    with r(3) jmems_not_brace [OF j_obj(1)] show ?thesis by auto
  next
    assume "\<exists>e'. jmems e' \<and> r = e' @ ''}''"
    then show ?thesis using j_obj(2) r by auto
  qed
next
  case (e_one a)
  from e_one(3) show ?case
  proof (cases rule: jelems.cases)
    case e_one
    then show ?thesis using e_one.IH [of e' "CHR '']'' # x" "CHR '']'' # y"] e_one.prems by auto
  next
    case (e_more a' e'')
    then show ?thesis using e_one.IH [of a' "CHR '']'' # x" "'','' @ e'' @ CHR '']'' # y"] e_one.prems by auto
  qed
next
  case (e_more a e)
  from e_more(5) show ?case
  proof (cases rule: jelems.cases)
    case e_one
    then show ?thesis using e_more.IH(1) [of e' "'','' @ e @ CHR '']'' # x" "CHR '']'' # y"] e_more.prems by auto
  next
    case (e_more a' e'')
    then show ?thesis using e_more.IH(1) [of a' "'','' @ e @ CHR '']'' # x" "'','' @ e'' @ CHR '']'' # y"]
      e_more.IH(2) [of e'' x y] e_more.prems by auto
  qed
next
  case (m_one k ks a)
  from m_one(4) show ?case
  proof (cases rule: jmems.cases)
    case (m_one k' ks' a')
    with m_one.prems m_one.IH [of a' "CHR ''}'' # x" "CHR ''}'' # y"]
      write_string_prefix_inj [OF m_one.hyps(1) m_one(2), of "'':'' @ a @ CHR ''}'' # x" "'':'' @ a' @ CHR ''}'' # y"]
    show ?thesis using m_one.hyps(1) by auto
  next
    case (m_more k' ks' a' e'')
    with m_one.prems m_one.IH [of a' "CHR ''}'' # x" "'','' @ e'' @ CHR ''}'' # y"]
      write_string_prefix_inj [OF m_one.hyps(1) m_more(2), of "'':'' @ a @ CHR ''}'' # x" "'':'' @ a' @ '','' @ e'' @ CHR ''}'' # y"]
    show ?thesis by auto
  qed
next
  case (m_more k ks a e)
  from m_more(6) show ?case
  proof (cases rule: jmems.cases)
    case (m_one k' ks' a')
    with m_more.prems m_more.IH(1) [of a' "'','' @ e @ CHR ''}'' # x" "CHR ''}'' # y"]
      write_string_prefix_inj [OF m_more.hyps(1) m_one(2), of "'':'' @ a @ '','' @ e @ CHR ''}'' # x" "'':'' @ a' @ CHR ''}'' # y"]
    show ?thesis by auto
  next
    case (m_more k' ks' a' e'')
    with m_more.prems m_more.IH(1) [of a' "'','' @ e @ CHR ''}'' # x" "'','' @ e'' @ CHR ''}'' # y"]
      m_more.IH(2) [of e'' x y]
      write_string_prefix_inj [OF m_more.hyps(1) m_more(2), of "'':'' @ a @ '','' @ e @ CHR ''}'' # x" "'':'' @ a' @ '','' @ e'' @ CHR ''}'' # y"]
    show ?thesis using m_more.hyps(1) by auto
  qed
qed

section \<open>Every encoding is in the grammar\<close>

lemma num_char_digit [simp]: "is_digit c \<Longrightarrow> num_char c"
  by (simp add: num_char_def)

lemma num_char_marks [simp]:
  "num_char (CHR ''e'')" "num_char (CHR ''.'')" "num_char (CHR ''-'')" "num_char (CHR ''+'')"
  by (simp_all add: num_char_def)

lemma es6_layout_jnum:
  assumes "ds \<noteq> []" and "list_all is_digit ds"
  shows "list_all num_char (es6_layout ds n)" "es6_layout ds n \<noteq> []" "is_digit (hd (es6_layout ds n))"
proof -
  have ch: "list_all num_char ds" "list_all num_char (take i ds)" "list_all num_char (drop i ds)"
    "list_all num_char (show_nat j)" for i j
    using assms(2) show_nat_digits [of j]
    by (auto simp: list_all_iff dest: in_set_takeD in_set_dropD)
  have hd: "is_digit (hd ds)" "is_digit (hd (take (nat n) ds))" if "0 < n"
    using assms that by (cases ds; cases "nat n"; simp)+
  have h1: "is_digit (hd ds)" "is_digit (hd (take 1 ds))" using assms by (cases ds; simp)+
  show "list_all num_char (es6_layout ds n)"
    using ch by (auto simp: es6_layout_def Let_def list_all_length [of _ "replicate _ _"])
  show "es6_layout ds n \<noteq> []" using assms(1) by (auto simp: es6_layout_def Let_def)
  show "is_digit (hd (es6_layout ds n))"
    using assms(1) hd h1 by (auto simp: es6_layout_def Let_def hd_append)
qed

lemma formatNumber_jnum: "formatNumber f = Inr s \<Longrightarrow> jnum s"
proof (cases f)
  case (Fin neg m e)
  assume s: "formatNumber f = Inr s"
  show ?thesis
  proof (cases "m = 0")
    case True
    with s Fin show ?thesis by (auto simp: jnum_def)
  next
    case False
    with s Fin obtain ds x where d: "shortest m e = Some (ds, x)"
      and s': "s = (if neg then ''-'' else []) @ es6_layout ds (x + 1)"
      by (auto split: option.splits prod.splits)
    show ?thesis
      using es6_layout_jnum [OF shortest_digits [OF d], of "x + 1"] s' by (auto simp: jnum_def)
  qed
qed simp_all

lemma formatBigInt_jnum: "formatBigInt i = Inr s \<Longrightarrow> jnum s"
  by (auto simp: formatBigInt_def formatNumber_jnum split: prod.splits if_splits sum.splits)

lemma number_outputs:
  "formatInt i = Inr s \<Longrightarrow> jnum s" "formatUint i = Inr s \<Longrightarrow> jnum s" "formatJSONNumber t = Inr s \<Longrightarrow> jnum s"
  by (auto simp: formatInt_def formatUint_def formatJSONNumber_def formatIntLiteral_def formatNumber_jnum
      formatBigInt_jnum split: if_splits option.splits)

lemmas jval_intros = jval_jelems_jmems.intros [simplified]

lemma jelems_join: "xs \<noteq> [] \<Longrightarrow> \<forall>x \<in> set xs. jval x \<Longrightarrow> jelems (join '','' xs)"
  by (induction "'',''" xs rule: join.induct) (auto intro: jval_intros)

lemma jmems_join:
  "write_members path rs = Inr xs \<Longrightarrow> rs \<noteq> [] \<Longrightarrow> \<forall>(k, r) \<in> set rs. \<forall>a. r = Inr a \<longrightarrow> jval a \<Longrightarrow>
   jmems (join '','' xs)"
proof (induction path rs arbitrary: xs rule: write_members.induct)
  case (2 path k r ms)
  then obtain ks vs ys where k: "write_string k = Inr ks" "r = Inr vs" "jval vs"
    and ys: "write_members path ms = Inr ys" "xs = (ks @ '':'' @ vs) # ys" by auto
  show ?case
  proof (cases ms)
    case Nil
    with ys k show ?thesis by (auto intro: jval_intros)
  next
    case (Cons m ms')
    then obtain z zs where "ys = z # zs" using ys by (cases m) auto
    moreover have "jmems (join '','' ys)" using 2 k ys Cons by auto
    ultimately show ?thesis using m_more [OF k(1,3)] ys by simp
  qed
qed simp

lemma encode_jval:
  "encode_value path v = Inr a \<Longrightarrow> jval a"
  "encode_items path i vs = Inr xs \<Longrightarrow> \<forall>x \<in> set xs. jval x"
  "\<forall>(k, r) \<in> set (encode_members path ms). \<forall>b. r = Inr b \<longrightarrow> jval b"
proof (induction path v and path i vs and path ms arbitrary: a and xs and
    rule: encode_value_encode_items_encode_members.induct)
  case (8 path vs)
  then obtain xs where "encode_items path 0 vs = Inr xs" "a = ''['' @ join '','' xs @ '']''" by auto
  with 8 show ?case by (cases "xs = []") (auto intro: jval_intros jelems_join)
next
  case (9 path ms)
  then obtain xs where xs: "write_members path (sort_by key_less (encode_members path ms)) = Inr xs"
    "a = ''{'' @ join '','' xs @ ''}''" by auto
  show ?case
  proof (cases "sort_by key_less (encode_members path ms) = []")
    case True
    with xs show ?thesis by (auto intro: j_obj0)
  next
    case False
    with xs jmems_join [OF xs(1)] 9 have "jmems (join '','' xs)" by auto
    with xs show ?thesis by (auto intro: j_obj [simplified])
  qed
qed (auto intro: jval_jelems_jmems.intros number_outputs formatNumber_jnum)

section \<open>Unambiguous encodings\<close>

lemma encode_value_framed:
  assumes "encode_value p v = Inr a" and "encode_value q w = Inr b" and "a @ x = b @ y"
    and "closed x" and "closed y"
  shows "a = b \<and> x = y"
  using jval_unambiguous(1) encode_jval(1) assms by blast

lemma write_members_framed:
  assumes "write_members p rs = Inr xs" and "write_members q rs' = Inr ys"
    and "\<forall>(k, r) \<in> set rs. \<forall>a. r = Inr a \<longrightarrow> jval a" and "\<forall>(k, r) \<in> set rs'. \<forall>a. r = Inr a \<longrightarrow> jval a"
    and "join '','' xs @ CHR ''}'' # x = join '','' ys @ CHR ''}'' # y"
  shows "rs = rs' \<and> x = y"
  using assms
proof (induction p rs arbitrary: xs rs' ys rule: write_members.induct)
  case (1 p)
  show ?case
  proof (cases rs')
    case (Cons m ms)
    then have "jmems (join '','' ys)" using 1 jmems_join [of q rs' ys] by auto
    with 1 show ?thesis using jmems_not_brace by (metis join.simps(1) append_Nil write_members.simps(1) sum.inject(2))
  qed (use 1 in auto)
next
  case (2 p k r ms)
  then obtain ks vs zs where k: "write_string k = Inr ks" "r = Inr vs" "jval vs"
    and zs: "write_members p ms = Inr zs" "xs = (ks @ '':'' @ vs) # zs" by auto
  have ne: "jmems (join '','' xs)" using 2 jmems_join [of p "(k, r) # ms" xs] by auto
  have "rs' \<noteq> []"
  proof
    assume "rs' = []"
    with 2 have "join '','' xs @ CHR ''}'' # x = CHR ''}'' # y" by auto
    with jmems_not_brace [OF ne] show False by blast
  qed
  then obtain k' r' ms' where rs': "rs' = (k', r') # ms'" by (cases rs') auto
  with 2 obtain ks' vs' zs' where k': "write_string k' = Inr ks'" "r' = Inr vs'" "jval vs'"
    and zs': "write_members q ms' = Inr zs'" "ys = (ks' @ '':'' @ vs') # zs'" by auto
  define t where "t = (if zs = [] then CHR ''}'' # x else CHR '','' # join '','' zs @ CHR ''}'' # x)"
  define t' where "t' = (if zs' = [] then CHR ''}'' # y else CHR '','' # join '','' zs' @ CHR ''}'' # y)"
  have jt: "join '','' xs @ CHR ''}'' # x = ks @ CHR '':'' # vs @ t"
    using zs by (cases zs) (auto simp: t_def)
  have jt': "join '','' ys @ CHR ''}'' # y = ks' @ CHR '':'' # vs' @ t'"
    using zs' by (cases zs') (auto simp: t'_def)
  have eq: "ks @ CHR '':'' # vs @ t = ks' @ CHR '':'' # vs' @ t'"
    using 2 jt jt' by simp
  with write_string_prefix_inj [OF k(1) k'(1)] have kk: "k = k'" "vs @ t = vs' @ t'" by auto
  have "closed t" "closed t'" by (auto simp: t_def t'_def)
  with jval_unambiguous(1) [OF k(3) k'(3) kk(2)] have v: "vs = vs'" "t = t'" by auto
  have "join '','' zs @ CHR ''}'' # x = join '','' zs' @ CHR ''}'' # y"
    using v(2) by (auto simp: t_def t'_def split: if_splits)
  with 2 zs zs' rs' have "ms = ms' \<and> x = y" by auto
  with kk v k k' rs' show ?case by simp
qed

lemma encode_object_framed:
  assumes "encode_value p (IObj ms) = Inr b" and "encode_value q (IObj ms') = Inr b"
  shows "mset (encode_members p ms) = mset (encode_members q ms')"
proof -
  have v: "\<forall>(k, r) \<in> set (sort_by key_less (encode_members path m)). \<forall>a. r = Inr a \<longrightarrow> jval a" for path m
    using encode_jval(3) [of path m] by simp
  from assms obtain xs ys where w:
    "write_members p (sort_by key_less (encode_members p ms)) = Inr xs"
    "write_members q (sort_by key_less (encode_members q ms')) = Inr ys"
    "join '','' xs @ CHR ''}'' # [] = join '','' ys @ CHR ''}'' # []" by auto
  have "sort_by key_less (encode_members p ms) = sort_by key_less (encode_members q ms')"
    using write_members_framed [OF w(1,2) v v w(3)] by blast
  then show ?thesis by (metis mset_sort_by)
qed

text \<open>
  C7: two objects with the same canonical bytes have the same members: the same names, and under
  each name a value with the same canonical bytes.
\<close>

theorem canonical_bytes_determine_members:
  assumes "marshal (IObj ms) = Inr b" and "marshal (IObj ms') = Inr b"
  shows "mset (encode_members [] ms) = mset (encode_members [] ms')"
  using assms unfolding marshal_def by (rule encode_object_framed)

theorem canonical_bytes_determine_members_witness:
  "mset (encode_members [] [(''a'', INull), (''b'', IBool True)]) =
   mset (encode_members [] [(''b'', IBool True), (''a'', INull)])"
proof -
  have w: "write_string [c] = Inr [CHR 0x22, c, CHR 0x22]" if "c \<in> {CHR ''a'', CHR ''b''}" for c
    using that by (auto simp: write_string_def bytes_def of_bytes_def write_runes_def write_rune_def
        encode_rune_def char_of_def bit_simps)
  have "marshal (IObj [(''a'', INull), (''b'', IBool True)]) = Inr ''{\"a\":null,\"b\":true}''"
    "marshal (IObj [(''b'', IBool True), (''a'', INull)]) = Inr ''{\"a\":null,\"b\":true}''"
    by (simp_all add: marshal_def sort_by_def key_less_def less_utf16_def key_units_def bytes_def
        utf16_units_def scalar_def w)
  then show ?thesis by (rule canonical_bytes_determine_members)
qed

end
