(* ===== verification/FloatText.thy ===== *)
theory FloatText
  imports Complex_Main Numbers
begin

text \<open>
  The decimal text of a double parses back to that double: rounding is exact on the interval a shortest
  decimal is searched in, so every number the canonical encoder emits is a fixed point of re-encoding.
\<close>

section \<open>Rounding to nearest even\<close>

definition half_even :: "nat \<Rightarrow> nat \<Rightarrow> nat" where
  "half_even a b = (let q = a div b; r = a mod b in if b < 2 * r \<or> (2 * r = b \<and> odd q) then Suc q else q)"

lemma half_even_near:
  assumes "0 < b" and "2 * m * b \<le> 2 * a + b" and "2 * a \<le> 2 * m * b + b"
    and "odd m \<Longrightarrow> 2 * m * b < 2 * a + b \<and> 2 * a < 2 * m * b + b"
  shows "half_even a b = m"
proof -
  define q r where "q = a div b" and "r = a mod b"
  have a: "a = q * b + r" and r: "r < b" using assms(1) by (simp_all add: q_def r_def)
  have "q \<le> m"
  proof (rule ccontr)
    assume "\<not> q \<le> m"
    then have "Suc m * b \<le> q * b" by (intro mult_right_mono) simp_all
    with a assms(1,3) show False by simp
  qed
  moreover have "m \<le> Suc q"
  proof (rule ccontr)
    assume "\<not> m \<le> Suc q"
    then have "Suc (Suc q) * b \<le> m * b" by (intro mult_right_mono) simp_all
    with a r assms(2) show False by simp
  qed
  ultimately consider "q = m" | "m = Suc q" by linarith
  moreover have "half_even a b = (if b < 2 * r \<or> (2 * r = b \<and> odd q) then Suc q else q)"
    by (simp add: half_even_def Let_def q_def r_def)
  ultimately show ?thesis
  proof cases
    case 1
    have "2 * r \<le> b" using assms(3) a 1 by simp
    moreover have "even q" if "2 * r = b" using assms(4) a 1 that by auto
    ultimately show ?thesis
      using 1 \<open>half_even a b = _\<close> by auto
  next
    case 2
    have "b \<le> 2 * r" using assms(2) a 2 by simp
    moreover have "odd q" if "b = 2 * r" using assms(4) a 2 that by auto
    ultimately show ?thesis using 2 \<open>half_even a b = _\<close> by auto
  qed
qed

section \<open>The binary exponent\<close>

definition ratio :: "nat \<Rightarrow> nat \<Rightarrow> rat" where
  "ratio num den = rat_of_nat num / rat_of_nat den"

lemma flog2_pow: "0 < n \<Longrightarrow> (2::rat) ^ flog2 n \<le> rat_of_nat n \<and> rat_of_nat n < 2 ^ Suc (flog2 n)"
  using flog2_bounds [of n] by (metis of_nat_le_iff of_nat_less_iff of_nat_numeral of_nat_power)

lemma pow_div_le: "(a::rat) \<le> n \<Longrightarrow> 0 < d \<Longrightarrow> d \<le> b \<Longrightarrow> 0 \<le> a \<Longrightarrow> a / b \<le> n / d"
  by (rule frac_le) auto

lemma ratio_log2_bounds:
  assumes "0 < num" and "0 < den"
  shows "2 powi ratio_log2 num den \<le> ratio num den" "ratio num den < 2 powi (ratio_log2 num den + 1)"
proof -
  have n: "(2::rat) ^ flog2 num \<le> rat_of_nat num" "rat_of_nat num < 2 ^ Suc (flog2 num)"
    and d: "(2::rat) ^ flog2 den \<le> rat_of_nat den" "rat_of_nat den < 2 ^ Suc (flog2 den)"
    using flog2_pow assms by auto
  have "2 powi ratio_log2 num den \<le> ratio num den \<and> ratio num den < 2 powi (ratio_log2 num den + 1)"
  proof (cases "den \<le> num")
    case True
    define q where "q = num div den"
    have q: "0 < q" using True assms by (simp add: q_def div_greater_zero_iff)
    have l: "rat_of_nat q \<le> ratio num den"
    proof -
      have "q * den \<le> num" by (simp add: q_def)
      then have "rat_of_nat q * rat_of_nat den \<le> rat_of_nat num" by (metis of_nat_le_iff of_nat_mult)
      then show ?thesis using assms(2) by (simp add: ratio_def le_divide_eq)
    qed
    have u: "ratio num den < rat_of_nat (Suc q)"
    proof -
      have "num < Suc q * den" using assms(2) by (simp add: q_def dividend_less_div_times)
      then have "rat_of_nat num < rat_of_nat (Suc q) * rat_of_nat den" by (metis of_nat_less_iff of_nat_mult)
      then show ?thesis using assms(2) by (simp add: ratio_def divide_less_eq)
    qed
    have "Suc q \<le> 2 ^ Suc (flog2 q)" using flog2_bounds [OF q] by simp
    then have "rat_of_nat (Suc q) \<le> 2 ^ Suc (flog2 q)" by (metis of_nat_le_iff of_nat_numeral of_nat_power)
    moreover have "(2::rat) powi int (flog2 q) = 2 ^ flog2 q" "(2::rat) powi (int (flog2 q) + 1) = 2 ^ Suc (flog2 q)"
      by (simp_all add: power_int_add)
    moreover have "ratio_log2 num den = int (flog2 q)" using True by (simp add: ratio_log2_def q_def)
    ultimately show ?thesis using l u flog2_pow [OF q] by (intro conjI; simp only:; linarith)
  next
    case False
    then have lt: "num < den" by simp
    have le: "flog2 num \<le> flog2 den"
    proof (rule ccontr)
      assume "\<not> flog2 num \<le> flog2 den"
      then have "(2::nat) ^ Suc (flog2 den) \<le> 2 ^ flog2 num" by (intro power_increasing) simp_all
      with flog2_bounds [OF assms(1)] flog2_bounds [OF assms(2)] lt show False by linarith
    qed
    define k where "k = flog2 den - flog2 num"
    have e: "(2::rat) ^ flog2 den = 2 ^ flog2 num * 2 ^ k" using le by (simp add: k_def flip: power_add)
    have up: "ratio num den < 2 / 2 ^ k"
    proof -
      have "rat_of_nat num * 2 ^ k < 2 * 2 ^ flog2 den" using n(2) e by simp
      also have "\<dots> \<le> 2 * rat_of_nat den" using d by simp
      finally show ?thesis using assms(2) by (simp add: ratio_def field_simps)
    qed
    have down: "1 / (2 * 2 ^ k) \<le> ratio num den"
    proof -
      have "rat_of_nat den \<le> 2 * (2 ^ flog2 num * 2 ^ k)" using d(2) e by simp
      also have "\<dots> \<le> 2 * (rat_of_nat num * 2 ^ k)" using n(1) by simp
      finally show ?thesis using assms(2) by (simp add: ratio_def field_simps)
    qed
    have cmp: "den \<le> num * 2 ^ k \<longleftrightarrow> 1 / 2 ^ k \<le> ratio num den"
    proof -
      have "den \<le> num * 2 ^ k \<longleftrightarrow> rat_of_nat den \<le> rat_of_nat num * 2 ^ k"
        by (metis of_nat_le_iff of_nat_mult of_nat_numeral of_nat_power)
      then show ?thesis using assms(2) by (simp add: ratio_def field_simps)
    qed
    have p1: "(2::rat) powi (- int k) = 1 / 2 ^ k" by (simp add: power_int_minus field_simps)
    have p2: "(2::rat) powi (1 - int k) = 2 / 2 ^ k" by (simp add: power_int_diff)
    have p3: "(2::rat) powi (- int k - 1) = 1 / (2 * 2 ^ k)"
      by (simp add: power_int_diff power_int_minus field_simps)
    have k: "flog2 den - flog2 num = k" by (simp add: k_def)
    show ?thesis
    proof (cases "den \<le> num * 2 ^ k")
      case True
      then have "ratio_log2 num den = - int k" using False k by (simp add: ratio_log2_def Let_def)
      with True cmp up p1 p2 show ?thesis by (simp add: add.commute)
    next
      case nle: False
      then have "ratio_log2 num den = - int k - 1" using False k by (simp add: ratio_log2_def Let_def)
      with nle cmp down p1 p3 show ?thesis by (simp add: not_le)
    qed
  qed
  then show "2 powi ratio_log2 num den \<le> ratio num den" "ratio num den < 2 powi (ratio_log2 num den + 1)"
    by simp_all
qed

lemma pow2_less: "(2::rat) powi a < 2 powi b \<Longrightarrow> a < b"
  using power_int_increasing [of b a "2::rat"] by (cases "b \<le> a") (simp_all add: not_le)

lemma ratio_log2_unique:
  assumes "0 < num" and "0 < den" and "2 powi k \<le> ratio num den" and "ratio num den < 2 powi (k + 1)"
  shows "ratio_log2 num den = k"
proof -
  note b = ratio_log2_bounds [OF assms(1,2)]
  have "(2::rat) powi k < 2 powi (ratio_log2 num den + 1)" using assms(3) b(2) by linarith
  then have "k < ratio_log2 num den + 1" by (rule pow2_less)
  moreover have "(2::rat) powi ratio_log2 num den < 2 powi (k + 1)" using assms(4) b(1) by linarith
  then have "ratio_log2 num den < k + 1" by (rule pow2_less)
  ultimately show ?thesis by linarith
qed

section \<open>Rounding back\<close>

definition scale_num :: "nat \<Rightarrow> int \<Rightarrow> nat" where
  "scale_num num e = (if 0 \<le> e then num else num * 2 ^ nat (- e))"

definition scale_den :: "nat \<Rightarrow> int \<Rightarrow> nat" where
  "scale_den den e = (if 0 \<le> e then den * 2 ^ nat e else den)"

lemma scaled_ratio:
  assumes "0 < den"
  shows "rat_of_nat (scale_num num e) / rat_of_nat (scale_den den e) = ratio num den / 2 powi e"
  using assms by (simp add: scale_num_def scale_den_def ratio_def power_int_def field_simps)

lemma round_ratio_half_even:
  assumes "num \<noteq> 0" and "e = max (ratio_log2 num den - 52) (- 1074)"
    and "q = half_even (scale_num num e) (scale_den den e)"
  shows "fst (round_ratio neg num den) =
     (let (m, e') = (if q = 2 ^ 53 then (2 ^ 52, e + 1) else (q, e)) in
      if 971 < e' then Inf neg else if m = 0 then Fin neg 0 0 else Fin neg m e')"
proof -
  have "round_ratio neg num den =
     (let (m, e') = (if q = 2 ^ 53 then (2 ^ 52, e + 1) else (q, e)) in
      if 971 < e' then (Inf neg, False)
      else (if m = 0 then Fin neg 0 0 else Fin neg m e', scale_num num e mod scale_den den e = 0))"
    unfolding round_ratio_def if_not_P [OF assms(1)] assms(2) [symmetric] Let_def [of e] assms(3) half_even_def
      scale_num_def scale_den_def Let_def
    by (rule refl)
  then show ?thesis by (cases "q = 2 ^ 53") (simp_all only: Let_def prod.case if_True if_False simp_thms fst_conv if_distrib [of fst] split: if_splits)
qed

lemma half_even_ratio:
  assumes "0 < b" and y: "y = rat_of_nat a / rat_of_nat b"
    and "rat_of_nat m - 1 / 2 \<le> y" and "y \<le> rat_of_nat m + 1 / 2"
    and "odd m \<Longrightarrow> rat_of_nat m - 1 / 2 < y \<and> y < rat_of_nat m + 1 / 2"
  shows "half_even a b = m"
proof (rule half_even_near [OF assms(1)])
  have c: "rat_of_nat (2 * m * b) = 2 * rat_of_nat m * rat_of_nat b" "rat_of_nat (2 * a + b) = 2 * rat_of_nat a + rat_of_nat b"
    "rat_of_nat (2 * a) = 2 * rat_of_nat a" "rat_of_nat (2 * m * b + b) = 2 * rat_of_nat m * rat_of_nat b + rat_of_nat b"
    by simp_all
  have b: "0 < rat_of_nat b" using assms(1) by simp
  have "rat_of_nat (2 * m * b) \<le> rat_of_nat (2 * a + b)" unfolding c
    using assms(3) b y by (simp add: field_simps)
  then show "2 * m * b \<le> 2 * a + b" by (simp only: of_nat_le_iff)
  have "rat_of_nat (2 * a) \<le> rat_of_nat (2 * m * b + b)" unfolding c
    using assms(4) b y by (simp add: field_simps)
  then show "2 * a \<le> 2 * m * b + b" by (simp only: of_nat_le_iff)
  show "2 * m * b < 2 * a + b \<and> 2 * a < 2 * m * b + b" if "odd m"
  proof
    have "rat_of_nat (2 * m * b) < rat_of_nat (2 * a + b)" unfolding c
      using assms(5) [OF that] b y by (simp add: field_simps)
    then show "2 * m * b < 2 * a + b" by (simp only: of_nat_less_iff)
    have "rat_of_nat (2 * a) < rat_of_nat (2 * m * b + b)" unfolding c
      using assms(5) [OF that] b y by (simp add: field_simps)
    then show "2 * a < 2 * m * b + b" by (simp only: of_nat_less_iff)
  qed
qed

text \<open>The rounding interval of a double, as a condition on a rational.\<close>

definition near :: "nat \<Rightarrow> int \<Rightarrow> rat \<Rightarrow> bool" where
  "near m e x \<longleftrightarrow>
     (let u = 2 powi e; lo = (if m = 2 ^ 52 \<and> - 1074 < e then rat_of_nat m - 1 / 4 else rat_of_nat m - 1 / 2) * u;
          hi = (rat_of_nat m + 1 / 2) * u in
      if even m then lo \<le> x \<and> x \<le> hi else lo < x \<and> x < hi)"

lemma near_bounds:
  assumes "near m e x"
  shows "(rat_of_nat m - 1 / 2) * 2 powi e \<le> x" "x \<le> (rat_of_nat m + 1 / 2) * 2 powi e"
    "odd m \<Longrightarrow> (rat_of_nat m - 1 / 2) * 2 powi e < x \<and> x < (rat_of_nat m + 1 / 2) * 2 powi e"
    "m = 2 ^ 52 \<Longrightarrow> - 1074 < e \<Longrightarrow> (rat_of_nat m - 1 / 4) * 2 powi e \<le> x"
proof -
  have p: "(0::rat) < 2 powi e" by simp
  have "(rat_of_nat m - 1 / 2) * 2 powi e \<le> (rat_of_nat m - 1 / 4) * 2 powi e"
    using p by (intro mult_right_mono) auto
  moreover have "even m" if "m = 2 ^ 52" using that by simp
  ultimately show "(rat_of_nat m - 1 / 2) * 2 powi e \<le> x" "x \<le> (rat_of_nat m + 1 / 2) * 2 powi e"
    "odd m \<Longrightarrow> (rat_of_nat m - 1 / 2) * 2 powi e < x \<and> x < (rat_of_nat m + 1 / 2) * 2 powi e"
    "m = 2 ^ 52 \<Longrightarrow> - 1074 < e \<Longrightarrow> (rat_of_nat m - 1 / 4) * 2 powi e \<le> x"
    using assms unfolding near_def Let_def by (auto split: if_splits)
qed

lemma round_ratio_near:
  assumes wf: "wf_f64 (Fin neg m e)" and "0 < m" and "0 < den" and "0 < num"
    and near: "near m e (ratio num den)"
  shows "fst (round_ratio neg num den) = Fin neg m e"
proof -
  let ?x = "ratio num den" and ?E = "ratio_log2 num den"
  have u: "(0::rat) < 2 powi k" for k by simp
  note nb = near_bounds [OF near]
  have m53: "m < 2 ^ 53" and e: "- 1074 \<le> e" "e \<le> 971" using wf assms(2) by auto
  have shift: "2 powi (e + k) = 2 powi k * (2 :: rat) powi e" for k by (simp add: power_int_add)
  have hi: "?x < 2 powi (e + 53)"
  proof -
    have "rat_of_nat m + 1 / 2 < 2 ^ 53"
    proof -
      have "Suc m \<le> 2 ^ 53" using m53 by simp
      then have "rat_of_nat (Suc m) \<le> 2 ^ 53" by (metis of_nat_le_iff of_nat_numeral of_nat_power)
      then show ?thesis by simp
    qed
    then have "(rat_of_nat m + 1 / 2) * 2 powi e < 2 ^ 53 * 2 powi e" using u by (intro mult_strict_right_mono)
    with nb(2) shift [of 53] show ?thesis by (simp add: power_int_def)
  qed
  have done_if: ?thesis if E: "max (?E - 52) (- 1074) = e"
  proof -
    have "0 < scale_den den e" using assms(3) by (simp add: scale_den_def)
    moreover have "rat_of_nat (scale_num num e) / rat_of_nat (scale_den den e) = ?x / 2 powi e"
      by (rule scaled_ratio [OF assms(3)])
    ultimately have "half_even (scale_num num e) (scale_den den e) = m"
      using nb(1,2,3) u [of e]
      by (intro half_even_ratio [where y = "?x / 2 powi e"]) (simp_all add: le_divide_eq divide_le_eq less_divide_eq divide_less_eq)
    then show ?thesis
      using round_ratio_half_even [of num e den m neg] assms(2,4) E m53 e by simp
  qed
  show ?thesis
  proof (cases "2 powi (e + 52) \<le> ?x")
    case True
    with hi have "?E = e + 52" by (intro ratio_log2_unique [OF assms(4,3)]) (simp_all add: add.assoc)
    with e show ?thesis by (intro done_if) simp
  next
    case False
    then have lt: "?x < 2 powi (e + 52)" by simp
    have El: "?E < e + 52"
    proof -
      have "(2::rat) powi ?E < 2 powi (e + 52)" using lt ratio_log2_bounds(1) [OF assms(4,3)] by linarith
      then show ?thesis by (rule pow2_less)
    qed
    show ?thesis
    proof (cases "e = - 1074")
      case True
      with El show ?thesis by (intro done_if) simp
    next
      case nsub: False
      with wf assms(2) e have m: "2 ^ 52 \<le> m" "- 1074 < e" by auto
      have m52: "m = 2 ^ 52"
      proof (rule ccontr)
        assume "m \<noteq> 2 ^ 52"
        with m have "2 ^ 52 + 1 \<le> m" by simp
        then have "rat_of_nat (2 ^ 52 + 1) \<le> rat_of_nat m" by (simp only: of_nat_le_iff)
        then have "2 ^ 52 \<le> rat_of_nat m - 1 / 2" by simp
        then have "2 ^ 52 * 2 powi e \<le> (rat_of_nat m - 1 / 2) * 2 powi e" using u by (intro mult_right_mono) simp_all
        with nb(1) lt shift [of 52] show False by (simp add: power_int_def)
      qed
      have lo: "(2 ^ 52 - 1 / 4) * 2 powi e \<le> ?x" using nb(4) m52 m(2) by simp
      have half: "(2::rat) powi e = 2 * 2 powi (e - 1)" by (simp add: power_int_diff)
      have "2 powi (e + 51) \<le> (2 ^ 52 - 1 / 4) * (2::rat) powi e"
        unfolding shift [of 51] using u [of e] by (intro mult_right_mono) (simp_all add: power_int_def)
      with lo lt have "?E = e + 51" by (intro ratio_log2_unique [OF assms(4,3)]) (simp_all add: add.assoc)
      with m(2) have E: "max (?E - 52) (- 1074) = e - 1" by simp
      have "half_even (scale_num num (e - 1)) (scale_den den (e - 1)) = 2 ^ 53"
      proof (rule half_even_ratio)
        show "0 < scale_den den (e - 1)" using assms(3) by (simp add: scale_den_def)
        show "?x / 2 powi (e - 1) = rat_of_nat (scale_num num (e - 1)) / rat_of_nat (scale_den den (e - 1))"
          by (simp add: scaled_ratio [OF assms(3)])
        show "rat_of_nat (2 ^ 53) - 1 / 2 \<le> ?x / 2 powi (e - 1)"
          using lo half u [of "e - 1"] by (simp add: le_divide_eq algebra_simps)
        show "?x / 2 powi (e - 1) \<le> rat_of_nat (2 ^ 53) + 1 / 2"
        proof -
          have "?x \<le> 2 ^ 53 * 2 powi (e - 1)" using lt shift [of 52] half by (simp add: power_int_def)
          also have "\<dots> \<le> (rat_of_nat (2 ^ 53) + 1 / 2) * 2 powi (e - 1)" using u by (intro mult_right_mono) simp_all
          finally show ?thesis using u [of "e - 1"] by (simp add: divide_le_eq)
        qed
      qed simp
      with round_ratio_half_even [of num "e - 1" den "2 ^ 53" neg] assms(4) E e m52 show ?thesis by simp
    qed
  qed
qed

section \<open>Every rounding is a double\<close>

lemma half_even_bounds:
  assumes "0 < b" and "lo * b \<le> a" and "a < hi * b"
  shows "lo \<le> half_even a b" "half_even a b \<le> hi"
proof -
  have "lo \<le> a div b" using assms(1,2) by (simp add: less_eq_div_iff_mult_less_eq)
  moreover have "a div b < hi" using assms(3) by (simp add: less_mult_imp_div_less)
  moreover have "half_even a b = a div b \<or> half_even a b = Suc (a div b)"
    by (simp add: half_even_def Let_def)
  ultimately show "lo \<le> half_even a b" "half_even a b \<le> hi" by auto
qed

lemma half_even_ratio_bounds:
  assumes "0 < den" and "rat_of_nat lo * 2 powi e \<le> ratio num den" and "ratio num den < rat_of_nat hi * 2 powi e"
  shows "lo \<le> half_even (scale_num num e) (scale_den den e) \<and> half_even (scale_num num e) (scale_den den e) \<le> hi"
proof -
  let ?a = "scale_num num e" and ?b = "scale_den den e"
  have b: "0 < ?b" using assms(1) by (simp add: scale_den_def)
  have y: "rat_of_nat ?a / rat_of_nat ?b = ratio num den / 2 powi e" by (rule scaled_ratio [OF assms(1)])
  have u: "(0::rat) < 2 powi e" by simp
  have "rat_of_nat lo \<le> rat_of_nat ?a / rat_of_nat ?b" unfolding y using assms(2) u by (simp add: le_divide_eq)
  then have "rat_of_nat (lo * ?b) \<le> rat_of_nat ?a" using b by (simp add: le_divide_eq)
  then have l: "lo * ?b \<le> ?a" by (simp only: of_nat_le_iff)
  have "rat_of_nat ?a / rat_of_nat ?b < rat_of_nat hi" unfolding y using assms(3) u by (simp add: divide_less_eq)
  then have "rat_of_nat ?a < rat_of_nat (hi * ?b)" using b by (simp add: divide_less_eq)
  then have h: "?a < hi * ?b" by (simp only: of_nat_less_iff)
  from half_even_bounds [OF b l h] show ?thesis by simp
qed

lemma round_ratio_wf:
  assumes "0 < den"
  shows "wf_f64 (fst (round_ratio neg num den))"
proof (cases "num = 0")
  case True
  then show ?thesis by (simp add: round_ratio_def)
next
  case False
  define e where "e = max (ratio_log2 num den - 52) (- 1074)"
  define q where "q = half_even (scale_num num e) (scale_den den e)"
  have num: "0 < num" using False by simp
  note lb = ratio_log2_bounds [OF num assms]
  note rr = round_ratio_half_even [OF False e_def q_def, of neg]
  have pw: "(2::rat) powi (e + int k) = 2 ^ k * 2 powi e" for k by (simp add: power_int_add)
  have q: "(2 ^ 52 \<le> q \<and> q \<le> 2 ^ 53) \<or> (e = - 1074 \<and> q \<le> 2 ^ 52)"
  proof (cases "- 1074 \<le> ratio_log2 num den - 52")
    case True
    then have r: "ratio_log2 num den = e + int 52" by (simp add: e_def)
    have "rat_of_nat (2 ^ 52) * 2 powi e \<le> ratio num den" using lb(1) pw [of 52] r by simp
    moreover have "ratio num den < rat_of_nat (2 ^ 53) * 2 powi e"
      using lb(2) pw [of 53] r by (simp add: add.assoc)
    ultimately show ?thesis using half_even_ratio_bounds [OF assms, of "2 ^ 52" e num "2 ^ 53"] by (simp add: q_def)
  next
    case False
    then have e: "e = - 1074" and "ratio_log2 num den + 1 \<le> e + int 52" by (simp_all add: e_def)
    then have "(2::rat) powi (ratio_log2 num den + 1) \<le> 2 powi (e + int 52)" by (intro power_int_increasing) simp_all
    with lb(2) pw [of 52] have "ratio num den < rat_of_nat (2 ^ 52) * 2 powi e" by simp
    moreover have "rat_of_nat 0 * 2 powi e \<le> ratio num den" by (simp add: ratio_def)
    ultimately have "q \<le> 2 ^ 52" using half_even_ratio_bounds [OF assms, of 0 e num "2 ^ 52"] by (simp add: q_def)
    with e show ?thesis by simp
  qed
  have "- 1074 \<le> e" by (simp add: e_def)
  with q show ?thesis unfolding rr by (auto simp: Let_def)
qed

section \<open>The shortest decimal rounds back\<close>

lemma two_powi: "(2::rat) powi e = 4 * rat_of_nat (2 ^ nat (e - 2)) / rat_of_nat (2 ^ nat (2 - e))"
proof (cases "2 \<le> e")
  case True
  then obtain j where "e = int j + 2" by (metis diff_add_cancel nonneg_int_cases diff_ge_0_iff_ge)
  then show ?thesis by (simp add: power_int_add)
next
  case False
  then obtain j where "e = 2 - int j" by (metis add_diff_cancel_left' diff_add_cancel diff_diff_eq2 diff_ge_0_iff_ge linear nonneg_int_cases)
  then show ?thesis by (simp add: power_int_diff)
qed

lemma ten_powi: "(10::rat) powi g = rat_of_nat (10 ^ nat g) / rat_of_nat (10 ^ nat (- g))"
  by (cases "0 \<le> g") (simp_all add: power_int_def field_simps)

lemma double_ratio: "ratio (m * 2 ^ nat e) (2 ^ nat (- e)) = rat_of_nat m * 2 powi e"
  by (cases "0 \<le> e") (simp_all add: ratio_def power_int_def field_simps)

lemma decimal_at_near:
  assumes "0 < m" and "decimal_at m e p k = Some c"
  shows "0 < c" "near m e (rat_of_nat c * 10 powi (p + 1 - int k))"
proof -
  define g where "g = p + 1 - int k"
  define u w s t :: nat where "u = 2 ^ nat (e - 2)" and "w = 2 ^ nat (2 - e)" and "s = 10 ^ nat g" and "t = 10 ^ nat (- g)"
  have pos: "0 < u" "0 < w" "0 < s" "0 < t" by (simp_all add: u_def w_def s_def t_def)
  have "in_interval m e (c * (s * w)) (t * u)"
    using assms(2) unfolding decimal_at_def Let_def u_def w_def s_def t_def g_def
    by (auto split: if_splits)
  then have i: "in_interval m e (c * (s * w)) (t * u)" .
  show "0 < c"
  proof (rule ccontr)
    assume "\<not> 0 < c"
    with i have "0 < (if m = 2 ^ 52 \<and> - 1074 < e then 4 * m - 1 else 4 * m - 2) * (t * u) \<longrightarrow> False"
      by (auto simp: in_interval_def Let_def split: if_splits)
    with assms(1) pos show False by (auto split: if_splits)
  qed
  note e2 = two_powi [of e, folded u_def w_def]
  note g10 = ten_powi [of g, folded s_def t_def]
  have scale: "rat_of_nat (a * (t * u)) / (4 * (rat_of_nat t * rat_of_nat w) / 4) = rat_of_nat a * (rat_of_nat u / rat_of_nat w)" for a
    using pos by (simp add: field_simps)
  have le: "a * (t * u) \<le> c * (s * w) \<longleftrightarrow> rat_of_nat a / 4 * 2 powi e \<le> rat_of_nat c * 10 powi g"
    "c * (s * w) \<le> a * (t * u) \<longleftrightarrow> rat_of_nat c * 10 powi g \<le> rat_of_nat a / 4 * 2 powi e" for a
  proof -
    have "a * (t * u) \<le> c * (s * w) \<longleftrightarrow> rat_of_nat (a * (t * u)) \<le> rat_of_nat (c * (s * w))" by (simp only: of_nat_le_iff)
    then show "a * (t * u) \<le> c * (s * w) \<longleftrightarrow> rat_of_nat a / 4 * 2 powi e \<le> rat_of_nat c * 10 powi g"
      unfolding e2 g10 using pos by (simp add: field_simps)
    have "c * (s * w) \<le> a * (t * u) \<longleftrightarrow> rat_of_nat (c * (s * w)) \<le> rat_of_nat (a * (t * u))" by (simp only: of_nat_le_iff)
    then show "c * (s * w) \<le> a * (t * u) \<longleftrightarrow> rat_of_nat c * 10 powi g \<le> rat_of_nat a / 4 * 2 powi e"
      unfolding e2 g10 using pos by (simp add: field_simps)
  qed
  have m: "rat_of_nat (4 * m - 1) / 4 = rat_of_nat m - 1 / 4" "rat_of_nat (4 * m - 2) / 4 = rat_of_nat m - 1 / 2"
    "rat_of_nat (4 * m + 2) / 4 = rat_of_nat m + 1 / 2"
    using assms(1) by (simp_all add: of_nat_diff field_simps)
  define B where "B \<longleftrightarrow> m = 2 ^ 52 \<and> - 1074 < e"
  show "near m e (rat_of_nat c * 10 powi (p + 1 - int k))"
    using i unfolding in_interval_def near_def Let_def g_def [symmetric] B_def [symmetric]
    by (cases B; cases "even m") (simp_all only: if_True if_False le m simp_thms not_le [symmetric])
qed

lemma strip_zeros_shift: "0 < n \<Longrightarrow> \<exists>j. n = strip_zeros n * 10 ^ j \<and> 0 < strip_zeros n"
proof (induction n rule: less_induct)
  case (less n)
  show ?case
  proof (cases "n mod 10 = 0")
    case True
    then obtain k where k: "n = 10 * k" by (auto simp: mod_eq_0_iff_dvd dvd_def)
    with less.prems have "0 < k" "k < n" by simp_all
    with less.IH obtain j where j: "k = strip_zeros k * 10 ^ j" "0 < strip_zeros k" by blast
    have "strip_zeros n = strip_zeros k"
      using k \<open>0 < k\<close> by (subst strip_zeros.simps) simp
    with j k show ?thesis by (intro exI [of _ "Suc j"]) simp
  next
    case False
    with less.prems show ?thesis by (intro exI [of _ 0]) (simp add: strip_zeros_id)
  qed
qed

lemma shortest_near:
  assumes "0 < m" and "shortest m e = Some (ds, x)"
  obtains n where "ds = show_nat n" "0 < n" "near m e (rat_of_nat n * 10 powi (x + 1 - int (length ds)))"
proof -
  define p where "p = ratio_log10 (m * 2 ^ nat e) (2 ^ nat (- e))"
  from assms(2) obtain k c where k: "decimal_at m e p k = Some c" "ds = show_nat (strip_zeros c)"
    "x = p + 1 - int k + int (length (show_nat c)) - 1"
    by (auto simp: shortest_def Let_def p_def [symmetric] find_Some_iff split: option.splits)
  note dn = decimal_at_near [OF assms(1) k(1)]
  from strip_zeros_shift [OF dn(1)] obtain j where j: "c = strip_zeros c * 10 ^ j" "0 < strip_zeros c" by blast
  have len: "length (show_nat c) = length ds + j"
    by (subst j(1)) (simp add: show_nat_scaled [OF j(2)] k(2))
  have "rat_of_nat c * 10 powi (p + 1 - int k) = rat_of_nat (strip_zeros c) * 10 powi (x + 1 - int (length ds))"
  proof -
    have "rat_of_nat c = rat_of_nat (strip_zeros c) * 10 ^ j" by (subst j(1)) simp
    moreover have "10 powi (x + 1 - int (length ds)) = 10 ^ j * (10 :: rat) powi (p + 1 - int k)"
    proof -
      have "x + 1 - int (length ds) = int j + (p + 1 - int k)" using k(3) len by simp
      then have "10 powi (x + 1 - int (length ds)) = (10 :: rat) powi (int j + (p + 1 - int k))" by (simp only:)
      also have "\<dots> = 10 ^ j * 10 powi (p + 1 - int k)" by (subst power_int_add) simp_all
      finally show ?thesis .
    qed
    ultimately show ?thesis by simp
  qed
  with dn(2) have "near m e (rat_of_nat (strip_zeros c) * 10 powi (x + 1 - int (length ds)))" by simp
  with k(2) j(2) show thesis by (rule that)
qed

text \<open>A decimal written as digits and a power of ten, as the ratio \<open>ParseFloat\<close> rounds.\<close>

lemma ratio_decimal: "ratio (d * 10 ^ nat x) (10 ^ nat (- x)) = rat_of_nat d * 10 powi x"
  by (cases "0 \<le> x") (simp_all add: ratio_def power_int_def field_simps)

lemma decimal_parses:
  assumes "wf_f64 (Fin neg m e)" and "0 < m" and "0 < d" and "near m e (rat_of_nat d * 10 powi x)"
  shows "fst (round_ratio neg (d * 10 ^ nat x) (10 ^ nat (- x))) = Fin neg m e"
  using assms by (intro round_ratio_near) (simp_all add: ratio_decimal)

lemma formatNumber_parts:
  assumes "m \<noteq> 0" and "formatNumber (Fin neg m e) = Inr s"
  obtains ds x where "shortest m e = Some (ds, x)" "s = (if neg then ''-'' else []) @ es6_layout ds (x + 1)"
  using assms by (auto split: option.splits prod.splits)

lemma text_parses_back:
  assumes "wf_f64 (Fin neg m e)" and "m \<noteq> 0" and "formatNumber (Fin neg m e) = Inr s"
  shows "parseFloat s = Some (Fin neg m e)"
proof -
  from formatNumber_parts [OF assms(2,3)] obtain ds x where sh: "shortest m e = Some (ds, x)"
    and s: "s = (if neg then ''-'' else []) @ es6_layout ds (x + 1)" .
  have m: "0 < m" using assms(2) by simp
  from shortest_near [OF m sh] obtain n where n: "ds = show_nat n" "0 < n"
    "near m e (rat_of_nat n * 10 powi (x + 1 - int (length ds)))" .
  define g where "g = x + 1 - int (length ds)"
  have rn: "read_nat ds = n" by (simp add: n(1) read_show_nat)
  have r: "\<exists>d y. read_decimal s = Some (neg, d, y) \<and> 0 < d \<and> rat_of_nat d * 10 powi y = rat_of_nat n * 10 powi g"
  proof (cases "int (length ds) \<le> x + 1 \<and> x + 1 \<le> 21")
    case True
    then have "read_decimal s = Some (neg, n * 10 ^ nat g, 0)"
      using read_decimal_layout [OF shortest_digits [OF sh], of neg "x + 1"] by (simp add: s rn g_def)
    moreover have "rat_of_nat (n * 10 ^ nat g) * 10 powi 0 = rat_of_nat n * 10 powi g"
      using True by (simp add: g_def power_int_def)
    ultimately show ?thesis using n(2) by (intro exI [of _ "n * 10 ^ nat g"] exI [of _ 0] conjI) simp_all
  next
    case False
    then have "read_decimal s = Some (neg, n, g)"
      using read_decimal_layout [OF shortest_digits [OF sh], of neg "x + 1"] unfolding if_not_P [OF False]
      by (simp add: s rn g_def)
    then show ?thesis using n(2) by (intro exI [of _ n] exI [of _ g] conjI) simp_all
  qed
  then obtain d y where d: "read_decimal s = Some (neg, d, y)" "0 < d"
    "rat_of_nat d * 10 powi y = rat_of_nat n * 10 powi g" by blast
  have "fst (round_ratio neg (d * 10 ^ nat y) (10 ^ nat (- y))) = Fin neg m e"
    using n(3) d(3) by (intro decimal_parses [OF assms(1) m d(2)]) (simp add: g_def)
  with d(1) show ?thesis by (simp add: parseFloat_def)
qed

section \<open>Seventeen digits are enough\<close>

lemma ratio_log10_below:
  assumes "0 < num" and "0 < den" and "den \<le> 10 ^ 399"
  shows "10 powi ratio_log10 num den \<le> ratio num den"
proof (cases "den \<le> num")
  case True
  define q where "q = num div den"
  have "0 < q" using True assms(2) by (simp add: q_def div_greater_zero_iff)
  then have "10 ^ (length (show_nat q) - 1) \<le> q" using show_nat_bounds [of q] by simp
  then have "10 ^ (length (show_nat q) - 1) * den \<le> num"
    using assms(2) by (simp add: q_def less_eq_div_iff_mult_less_eq)
  then have "rat_of_nat (10 ^ (length (show_nat q) - 1) * den) \<le> rat_of_nat num" by (simp only: of_nat_le_iff)
  then have "10 ^ (length (show_nat q) - 1) \<le> ratio num den" using assms(2) by (simp add: ratio_def le_divide_eq)
  moreover have "show_nat q \<noteq> []" using show_nat_digits [of q] by simp
  then have "ratio_log10 num den = int (length (show_nat q) - 1)"
    unfolding ratio_log10_def if_P [OF True] q_def [symmetric] by (cases "show_nat q") simp_all
  ultimately show ?thesis by simp
next
  case False
  have "find (\<lambda>j. den \<le> num * 10 ^ j) [1..<400] \<noteq> None"
  proof
    assume "find (\<lambda>j. den \<le> num * 10 ^ j) [1..<400] = None"
    then have "\<not> den \<le> num * 10 ^ 399" by (simp add: find_None_iff del: power_numeral)
    moreover have "1 * 10 ^ 399 \<le> num * 10 ^ 399" using assms(1) by (intro mult_right_mono) simp_all
    ultimately show False using assms(3) by linarith
  qed
  then obtain j where j: "find (\<lambda>j. den \<le> num * 10 ^ j) [1..<400] = Some j" by blast
  then have "den \<le> num * 10 ^ j" by (auto simp: find_Some_iff)
  then have "rat_of_nat den \<le> rat_of_nat (num * 10 ^ j)" by (simp only: of_nat_le_iff)
  then have "1 / 10 ^ j \<le> ratio num den" using assms(2) by (simp add: ratio_def field_simps)
  then show ?thesis using False j by (simp add: ratio_log10_def power_int_minus field_simps)
qed

text \<open>
  With seventeen digits the spacing of the decimals is below the width of the rounding interval, so
  the nearer of the two neighbours of the double lies inside it.
\<close>

lemma nearer_neighbour_inside:
  assumes "0 < D" and "0 < den" and "m < 2 ^ 53" and "0 < m" and "den * 10 ^ 16 \<le> 4 * m * D"
  shows "in_interval m e (4 * m * D div den * den) D \<or> in_interval m e (Suc (4 * m * D div den) * den) D"
proof -
  define N where "N = 4 * m * D"
  define c r where "c = N div den" and "r = N mod den"
  have N: "N = c * den + r" "r < den" using assms(2) by (simp_all add: c_def r_def)
  define h where "h = (if m = 2 ^ 52 then D else 2 * D)"
  have den: "den < 2 * h"
  proof -
    have "4 * m * D < 10 ^ 16 * (2 * h)"
    proof (cases "m = 2 ^ 52")
      case True
      with assms(1) show ?thesis by (simp add: h_def)
    next
      case False
      have "m * D < 2 ^ 53 * D" using assms(1,3) by (intro mult_strict_right_mono) simp_all
      with False show ?thesis by (simp add: h_def)
    qed
    with assms(5) have "10 ^ 16 * den < 10 ^ 16 * (2 * h)" by (simp only: mult.commute)
    then show ?thesis by simp
  qed
  have lo: "(if m = 2 ^ 52 \<and> - 1074 < e then 4 * m - 1 else 4 * m - 2) * D + h \<le> N"
    using assms(1,4) by (auto simp: N_def h_def diff_mult_distrib)
  have hi: "N + h \<le> (4 * m + 2) * D" by (simp add: N_def h_def algebra_simps)
  have "in_interval m e x D" if "N < x + h" "x < N + h" for x
    using that lo hi unfolding in_interval_def Let_def by auto
  then show ?thesis using N den unfolding N_def [symmetric] c_def [symmetric] by (cases "2 * r \<le> den") auto
qed

lemma shortest_total:
  assumes "wf_f64 (Fin neg m e)" and "m \<noteq> 0"
  shows "\<exists>ds x. shortest m e = Some (ds, x)"
proof -
  have m: "0 < m" "m < 2 ^ 53" and e: "- 1074 \<le> e" using assms by auto
  define p where "p = ratio_log10 (m * 2 ^ nat e) (2 ^ nat (- e))"
  have "(2::nat) ^ nat (- e) \<le> 2 ^ 1074" using e by (intro power_increasing) simp_all
  also have "\<dots> \<le> 10 ^ 399" by simp
  finally have p: "10 powi p \<le> rat_of_nat m * 2 powi e"
    unfolding p_def double_ratio [symmetric] using m by (intro ratio_log10_below) simp_all
  define g where "g = p + 1 - int 17"
  define u w s t :: nat where "u = 2 ^ nat (e - 2)" and "w = 2 ^ nat (2 - e)" and "s = 10 ^ nat g" and "t = 10 ^ nat (- g)"
  have pos: "0 < u" "0 < w" "0 < s" "0 < t" by (simp_all add: u_def w_def s_def t_def)
  have "p = g + 16" by (simp add: g_def)
  then have "rat_of_nat s / rat_of_nat t * 10 ^ 16 \<le> rat_of_nat m * (4 * rat_of_nat u / rat_of_nat w)"
    using p two_powi [of e] ten_powi [of g] unfolding u_def w_def s_def t_def by (simp add: power_int_add)
  then have "rat_of_nat (s * w * 10 ^ 16) \<le> rat_of_nat (4 * m * (t * u))"
    using pos by (simp add: field_simps)
  then have "s * w * 10 ^ 16 \<le> 4 * m * (t * u)" by (simp only: of_nat_le_iff)
  from nearer_neighbour_inside [OF _ _ m(2,1) this, of e] pos
  have "decimal_at m e p 17 \<noteq> None"
    unfolding decimal_at_def Let_def g_def [symmetric] u_def [symmetric] w_def [symmetric] s_def [symmetric] t_def [symmetric]
    by (auto simp: ac_simps)
  moreover have "(17::nat) \<in> set [1..<18]" by simp
  ultimately have "find (\<lambda>k. decimal_at m e p k \<noteq> None) [1..<18] \<noteq> None"
    unfolding find_None_iff by blast
  then show ?thesis unfolding shortest_def p_def [symmetric] by (auto simp: Let_def)
qed

lemma zero_text_parses: "parseFloat ''0'' = Some (Fin False 0 0)"
  by (simp add: parseFloat_def read_decimal_def read_digits_def read_nat_def digit_val_def split_sign_def round_ratio_def)

text \<open>
  C8: every finite double has an ECMAScript text, found with at most seventeen digits, and that text
  parses back, rounded to nearest even, to exactly that double; the two zeros share the text \<open>C8: 0\<close>, which
  reads as the positive one.
\<close>

theorem number_text_parses_back:
  assumes "wf_f64 (Fin neg m e)"
  shows "\<exists>s. formatNumber (Fin neg m e) = Inr s \<and>
    parseFloat s = Some (if m = 0 then Fin False 0 0 else Fin neg m e)"
proof (cases "m = 0")
  case True
  then show ?thesis by (simp add: zero_text_parses)
next
  case False
  from shortest_total [OF assms False] obtain ds x where "shortest m e = Some (ds, x)" by blast
  with False have f: "formatNumber (Fin neg m e) = Inr ((if neg then ''-'' else []) @ es6_layout ds (x + 1))" by simp
  with text_parses_back [OF assms False f] False show ?thesis by auto
qed

theorem number_text_parses_back_witness:
  "wf_f64 (Fin True (2 ^ 52) 8) \<and> parseFloat ''-1152921504606847000'' = Some (Fin True (2 ^ 52) 8)"
proof -
  note s = shortest_of_2_60
  have "es6_layout ''1152921504606847'' 19 = ''1152921504606847000''" by code_simp
  then have f: "formatNumber (Fin True (2 ^ 52) 8) = Inr ''-1152921504606847000''"
    by (simp only: formatNumber.simps s option.case prod.case) simp
  have "wf_f64 (Fin True (2 ^ 52) 8)" by simp
  with number_text_parses_back [OF this] f show ?thesis by simp
qed

section \<open>Re-encoding a number\<close>

lemma read_int_show: "read_int (show_int i) = Some i"
proof -
  have h: "is_digit (hd (show_nat n))" for n using show_nat_digits [of n] by (simp add: list.set_sel(1))
  have "split_sign (show_nat n) = (False, show_nat n)" for n
    using h [of n] by (cases "show_nat n") auto
  then show ?thesis by (auto simp: show_int_def read_int_def split_sign_def)
qed

lemma show_int_plain: "\<not> contains_any (show_int i) ''.eE''"
proof -
  have "c \<noteq> CHR ''.'' \<and> c \<noteq> CHR ''e'' \<and> c \<noteq> CHR ''E''" if "c \<in> set (show_nat n)" for c n
    using show_nat_digits [of n] that not_is_digit by metis
  then show ?thesis by (auto simp: contains_any_def show_int_def)
qed

lemma formatBigInt_of_float:
  assumes "fst (exactFloat64 i) = f" and "formatNumber f = Inr (show_int i)"
  shows "formatBigInt i = Inr (show_int i)"
  using assms by (cases "exactFloat64 i") (simp add: formatBigInt_def)

lemma layout_marked:
  assumes "\<not> (int (length ds) \<le> n \<and> n \<le> 21)"
  shows "contains_any (es6_layout ds n) ''.eE''"
  unfolding es6_layout_def Let_def if_not_P [OF assms] contains_any_def by simp

lemma formatNumber_stable:
  assumes wf: "wf_f64 f" and f: "formatNumber f = Inr s"
  shows "formatJSONNumber s = Inr s"
proof (cases f)
  case (Fin neg m e)
  show ?thesis
  proof (cases "m = 0")
    case True
    have "formatBigInt 0 = Inr ''0''" by (simp add: formatBigInt_def exactFloat64_def round_ratio_def)
    moreover have "s = ''0''" using f Fin True by simp
    moreover have "read_int ''0'' = Some 0" by (simp add: read_int_def split_sign_def read_digits_def read_nat_def digit_val_def)
    ultimately show ?thesis by (simp add: formatJSONNumber_def contains_any_def formatIntLiteral_def)
  next
    case False
    from formatNumber_parts [OF False f [unfolded Fin]] obtain ds x where sh: "shortest m e = Some (ds, x)"
      and s: "s = (if neg then ''-'' else []) @ es6_layout ds (x + 1)" .
    have m: "0 < m" using False by simp
    show ?thesis
    proof (cases "int (length ds) \<le> x + 1 \<and> x + 1 \<le> 21")
      case nw: False
      then have "contains_any s ''.eE''" using layout_marked [OF nw] by (auto simp: s contains_any_def)
      moreover have "parseFloat s = Some f"
        using text_parses_back [OF wf [unfolded Fin] False f [unfolded Fin]] Fin by simp
      ultimately show ?thesis using f by (simp add: formatJSONNumber_def)
    next
      case True
      from shortest_near [OF m sh] obtain n where n: "ds = show_nat n" "0 < n"
        "near m e (rat_of_nat n * 10 powi (x + 1 - int (length ds)))" .
      define j where "j = nat (x + 1 - int (length ds))"
      have g: "x + 1 - int (length ds) = int j" using True by (simp add: j_def)
      define N where "N = n * 10 ^ j"
      have N: "0 < N" using n(2) by (simp add: N_def)
      define i where "i = (if neg then - int N else int N)"
      have neg: "(i < 0) = neg" "nat \<bar>i\<bar> = N" using N by (simp_all add: i_def)
      have "es6_layout ds (x + 1) = show_nat N"
        using True by (simp add: es6_layout_def show_nat_scaled [OF n(2)] n(1) j_def N_def)
      then have si: "s = show_int i" using N by (cases neg) (simp_all add: s show_int_def i_def)
      have "fst (exactFloat64 i) = f"
        unfolding exactFloat64_def neg Fin
        using N n(3) g by (intro round_ratio_near [OF wf [unfolded Fin] m]) (simp_all add: ratio_def N_def)
      from formatBigInt_of_float [OF this] f si show ?thesis
        by (simp add: formatJSONNumber_def show_int_plain formatIntLiteral_def read_int_show)
    qed
  qed
qed (use f in simp_all)

lemma formatBigInt_stable:
  assumes "formatBigInt i = Inr s"
  shows "formatJSONNumber s = Inr s"
proof -
  obtain f ex where f: "exactFloat64 i = (f, ex)" by (cases "exactFloat64 i")
  then have "wf_f64 f" using round_ratio_wf [of 1 "i < 0" "nat \<bar>i\<bar>"] by (simp add: exactFloat64_def)
  moreover have "formatNumber f = Inr s"
    using assms f by (auto simp: formatBigInt_def split: if_splits sum.splits)
  ultimately show ?thesis by (rule formatNumber_stable)
qed

lemma parseFloat_wf: "parseFloat s = Some f \<Longrightarrow> wf_f64 f"
proof -
  assume a: "parseFloat s = Some f"
  then obtain neg d x where "read_decimal s = Some (neg, d, x)" by (auto simp: parseFloat_def split: option.splits)
  with a have "f = fst (round_ratio neg (d * 10 ^ nat x) (10 ^ nat (- x)))"
    by (auto simp: parseFloat_def split: f64.splits)
  then show "wf_f64 f" by (simp add: round_ratio_wf)
qed

lemma number_texts_stable:
  "formatInt i = Inr s \<Longrightarrow> formatJSONNumber s = Inr s"
  "formatUint i = Inr s \<Longrightarrow> formatJSONNumber s = Inr s"
  "formatJSONNumber t = Inr s \<Longrightarrow> formatJSONNumber s = Inr s"
proof -
  have w: "wf_f64 (float64_of_int j)" for j by (simp add: float64_of_int_def round_ratio_wf)
  show "formatInt i = Inr s \<Longrightarrow> formatJSONNumber s = Inr s" "formatUint i = Inr s \<Longrightarrow> formatJSONNumber s = Inr s"
    by (auto simp: formatInt_def formatUint_def split: if_splits intro: formatNumber_stable [OF w] formatBigInt_stable)
  show "formatJSONNumber s = Inr s" if t: "formatJSONNumber t = Inr s"
  proof (cases "contains_any t ''.eE''")
    case True
    with t have "(case parseFloat t of None \<Rightarrow> Inl ErrNotFinite | Some f \<Rightarrow> formatNumber f) = Inr s"
      by (simp add: formatJSONNumber_def)
    then obtain f where "parseFloat t = Some f" "formatNumber f = Inr s" by (cases "parseFloat t") simp_all
    with formatNumber_stable parseFloat_wf show ?thesis by blast
  next
    case False
    with t have "(case read_int t of None \<Rightarrow> Inl ErrNotFinite | Some i \<Rightarrow> formatBigInt i) = Inr s"
      by (simp add: formatJSONNumber_def formatIntLiteral_def)
    then obtain i where "formatBigInt i = Inr s" by (cases "read_int t") simp_all
    then show ?thesis by (rule formatBigInt_stable)
  qed
qed

end
