(* ===== verification/Json.thy ===== *)
theory Json
  imports Framing FloatText
begin

text \<open>
  What the modelled code uses of \<^verbatim>\<open>encoding/json\<close> to read: the lexical grammar of RFC 8259 as its
  scanner implements it, and whole documents as trees with their members in order.  A string literal is
  read by \<^const>\<open>read_body\<close>.
\<close>

section \<open>Lexing\<close>

definition is_ws :: "char \<Rightarrow> bool" where
  "is_ws c \<longleftrightarrow> c = CHR '' '' \<or> (of_char c :: nat) \<in> {9, 10, 13}"

definition skip_ws :: "string \<Rightarrow> string" where "skip_ws s = dropWhile is_ws s"

text \<open>After the opening quote.\<close>

definition read_str :: "string \<Rightarrow> (string \<times> string) option" where
  "read_str s = (case read_body (bytes s) of None \<Rightarrow> None
     | Some (rs, lone, rest) \<Rightarrow> Some (of_bytes (concat (map encode_rune rs)), of_bytes rest))"

definition lex_int :: "string \<Rightarrow> (string \<times> string) option" where
  "lex_int s = (case s of [] \<Rightarrow> None
     | c # r \<Rightarrow> if c = CHR ''0'' then Some ([c], r)
                else if is_digit c then Some (takeWhile is_digit s, dropWhile is_digit s) else None)"

definition lex_digits :: "string \<Rightarrow> string \<Rightarrow> (string \<times> string) option" where
  "lex_digits p s = (if takeWhile is_digit s = [] then None
     else Some (p @ takeWhile is_digit s, dropWhile is_digit s))"

definition lex_frac :: "string \<Rightarrow> (string \<times> string) option" where
  "lex_frac s = (case s of [] \<Rightarrow> Some ([], [])
     | c # r \<Rightarrow> if c = CHR ''.'' then lex_digits [c] r else Some ([], s))"

definition lex_exp :: "string \<Rightarrow> (string \<times> string) option" where
  "lex_exp s = (case s of [] \<Rightarrow> Some ([], [])
     | c # r \<Rightarrow> if c = CHR ''e'' \<or> c = CHR ''E'' then
                  (case r of [] \<Rightarrow> None
                   | d # r' \<Rightarrow> if d = CHR ''+'' \<or> d = CHR ''-'' then lex_digits [c, d] r' else lex_digits [c] r)
                else Some ([], s))"

definition lex_unsigned :: "string \<Rightarrow> (string \<times> string) option" where
  "lex_unsigned s =
     (case lex_int s of None \<Rightarrow> None
      | Some (i, r1) \<Rightarrow>
          (case lex_frac r1 of None \<Rightarrow> None
           | Some (f, r2) \<Rightarrow>
               (case lex_exp r2 of None \<Rightarrow> None | Some (x, r3) \<Rightarrow> Some (i @ f @ x, r3))))"

definition lex_num :: "string \<Rightarrow> (string \<times> string) option" where
  "lex_num s = (case s of [] \<Rightarrow> None
     | c # r \<Rightarrow> if c = CHR ''-'' then map_option (\<lambda>(n, r'). (c # n, r')) (lex_unsigned r) else lex_unsigned s)"

section \<open>Numbers before a delimiter\<close>

definition stops :: "string \<Rightarrow> bool" where
  "stops r \<longleftrightarrow> (case r of [] \<Rightarrow> True | c # _ \<Rightarrow> \<not> num_char c \<and> c \<noteq> CHR ''E'')"

lemma stops_Nil [simp]: "stops []"
  by (simp add: stops_def)

lemma stops_marks [simp]: "stops (CHR '','' # r)" "stops (CHR '']'' # r)" "stops (CHR ''}'' # r)"
  by (simp_all add: stops_def num_char_def)

lemma stops_digit: "stops r \<Longrightarrow> takeWhile is_digit (s @ r) = takeWhile is_digit s \<and>
    dropWhile is_digit (s @ r) = dropWhile is_digit s @ r"
  by (induction s) (auto simp: stops_def num_char_def split: list.splits)

lemma lex_digits_append: "lex_digits p s = Some (a, b) \<Longrightarrow> stops r \<Longrightarrow> lex_digits p (s @ r) = Some (a, b @ r)"
  by (auto simp: lex_digits_def stops_digit split: if_splits)

lemma lex_int_append: "lex_int s = Some (a, b) \<Longrightarrow> stops r \<Longrightarrow> lex_int (s @ r) = Some (a, b @ r)"
proof (cases s)
  case (Cons c t)
  assume "lex_int s = Some (a, b)" "stops r"
  with Cons stops_digit [of r s] show ?thesis by (auto simp: lex_int_def split: if_splits)
qed (simp add: lex_int_def)

lemma lex_frac_append:
  assumes "lex_frac s = Some (a, b)" and "stops r"
  shows "lex_frac (s @ r) = Some (a, b @ r)"
proof (cases s)
  case Nil
  with assms show ?thesis by (cases r) (auto simp: lex_frac_def stops_def num_char_def)
next
  case (Cons c t)
  with assms lex_digits_append [of "[c]" t a b r] show ?thesis by (auto simp: lex_frac_def split: if_splits)
qed

lemma lex_exp_append:
  assumes "lex_exp s = Some (a, b)" and "stops r"
  shows "lex_exp (s @ r) = Some (a, b @ r)"
proof (cases s)
  case Nil
  with assms show ?thesis by (cases r) (auto simp: lex_exp_def stops_def num_char_def)
next
  case (Cons c t)
  show ?thesis
  proof (cases "c = CHR ''e'' \<or> c = CHR ''E''")
    case True
    with assms Cons obtain d t' where t: "t = d # t'" by (cases t) (auto simp: lex_exp_def)
    with assms Cons True lex_digits_append [of "[c, d]" t' a b r] lex_digits_append [of "[c]" t a b r]
    show ?thesis by (auto simp: lex_exp_def split: if_splits)
  next
    case False
    with assms Cons show ?thesis by (auto simp: lex_exp_def)
  qed
qed

lemma lex_unsigned_append:
  assumes "lex_unsigned s = Some (a, b)" and "stops r"
  shows "lex_unsigned (s @ r) = Some (a, b @ r)"
proof -
  from assms(1) obtain i r1 f r2 x r3 where l: "lex_int s = Some (i, r1)" "lex_frac r1 = Some (f, r2)"
    "lex_exp r2 = Some (x, r3)" "a = i @ f @ x" "b = r3"
    by (auto simp: lex_unsigned_def split: option.splits prod.splits)
  from lex_int_append [OF l(1) assms(2)] lex_frac_append [OF l(2) assms(2)] lex_exp_append [OF l(3) assms(2)] l(4,5)
  show ?thesis by (simp add: lex_unsigned_def)
qed

lemma lex_num_append:
  assumes "lex_num s = Some (a, b)" and "stops r"
  shows "lex_num (s @ r) = Some (a, b @ r)"
proof (cases s)
  case (Cons c t)
  show ?thesis
  proof (cases "c = CHR ''-''")
    case True
    with assms(1) Cons obtain n where "lex_unsigned t = Some (n, b)" "a = c # n" by (auto simp: lex_num_def)
    with lex_unsigned_append [OF this(1) assms(2)] Cons True show ?thesis by (simp add: lex_num_def)
  next
    case False
    with assms(1) Cons have "lex_unsigned s = Some (a, b)" by (simp add: lex_num_def)
    from lex_unsigned_append [OF this assms(2)] Cons False show ?thesis by (simp add: lex_num_def)
  qed
qed (use assms(1) in \<open>simp add: lex_num_def\<close>)

section \<open>The numbers the encoder emits are JSON numbers\<close>

definition json_number :: "string \<Rightarrow> bool" where
  "json_number s \<longleftrightarrow> lex_num s = Some (s, [])"

lemma show_nat_first:
  "0 < n \<Longrightarrow> \<exists>c r. show_nat n = c # r \<and> is_digit c \<and> c \<noteq> CHR ''0'' \<and> list_all is_digit r"
proof (induction n rule: less_induct)
  case (less n)
  show ?case
  proof (cases "n < 10")
    case True
    with less.prems have "n \<in> {1, 2, 3, 4, 5, 6, 7, 8, 9}" by auto
    then show ?thesis by (auto simp: show_nat_small is_digit_def)
  next
    case False
    then have "0 < n div 10" "n div 10 < n" by simp_all
    from less.IH [OF this(2,1)] obtain c r where "show_nat (n div 10) = c # r" "is_digit c" "c \<noteq> CHR ''0''"
      "list_all is_digit r" by blast
    with False show ?thesis by (simp add: show_nat_big)
  qed
qed

lemma digits_all: "list_all is_digit s \<Longrightarrow> takeWhile is_digit (s @ r) = s @ takeWhile is_digit r \<and>
    dropWhile is_digit (s @ r) = dropWhile is_digit r"
  by (induction s) auto

lemma lex_int_digits:
  assumes "is_digit c" and "c \<noteq> CHR ''0''" and "list_all is_digit s"
    and "takeWhile is_digit r = []"
  shows "lex_int (c # s @ r) = Some (c # s, r)"
proof -
  have "dropWhile is_digit r = r" using assms(4) by (cases r) (auto split: if_splits)
  with digits_all [OF assms(3), of r] assms show ?thesis by (simp add: lex_int_def)
qed

lemma lex_digits_before:
  assumes "list_all is_digit s" and "s \<noteq> []" and "takeWhile is_digit r = []"
  shows "lex_digits p (s @ r) = Some (p @ s, r)"
proof -
  have "dropWhile is_digit r = r" using assms(3) by (cases r) (auto split: if_splits)
  with digits_all [OF assms(1), of r] assms(2,3) show ?thesis unfolding lex_digits_def by simp
qed

lemmas lex_digits_only = lex_digits_before [where r = "[]", simplified]

lemma lex_exp_show:
  "sg = CHR ''+'' \<or> sg = CHR ''-'' \<Longrightarrow> lex_exp (CHR ''e'' # sg # show_nat n) = Some (CHR ''e'' # sg # show_nat n, [])"
proof -
  assume sg: "sg = CHR ''+'' \<or> sg = CHR ''-''"
  have "list_all is_digit (show_nat n)" using show_nat_digits by (simp add: list_all_iff)
  from lex_digits_only [OF this] sg show ?thesis by (simp add: lex_exp_def)
qed

lemma es6_layout_number:
  assumes "0 < n"
  shows "lex_unsigned (es6_layout (show_nat n) x) = Some (es6_layout (show_nat n) x, [])"
proof -
  from show_nat_first [OF assms] obtain c r where s: "show_nat n = c # r" "is_digit c" "c \<noteq> CHR ''0''"
    "list_all is_digit r" by blast
  let ?k = "int (length (c # r))"
  have dz: "list_all is_digit (replicate j (CHR ''0''))" for j by (induction j) simp_all
  have dall: "list_all is_digit (c # r)" using s by simp
  consider (whole) "?k \<le> x" "x \<le> 21" | (point) "\<not> ?k \<le> x" "0 < x" "x \<le> 21"
    | (lead) "\<not> (?k \<le> x \<and> x \<le> 21)" "- 6 < x" "x \<le> 0"
    | (expo) "\<not> (?k \<le> x \<and> x \<le> 21)" "\<not> (0 < x \<and> x \<le> 21)" "\<not> (- 6 < x \<and> x \<le> 0)"
    by linarith
  then show ?thesis
  proof cases
    case whole
    have "list_all is_digit (r @ replicate (nat (x - ?k)) (CHR ''0''))" using s(4) dz by simp
    from lex_int_digits [OF s(2,3) this, of "[]"] whole s show ?thesis
      by (simp add: es6_layout_def lex_unsigned_def lex_frac_def lex_exp_def)
  next
    case point
    define a b where "a = take (nat x - 1) r" and "b = drop (nat x - 1) r"
    have tk: "take (nat x) (c # r) = c # a" "drop (nat x) (c # r) = b"
      using point by (cases "nat x"; simp add: a_def b_def)+
    have ab: "list_all is_digit a" "list_all is_digit b" "b \<noteq> []"
      using s(4) point by (auto simp: a_def b_def list_all_iff dest: in_set_takeD in_set_dropD)
    have "lex_int (c # a @ CHR ''.'' # b) = Some (c # a, CHR ''.'' # b)"
      by (rule lex_int_digits [OF s(2,3) ab(1)]) simp
    moreover have "lex_frac (CHR ''.'' # b) = Some (CHR ''.'' # b, [])"
      using lex_digits_only [OF ab(2,3)] by (simp add: lex_frac_def)
    ultimately show ?thesis
      using point s tk by (simp add: es6_layout_def lex_unsigned_def lex_exp_def)
  next
    case lead
    let ?d = "replicate (nat (- x)) (CHR ''0'') @ c # r"
    have "list_all is_digit ?d" using dz dall by simp
    from lex_digits_only [OF this] have "lex_frac (CHR ''.'' # ?d) = Some (CHR ''.'' # ?d, [])"
      by (simp add: lex_frac_def)
    then show ?thesis using lead s by (simp add: es6_layout_def lex_unsigned_def lex_int_def lex_exp_def)
  next
    case expo
    define ex where "ex = CHR ''e'' # (if 0 \<le> x - 1 then CHR ''+'' else CHR ''-'') # show_nat (nat \<bar>x - 1\<bar>)"
    have ex: "lex_exp ex = Some (ex, [])" unfolding ex_def by (rule lex_exp_show) simp
    show ?thesis
    proof (cases r)
      case Nil
      have "es6_layout (show_nat n) x = c # ex" using expo s Nil by (simp add: es6_layout_def ex_def)
      moreover have "lex_int (c # [] @ ex) = Some ([c], ex)"
        by (rule lex_int_digits [OF s(2,3)]) (simp_all add: ex_def)
      moreover have "lex_frac ex = Some ([], ex)" by (simp add: lex_frac_def ex_def)
      ultimately show ?thesis using ex by (simp add: lex_unsigned_def)
    next
      case (Cons d r')
      have lay: "es6_layout (show_nat n) x = c # CHR ''.'' # r @ ex"
        unfolding es6_layout_def Let_def s(1) if_not_P [OF expo(1)] if_not_P [OF expo(2)] if_not_P [OF expo(3)]
        using Cons by (simp add: ex_def)
      have "lex_int (c # [] @ CHR ''.'' # r @ ex) = Some ([c], CHR ''.'' # r @ ex)"
        by (rule lex_int_digits [OF s(2,3)]) simp_all
      moreover have "lex_frac (CHR ''.'' # r @ ex) = Some (CHR ''.'' # r, ex)"
        using lex_digits_before [OF s(4), of ex] Cons by (simp add: lex_frac_def ex_def)
      ultimately show ?thesis using ex lay by (simp add: lex_unsigned_def)
    qed
  qed
qed

lemma lex_num_signed:
  assumes "lex_unsigned s = Some (s, [])"
  shows "json_number ((if neg then ''-'' else []) @ s)"
proof (cases neg)
  case True
  with assms show ?thesis by (simp add: json_number_def lex_num_def)
next
  case False
  obtain c t where s: "s = c # t" using assms by (cases s) (auto simp: lex_unsigned_def lex_int_def)
  then have "c \<noteq> CHR ''-''" using assms by (auto simp: lex_unsigned_def lex_int_def split: if_splits option.splits)
  with False assms s show ?thesis by (simp add: json_number_def lex_num_def)
qed

lemma formatNumber_json: "formatNumber f = Inr s \<Longrightarrow> json_number s"
proof (cases f)
  case (Fin neg m e)
  assume f: "formatNumber f = Inr s"
  show ?thesis
  proof (cases "m = 0")
    case True
    then have "s = ''0''" using f Fin by simp
    then show ?thesis by (simp add: json_number_def lex_num_def lex_unsigned_def lex_int_def lex_frac_def lex_exp_def)
  next
    case False
    from formatNumber_parts [OF False f [unfolded Fin]] obtain ds x where sh: "shortest m e = Some (ds, x)"
      "s = (if neg then ''-'' else []) @ es6_layout ds (x + 1)" .
    moreover obtain n where "ds = show_nat n" "0 < n" using shortest_near [OF _ sh(1)] False by auto
    ultimately show ?thesis using lex_num_signed es6_layout_number by metis
  qed
qed simp_all

lemma formatBigInt_json: "formatBigInt i = Inr s \<Longrightarrow> json_number s"
  by (auto simp: formatBigInt_def formatNumber_json split: prod.splits if_splits sum.splits)

lemma number_texts_json:
  "formatInt i = Inr s \<Longrightarrow> json_number s" "formatUint i = Inr s \<Longrightarrow> json_number s"
  "formatJSONNumber t = Inr s \<Longrightarrow> json_number s"
  by (auto simp: formatInt_def formatUint_def formatJSONNumber_def formatIntLiteral_def formatNumber_json
      formatBigInt_json split: if_splits option.splits)

lemma read_number: "json_number s \<Longrightarrow> stops r \<Longrightarrow> lex_num (s @ r) = Some (s, r)"
  unfolding json_number_def by (drule lex_num_append, assumption) simp

text \<open>A string literal reads back.\<close>

lemma read_string:
  assumes "write_string t = Inr a"
  shows "\<exists>body. a @ r = CHR 0x22 # body \<and> read_str body = Some (t, r)"
proof -
  from write_string_quote [OF assms] obtain b where a: "a = CHR 0x22 # b" .
  from write_string_reads_back [OF assms, of r] obtain body where
    b: "bytes (a @ r) = 34 # body" "read_body body = Some (runes (bytes t), False, bytes r)" by blast
  have "body = bytes (b @ r)" using b(1) a by (simp add: bytes_def)
  moreover have "concat (map encode_rune (runes (bytes t))) = bytes t"
    using valid_utf8_runes [of "bytes t"] bytes_write_string(2) [OF assms] by auto
  ultimately show ?thesis using a b(2) by (auto simp: read_str_def)
qed

end
