(* ===== verification/CanonicalParse.thy ===== *)
theory CanonicalParse
  imports Json
begin

text \<open>
  \<^verbatim>\<open>internal/canonical/value.go\<close> (parse) and \<^verbatim>\<open>internal/canonical/canonical.go\<close> (EncodeJSON): a document
  is read through the token stream of \<^verbatim>\<open>json.Decoder\<close>, with repeated member names refused.  The recursion
  of \<open>parseValue\<close> takes a fuel argument; twice the length of the document and two more is always enough.
\<close>

section \<open>The token stream\<close>

datatype token_state = TopValue | ArrayStart | ArrayValue | ArrayComma | ObjectStart | ObjectKey | ObjectColon
  | ObjectValue | ObjectComma

record decoder =
  dc_state :: token_state
  dc_stack :: "token_state list"
  dc_rest :: string

datatype lexeme = Delim char | Scalar ir

datatype parse_err = AtEOF | Syntax | OutOfFuel | Bare cerr | Located path_error

definition value_allowed :: "token_state \<Rightarrow> bool" where
  "value_allowed st \<longleftrightarrow> st = TopValue \<or> st = ArrayStart \<or> st = ArrayValue \<or> st = ObjectValue"

definition value_end :: "token_state \<Rightarrow> token_state" where
  "value_end st = (if st = ArrayStart \<or> st = ArrayValue then ArrayComma
     else if st = ObjectValue then ObjectComma else st)"

text \<open>A literal, as \<open>Decode\<close> reads one into an \<open>any\<close> under \<open>UseNumber\<close>.\<close>

definition read_literal :: "string \<Rightarrow> (ir \<times> string) option" where
  "read_literal s =
     (if has_prefix s ''null'' then Some (INull, drop 4 s)
      else if has_prefix s ''true'' then Some (IBool True, drop 4 s)
      else if has_prefix s ''false'' then Some (IBool False, drop 5 s)
      else if has_prefix s [CHR 0x22] then map_option (\<lambda>(t, r). (IStr t, r)) (read_str (drop 1 s))
      else map_option (\<lambda>(n, r). (INum n, r)) (lex_num s))"

definition open_with :: "char \<Rightarrow> token_state \<Rightarrow> string \<Rightarrow> decoder \<Rightarrow> parse_err + lexeme \<times> decoder" where
  "open_with c st r d =
     (if value_allowed (dc_state d)
      then Inr (Delim c, \<lparr>dc_state = st, dc_stack = dc_state d # dc_stack d, dc_rest = r\<rparr>) else Inl Syntax)"

definition close_with :: "char \<Rightarrow> string \<Rightarrow> decoder \<Rightarrow> parse_err + lexeme \<times> decoder" where
  "close_with c r d =
     (case dc_stack d of [] \<Rightarrow> Inl Syntax
      | st # stk \<Rightarrow> Inr (Delim c, \<lparr>dc_state = value_end st, dc_stack = stk, dc_rest = r\<rparr>))"

lemma skip_ws_length: "skip_ws s = c # r \<Longrightarrow> length r < length s"
  using length_dropWhile_le [of is_ws s] by (simp add: skip_ws_def)

function token :: "decoder \<Rightarrow> parse_err + lexeme \<times> decoder" where
  "token d =
     (case skip_ws (dc_rest d) of
        [] \<Rightarrow> Inl AtEOF
      | c # r \<Rightarrow>
          if c = CHR ''['' then open_with c ArrayStart r d
          else if c = CHR '']'' then
            (if dc_state d = ArrayStart \<or> dc_state d = ArrayComma then close_with c r d else Inl Syntax)
          else if c = CHR ''{'' then open_with c ObjectStart r d
          else if c = CHR ''}'' then
            (if dc_state d = ObjectStart \<or> dc_state d = ObjectComma then close_with c r d else Inl Syntax)
          else if c = CHR '':'' then
            (if dc_state d = ObjectColon then token (d\<lparr>dc_state := ObjectValue, dc_rest := r\<rparr>) else Inl Syntax)
          else if c = CHR '','' then
            (if dc_state d = ArrayComma then token (d\<lparr>dc_state := ArrayValue, dc_rest := r\<rparr>)
             else if dc_state d = ObjectComma then token (d\<lparr>dc_state := ObjectKey, dc_rest := r\<rparr>) else Inl Syntax)
          else if c = CHR 0x22 \<and> (dc_state d = ObjectStart \<or> dc_state d = ObjectKey) then
            (case read_str r of None \<Rightarrow> Inl Syntax
             | Some (t, r') \<Rightarrow> Inr (Scalar (IStr t), d\<lparr>dc_state := ObjectColon, dc_rest := r'\<rparr>))
          else if \<not> value_allowed (dc_state d) then Inl Syntax
          else (case read_literal (c # r) of None \<Rightarrow> Inl Syntax
                | Some (v, r') \<Rightarrow> Inr (Scalar v, d\<lparr>dc_state := value_end (dc_state d), dc_rest := r'\<rparr>)))"
  by pat_completeness auto
termination
  by (relation "measure (\<lambda>d. length (dc_rest d))") (auto dest: skip_ws_length)

declare token.simps [simp del]

definition more_tokens :: "decoder \<Rightarrow> bool" where
  "more_tokens d = (case skip_ws (dc_rest d) of [] \<Rightarrow> False | c # r \<Rightarrow> c \<noteq> CHR '']'' \<and> c \<noteq> CHR ''}'')"

section \<open>parseValue\<close>

fun parse_value :: "nat \<Rightarrow> string \<Rightarrow> decoder \<Rightarrow> parse_err + ir \<times> decoder"
  and parse_members :: "nat \<Rightarrow> string \<Rightarrow> (string \<times> ir) list \<Rightarrow> decoder \<Rightarrow> parse_err + ir \<times> decoder"
  and parse_items :: "nat \<Rightarrow> string \<Rightarrow> nat \<Rightarrow> ir list \<Rightarrow> decoder \<Rightarrow> parse_err + ir \<times> decoder"
where
  "parse_value 0 path d = Inl OutOfFuel"
| "parse_value (Suc n) path d =
     sbind (token d) (\<lambda>(t, d1).
     case t of
       Scalar v \<Rightarrow> Inr (v, d1)
     | Delim c \<Rightarrow> if c = CHR ''{'' then parse_members n path [] d1
                  else if c = CHR ''['' then parse_items n path 0 [] d1
                  else Inl Syntax)"
| "parse_members 0 path obj d = Inl OutOfFuel"
| "parse_members (Suc n) path obj d =
     (if more_tokens d then
        sbind (token d) (\<lambda>(t, d1).
        case t of
          Scalar (IStr key) \<Rightarrow>
            if key \<in> fst ` set obj then Inl (Located (member_path path key, ErrDuplicateKey))
            else sbind (parse_value n (member_path path key) d1) (\<lambda>(v, d2).
                 parse_members n path (obj @ [(key, v)]) d2)
        | _ \<Rightarrow> Inl Syntax)
      else sbind (token d) (\<lambda>(t, d1). Inr (IObj obj, d1)))"
| "parse_items 0 path i arr d = Inl OutOfFuel"
| "parse_items (Suc n) path i arr d =
     (if more_tokens d then
        sbind (parse_value n (index_path path i) d) (\<lambda>(v, d1).
        parse_items n path (Suc i) (arr @ [v]) d1)
      else sbind (token d) (\<lambda>(t, d1). Inr (IArr arr, d1)))"

definition parse_fuel :: "string \<Rightarrow> nat" where "parse_fuel s = 2 * length s + 2"

definition start_decoder :: "string \<Rightarrow> decoder" where
  "start_decoder s = \<lparr>dc_state = TopValue, dc_stack = [], dc_rest = s\<rparr>"

definition parse :: "string \<Rightarrow> parse_err + ir" where
  "parse s =
     sbind (parse_value (parse_fuel s) [] (start_decoder s)) (\<lambda>(v, d).
     case token d of Inl AtEOF \<Rightarrow> Inr v | _ \<Rightarrow> Inl Syntax)"

section \<open>EncodeJSON\<close>

definition located :: "path_error + 'a \<Rightarrow> parse_err + 'a" where
  "located r = (case r of Inl e \<Rightarrow> Inl (Located e) | Inr x \<Rightarrow> Inr x)"

definition EncodeJSON :: "string \<Rightarrow> parse_err + string" where
  "EncodeJSON s =
     (if \<not> valid_utf8 (bytes s) then Inl (Bare ErrInvalidUTF8)
      else sbind (parse s) (\<lambda>v.
           case check_surrogates (bytes s) of
             Inl e \<Rightarrow> Inl (Bare e)
           | Inr _ \<Rightarrow> located (marshal v)))"

definition HashJSON :: "(string \<Rightarrow> string) \<Rightarrow> string \<Rightarrow> parse_err + string" where
  "HashJSON sha s = sbind (EncodeJSON s) (\<lambda>b. Inr (sha b))"

section \<open>Enough fuel\<close>

lemma read_body_length: "read_body bs = Some (rs, l, rest) \<Longrightarrow> length rest < length bs"
proof (induction bs arbitrary: rs l rest rule: length_induct)
  case (1 bs)
  have step: "length r < length bs" if "emit_rune u b (read_body bs') = Some (rs, l, r)" "length bs' < length bs"
    for u b bs' r
    using that 1(1) by (fastforce simp: emit_rune_def)
  show ?case
  proof (cases bs)
    case Nil
    with 1(2) show ?thesis by (simp add: read_body.simps)
  next
    case (Cons a cs)
    then show ?thesis
      using 1(2) step take_rune_shorter [of "a # cs"]
      by (fastforce simp: read_body.simps(2) [of a cs] simp del: take_rune.simps split: if_splits option.splits list.splits)
  qed
qed

lemma read_str_length:
  assumes "read_str s = Some (t, r)"
  shows "length r < length s"
proof -
  from assms obtain rs l rest where "read_body (bytes s) = Some (rs, l, rest)" "r = of_bytes rest"
    by (auto simp: read_str_def split: option.splits prod.splits)
  with read_body_length [OF this(1)] show ?thesis by (simp add: bytes_def of_bytes_def)
qed

lemma lex_int_length: "lex_int s = Some (a, r) \<Longrightarrow> length r < length s"
  using length_dropWhile_le [of is_digit "tl s"] by (cases s) (auto simp: lex_int_def split: if_splits)

lemma lex_digits_length: "lex_digits p s = Some (a, r) \<Longrightarrow> length r \<le> length s"
  by (auto simp: lex_digits_def length_dropWhile_le split: if_splits)

lemma lex_frac_length: "lex_frac s = Some (a, r) \<Longrightarrow> length r \<le> length s"
  by (cases s) (auto simp: lex_frac_def dest: lex_digits_length split: if_splits)

lemma lex_exp_length: "lex_exp s = Some (a, r) \<Longrightarrow> length r \<le> length s"
  by (cases s) (fastforce simp: lex_exp_def dest: lex_digits_length split: if_splits list.splits)+

lemma lex_num_length: "lex_num s = Some (a, r) \<Longrightarrow> length r < length s"
proof -
  have u: "length r < length s" if "lex_unsigned s = Some (a, r)" for s a r
    using that lex_int_length lex_frac_length lex_exp_length
    by (fastforce simp: lex_unsigned_def split: option.splits)
  assume "lex_num s = Some (a, r)"
  then show ?thesis by (cases s) (auto simp: lex_num_def dest: u split: if_splits)
qed

lemma read_literal_length:
  assumes "read_literal s = Some (v, r)"
  shows "length r < length s"
proof -
  have p: "has_prefix s p \<Longrightarrow> length p \<le> length s" for p by (auto simp: has_prefix_iff)
  have q: "length r < length s" if "has_prefix s [CHR 0x22]" "read_str (drop 1 s) = Some (t, r)" for t
    using read_str_length [OF that(2)] p [OF that(1)] by simp
  show ?thesis
    using assms p [of "''null''"] p [of "''true''"] p [of "''false''"] q lex_num_length [of s _ r]
    by (auto simp: read_literal_def simp del: drop_Suc split: if_splits)
qed

lemma token_shorter: "token d = Inr (t, d') \<Longrightarrow> length (dc_rest d') < length (dc_rest d)"
proof (induction d rule: token.induct)
  case (1 d)
  show ?case
  proof (cases "skip_ws (dc_rest d)")
    case Nil
    with 1(4) show ?thesis by (simp add: token.simps [of d])
  next
    case (Cons c r)
    note r = skip_ws_length [OF Cons]
    have "length (c # r) \<le> length (dc_rest d)"
      using length_dropWhile_le [of is_ws "dc_rest d"] Cons by (simp add: skip_ws_def)
    with 1 Cons r show ?thesis
      by (auto simp: token.simps [of d] open_with_def close_with_def dest: read_str_length read_literal_length
          split: if_splits list.splits option.splits)
  qed
qed

lemma token_error: "token d = Inl e \<Longrightarrow> e = AtEOF \<or> e = Syntax"
proof (induction d rule: token.induct)
  case (1 d)
  show ?case
  proof (cases "skip_ws (dc_rest d)")
    case (Cons c r)
    with 1 show ?thesis
      by (auto simp: token.simps [of d] open_with_def close_with_def split: if_splits list.splits option.splits)
  qed (use 1 in \<open>simp add: token.simps [of d]\<close>)
qed

text \<open>Fuel only has to outlast the input.\<close>

definition settled :: "nat \<Rightarrow> parse_err + ir \<times> decoder \<Rightarrow> bool" where
  "settled len r \<longleftrightarrow> (case r of Inl e \<Rightarrow> e \<noteq> OutOfFuel | Inr (v, d) \<Rightarrow> length (dc_rest d) < len)"

lemma settled_Inl [simp]: "settled len (Inl e) \<longleftrightarrow> e \<noteq> OutOfFuel"
  and settled_Inr [simp]: "settled len (Inr (v, d)) \<longleftrightarrow> length (dc_rest d) < len"
  by (simp_all add: settled_def)

lemma settled_mono: "settled m r \<Longrightarrow> m \<le> n \<Longrightarrow> settled n r"
  by (auto simp: settled_def split: sum.splits)

lemma settled_bind:
  assumes "settled len r" and "\<And>v d. r = Inr (v, d) \<Longrightarrow> length (dc_rest d) < len \<Longrightarrow> settled m (f (v, d))"
  shows "settled m (sbind r f)"
  using assms by (cases r) (auto simp: settled_def)

lemma settled_token:
  assumes "\<And>t d'. token d = Inr (t, d') \<Longrightarrow> length (dc_rest d') < length (dc_rest d) \<Longrightarrow> settled m (f (t, d'))"
  shows "settled m (sbind (token d) f)"
  using assms token_error [of d] token_shorter [of d] by (cases "token d") (auto simp: settled_def)

lemma fuel_enough:
  "2 * length (dc_rest d) < n \<Longrightarrow> settled (length (dc_rest d)) (parse_value n path d)"
  "2 * length (dc_rest d) + 1 < n \<Longrightarrow> settled (length (dc_rest d)) (parse_members n path obj d)"
  "2 * length (dc_rest d) + 1 < n \<Longrightarrow> settled (length (dc_rest d)) (parse_items n path i arr d)"
proof (induction n path d and n path obj d and n path i arr d rule: parse_value_parse_members_parse_items.induct)
  case (2 n path d)
  show ?case unfolding parse_value.simps
  proof (rule settled_token)
    fix t d' assume t: "token d = Inr (t, d')" "length (dc_rest d') < length (dc_rest d)"
    have l: "2 * length (dc_rest d') + 1 < n" using 2(3) t(2) by simp
    show "settled (length (dc_rest d)) (case (t, d') of (t, d1) \<Rightarrow> (case t of Scalar v \<Rightarrow> Inr (v, d1)
      | Delim c \<Rightarrow> if c = CHR ''{'' then parse_members n path [] d1
          else if c = CHR ''['' then parse_items n path 0 [] d1 else Inl Syntax))"
    proof (cases t)
      case (Delim c)
      then show ?thesis
        using 2(1) [OF t(1) refl Delim _ l] 2(2) [OF t(1) refl Delim _ _ l] t(2)
        by (auto intro: settled_mono)
    qed (use t(2) in simp)
  qed
next
  case (4 n path obj d)
  show ?case
  proof (cases "more_tokens d")
    case True
    have "settled (length (dc_rest d)) (sbind (token d) (\<lambda>(t, d1). case t of
          Scalar (IStr key) \<Rightarrow>
            if key \<in> fst ` set obj then Inl (Located (member_path path key, ErrDuplicateKey))
            else sbind (parse_value n (member_path path key) d1) (\<lambda>(v, d2).
                 parse_members n path (obj @ [(key, v)]) d2)
        | _ \<Rightarrow> Inl Syntax))"
    proof (rule settled_token)
      fix t d' assume t: "token d = Inr (t, d')" "length (dc_rest d') < length (dc_rest d)"
      have l: "2 * length (dc_rest d') < n" using 4(3) t(2) by simp
      show "settled (length (dc_rest d)) (case (t, d') of (t, d1) \<Rightarrow> (case t of
          Scalar (IStr key) \<Rightarrow>
            if key \<in> fst ` set obj then Inl (Located (member_path path key, ErrDuplicateKey))
            else sbind (parse_value n (member_path path key) d1) (\<lambda>(v, d2).
                 parse_members n path (obj @ [(key, v)]) d2)
        | _ \<Rightarrow> Inl Syntax))"
      proof (cases "\<exists>key. t = Scalar (IStr key) \<and> key \<notin> fst ` set obj")
        case True
        then obtain key where k: "t = Scalar (IStr key)" "key \<notin> fst ` set obj" by blast
        have "settled (length (dc_rest d)) (sbind (parse_value n (member_path path key) d') (\<lambda>(v, d2).
                 parse_members n path (obj @ [(key, v)]) d2))"
        proof (rule settled_bind [OF 4(1) [OF \<open>more_tokens d\<close> t(1) refl k(1) refl k(2) l]])
          fix v d2 assume v: "parse_value n (member_path path key) d' = Inr (v, d2)"
            "length (dc_rest d2) < length (dc_rest d')"
          have "2 * length (dc_rest d2) + 1 < n" using v(2) l by simp
          with 4(2) [OF \<open>more_tokens d\<close> t(1) refl k(1) refl k(2) v(1) refl] v(2) t(2)
          show "settled (length (dc_rest d)) (case (v, d2) of (v, d2) \<Rightarrow> parse_members n path (obj @ [(key, v)]) d2)"
            by (auto intro: settled_mono)
        qed
        with k show ?thesis by simp
      next
        case False
        then show ?thesis by (auto split: lexeme.splits ir.splits)
      qed
    qed
    with True show ?thesis by simp
  next
    case False
    have "settled (length (dc_rest d)) (sbind (token d) (\<lambda>(t, d1). Inr (IObj obj, d1)))"
      by (rule settled_token) simp
    with False show ?thesis by simp
  qed
next
  case (6 n path i arr d)
  show ?case
  proof (cases "more_tokens d")
    case True
    have l: "2 * length (dc_rest d) < n" using 6(3) by simp
    have "settled (length (dc_rest d)) (sbind (parse_value n (index_path path i) d) (\<lambda>(v, d1).
        parse_items n path (Suc i) (arr @ [v]) d1))"
    proof (rule settled_bind [OF 6(1) [OF True l]])
      fix v d2 assume v: "parse_value n (index_path path i) d = Inr (v, d2)"
        "length (dc_rest d2) < length (dc_rest d)"
      have "2 * length (dc_rest d2) + 1 < n" using v(2) l by simp
      with 6(2) [OF True v(1) refl] v(2)
      show "settled (length (dc_rest d)) (case (v, d2) of (v, d1) \<Rightarrow> parse_items n path (Suc i) (arr @ [v]) d1)"
        by (auto intro: settled_mono)
    qed
    with True show ?thesis by simp
  next
    case False
    have "settled (length (dc_rest d)) (sbind (token d) (\<lambda>(t, d1). Inr (IArr arr, d1)))"
      by (rule settled_token) simp
    with False show ?thesis by simp
  qed
qed simp_all

text \<open>
  C10: Reading a document ends on every input: the recursion never runs out of fuel, so \<^const>\<open>EncodeJSON\<close>
  returns either canonical bytes or one of the refusals of the code.
\<close>

theorem EncodeJSON_returns: "EncodeJSON s \<noteq> Inl OutOfFuel"
proof -
  have "settled (length s) (parse_value (parse_fuel s) [] (start_decoder s))"
    using fuel_enough(1) [of "start_decoder s" "parse_fuel s" "[]"] by (simp add: start_decoder_def parse_fuel_def)
  then have "parse_value (parse_fuel s) [] (start_decoder s) \<noteq> Inl OutOfFuel" by auto
  then have "parse s \<noteq> Inl OutOfFuel"
    by (auto simp: parse_def sbind_Inl_iff split: sum.splits parse_err.splits)
  then show ?thesis by (auto simp: EncodeJSON_def sbind_Inl_iff located_def split: sum.splits)
qed

end
