(* ===== verification/CanonicalReads.thy ===== *)
theory CanonicalReads
  imports CanonicalParse
begin

text \<open>
  The canonical form reads back: parsing the bytes \<^const>\<open>encode_value\<close> emits gives a value with the
  same bytes, so \<^const>\<open>EncodeJSON\<close> is the identity on canonical documents.
\<close>

section \<open>Tokens of canonical text\<close>

lemma skip_ws_keep: "\<not> is_ws c \<Longrightarrow> skip_ws (c # s) = c # s"
  by (simp add: skip_ws_def)

lemma not_ws [simp]:
  "\<not> is_ws (CHR ''['')" "\<not> is_ws (CHR '']'')" "\<not> is_ws (CHR ''{'')" "\<not> is_ws (CHR ''}'')"
  "\<not> is_ws (CHR '','')" "\<not> is_ws (CHR '':'')" "\<not> is_ws (CHR 0x22)" "\<not> is_ws (CHR ''n'')"
  "\<not> is_ws (CHR ''t'')" "\<not> is_ws (CHR ''f'')" "\<not> is_ws (CHR ''-'')"
  by (simp_all add: is_ws_def)

lemma digit_not_ws: "is_digit c \<Longrightarrow> \<not> is_ws c"
  by (auto simp: is_ws_def is_digit_def)

lemma token_open_array:
  "value_allowed st \<Longrightarrow> token \<lparr>dc_state = st, dc_stack = stk, dc_rest = CHR ''['' # s\<rparr> =
     Inr (Delim (CHR ''[''), \<lparr>dc_state = ArrayStart, dc_stack = st # stk, dc_rest = s\<rparr>)"
  by (subst token.simps) (simp add: skip_ws_keep open_with_def)

lemma token_open_object:
  "value_allowed st \<Longrightarrow> token \<lparr>dc_state = st, dc_stack = stk, dc_rest = CHR ''{'' # s\<rparr> =
     Inr (Delim (CHR ''{''), \<lparr>dc_state = ObjectStart, dc_stack = st # stk, dc_rest = s\<rparr>)"
  by (subst token.simps) (simp add: skip_ws_keep open_with_def)

lemma token_close_array:
  "st = ArrayStart \<or> st = ArrayComma \<Longrightarrow>
     token \<lparr>dc_state = st, dc_stack = st' # stk, dc_rest = CHR '']'' # s\<rparr> =
     Inr (Delim (CHR '']''), \<lparr>dc_state = value_end st', dc_stack = stk, dc_rest = s\<rparr>)"
  by (subst token.simps) (simp add: skip_ws_keep close_with_def)

lemma token_close_object:
  "st = ObjectStart \<or> st = ObjectComma \<Longrightarrow>
     token \<lparr>dc_state = st, dc_stack = st' # stk, dc_rest = CHR ''}'' # s\<rparr> =
     Inr (Delim (CHR ''}''), \<lparr>dc_state = value_end st', dc_stack = stk, dc_rest = s\<rparr>)"
  by (subst token.simps) (simp add: skip_ws_keep close_with_def)

lemma token_separator:
  "token \<lparr>dc_state = ArrayComma, dc_stack = stk, dc_rest = CHR '','' # s\<rparr> =
     token \<lparr>dc_state = ArrayValue, dc_stack = stk, dc_rest = s\<rparr>"
  "token \<lparr>dc_state = ObjectComma, dc_stack = stk, dc_rest = CHR '','' # s\<rparr> =
     token \<lparr>dc_state = ObjectKey, dc_stack = stk, dc_rest = s\<rparr>"
  "token \<lparr>dc_state = ObjectColon, dc_stack = stk, dc_rest = CHR '':'' # s\<rparr> =
     token \<lparr>dc_state = ObjectValue, dc_stack = stk, dc_rest = s\<rparr>"
  by (subst token.simps, simp add: skip_ws_keep)+

lemma parse_value_separator:
  "parse_value n q \<lparr>dc_state = ArrayComma, dc_stack = stk, dc_rest = CHR '','' # s\<rparr> =
     parse_value n q \<lparr>dc_state = ArrayValue, dc_stack = stk, dc_rest = s\<rparr>"
  "parse_value n q \<lparr>dc_state = ObjectColon, dc_stack = stk, dc_rest = CHR '':'' # s\<rparr> =
     parse_value n q \<lparr>dc_state = ObjectValue, dc_stack = stk, dc_rest = s\<rparr>"
  by (cases n; simp add: token_separator)+

lemma token_key:
  assumes "write_string k = Inr ks" and "st = ObjectStart \<or> st = ObjectKey"
  shows "token \<lparr>dc_state = st, dc_stack = stk, dc_rest = ks @ s\<rparr> =
    Inr (Scalar (IStr k), \<lparr>dc_state = ObjectColon, dc_stack = stk, dc_rest = s\<rparr>)"
proof -
  from read_string [OF assms(1)] obtain body where "ks @ s = CHR 0x22 # body" "read_str body = Some (k, s)" by blast
  then show ?thesis using assms(2) by (subst token.simps) (simp add: skip_ws_keep)
qed

section \<open>Values that read back\<close>

definition reads :: "string \<Rightarrow> ir \<Rightarrow> bool" where
  "reads a w \<longleftrightarrow> (\<forall>n q st stk r. value_allowed st \<longrightarrow> stops r \<longrightarrow> 2 * length (a @ r) < n \<longrightarrow>
     parse_value n q \<lparr>dc_state = st, dc_stack = stk, dc_rest = a @ r\<rparr> =
     Inr (w, \<lparr>dc_state = value_end st, dc_stack = stk, dc_rest = r\<rparr>))"

lemma readsD:
  "reads a w \<Longrightarrow> value_allowed st \<Longrightarrow> stops r \<Longrightarrow> 2 * length (a @ r) < n \<Longrightarrow>
     parse_value n q \<lparr>dc_state = st, dc_stack = stk, dc_rest = a @ r\<rparr> =
     Inr (w, \<lparr>dc_state = value_end st, dc_stack = stk, dc_rest = r\<rparr>)"
  unfolding reads_def by blast

definition literal_start :: "char \<Rightarrow> bool" where
  "literal_start c \<longleftrightarrow> \<not> is_ws c \<and> c \<noteq> CHR ''['' \<and> c \<noteq> CHR '']'' \<and> c \<noteq> CHR ''{'' \<and> c \<noteq> CHR ''}'' \<and>
     c \<noteq> CHR '':'' \<and> c \<noteq> CHR '',''"

lemma reads_literal:
  assumes "a = c # b" and "literal_start c" and "\<And>r. stops r \<Longrightarrow> read_literal (a @ r) = Some (v, r)"
  shows "reads a v"
  unfolding reads_def
proof (intro allI impI)
  fix n q st stk r
  assume h: "value_allowed st" "stops r" "2 * length (a @ r) < n"
  then obtain m where n: "n = Suc m" by (cases n) auto
  have "token \<lparr>dc_state = st, dc_stack = stk, dc_rest = a @ r\<rparr> =
      Inr (Scalar v, \<lparr>dc_state = value_end st, dc_stack = stk, dc_rest = r\<rparr>)"
    using assms(1,2) assms(3) [OF h(2)] h(1)
    by (subst token.simps) (auto simp: skip_ws_keep literal_start_def value_allowed_def)
  then show "parse_value n q \<lparr>dc_state = st, dc_stack = stk, dc_rest = a @ r\<rparr> =
      Inr (v, \<lparr>dc_state = value_end st, dc_stack = stk, dc_rest = r\<rparr>)" by (simp add: n)
qed

lemma prefix_first: "has_prefix (c # s) (d # p) \<Longrightarrow> c = d"
  by (simp add: has_prefix_def)

lemma reads_words: "reads ''null'' INull" "reads ''true'' (IBool True)" "reads ''false'' (IBool False)"
  by (rule reads_literal, rule refl, simp_all add: literal_start_def read_literal_def has_prefix_def)+

lemma reads_string:
  assumes "write_string t = Inr a"
  shows "reads a (IStr t)"
proof -
  from write_string_quote [OF assms] obtain b where a: "a = CHR 0x22 # b" .
  show ?thesis
  proof (rule reads_literal [OF a])
    fix r
    from read_string [OF assms, of r] obtain body where "a @ r = CHR 0x22 # body" "read_str body = Some (t, r)"
      by blast
    then show "read_literal (a @ r) = Some (IStr t, r)" by (simp add: read_literal_def has_prefix_def)
  qed (simp add: literal_start_def)
qed

lemma number_start: "json_number s \<Longrightarrow> \<exists>c b. s = c # b \<and> (is_digit c \<or> c = CHR ''-'')"
  by (cases s) (auto simp: json_number_def lex_num_def lex_unsigned_def lex_int_def split: if_splits option.splits)

lemma reads_number:
  assumes "json_number a"
  shows "reads a (INum a)"
proof -
  from number_start [OF assms] obtain c b where a: "a = c # b" "is_digit c \<or> c = CHR ''-''" by blast
  show ?thesis
  proof (rule reads_literal [OF a(1)])
    show "literal_start c" using a(2) by (auto simp: literal_start_def is_ws_def is_digit_def)
    fix r assume "stops r"
    from read_number [OF assms this] a show "read_literal (a @ r) = Some (INum a, r)"
      by (auto simp: read_literal_def has_prefix_def)
  qed
qed

section \<open>Arrays and objects\<close>

lemma join_cons: "join '','' (x # xs) = x @ concat (map ((#) (CHR '','')) xs)"
  by (induction xs arbitrary: x) simp_all

lemma jval_start_char: "jval a \<Longrightarrow> \<exists>c b. a = c # b \<and> \<not> is_ws c \<and> c \<noteq> CHR '']'' \<and> c \<noteq> CHR ''}''"
proof -
  assume j: "jval a"
  then obtain c b where a: "a = c # b" by (auto dest: jval_first)
  with j have "jval (c # b)" by simp
  from jval_cases_first [OF this] a show ?thesis by (auto simp: digit_not_ws is_digit_def)
qed

lemma more_at_value: "jval a \<Longrightarrow> more_tokens \<lparr>dc_state = st, dc_stack = stk, dc_rest = a @ r\<rparr>"
  by (auto simp: more_tokens_def skip_ws_keep dest!: jval_start_char)

lemma more_at_mark:
  "more_tokens \<lparr>dc_state = st, dc_stack = stk, dc_rest = CHR '','' # r\<rparr>"
  "\<not> more_tokens \<lparr>dc_state = st, dc_stack = stk, dc_rest = CHR '']'' # r\<rparr>"
  "\<not> more_tokens \<lparr>dc_state = st, dc_stack = stk, dc_rest = CHR ''}'' # r\<rparr>"
  by (simp_all add: more_tokens_def skip_ws_keep)

lemma stops_tail: "stops (concat (map ((#) (CHR '','')) xs) @ CHR '']'' # r)"
  "stops (concat (map ((#) (CHR '','')) xs) @ CHR ''}'' # r)"
  by (cases xs; simp)+

lemma reads_items:
  assumes "list_all2 reads xs ws" and "2 * length (concat (map ((#) (CHR '','')) xs) @ CHR '']'' # r) + 1 < n"
  shows "parse_items n q i acc
      \<lparr>dc_state = ArrayComma, dc_stack = st # stk, dc_rest = concat (map ((#) (CHR '','')) xs) @ CHR '']'' # r\<rparr> =
    Inr (IArr (acc @ ws), \<lparr>dc_state = value_end st, dc_stack = stk, dc_rest = r\<rparr>)"
  using assms
proof (induction xs ws arbitrary: n i acc rule: list_all2_induct)
  case Nil
  then show ?case by (cases n) (simp_all add: more_at_mark token_close_array)
next
  case (Cons x xs w ws)
  then obtain m where n: "n = Suc m" by (cases n) auto
  let ?tail = "concat (map ((#) (CHR '','')) xs) @ CHR '']'' # r"
  have "parse_value m (index_path q i) \<lparr>dc_state = ArrayValue, dc_stack = st # stk, dc_rest = x @ ?tail\<rparr> =
      Inr (w, \<lparr>dc_state = value_end ArrayValue, dc_stack = st # stk, dc_rest = ?tail\<rparr>)"
    using Cons.prems n by (intro readsD [OF Cons(1)]) (simp_all add: value_allowed_def stops_tail)
  moreover have "parse_items m q (Suc i) (acc @ [w]) \<lparr>dc_state = ArrayComma, dc_stack = st # stk, dc_rest = ?tail\<rparr> =
      Inr (IArr ((acc @ [w]) @ ws), \<lparr>dc_state = value_end st, dc_stack = stk, dc_rest = r\<rparr>)"
    using Cons.prems n by (intro Cons.IH) simp
  ultimately show ?case by (simp add: n more_at_mark parse_value_separator value_end_def)
qed

lemma reads_array:
  assumes "list_all2 reads xs ws" and "\<forall>x \<in> set xs. jval x"
  shows "reads (''['' @ join '','' xs @ '']'') (IArr ws)"
  unfolding reads_def
proof (intro allI impI)
  fix n q st stk r
  let ?a = "''['' @ join '','' xs @ '']''"
  assume h: "value_allowed st" "stops r" "2 * length (?a @ r) < n"
  then obtain m where n: "n = Suc m" by (cases n) auto
  have t: "token \<lparr>dc_state = st, dc_stack = stk, dc_rest = ?a @ r\<rparr> =
      Inr (Delim (CHR ''[''), \<lparr>dc_state = ArrayStart, dc_stack = st # stk, dc_rest = join '','' xs @ CHR '']'' # r\<rparr>)"
    using token_open_array [OF h(1)] by simp
  have "parse_items m q 0 [] \<lparr>dc_state = ArrayStart, dc_stack = st # stk, dc_rest = join '','' xs @ CHR '']'' # r\<rparr> =
      Inr (IArr ws, \<lparr>dc_state = value_end st, dc_stack = stk, dc_rest = r\<rparr>)"
  proof (cases xs)
    case Nil
    then have "ws = []" using assms(1) by simp
    then show ?thesis using h(3) n Nil by (cases m) (simp_all add: more_at_mark token_close_array)
  next
    case (Cons x ys)
    then obtain w vs where ws: "ws = w # vs" "reads x w" "list_all2 reads ys vs"
      using assms(1) by (auto simp: list_all2_Cons1)
    let ?tail = "concat (map ((#) (CHR '','')) ys) @ CHR '']'' # r"
    have len: "2 * length (x @ ?tail) + 2 < n" using h(3) Cons by (simp add: join_cons)
    then obtain k where m: "m = Suc k" using n by (cases m) auto
    have "parse_value k (index_path q 0) \<lparr>dc_state = ArrayStart, dc_stack = st # stk, dc_rest = x @ ?tail\<rparr> =
        Inr (w, \<lparr>dc_state = value_end ArrayStart, dc_stack = st # stk, dc_rest = ?tail\<rparr>)"
      using len n m by (intro readsD [OF ws(2)]) (simp_all add: value_allowed_def stops_tail)
    moreover have "parse_items k q 1 [w] \<lparr>dc_state = ArrayComma, dc_stack = st # stk, dc_rest = ?tail\<rparr> =
        Inr (IArr ([w] @ vs), \<lparr>dc_state = value_end st, dc_stack = stk, dc_rest = r\<rparr>)"
    proof (rule reads_items [OF ws(3)])
      have x: "1 \<le> length x" using assms(2) Cons by (cases x) (auto dest: jval_first)
      define B where "B = length ?tail"
      have "2 * (length x + B) < k" using len n m unfolding B_def by simp
      with x show "2 * length ?tail + 1 < k" unfolding B_def [symmetric] by presburger
    qed
    moreover have "more_tokens \<lparr>dc_state = ArrayStart, dc_stack = st # stk, dc_rest = x @ ?tail\<rparr>"
      using assms(2) Cons by (intro more_at_value) simp
    ultimately show ?thesis using Cons ws(1) m by (simp add: join_cons value_end_def)
  qed
  with t show "parse_value n q \<lparr>dc_state = st, dc_stack = stk, dc_rest = ?a @ r\<rparr> =
      Inr (IArr ws, \<lparr>dc_state = value_end st, dc_stack = stk, dc_rest = r\<rparr>)" by (simp add: n)
qed

definition reads_member :: "string \<Rightarrow> string \<times> ir \<Rightarrow> bool" where
  "reads_member x m \<longleftrightarrow> (\<exists>ks vs. write_string (fst m) = Inr ks \<and> x = ks @ '':'' @ vs \<and> reads vs (snd m))"

lemma more_at_quote: "more_tokens \<lparr>dc_state = st, dc_stack = stk, dc_rest = CHR 0x22 # r\<rparr>"
  by (simp add: more_tokens_def skip_ws_keep)

lemma reads_one_member:
  assumes "reads_member x (k, w)" and "k \<notin> fst ` set acc" and "st = ObjectStart \<or> st = ObjectKey"
    and "stops t" and "2 * length (x @ t) < n"
  shows "sbind (token \<lparr>dc_state = st, dc_stack = stk, dc_rest = x @ t\<rparr>) (\<lambda>(t, d1).
        case t of
          Scalar (IStr key) \<Rightarrow>
            if key \<in> fst ` set acc then Inl (Located (member_path q key, ErrDuplicateKey))
            else sbind (parse_value n (member_path q key) d1) (\<lambda>(v, d2).
                 parse_members m q (acc @ [(key, v)]) d2)
        | _ \<Rightarrow> Inl Syntax) =
    parse_members m q (acc @ [(k, w)]) \<lparr>dc_state = ObjectComma, dc_stack = stk, dc_rest = t\<rparr>"
proof -
  from assms(1) obtain ks vs where x: "write_string k = Inr ks" "x = ks @ '':'' @ vs" "reads vs w"
    by (auto simp: reads_member_def)
  have "token \<lparr>dc_state = st, dc_stack = stk, dc_rest = x @ t\<rparr> =
      Inr (Scalar (IStr k), \<lparr>dc_state = ObjectColon, dc_stack = stk, dc_rest = CHR '':'' # vs @ t\<rparr>)"
    using token_key [OF x(1) assms(3), of stk "CHR '':'' # vs @ t"] x(2) by simp
  moreover have "parse_value n (member_path q k) \<lparr>dc_state = ObjectValue, dc_stack = stk, dc_rest = vs @ t\<rparr> =
      Inr (w, \<lparr>dc_state = value_end ObjectValue, dc_stack = stk, dc_rest = t\<rparr>)"
    using assms(5) x(2) by (intro readsD [OF x(3) _ assms(4)]) (simp_all add: value_allowed_def)
  ultimately show ?thesis using assms(2) by (simp add: parse_value_separator value_end_def)
qed

lemma reads_members:
  assumes "list_all2 reads_member xs ws" and "distinct (map fst (acc @ ws))"
    and "2 * length (concat (map ((#) (CHR '','')) xs) @ CHR ''}'' # r) + 1 < n"
  shows "parse_members n q acc
      \<lparr>dc_state = ObjectComma, dc_stack = st # stk, dc_rest = concat (map ((#) (CHR '','')) xs) @ CHR ''}'' # r\<rparr> =
    Inr (IObj (acc @ ws), \<lparr>dc_state = value_end st, dc_stack = stk, dc_rest = r\<rparr>)"
  using assms
proof (induction xs ws arbitrary: n acc rule: list_all2_induct)
  case Nil
  then show ?case by (cases n) (simp_all add: more_at_mark token_close_object)
next
  case (Cons x xs m ws)
  obtain k w where kw: "m = (k, w)" by (cases m)
  from Cons.prems obtain j where n: "n = Suc j" by (cases n) auto
  let ?tail = "concat (map ((#) (CHR '','')) xs) @ CHR ''}'' # r"
  have d: "k \<notin> fst ` set acc" "distinct (map fst ((acc @ [(k, w)]) @ ws))" using Cons.prems(1) kw by auto
  have f: "2 * length (x @ ?tail) < j" "2 * length ?tail + 1 < j" using Cons.prems(2) n by simp_all
  have "parse_members j q (acc @ [(k, w)]) \<lparr>dc_state = ObjectComma, dc_stack = st # stk, dc_rest = ?tail\<rparr> =
      Inr (IObj ((acc @ [(k, w)]) @ ws), \<lparr>dc_state = value_end st, dc_stack = stk, dc_rest = r\<rparr>)"
    by (rule Cons.IH [OF d(2) f(2)])
  then show ?case
    using reads_one_member [OF Cons(1) [unfolded kw] d(1), of ObjectKey ?tail j "st # stk" q j] f(1)
    by (simp add: n kw more_at_mark token_separator stops_tail)
qed

lemma reads_object:
  assumes "list_all2 reads_member xs ws" and "distinct (map fst ws)"
  shows "reads (''{'' @ join '','' xs @ ''}'') (IObj ws)"
  unfolding reads_def
proof (intro allI impI)
  fix n q st stk r
  let ?a = "''{'' @ join '','' xs @ ''}''"
  assume h: "value_allowed st" "stops r" "2 * length (?a @ r) < n"
  then obtain m where n: "n = Suc m" by (cases n) auto
  have t: "token \<lparr>dc_state = st, dc_stack = stk, dc_rest = ?a @ r\<rparr> =
      Inr (Delim (CHR ''{''), \<lparr>dc_state = ObjectStart, dc_stack = st # stk, dc_rest = join '','' xs @ CHR ''}'' # r\<rparr>)"
    using token_open_object [OF h(1)] by simp
  have "parse_members m q [] \<lparr>dc_state = ObjectStart, dc_stack = st # stk, dc_rest = join '','' xs @ CHR ''}'' # r\<rparr> =
      Inr (IObj ws, \<lparr>dc_state = value_end st, dc_stack = stk, dc_rest = r\<rparr>)"
  proof (cases xs)
    case Nil
    then have "ws = []" using assms(1) by simp
    then show ?thesis using h(3) n Nil by (cases m) (simp_all add: more_at_mark token_close_object)
  next
    case (Cons x ys)
    then obtain k w vs where ws: "ws = (k, w) # vs" "reads_member x (k, w)" "list_all2 reads_member ys vs"
      using assms(1) by (auto simp: list_all2_Cons1)
    let ?tail = "concat (map ((#) (CHR '','')) ys) @ CHR ''}'' # r"
    have len: "2 * length (x @ ?tail) + 2 < n" using h(3) Cons by (simp add: join_cons)
    then obtain j where m: "m = Suc j" using n by (cases m) auto
    from ws(2) obtain ks us where "write_string k = Inr ks" "x = ks @ '':'' @ us" by (auto simp: reads_member_def)
    then obtain z where z: "x = CHR 0x22 # z" by (auto elim: write_string_quote)
    have "parse_members j q [(k, w)] \<lparr>dc_state = ObjectComma, dc_stack = st # stk, dc_rest = ?tail\<rparr> =
        Inr (IObj ([(k, w)] @ vs), \<lparr>dc_state = value_end st, dc_stack = stk, dc_rest = r\<rparr>)"
    proof (rule reads_members [OF ws(3)])
      define B where "B = length ?tail"
      have "2 * (Suc (length z) + B) < j" using len n m z unfolding B_def by simp
      then show "2 * length ?tail + 1 < j" unfolding B_def [symmetric] by presburger
    qed (use assms(2) ws(1) in simp)
    with reads_one_member [OF ws(2), of "[]" ObjectStart ?tail j "st # stk" q j] len
    show ?thesis using Cons ws(1) n m z by (simp add: join_cons more_at_quote stops_tail)
  qed
  with t show "parse_value n q \<lparr>dc_state = st, dc_stack = stk, dc_rest = ?a @ r\<rparr> =
      Inr (IObj ws, \<lparr>dc_state = value_end st, dc_stack = stk, dc_rest = r\<rparr>)" by (simp add: n)
qed

end
