(* ===== verification/CanonicalStable.thy ===== *)
theory CanonicalStable
  imports CanonicalReads
begin

text \<open>
  Canonical documents are fixed points of \<open>EncodeJSON\<close>: what either encoder emits is well-formed UTF-8,
  has no unpaired surrogate escape, parses, and is written again as the same bytes.
\<close>

section \<open>The bytes pass the lexical checks\<close>

definition clean :: "string \<Rightarrow> bool" where
  "clean a \<longleftrightarrow> valid_utf8 (bytes a) \<and> (\<forall>r. check_surrogates (bytes a @ r) = check_surrogates r)"

lemma bytes_app: "bytes (a @ b) = bytes a @ bytes b"
  by (simp add: bytes_def)

lemma valid_utf8_append:
  assumes "valid_utf8 a" and "valid_utf8 b"
  shows "valid_utf8 (a @ b)"
proof -
  have "concat (map encode_rune (runes a @ runes b)) = a @ b" "\<forall>r \<in> set (runes a @ runes b). scalar r"
    using valid_utf8_runes [OF assms(1)] valid_utf8_runes [OF assms(2)] by auto
  then show ?thesis using valid_utf8_encode [of "runes a @ runes b"] by simp
qed

lemma clean_append: "clean a \<Longrightarrow> clean b \<Longrightarrow> clean (a @ b)"
  by (simp add: clean_def bytes_app valid_utf8_append)

lemma clean_plain:
  assumes "list_all (\<lambda>c. (of_char c :: nat) < 128 \<and> (of_char c :: nat) \<noteq> 92) a"
  shows "clean a"
proof -
  have "92 \<notin> set (bytes a)" "\<forall>b \<in> set (bytes a). b < 128" using assms by (auto simp: bytes_def list_all_iff)
  then show ?thesis by (simp add: clean_def check_skip_all valid_utf8_ascii)
qed

lemma check_write_rune:
  assumes "scalar r"
  shows "check_surrogates (write_rune r @ bs) = check_surrogates bs"
proof -
  consider "r = 34" | "r = 92" | "r = 8" | "r = 9" | "r = 10" | "r = 12" | "r = 13"
    | "r < 0x20" "r \<notin> {8, 9, 10, 12, 13}" | "0x20 \<le> r" "r \<noteq> 34" "r \<noteq> 92"
    by force
  then show ?thesis
  proof cases
    case 8
    have h: "hex_val 48 = Some 0" by (simp add: hex_val_def)
    have "r div 16 < 16" using 8 by simp
    moreover have "r div 16 * 16 + r mod 16 = r" by simp
    ultimately have "hex4 (48 # 48 # hex_digit (r div 16) # hex_digit (r mod 16) # bs) = Some r"
      by (simp add: hex_val_digit h)
    from check_u_escape [OF this] 8 show ?thesis by (simp add: write_rune_def)
  next
    case 9
    then show ?thesis
      using check_skip_all [OF encode_rune_no_backslash [OF assms]] by (simp add: write_rune_def)
  qed (simp_all add: write_rune_def check_surrogates.simps(1) check_skip)
qed

lemma valid_write_rune: "scalar r \<Longrightarrow> valid_utf8 (write_rune r)"
proof (cases "r < 128")
  case True
  then show ?thesis by (intro valid_utf8_ascii) (auto simp: write_rune_def hex_digit_def encode_rune_def)
next
  case False
  assume "scalar r"
  from valid_utf8_encode_append(1) [OF this, of "[]"] False show ?thesis by (simp add: write_rune_def)
qed

lemma clean_string:
  assumes "write_string t = Inr a"
  shows "clean a"
proof -
  define rs where "rs = runes (bytes t)"
  have s: "\<forall>r \<in> set rs. scalar r" and b: "bytes a = 34 # concat (map write_rune rs) @ [34]"
    using bytes_write_string [OF assms] valid_utf8_runes by (auto simp: rs_def write_runes_def)
  have v: "valid_utf8 (concat (map write_rune rs))" using s
    by (induction rs) (simp_all add: valid_utf8_append valid_write_rune)
  have c: "check_surrogates (concat (map write_rune rs) @ bs) = check_surrogates bs" for bs using s
    by (induction rs) (simp_all add: check_write_rune)
  have "valid_utf8 [34]" by simp
  then have "valid_utf8 ([34] @ concat (map write_rune rs) @ [34])" using v valid_utf8_append by blast
  then show ?thesis using b c by (simp add: clean_def check_skip)
qed

lemma num_char_plain: "num_char c \<Longrightarrow> (of_char c :: nat) < 128 \<and> (of_char c :: nat) \<noteq> 92"
  by (auto simp: num_char_def is_digit_def)

lemma clean_literals [simp]:
  "clean ''null''" "clean ''true''" "clean ''false''" "clean ''[]''" "clean ''{}''" "clean ''[''" "clean '']''"
  "clean ''{''" "clean ''}''" "clean '',''" "clean '':''"
  by (rule clean_plain, simp)+

lemma clean_jval: "jval a \<Longrightarrow> clean a" "jelems e \<Longrightarrow> clean e" "jmems m \<Longrightarrow> clean m"
proof (induction rule: jval_jelems_jmems.inducts)
  case (j_num s)
  then show ?case by (intro clean_plain) (auto simp: jnum_def list_all_iff num_char_plain)
qed (auto intro!: clean_append dest!: clean_string simp del: append.simps)

section \<open>Sound documents\<close>

text \<open>
  What the parser and \<open>fromGo\<close> produce: the keys of every object are distinct and every float is a
  normalised double.
\<close>

fun sound_ir :: "ir \<Rightarrow> bool" and sound_items :: "ir list \<Rightarrow> bool" and sound_members :: "(string \<times> ir) list \<Rightarrow> bool"
where
  "sound_ir (IFloat f) = wf_f64 f"
| "sound_ir (IArr vs) = sound_items vs"
| "sound_ir (IObj ms) = (distinct (map fst ms) \<and> sound_members ms)"
| "sound_ir v = True"
| "sound_items [] = True"
| "sound_items (v # vs) = (sound_ir v \<and> sound_items vs)"
| "sound_members [] = True"
| "sound_members ((k, v) # ms) = (sound_ir v \<and> sound_members ms)"

lemma sound_snoc [simp]:
  "sound_items (vs @ [v]) \<longleftrightarrow> sound_items vs \<and> sound_ir v"
  "sound_members (ms @ [(k, v)]) \<longleftrightarrow> sound_members ms \<and> sound_ir v"
  by (induction vs) (simp_all, induction ms, auto)

lemma read_literal_sound: "read_literal s = Some (v, r) \<Longrightarrow> sound_ir v"
  by (auto simp: read_literal_def split: if_splits)

lemma token_sound: "token d = Inr (Scalar v, d') \<Longrightarrow> sound_ir v"
proof (induction d rule: token.induct)
  case (1 d)
  show ?case
  proof (cases "skip_ws (dc_rest d)")
    case Nil
    with 1(4) show ?thesis by (simp add: token.simps [of d])
  next
    case (Cons c r)
    with 1 show ?thesis
      by (auto simp: token.simps [of d] open_with_def close_with_def dest: read_literal_sound
          split: if_splits list.splits option.splits)
  qed
qed

lemma parse_sound:
  "parse_value n path d = Inr (v, d') \<Longrightarrow> sound_ir v"
  "parse_members n path obj d = Inr (v, d') \<Longrightarrow> distinct (map fst obj) \<Longrightarrow> sound_members obj \<Longrightarrow> sound_ir v"
  "parse_items n path i arr d = Inr (v, d') \<Longrightarrow> sound_items arr \<Longrightarrow> sound_ir v"
proof (induction n path d and n path obj d and n path i arr d arbitrary: v d' and v d' and v d'
    rule: parse_value_parse_members_parse_items.induct)
  case (2 n path d)
  from 2(3) obtain t d1 where t: "token d = Inr (t, d1)" by (auto simp: sbind_Inr_iff)
  show ?case
  proof (cases t)
    case (Delim c)
    with 2(3) t have "(c = CHR ''{'' \<and> parse_members n path [] d1 = Inr (v, d')) \<or>
        (c \<noteq> CHR ''{'' \<and> c = CHR ''['' \<and> parse_items n path 0 [] d1 = Inr (v, d'))"
      by (auto split: if_splits)
    with 2(1) [OF t refl Delim] 2(2) [OF t refl Delim] show ?thesis by auto
  qed (use 2(3) t token_sound in auto)
next
  case (4 n path obj d)
  show ?case
  proof (cases "more_tokens d")
    case True
    from 4(3) True obtain l d1 where l: "token d = Inr (l, d1)" by (auto simp: sbind_Inr_iff)
    have "\<exists>k. l = Scalar (IStr k)"
      using 4(3) True l by (cases l) (simp_all split: ir.splits)
    then obtain k where t: "token d = Inr (Scalar (IStr k), d1)" using l by auto
    have k: "k \<notin> fst ` set obj" using 4(3) True t by (auto split: if_splits)
    with 4(3) True t have "sbind (parse_value n (member_path path k) d1) (\<lambda>(v, d2).
        parse_members n path (obj @ [(k, v)]) d2) = Inr (v, d')" by simp
    then obtain u d2 where u: "parse_value n (member_path path k) d1 = Inr (u, d2)"
      and m: "parse_members n path (obj @ [(k, u)]) d2 = Inr (v, d')"
      unfolding sbind_Inr_iff by auto
    have "sound_ir u" by (rule 4(1) [OF True t refl refl refl k u])
    moreover have "distinct (map fst (obj @ [(k, u)]))" using 4(4) k by auto
    ultimately show ?thesis using 4(2) [OF True t refl refl refl k u refl m] 4(5) by auto
  next
    case False
    with 4(3-5) show ?thesis by (auto simp: sbind_Inr_iff)
  qed
next
  case (6 n path i arr d)
  show ?case
  proof (cases "more_tokens d")
    case True
    with 6(3) obtain u d2 where u: "parse_value n (index_path path i) d = Inr (u, d2)"
      and m: "parse_items n path (Suc i) (arr @ [u]) d2 = Inr (v, d')"
      by (auto simp: sbind_Inr_iff)
    from 6(1) [OF True u] 6(2) [OF True u refl m] 6(4) show ?thesis by simp
  next
    case False
    with 6(3,4) show ?thesis by (auto simp: sbind_Inr_iff)
  qed
qed simp_all

section \<open>Reading canonical bytes\<close>

definition readable :: "string \<Rightarrow> bool" where
  "readable b \<longleftrightarrow> (\<exists>w. reads b w \<and> encode_value [] w = Inr b)"

lemma readable_written:
  assumes "write_members p S = Inr xs" and "\<forall>(k, r) \<in> set S. \<forall>b. r = Inr b \<longrightarrow> readable b"
  shows "\<exists>ws. list_all2 reads_member xs ws \<and> map fst ws = map fst S \<and> write_members [] (encode_members [] ws) = Inr xs"
  using assms
proof (induction p S arbitrary: xs rule: write_members.induct)
  case (2 p k r ms)
  then obtain ks vs ys where k: "write_string k = Inr ks" "r = Inr vs" "write_members p ms = Inr ys"
    "xs = (ks @ '':'' @ vs) # ys" by auto
  with 2(3) obtain w where w: "reads vs w" "encode_value [] w = Inr vs" by (auto simp: readable_def)
  have "Canonical.at (member_path p k) (write_string k) = Inr ks" using k(1) by simp
  from 2(1) [OF this k(2,3)] 2(3) obtain ws where ws: "list_all2 reads_member ys ws" "map fst ws = map fst ms"
    "write_members [] (encode_members [] ws) = Inr ys" by auto
  have "encode_value (member_path [] k) w = Inr vs" by (rule encode_value_path(1) [OF w(2)])
  with k w ws have "list_all2 reads_member xs ((k, w) # ws) \<and> map fst ((k, w) # ws) = map fst ((k, r) # ms) \<and>
      write_members [] (encode_members [] ((k, w) # ws)) = Inr xs"
    by (auto simp: reads_member_def)
  then show ?case by blast
qed (auto intro: exI [of _ "[]"])

lemma readable_object:
  assumes "write_members p (sort_by key_less ns) = Inr xs" and "distinct (map fst ns)"
    and "\<forall>(k, r) \<in> set ns. \<forall>b. r = Inr b \<longrightarrow> readable b"
  shows "readable (''{'' @ join '','' xs @ ''}'')"
proof -
  let ?S = "sort_by key_less ns"
  have "\<forall>(k, r) \<in> set ?S. \<forall>b. r = Inr b \<longrightarrow> readable b" using assms(3) by simp
  from readable_written [OF assms(1) this] obtain ws where ws: "list_all2 reads_member xs ws"
    "map fst ws = map fst ?S" "write_members [] (encode_members [] ws) = Inr xs" by blast
  have "mset (map fst ?S) = mset (map fst ns)" by (simp only: mset_map mset_sort_by)
  then have d: "distinct (map fst ws)" using assms(2) ws(2) by (metis mset_eq_imp_distinct_iff)
  have "map fst (encode_members [] ws) = map fst ?S" using ws(2) by simp
  then have "map key_units (map fst (encode_members [] ws)) = map key_units (map fst ?S)" by (rule arg_cong)
  then have "map (\<lambda>m. key_units (fst m)) (encode_members [] ws) = map (\<lambda>m. key_units (fst m)) ?S"
    by (simp only: map_map comp_def)
  then have "sorted (map (\<lambda>m. key_units (fst m)) (encode_members [] ws))"
    unfolding sort_members by simp
  then have "sort_by key_less (encode_members [] ws) = encode_members [] ws"
    unfolding sort_members by (rule sort_key_id_if_sorted)
  then have "encode_value [] (IObj ws) = Inr (''{'' @ join '','' xs @ ''}'')" using ws(3) by simp
  with reads_object [OF ws(1) d] show ?thesis unfolding readable_def by blast
qed

lemma readable_array:
  assumes "list_all2 reads xs ws" and "encode_items [] 0 ws = Inr xs"
  shows "readable (''['' @ join '','' xs @ '']'')"
  using reads_array [OF assms(1) encode_jval(2) [OF assms(2)]] assms(2) by (auto simp: readable_def)

lemma readable_number: "formatJSONNumber a = Inr a \<Longrightarrow> readable a"
  unfolding readable_def using reads_number [OF number_texts_json(3)] by (intro exI [of _ "INum a"]) simp

lemma canonical_readable:
  "encode_value p v = Inr a \<Longrightarrow> sound_ir v \<Longrightarrow> readable a"
  "encode_items p i vs = Inr xs \<Longrightarrow> sound_items vs \<Longrightarrow> \<exists>ws. list_all2 reads xs ws \<and> encode_items [] 0 ws = Inr xs"
  "sound_members ms \<Longrightarrow> \<forall>(k, r) \<in> set (encode_members p ms). \<forall>b. r = Inr b \<longrightarrow> readable b"
proof (induction p v and p i vs and p ms arbitrary: a and xs and
    rule: encode_value_encode_items_encode_members.induct)
  case (1 path)
  then show ?case using reads_words(1) by (auto simp: readable_def)
next
  case (2 path b)
  then show ?case using reads_words(2,3) by (cases b) (auto simp: readable_def)
next
  case (3 path s)
  then have "write_string s = Inr a" by simp
  with reads_string [OF this] show ?case by (auto simp: readable_def intro!: exI [of _ "IStr s"])
next
  case (4 path i)
  then show ?case by (auto intro: readable_number number_texts_stable)
next
  case (5 path i)
  then show ?case by (auto intro: readable_number number_texts_stable)
next
  case (6 path f)
  then show ?case by (auto intro: readable_number formatNumber_stable)
next
  case (7 path s)
  then show ?case by (auto intro: readable_number number_texts_stable)
next
  case (8 path vs)
  then obtain xs where "encode_items path 0 vs = Inr xs" "a = ''['' @ join '','' xs @ '']''" by auto
  with 8(1) [of xs] 8(3) readable_array show ?case by auto
next
  case (9 path ms)
  then obtain xs where xs: "write_members path (sort_by key_less (encode_members path ms)) = Inr xs"
    "a = ''{'' @ join '','' xs @ ''}''" by auto
  from readable_object [OF xs(1)] 9(1,3) xs(2) show ?case by simp
next
  case (11 path i v vs)
  from 11(3) obtain y ys where y: "encode_value (index_path path i) v = Inr y"
    "encode_items path (Suc i) vs = Inr ys" "xs = y # ys" by auto
  from 11(1) [OF y(1)] 11(4) obtain w where w: "reads y w" "encode_value [] w = Inr y"
    by (auto simp: readable_def)
  from 11(2) [OF y(1,2)] 11(4) obtain ws where ws: "list_all2 reads ys ws" "encode_items [] 0 ws = Inr ys" by auto
  have "encode_items [] 0 (w # ws) = Inr (y # ys)"
    using encode_value_path(1) [OF w(2)] encode_value_path(2) [OF ws(2), of "[]" "Suc 0"] by simp
  with w(1) ws(1) y(3) show ?case by (intro exI [of _ "w # ws"]) simp
next
  case (13 path k v ms)
  then show ?case by auto
qed auto

lemma readable_encodes:
  assumes "readable a" and "clean a"
  shows "EncodeJSON a = Inr a"
proof -
  from assms(1) obtain w where w: "reads a w" "encode_value [] w = Inr a" by (auto simp: readable_def)
  have "parse_value (parse_fuel a) [] (start_decoder a) =
      Inr (w, \<lparr>dc_state = value_end TopValue, dc_stack = [], dc_rest = []\<rparr>)"
    using readsD [OF w(1), of TopValue "[]" "parse_fuel a" "[]" "[]"]
    by (simp add: start_decoder_def parse_fuel_def value_allowed_def)
  moreover have "token \<lparr>dc_state = value_end TopValue, dc_stack = [], dc_rest = []\<rparr> = Inl AtEOF"
    by (subst token.simps) (simp add: skip_ws_def)
  ultimately have "parse a = Inr w" by (simp add: parse_def)
  moreover have "check_surrogates (bytes a) = Inr ()"
    using assms(2) unfolding clean_def by (metis append_Nil2 check_surrogates_short(2))
  ultimately show ?thesis using w(2) assms(2) by (simp add: EncodeJSON_def located_def marshal_def clean_def)
qed

lemma marshal_fixed: "marshal v = Inr a \<Longrightarrow> sound_ir v \<Longrightarrow> EncodeJSON a = Inr a"
  unfolding marshal_def by (intro readable_encodes canonical_readable(1) clean_jval(1) encode_jval(1))

section \<open>Fixed points\<close>

text \<open>
  C9: Canonicalizing is idempotent: whatever document is read, the bytes \<^const>\<open>EncodeJSON\<close> returns are
  accepted again, and written again unchanged.  A digest computed from a stored canonical form is
  therefore the digest of the document it was made from.
\<close>

theorem EncodeJSON_idempotent:
  assumes "EncodeJSON s = Inr a"
  shows "EncodeJSON a = Inr a \<and> HashJSON sha a = HashJSON sha s"
proof -
  from assms have "sbind (parse s) (\<lambda>v. case check_surrogates (bytes s) of Inl e \<Rightarrow> Inl (Bare e)
      | Inr _ \<Rightarrow> located (marshal v)) = Inr a" by (simp add: EncodeJSON_def split: if_splits)
  then obtain v where "parse s = Inr v" "(case check_surrogates (bytes s) of Inl e \<Rightarrow> Inl (Bare e)
      | Inr _ \<Rightarrow> located (marshal v)) = Inr a" unfolding sbind_Inr_iff by blast
  then have v: "parse s = Inr v" "marshal v = Inr a" by (simp_all add: located_def split: sum.splits)
  from v(1) obtain u d where u: "parse_value (parse_fuel s) [] (start_decoder s) = Inr (u, d)"
    "(case token d of Inl AtEOF \<Rightarrow> Inr u | _ \<Rightarrow> Inl Syntax) = Inr v"
    unfolding parse_def sbind_Inr_iff by auto
  then have "u = v" by (simp split: sum.splits parse_err.splits)
  with parse_sound(1) [OF u(1)] marshal_fixed v(2) have "EncodeJSON a = Inr a" by blast
  with assms show ?thesis by (simp add: HashJSON_def)
qed

theorem EncodeJSON_idempotent_witness: "EncodeJSON ''[]'' = Inr ''[]''"
proof -
  have "ascii '' [ ]''" by (simp add: ascii_def)
  then have "valid_utf8 (bytes '' [ ]'')" by (rule ascii_valid)
  moreover have "check_surrogates (bytes '' [ ]'') = Inr ()" by (simp add: bytes_def check_skip)
  moreover have "parse '' [ ]'' = Inr (IArr [])"
    by (simp add: parse_def parse_fuel_def start_decoder_def eval_nat_numeral token.simps skip_ws_def is_ws_def
        open_with_def close_with_def value_allowed_def value_end_def more_tokens_def)
  ultimately have "EncodeJSON '' [ ]'' = Inr ''[]''"
    by (simp add: EncodeJSON_def located_def marshal_def)
  then show ?thesis using EncodeJSON_idempotent by blast
qed

text \<open>Values that exist in Go: floats are doubles, and the entries of a map have distinct keys.\<close>

fun go_value :: "goval \<Rightarrow> bool" and go_items :: "goval list \<Rightarrow> bool" and go_entries :: "(string \<times> goval) list \<Rightarrow> bool"
  and go_fields :: "(field \<times> goval) list \<Rightarrow> bool"
where
  "go_value (GPtr (Some v)) = go_value v"
| "go_value (GFloat64 f) = wf_f64 f"
| "go_value (GSlice (Some vs)) = go_items vs"
| "go_value (GArray vs) = go_items vs"
| "go_value (GMap b (Some ms)) = (distinct (map fst ms) \<and> go_entries ms)"
| "go_value (GStruct fs) = go_fields fs"
| "go_value v = True"
| "go_items [] = True"
| "go_items (v # vs) = (go_value v \<and> go_items vs)"
| "go_entries [] = True"
| "go_entries ((k, v) # ms) = (go_value v \<and> go_entries ms)"
| "go_fields [] = True"
| "go_fields ((f, v) # fs) = (go_value v \<and> go_fields fs)"

lemma from_map_fst: "from_map p ms = Inr ys \<Longrightarrow> map fst ys = map fst ms"
  by (induction ms arbitrary: ys) auto

lemma from_sound:
  "from_value p v = Inr x \<Longrightarrow> go_value v \<Longrightarrow> sound_ir x"
  "from_items p i vs = Inr xs \<Longrightarrow> go_items vs \<Longrightarrow> sound_items xs"
  "from_map p ms = Inr ys \<Longrightarrow> go_entries ms \<Longrightarrow> sound_members ys"
  "from_struct p out fs = Inr zs \<Longrightarrow> go_fields fs \<Longrightarrow> distinct (map fst out) \<Longrightarrow> sound_members out \<Longrightarrow>
     distinct (map fst zs) \<and> sound_members zs"
proof (induction p v and p i vs and p ms and p out fs arbitrary: x and xs and ys and zs
    rule: from_value_from_items_from_map_from_struct.induct)
  case (15 path string_key m)
  show ?case
  proof (cases m)
    case (Some ms)
    with 15(2) obtain ys where ys: "string_key" "from_map path ms = Inr ys" "x = IObj ys"
      by (auto split: if_splits)
    with 15(1) [of ms ys] 15(3) Some from_map_fst [OF ys(2)] show ?thesis by simp
  qed (use 15 in \<open>simp split: if_splits\<close>)
next
  case (23 path out f v fs)
  note prems = 23(4-7) and IH = 23(1-3)
  from prems(1) obtain mo where mo: "field_member path f = Inr mo" by auto
  show ?case
  proof (cases mo)
    case None
    with prems mo IH(1) [OF mo None] show ?thesis by simp
  next
    case (Some nm)
    with prems mo obtain x where x: "nm \<notin> fst ` set out" "from_value (member_path path nm) v = Inr x"
      "from_struct path (out @ [(nm, x)]) fs = Inr zs" by (auto split: if_splits)
    have "sound_ir x" using IH(2) [OF mo Some x(1) x(2)] prems(2) by simp
    moreover have "distinct (map fst (out @ [(nm, x)]))" using prems(3) x(1) by auto
    ultimately show ?thesis using IH(3) [OF mo Some x(1,2,3)] prems(2,4) by simp
  qed
next
  case (5 path v)
  from 5(2,3) show ?case using 5(1) by simp
next
  case (13 path vs)
  from 13(2) obtain xs where "from_items path 0 vs = Inr xs" "x = IArr xs" by auto
  with 13(1) [of xs] 13(3) show ?case by simp
next
  case (14 path vs)
  from 14(2) obtain xs where "from_items path 0 vs = Inr xs" "x = IArr xs" by auto
  with 14(1) [of xs] 14(3) show ?case by simp
next
  case (16 path fs)
  from 16(2) obtain ys where ys: "from_struct path [] fs = Inr ys" "x = IObj ys" by auto
  with 16(1) [OF ys(1)] 16(3) show ?case by simp
next
  case (19 path i v vs)
  from 19(3) obtain y ys where y: "from_value (index_path path i) v = Inr y"
    "from_items path (Suc i) vs = Inr ys" "xs = y # ys" by auto
  from 19(1) [OF y(1)] 19(2) [OF y(1,2)] 19(4) y(3) show ?case by simp
next
  case (21 path k v ms)
  from 21(3) obtain y zs where y: "from_value (member_path path k) v = Inr y"
    "from_map path ms = Inr zs" "ys = (k, y) # zs" by auto
  from 21(1) [OF y(1)] 21(2) [OF y(1,2)] 21(4) y(3) show ?case by simp
qed simp_all

text \<open>
  The two encoders agree: the bytes \<^const>\<open>Encode\<close> writes for a Go value are exactly what
  \<^const>\<open>EncodeJSON\<close> makes of those bytes when they are read back as a document.
\<close>

theorem encoders_agree:
  assumes "go_value v" and "Encode v = Inr a"
  shows "EncodeJSON a = Inr a"
proof -
  from assms(2) obtain x where "from_value [] v = Inr x" "marshal x = Inr a" by (auto simp: Encode_def)
  with from_sound(1) assms(1) marshal_fixed show ?thesis by blast
qed

lemma encode_example: "Encode (GMap True (Some [(''n'', GBool False), (''b'', GSlice (Some [GBool True, GNil]))])) =
  Inr ''{\"b\":[true,null],\"n\":false}''"
proof -
  have w: "write_string [c] = Inr [CHR 0x22, c, CHR 0x22]" if "c \<in> {CHR ''n'', CHR ''b''}" for c
    using that by (auto simp: write_string_def bytes_def of_bytes_def write_runes_def write_rune_def
        encode_rune_def char_of_def bit_simps)
  show ?thesis
    by (simp add: Encode_def marshal_def sort_by_def key_less_def less_utf16_def key_units_def bytes_def
        utf16_units_def scalar_def w)
qed

theorem encoders_agree_witness: "EncodeJSON ''{\"b\":[true,null],\"n\":false}'' = Inr ''{\"b\":[true,null],\"n\":false}''"
  by (rule encoders_agree [OF _ encode_example]) simp

end
