(* ===== verification/JsonDecode.thy ===== *)
theory JsonDecode
  imports CanonicalParse
begin

text \<open>
  What the modelled code uses of \<^verbatim>\<open>encoding/json\<close> to decode documents into Go values: \<open>Unmarshal\<close> of a
  whole document, and the rules for struct fields (a key matches a field exactly or up to case folding, a
  repeated key decodes again into the same field, \<open>null\<close> leaves a scalar alone, a value of the wrong
  type is remembered as an error while decoding goes on).  A document is a tree with its members in order,
  repeated names included.
\<close>

section \<open>Documents\<close>

definition maxNestingDepth :: nat where "maxNestingDepth = 10000"

fun read_doc :: "nat \<Rightarrow> nat \<Rightarrow> string \<Rightarrow> (ir \<times> string) option"
  and read_elems :: "nat \<Rightarrow> nat \<Rightarrow> ir list \<Rightarrow> string \<Rightarrow> (ir \<times> string) option"
  and read_fields :: "nat \<Rightarrow> nat \<Rightarrow> (string \<times> ir) list \<Rightarrow> string \<Rightarrow> (ir \<times> string) option"
where
  "read_doc 0 depth s = None"
| "read_doc (Suc n) depth s =
     (case skip_ws s of [] \<Rightarrow> None
      | c # r \<Rightarrow>
          if c = CHR ''['' then
            (if maxNestingDepth \<le> depth then None
             else if has_prefix (skip_ws r) '']'' then Some (IArr [], drop 1 (skip_ws r))
             else read_elems n (Suc depth) [] r)
          else if c = CHR ''{'' then
            (if maxNestingDepth \<le> depth then None
             else if has_prefix (skip_ws r) ''}'' then Some (IObj [], drop 1 (skip_ws r))
             else read_fields n (Suc depth) [] r)
          else read_literal (c # r))"
| "read_elems 0 depth acc s = None"
| "read_elems (Suc n) depth acc s =
     (case read_doc n depth s of None \<Rightarrow> None
      | Some (v, r) \<Rightarrow>
          (case skip_ws r of [] \<Rightarrow> None
           | c # r' \<Rightarrow> if c = CHR '','' then read_elems n depth (acc @ [v]) r'
                      else if c = CHR '']'' then Some (IArr (acc @ [v]), r') else None))"
| "read_fields 0 depth acc s = None"
| "read_fields (Suc n) depth acc s =
     (case skip_ws s of [] \<Rightarrow> None
      | q # r \<Rightarrow>
          if q \<noteq> CHR 0x22 then None
          else (case read_str r of None \<Rightarrow> None
                | Some (k, r1) \<Rightarrow>
                    (case skip_ws r1 of [] \<Rightarrow> None
                     | d # r2 \<Rightarrow>
                         if d \<noteq> CHR '':'' then None
                         else (case read_doc n depth r2 of None \<Rightarrow> None
                               | Some (v, r3) \<Rightarrow>
                                   (case skip_ws r3 of [] \<Rightarrow> None
                                    | c # r4 \<Rightarrow>
                                        if c = CHR '','' then read_fields n depth (acc @ [(k, v)]) r4
                                        else if c = CHR ''}'' then Some (IObj (acc @ [(k, v)]), r4) else None)))))"

definition unmarshal :: "string \<Rightarrow> ir option" where
  "unmarshal s =
     (case read_doc (2 * length s + 2) 0 s of None \<Rightarrow> None
      | Some (v, r) \<Rightarrow> if skip_ws r = [] then Some v else None)"

section \<open>Struct fields\<close>

text \<open>
  \<open>foldName\<close>, as it acts on names that are compared with ASCII field names: the runes that fold to an
  ASCII letter are its other case, U+017F for s and U+212A for k.
\<close>

definition fold_rune :: "nat \<Rightarrow> nat" where
  "fold_rune r = (if r = 0x17F then 115 else if r = 0x212A then 107 else if 65 \<le> r \<and> r \<le> 90 then r + 32 else r)"

definition fold_name :: "string \<Rightarrow> nat list" where
  "fold_name s = map fold_rune (runes (bytes s))"

definition field_of :: "string list \<Rightarrow> string \<Rightarrow> string option" where
  "field_of names k = (if k \<in> set names then Some k else find (\<lambda>n. fold_name n = fold_name k) names)"

text \<open>A field holds a value, and whether every value decoded so far had a type that fits.\<close>

type_synonym 'a decoded = "'a \<times> bool"

definition dec_string :: "ir \<Rightarrow> string \<Rightarrow> string decoded" where
  "dec_string v x = (case v of IStr s \<Rightarrow> (s, True) | INull \<Rightarrow> (x, True) | _ \<Rightarrow> (x, False))"

definition dec_bool :: "ir \<Rightarrow> bool \<Rightarrow> bool decoded" where
  "dec_bool v x = (case v of IBool b \<Rightarrow> (b, True) | INull \<Rightarrow> (x, True) | _ \<Rightarrow> (x, False))"

text \<open>\<open>strconv.ParseInt(literal, 10, 64)\<close>.\<close>

definition dec_int64 :: "ir \<Rightarrow> int \<Rightarrow> int decoded" where
  "dec_int64 v x =
     (case v of
        INum s \<Rightarrow>
          (if contains_any s ''.eE'' then (x, False)
           else (case read_int s of None \<Rightarrow> (x, False)
                 | Some i \<Rightarrow> if - (2 ^ 63) \<le> i \<and> i < 2 ^ 63 then (i, True) else (x, False)))
      | INull \<Rightarrow> (x, True) | _ \<Rightarrow> (x, False))"

text \<open>An object decodes member by member into \<open>x\<close>; \<open>set f v x\<close> decodes \<open>v\<close> into the field named \<open>f\<close>.\<close>

fun dec_members :: "string list \<Rightarrow> (string \<Rightarrow> ir \<Rightarrow> 'a \<Rightarrow> 'a decoded) \<Rightarrow> (string \<times> ir) list \<Rightarrow> 'a \<Rightarrow> 'a decoded" where
  "dec_members names set_f [] x = (x, True)"
| "dec_members names set_f ((k, v) # ms) x =
     (let (y, ok) = (case field_of names k of None \<Rightarrow> (x, True) | Some f \<Rightarrow> set_f f v x);
          (z, ok') = dec_members names set_f ms y in (z, ok \<and> ok'))"

definition dec_struct :: "string list \<Rightarrow> (string \<Rightarrow> ir \<Rightarrow> 'a \<Rightarrow> 'a decoded) \<Rightarrow> ir \<Rightarrow> 'a \<Rightarrow> 'a decoded" where
  "dec_struct names set_f v x =
     (case v of IObj ms \<Rightarrow> dec_members names set_f ms x | INull \<Rightarrow> (x, True) | _ \<Rightarrow> (x, False))"

text \<open>
  A slice: the values in its backing array, and how many of them are the slice.  An array decodes over
  the values already there, position by position.
\<close>

type_synonym 'a slice = "'a list \<times> nat"

definition slice_values :: "'a slice \<Rightarrow> 'a list" where "slice_values s = take (snd s) (fst s)"

fun dec_over :: "(ir \<Rightarrow> 'a \<Rightarrow> 'a decoded) \<Rightarrow> 'a \<Rightarrow> ir list \<Rightarrow> 'a list \<Rightarrow> 'a list decoded" where
  "dec_over dec zero [] xs = (xs, True)"
| "dec_over dec zero (v # vs) xs =
     (let (y, ok) = dec v (case xs of [] \<Rightarrow> zero | x # _ \<Rightarrow> x);
          (ys, ok') = dec_over dec zero vs (drop 1 xs) in (y # ys, ok \<and> ok'))"

definition dec_slice :: "(ir \<Rightarrow> 'a \<Rightarrow> 'a decoded) \<Rightarrow> 'a \<Rightarrow> ir \<Rightarrow> 'a slice \<Rightarrow> 'a slice decoded" where
  "dec_slice dec zero v s =
     (case v of
        IArr [] \<Rightarrow> (([], 0), True)
      | IArr vs \<Rightarrow> (let (xs, ok) = dec_over dec zero vs (fst s) in ((xs, length vs), ok))
      | INull \<Rightarrow> (([], 0), True)
      | _ \<Rightarrow> (s, False))"

text \<open>A pointer to a struct: \<open>null\<close> clears it, an object decodes into what it points to.\<close>

definition dec_pointer :: "(ir \<Rightarrow> 'a \<Rightarrow> 'a decoded) \<Rightarrow> 'a \<Rightarrow> ir \<Rightarrow> 'a option \<Rightarrow> 'a option decoded" where
  "dec_pointer dec zero v p =
     (case v of INull \<Rightarrow> (None, True)
      | _ \<Rightarrow> (let (x, ok) = dec v (case p of None \<Rightarrow> zero | Some x \<Rightarrow> x) in (Some x, ok)))"

text \<open>\<open>Unmarshal(data, &x)\<close>: a syntax error changes nothing, a wrong type is reported once all is decoded.\<close>

definition unmarshal_into :: "(ir \<Rightarrow> 'a \<Rightarrow> 'a decoded) \<Rightarrow> string \<Rightarrow> 'a \<Rightarrow> 'a option" where
  "unmarshal_into dec s x =
     (case unmarshal s of None \<Rightarrow> None | Some v \<Rightarrow> (let (y, ok) = dec v x in if ok then Some y else None))"

text \<open>\<open>map[string]json.RawMessage\<close>: the last of the members of one name.\<close>

definition last_member :: "(string \<times> ir) list \<Rightarrow> string \<Rightarrow> ir option" where
  "last_member ms k = map_of (rev ms) k"

section \<open>Evaluating documents\<close>

definition plain_char :: "char \<Rightarrow> bool" where
  "plain_char c \<longleftrightarrow> 32 \<le> (of_char c :: nat) \<and> (of_char c :: nat) < 128 \<and> (of_char c :: nat) \<noteq> 34 \<and> (of_char c :: nat) \<noteq> 92"

lemma read_str_quote: "read_str (CHR 0x22 # r) = Some ([], r)"
  by (simp add: read_str_def bytes_def read_body.simps) (simp add: of_bytes_def comp_def)

lemma read_str_plain: "plain_char c \<Longrightarrow> read_str (c # s) = map_option (\<lambda>(t, r). (c # t, r)) (read_str s)"
  by (auto simp: read_str_def plain_char_def bytes_def read_body.simps emit_rune_def encode_rune_def of_bytes_def
      split: option.splits)

lemmas read_doc_numeral = read_doc.simps(2) [of "pred_numeral k" for k, folded numeral_eq_Suc]
lemmas read_elems_numeral = read_elems.simps(2) [of "pred_numeral k" for k, folded numeral_eq_Suc]
lemmas read_fields_numeral = read_fields.simps(2) [of "pred_numeral k" for k, folded numeral_eq_Suc]

lemmas doc_eval = read_doc_numeral read_elems_numeral read_fields_numeral read_str_quote read_str_plain plain_char_def
  skip_ws_def is_ws_def has_prefix_def read_literal_def maxNestingDepth_def

text \<open>
  Decoding into an \<open>any\<close>: a number is the nearest double, and one that overflows is an error of the whole
  document.
\<close>

fun numbers_fit :: "ir \<Rightarrow> bool" and numbers_fit_all :: "ir list \<Rightarrow> bool" and numbers_fit_members :: "(string \<times> ir) list \<Rightarrow> bool"
where
  "numbers_fit (INum s) = (parseFloat s \<noteq> None)"
| "numbers_fit (IArr vs) = numbers_fit_all vs"
| "numbers_fit (IObj ms) = numbers_fit_members ms"
| "numbers_fit v = True"
| "numbers_fit_all [] = True"
| "numbers_fit_all (v # vs) = (numbers_fit v \<and> numbers_fit_all vs)"
| "numbers_fit_members [] = True"
| "numbers_fit_members ((k, v) # ms) = (numbers_fit v \<and> numbers_fit_members ms)"

end
