(* ===== verification/Float64.thy ===== *)
theory Float64
  imports FloatText
begin

text \<open>
  The arithmetic of Go's \<open>float64\<close>, as far as the program computes with it: each operation is the
  exact result rounded to nearest even, so a value is the rational a double denotes and \<open>fl\<close> is applied
  after every operation.  The rounding is the one of \<^verbatim>\<open>Numbers\<close>; the lemmas bound its error.
\<close>

section \<open>Rounding a rational\<close>

text \<open>The value of a double.  No value computed here comes near the largest double.\<close>

fun float_value :: "f64 \<Rightarrow> rat" where
  "float_value NaN = 0"
| "float_value (Inf neg) = (if neg then - (2 ^ 1024) else 2 ^ 1024)"
| "float_value (Fin neg m e) = (if neg then - (rat_of_nat m * 2 powi e) else rat_of_nat m * 2 powi e)"

definition fl :: "rat \<Rightarrow> rat" where
  "fl x = (let (a, b) = quotient_of x in float_value (fst (round_ratio (a < 0) (nat \<bar>a\<bar>) (nat b))))"

text \<open>The conversion of a \<open>float64\<close> to an \<open>int64\<close>: truncation, and out of range the value amd64 gives.\<close>

definition to_int64 :: "rat \<Rightarrow> int" where
  "to_int64 x = (let i = (if 0 \<le> x then \<lfloor>x\<rfloor> else \<lceil>x\<rceil>) in
     if - (2 ^ 63) \<le> i \<and> i < 2 ^ 63 then i else - (2 ^ 63))"

section \<open>The error of a rounding\<close>

lemma half_even_error:
  assumes "0 < b"
  shows "\<bar>rat_of_nat (half_even a b) - rat_of_nat a / rat_of_nat b\<bar> \<le> 1 / 2"
proof -
  define q r where "q = a div b" and "r = a mod b"
  have a: "a = q * b + r" and r: "r < b" using assms by (simp_all add: q_def r_def)
  have "rat_of_nat a = rat_of_nat q * rat_of_nat b + rat_of_nat r" using a by simp
  then have x: "rat_of_nat a / rat_of_nat b = rat_of_nat q + rat_of_nat r / rat_of_nat b"
    using assms by (simp add: field_simps)
  have h: "half_even a b = (if b < 2 * r \<or> (2 * r = b \<and> odd q) then Suc q else q)"
    by (simp add: half_even_def Let_def q_def r_def)
  have r1: "rat_of_nat r / rat_of_nat b < 1" "0 \<le> rat_of_nat r / rat_of_nat b" using r by simp_all
  show ?thesis
  proof (cases "half_even a b = q")
    case True
    then have "2 * r \<le> b" using h by (auto split: if_splits)
    then have "rat_of_nat (2 * r) \<le> rat_of_nat b" by (simp only: of_nat_le_iff)
    then have "rat_of_nat r / rat_of_nat b \<le> 1 / 2" using assms by (simp add: divide_le_eq)
    then show ?thesis using r1 unfolding True x by simp
  next
    case False
    then have q: "half_even a b = Suc q" "b \<le> 2 * r" using h by (auto split: if_splits)
    then have "rat_of_nat b \<le> rat_of_nat (2 * r)" by (simp only: of_nat_le_iff)
    then have "1 / 2 \<le> rat_of_nat r / rat_of_nat b" using assms by (simp add: le_divide_eq)
    then show ?thesis using r1 unfolding q(1) x by simp
  qed
qed

lemma round_ratio_error:
  assumes "0 < num" and "0 < den" and "ratio num den \<le> 2 ^ 1000"
  shows "\<bar>float_value (fst (round_ratio False num den)) - ratio num den\<bar>
    \<le> 2 powi (- 53) * max (ratio num den) (2 powi (- 1022))"
proof -
  define L where "L = ratio_log2 num den"
  define e where "e = max (L - 52) (- 1074)"
  define q where "q = half_even (scale_num num e) (scale_den den e)"
  have u: "(0::rat) < 2 powi k" for k by simp
  note lb = ratio_log2_bounds [OF assms(1,2), folded L_def]
  have "(2::rat) powi L \<le> 2 powi 1000" using lb(1) assms(3) by (simp add: power_int_def)
  then have "(2::rat) powi L < 2 powi 1001" by (rule order.strict_trans1) (simp add: power_int_def)
  then have e9: "e + 1 \<le> 971" using pow2_less [of L 1001] by (simp add: e_def)
  have v: "float_value (fst (round_ratio False num den)) = rat_of_nat q * 2 powi e"
  proof -
    have "num \<noteq> 0" using assms(1) by simp
    note rr = round_ratio_half_even [OF this e_def [unfolded L_def] q_def, of False]
    have "(2::rat) ^ 53 * 2 powi e = 2 ^ 52 * 2 powi (e + 1)" by (simp add: power_int_add)
    then show ?thesis unfolding rr using e9 by (cases "q = 2 ^ 53") (simp_all add: Let_def)
  qed
  have "0 < scale_den den e" using assms(2) by (simp add: scale_den_def)
  from half_even_error [OF this, of "scale_num num e", folded q_def]
  have "\<bar>rat_of_nat q - ratio num den / 2 powi e\<bar> \<le> 1 / 2" by (simp only: scaled_ratio [OF assms(2)])
  then have "\<bar>rat_of_nat q - ratio num den / 2 powi e\<bar> * 2 powi e \<le> 1 / 2 * 2 powi e" by (intro mult_right_mono) simp_all
  moreover have "\<bar>rat_of_nat q - ratio num den / 2 powi e\<bar> * 2 powi e = \<bar>rat_of_nat q * 2 powi e - ratio num den\<bar>"
    by (subst abs_of_pos [OF u [of e], symmetric], subst abs_mult [symmetric]) (simp add: left_diff_distrib)
  ultimately have d: "\<bar>rat_of_nat q * 2 powi e - ratio num den\<bar> \<le> 1 / 2 * 2 powi e" by simp
  have "1 / 2 * 2 powi e = 2 powi (- 53) * (2 :: rat) powi (e + 52)"
    by (simp add: power_int_add power_int_minus field_simps)
  also have "\<dots> \<le> 2 powi (- 53) * max (ratio num den) (2 powi (- 1022))"
  proof (rule mult_left_mono)
    have "e + 52 = max L (- 1022)" by (simp add: e_def)
    then have "2 powi (e + 52) = max (2 powi L) ((2::rat) powi (- 1022))"
      using power_int_increasing [of L "- 1022" "2::rat"] power_int_increasing [of "- 1022" L "2::rat"]
      by (auto simp: max_def)
    then show "2 powi (e + 52) \<le> max (ratio num den) (2 powi (- 1022))" using lb(1) by simp
  qed simp
  finally show ?thesis unfolding v using d by linarith
qed

lemma round_ratio_shape:
  obtains (overflow) "\<And>neg. fst (round_ratio neg num den) = Inf neg"
    | (finite) m e where "\<And>neg. fst (round_ratio neg num den) = Fin neg m e"
proof (cases "num = 0")
  case True
  then have "fst (round_ratio neg num den) = Fin neg 0 0" for neg unfolding round_ratio_def by (simp only: if_True fst_conv simp_thms)
  then show thesis by (rule finite)
next
  case False
  define E where "E = max (ratio_log2 num den - 52) (- 1074)"
  define q where "q = half_even (scale_num num E) (scale_den den E)"
  define M where "M = (if q = 2 ^ 53 then 2 ^ 52 else q)"
  define X where "X = (if q = 2 ^ 53 then E + 1 else E)"
  have r: "fst (round_ratio neg num den) = (if 971 < X then Inf neg else if M = 0 then Fin neg 0 0 else Fin neg M X)" for neg
    unfolding round_ratio_half_even [OF False E_def q_def] M_def X_def Let_def by (cases "q = 2 ^ 53") (simp_all only: if_True if_False prod.case simp_thms)
  show thesis
  proof (cases "971 < X")
    case True
    with r have "fst (round_ratio neg num den) = Inf neg" for neg by (simp only: if_True)
    then show thesis by (rule overflow)
  next
    case nX: False
    with r have "fst (round_ratio neg num den) = Fin neg M (if M = 0 then 0 else X)" for neg
      by (cases "M = 0") (simp_all only: if_True if_False simp_thms)
    then show thesis by (rule finite)
  qed
qed

lemma round_ratio_sign: "float_value (fst (round_ratio neg num den)) =
    (if neg then - 1 else 1) * float_value (fst (round_ratio False num den))"
  by (cases num den rule: round_ratio_shape) simp_all

lemma round_ratio_nonneg: "0 \<le> float_value (fst (round_ratio False num den))"
  by (cases num den rule: round_ratio_shape) simp_all

lemma fl_0 [simp]: "fl 0 = 0"
  by (simp add: fl_def round_ratio_def)

lemma fl_parts:
  obtains num den where "0 < den" "\<bar>x\<bar> = ratio num den"
    "fl x = (if x < 0 then - 1 else 1) * float_value (fst (round_ratio False num den))"
proof -
  obtain a b where q: "quotient_of x = (a, b)" by fastforce
  have b: "0 < b" by (rule quotient_of_denom_pos [OF q])
  have x: "x = rat_of_int a / rat_of_int b" by (rule quotient_of_div [OF q])
  have "\<bar>x\<bar> = ratio (nat \<bar>a\<bar>) (nat b)" unfolding x ratio_def using b by (simp add: abs_divide)
  moreover have "x < 0 \<longleftrightarrow> a < 0" unfolding x using b by (simp add: divide_less_0_iff)
  ultimately show thesis using b q
    by (intro that [of "nat b" "nat \<bar>a\<bar>"]) (simp_all add: fl_def round_ratio_sign [of "a < 0"])
qed

lemma fl_error:
  assumes "\<bar>x\<bar> \<le> 2 ^ 1000"
  shows "\<bar>fl x - x\<bar> \<le> 2 powi (- 53) * max \<bar>x\<bar> (2 powi (- 1022))"
proof (cases "x = 0")
  case False
  obtain num den where p: "0 < den" "\<bar>x\<bar> = ratio num den"
    "fl x = (if x < 0 then - 1 else 1) * float_value (fst (round_ratio False num den))" by (rule fl_parts)
  have "num \<noteq> 0"
  proof
    assume "num = 0"
    with p(2) have "\<bar>x\<bar> = 0" by (simp add: ratio_def)
    with False show False by simp
  qed
  then have "\<bar>float_value (fst (round_ratio False num den)) - \<bar>x\<bar>\<bar> \<le> 2 powi (- 53) * max \<bar>x\<bar> (2 powi (- 1022))"
    using round_ratio_error [of num den] p(1) assms unfolding p(2) by simp
  then show ?thesis unfolding p(3) by (cases "x < 0") (simp_all add: abs_if split: if_splits)
qed simp

lemma fl_nonneg: "0 \<le> x \<Longrightarrow> 0 \<le> fl x"
proof -
  assume "0 \<le> x"
  moreover obtain num den where "0 < den" "\<bar>x\<bar> = ratio num den"
    "fl x = (if x < 0 then - 1 else 1) * float_value (fst (round_ratio False num den))" by (rule fl_parts)
  ultimately show "0 \<le> fl x" using round_ratio_nonneg [of num den] by simp
qed

text \<open>A non-negative value is rounded up by at most one part in 2^53, and an integer up to 2^53 not at all.\<close>

lemma fl_normal:
  assumes "2 powi (- 1022) \<le> x" and "x \<le> 2 ^ 1000"
  shows "fl x \<le> x * (1 + 2 powi (- 53))" "x * (1 - 2 powi (- 53)) \<le> fl x"
proof -
  have "0 < x" using assms(1) by (rule order.strict_trans2 [rotated]) simp
  with fl_error [of x] assms have "\<bar>fl x - x\<bar> \<le> 2 powi (- 53) * x" by (simp add: max_absorb1)
  then have "fl x \<le> x + 2 powi (- 53) * x" "x - 2 powi (- 53) * x \<le> fl x" by linarith+
  then show "fl x \<le> x * (1 + 2 powi (- 53))" "x * (1 - 2 powi (- 53)) \<le> fl x" by (simp_all add: algebra_simps)
qed

lemma fl_absolute:
  assumes "\<bar>x\<bar> \<le> c" and "1 \<le> c" and "c \<le> 2 ^ 1000"
  shows "\<bar>fl x - x\<bar> \<le> 2 powi (- 53) * c"
proof -
  have "(2::rat) powi (- 1022) \<le> 1" by (simp add: power_int_minus)
  then have "2 powi (- 53) * max \<bar>x\<bar> (2 powi (- 1022)) \<le> 2 powi (- 53) * c"
    using assms by (intro mult_left_mono) simp_all
  with fl_error [of x] assms show ?thesis by linarith
qed

lemma fl_int:
  assumes "\<bar>i\<bar> \<le> 2 ^ 53"
  shows "fl (rat_of_int i) = rat_of_int i"
proof -
  define n where "n = nat \<bar>i\<bar>"
  have q: "fl (rat_of_int i) = (if i < 0 then - 1 else 1) * float_value (fst (round_ratio False n 1))"
    by (simp add: fl_def n_def round_ratio_sign [of "i < 0"])
  have "float_value (fst (round_ratio False n 1)) = rat_of_nat n"
  proof -
    consider "n = 0" | "n = 2 ^ 53" | "0 < n" "n < 2 ^ 53" using assms by (auto simp: n_def) linarith
    then show ?thesis
    proof cases
      case 1
      then show ?thesis by (simp add: round_ratio_def)
    next
      case 2
      have "fst (round_ratio False (2 ^ 53) 1) = Fin False (2 ^ 52) 1"
        by (simp add: round_ratio_def ratio_log2_def flog2.simps)
      then show ?thesis unfolding 2 by simp
    next
      case 3
      define k where "k = 52 - flog2 n"
      have "int (flog2 n) - 52 = - int k" using round_exact_int(2) [OF 3] by (simp add: k_def)
      then show ?thesis using round_exact_int(1) [OF 3, of False]
        by (simp add: k_def [symmetric] power_int_minus)
    qed
  qed
  then show ?thesis unfolding q by (simp add: n_def)
qed

lemma fl_1 [simp]: "fl 1 = 1"
  using fl_int [of 1] by simp

lemma fl_numeral: "(numeral n :: int) \<le> 2 ^ 53 \<Longrightarrow> fl (numeral n) = numeral n"
  using fl_int [of "numeral n"] by simp

end
