(* ===== verification/AuditRecord.thy ===== *)
theory AuditRecord
  imports Framing
begin

text \<open>
  \<^verbatim>\<open>internal/audit/record.go\<close>: the audit record, the object it is hashed and serialized as, and
  its well-formedness check.  A timestamp is the number of nanoseconds since the Unix epoch;
  \<open>format_ts\<close> is \<open>t.UTC().Format(TimeFormat)\<close>.  SHA-256 in lowercase hex is the argument \<open>sha\<close>.
\<close>

section \<open>Timestamps\<close>

text \<open>The civil date of a day number (days since 1970-01-01) in the proleptic Gregorian calendar.\<close>

definition civil_date :: "int \<Rightarrow> int \<times> int \<times> int" where
  "civil_date days =
     (let z = days + 719468; era = z div 146097; doe = z mod 146097;
          yoe = (doe - doe div 1460 + doe div 36524 - doe div 146096) div 365;
          doy = doe - (365 * yoe + yoe div 4 - yoe div 100);
          mp = (5 * doy + 2) div 153;
          d = doy - (153 * mp + 2) div 5 + 1;
          m = (if mp < 10 then mp + 3 else mp - 9);
          y = yoe + era * 400 + (if m \<le> 2 then 1 else 0)
      in (y, m, d))"

definition pad :: "nat \<Rightarrow> int \<Rightarrow> string" where
  "pad w n = (let s = show_int n in replicate (w - length s) (CHR ''0'') @ s)"

definition format_ts :: "int \<Rightarrow> string" where
  "format_ts t =
     (let ms = t div 1000000; days = ms div 86400000; r = ms mod 86400000;
          (y, m, d) = civil_date days
      in pad 4 y @ ''-'' @ pad 2 m @ ''-'' @ pad 2 d @ ''T'' @ pad 2 (r div 3600000) @ '':'' @
         pad 2 (r div 60000 mod 60) @ '':'' @ pad 2 (r div 1000 mod 60) @ ''.'' @ pad 3 (r mod 1000) @ ''Z'')"

text \<open>\<open>t.Truncate(time.Millisecond)\<close>, and the zero \<open>time.Time\<close> of year one.\<close>

definition trunc_ms :: "int \<Rightarrow> int" where
  "trunc_ms t = t - t mod 1000000"

definition zero_time :: int where
  "zero_time = - 62135596800000000000"

section \<open>The record\<close>

definition Version :: int where "Version = 1"

definition GenesisPrevHash :: string where
  "GenesisPrevHash = replicate 64 (CHR ''0'')"

definition OutcomeSuccess :: string where "OutcomeSuccess = ''success''"
definition OutcomeFailure :: string where "OutcomeFailure = ''failure''"
definition OutcomePartial :: string where "OutcomePartial = ''partial''"

record Actor =
  actor_id :: string
  actor_method :: string
  actor_session :: string

record Source =
  source_ip :: string
  source_version :: string

record Target =
  target_kind :: string
  target_id :: string

record Record =
  rV :: int
  rInstall :: string
  rSeq :: int
  rTS :: int
  rActor :: Actor
  rSource :: Source
  rAction :: string
  rTarget :: "Target option"
  rIntentHash :: string
  rJustification :: string
  rOutcome :: string
  rDetail :: "(string \<times> goval) list"
  rPrevHash :: string
  rHash :: string

definition nullable :: "string \<Rightarrow> goval" where
  "nullable s = (if s = [] then GNil else GStr s)"

definition members :: "Record \<Rightarrow> (string \<times> goval) list" where
  "members r =
     [(''v'', GInt (rV r)),
      (''install'', GStr (rInstall r)),
      (''seq'', GInt (rSeq r)),
      (''ts'', GStr (format_ts (rTS r))),
      (''actor'', GMap True (Some
         [(''id'', nullable (actor_id (rActor r))),
          (''method'', nullable (actor_method (rActor r))),
          (''session'', nullable (actor_session (rActor r)))])),
      (''source'', GMap True (Some
         [(''ip'', nullable (source_ip (rSource r))),
          (''version'', nullable (source_version (rSource r)))])),
      (''action'', GStr (rAction r)),
      (''target'', (case rTarget r of None \<Rightarrow> GNil
         | Some t \<Rightarrow> GMap True (Some [(''kind'', nullable (target_kind t)), (''id'', nullable (target_id t))]))),
      (''intent_hash'', nullable (rIntentHash r)),
      (''justification'', nullable (rJustification r)),
      (''outcome'', GStr (rOutcome r)),
      (''detail'', GMap True (Some (rDetail r))),
      (''prev_hash'', GStr (rPrevHash r)),
      (''hash'', nullable (rHash r))]"

datatype record_err = EncodingFailed path_error | NoHash | InvalidRecord string

definition encode_map :: "(string \<times> goval) list \<Rightarrow> record_err + string" where
  "encode_map m = (case Encode (GMap True (Some m)) of Inl e \<Rightarrow> Inl (EncodingFailed e) | Inr b \<Rightarrow> Inr b)"

definition detailJSON :: "Record \<Rightarrow> record_err + string" where
  "detailJSON r = encode_map (rDetail r)"

definition targetFields :: "Record \<Rightarrow> string \<times> string" where
  "targetFields r = (case rTarget r of None \<Rightarrow> ([], []) | Some t \<Rightarrow> (target_kind t, target_id t))"

definition Preimage :: "Record \<Rightarrow> record_err + string" where
  "Preimage r = encode_map (del ''hash'' (members r))"

definition Compute :: "(string \<Rightarrow> string) \<Rightarrow> Record \<Rightarrow> record_err + string" where
  "Compute sha r = sbind (Preimage r) (\<lambda>b. Inr (sha b))"

definition Line :: "Record \<Rightarrow> record_err + string" where
  "Line r = (if rHash r = [] then Inl NoHash else encode_map (members r))"

section \<open>Validate\<close>

definition lower_hex :: "char \<Rightarrow> bool" where
  "lower_hex c \<longleftrightarrow> is_digit c \<or> (97 \<le> (of_char c :: nat) \<and> (of_char c :: nat) \<le> 102)"

definition hexHash :: "string \<Rightarrow> bool" where
  "hexHash s \<longleftrightarrow> length s = 64 \<and> list_all lower_hex s"

definition Validate :: "Record \<Rightarrow> record_err + unit" where
  "Validate r =
     (if rV r \<le> 0 then Inl (InvalidRecord ''v'')
      else if rInstall r = [] then Inl (InvalidRecord ''install'')
      else if rSeq r \<le> 0 then Inl (InvalidRecord ''seq'')
      else if rTS r = zero_time then Inl (InvalidRecord ''ts'')
      else if actor_method (rActor r) = [] then Inl (InvalidRecord ''method'')
      else if rAction r = [] then Inl (InvalidRecord ''action'')
      else if rOutcome r \<noteq> OutcomeSuccess \<and> rOutcome r \<noteq> OutcomeFailure \<and> rOutcome r \<noteq> OutcomePartial
        then Inl (InvalidRecord ''outcome'')
      else if \<not> hexHash (rPrevHash r) then Inl (InvalidRecord ''prev_hash'')
      else (case rTarget r of None \<Rightarrow> Inr ()
            | Some t \<Rightarrow> if target_kind t = [] \<or> target_id t = [] then Inl (InvalidRecord ''target'')
                        else Inr ()))"

lemma hexHash_genesis: "hexHash GenesisPrevHash"
  by (simp add: hexHash_def GenesisPrevHash_def lower_hex_def list_all_iff)

lemma Compute_Inr: "Compute sha r = Inr h \<longleftrightarrow> (\<exists>b. Preimage r = Inr b \<and> h = sha b)"
  by (auto simp: Compute_def)

lemma members_hash_indep: "del ''hash'' (members (r\<lparr>rHash := h\<rparr>)) = del ''hash'' (members r)"
  by (simp add: members_def del_def)

lemma Preimage_hash [simp]: "Preimage (r\<lparr>rHash := h\<rparr>) = Preimage r"
  by (simp add: Preimage_def members_hash_indep)

lemma Compute_hash [simp]: "Compute sha (r\<lparr>rHash := h\<rparr>) = Compute sha r"
  by (simp add: Compute_def)

section \<open>What the hash covers\<close>

text \<open>The canonical bytes of one value, if it has any; they do not depend on where the value stands.\<close>

definition enc :: "goval \<Rightarrow> string option" where
  "enc v = (case Encode v of Inl e \<Rightarrow> None | Inr b \<Rightarrow> Some b)"

lemma encI: "from_value p v = Inr x \<Longrightarrow> encode_value q x = Inr b \<Longrightarrow> enc v = Some b"
  using from_value_path(1) [of p v x "[]"] encode_value_path(1) [of q x b "[]"]
  by (simp add: enc_def Encode_def marshal_def)

lemma from_map_members:
  "from_map p m = Inr xs \<Longrightarrow> (k, v) \<in> set m \<Longrightarrow>
   \<exists>x. (k, x) \<in> set xs \<and> from_value (member_path p k) v = Inr x"
  by (induction m arbitrary: xs) fastforce+

lemma from_map_keys: "from_map p m = Inr xs \<Longrightarrow> map fst xs = map fst m"
  by (induction m arbitrary: xs) fastforce+

lemma write_members_all: "write_members p ms = Inr xs \<Longrightarrow> (k, r) \<in> set ms \<Longrightarrow> \<exists>b. r = Inr b"
  by (induction p ms arbitrary: xs rule: write_members.induct) auto

lemma encode_members_enc:
  assumes "from_map p m = Inr xs" and "encode_value q (IObj xs) = Inr b" and "(k, v) \<in> set m"
  shows "\<exists>e. enc v = Some e \<and> (k, Inr e) \<in> set (encode_members q xs)"
proof -
  from from_map_members [OF assms(1,3)] obtain x
    where x: "(k, x) \<in> set xs" "from_value (member_path p k) v = Inr x" by blast
  then have mem: "(k, encode_value (member_path q k) x) \<in> set (encode_members q xs)"
    by (force simp: encode_members_map)
  from assms(2) obtain ys where "write_members q (sort_by key_less (encode_members q xs)) = Inr ys"
    by auto
  from write_members_all [OF this, of k "encode_value (member_path q k) x"] mem
  obtain e where e: "encode_value (member_path q k) x = Inr e" by auto
  from encI [OF x(2) e] mem e show ?thesis by auto
qed

text \<open>Two maps with the same bytes have, under each name, values with the same bytes.\<close>

lemma encode_map_member:
  assumes "encode_map m = Inr b" and "encode_map m' = Inr b"
    and "(k, v) \<in> set m" and "(k, v') \<in> set m'" and "distinct (map fst m')"
  shows "enc v = enc v' \<and> enc v \<noteq> None"
proof -
  from assms(1,2) obtain xs ys where
    x: "from_map [] m = Inr xs" "encode_value [] (IObj xs) = Inr b" and
    y: "from_map [] m' = Inr ys" "encode_value [] (IObj ys) = Inr b"
    by (auto simp: encode_map_def Encode_def marshal_def simp del: encode_value.simps split: sum.splits)
  from encode_members_enc [OF x assms(3)] obtain e where e: "enc v = Some e"
    "(k, Inr e) \<in> set (encode_members [] xs)" by blast
  from encode_members_enc [OF y assms(4)] obtain e' where e': "enc v' = Some e'"
    "(k, Inr e') \<in> set (encode_members [] ys)" by blast
  from encode_object_framed [OF x(2) y(2)] e(2)
  have "(k, Inr e) \<in> set (encode_members [] ys)" by (metis set_mset_mset)
  moreover have "distinct (map fst (encode_members [] ys))"
    using assms(5) from_map_keys [OF y(1)] by (simp add: encode_members_map split_beta comp_def)
  ultimately have "e = e'" using e'(2) by (metis eq_key_imp_eq_value sum.inject(2))
  with e e' show ?thesis by simp
qed

lemma enc_GMap: "enc (GMap True (Some m)) = Some b \<longleftrightarrow> encode_map m = Inr b"
  by (auto simp: enc_def encode_map_def split: sum.splits)

lemma enc_GMap_member:
  assumes "enc (GMap True (Some m)) = enc (GMap True (Some m')) \<and> enc (GMap True (Some m)) \<noteq> None"
    and "(k, v) \<in> set m" and "(k, v') \<in> set m'" and "distinct (map fst m')"
  shows "enc v = enc v' \<and> enc v \<noteq> None"
proof -
  from assms(1) obtain b where "encode_map m = Inr b" "encode_map m' = Inr b"
    using enc_GMap by fastforce
  from encode_map_member [OF this assms(2-4)] show ?thesis .
qed

lemma write_string_not_null: "write_string s \<noteq> Inr (CHR ''n'' # t)"
  by (auto elim: write_string_quote)

lemma enc_GNil: "enc GNil = Some ''null''"
  by (simp add: enc_def Encode_def marshal_def)

lemma enc_GStr: "enc (GStr s) = Some b \<longleftrightarrow> write_string s = Inr b"
  by (auto simp: enc_def Encode_def marshal_def split: sum.splits)

lemma enc_GStr_inj:
  assumes "enc (GStr s) = enc (GStr s') \<and> enc (GStr s) \<noteq> None"
  shows "s = s'"
proof -
  from assms obtain b where "write_string s = Inr b" "write_string s' = Inr b" using enc_GStr by fastforce
  from write_string_prefix_inj [OF this, of "[]" "[]"] show ?thesis by simp
qed

lemma enc_nullable_inj:
  assumes "enc (nullable s) = enc (nullable s') \<and> enc (nullable s) \<noteq> None"
  shows "s = s'"
proof (cases "s = [] \<or> s' = []")
  case True
  have "enc (GStr t) \<noteq> Some ''null''" for t using enc_GStr write_string_not_null by metis
  with True assms show ?thesis unfolding nullable_def by (metis enc_GNil)
next
  case False
  with assms enc_GStr_inj show ?thesis by (simp add: nullable_def)
qed

lemma enc_GInt_inj:
  assumes "enc (GInt i) = enc (GInt j)" and "\<bar>i\<bar> \<le> 2 ^ 53" and "\<bar>j\<bar> \<le> 2 ^ 53"
  shows "i = j"
  using assms by (simp add: enc_def Encode_def marshal_def formatInt_small at_def show_int_inj)

definition preimage_members :: "Record \<Rightarrow> (string \<times> goval) list" where
  "preimage_members r = del ''hash'' (members r)"

text \<open>The members under one name in two records whose preimages are the same bytes.\<close>

lemma preimage_member:
  assumes "Preimage r = Inr b" and "Preimage r' = Inr b"
    and "(k, v) \<in> set (members r)" and "(k, v') \<in> set (members r')" and "k \<noteq> ''hash''"
  shows "enc v = enc v' \<and> enc v \<noteq> None"
proof (rule encode_map_member)
  show "encode_map (del ''hash'' (members r)) = Inr b" "encode_map (del ''hash'' (members r')) = Inr b"
    using assms(1,2) by (simp_all add: Preimage_def)
  show "(k, v) \<in> set (del ''hash'' (members r))" "(k, v') \<in> set (del ''hash'' (members r'))"
    using assms(3-5) by (auto simp: del_def)
  show "distinct (map fst (del ''hash'' (members r')))"
    by (simp add: members_def del_def)
qed

lemma preimage_strings:
  assumes "Preimage r = Inr b" and "Preimage r' = Inr b"
  shows "rInstall r = rInstall r'" "format_ts (rTS r) = format_ts (rTS r')" "rAction r = rAction r'"
    "rOutcome r = rOutcome r'" "rPrevHash r = rPrevHash r'" "rIntentHash r = rIntentHash r'"
    "rJustification r = rJustification r'"
proof -
  note m = preimage_member [OF assms]
  show "rInstall r = rInstall r'"
    by (rule enc_GStr_inj [OF m [of "''install''"]]) (simp_all add: members_def)
  show "format_ts (rTS r) = format_ts (rTS r')"
    by (rule enc_GStr_inj [OF m [of "''ts''"]]) (simp_all add: members_def)
  show "rAction r = rAction r'"
    by (rule enc_GStr_inj [OF m [of "''action''"]]) (simp_all add: members_def)
  show "rOutcome r = rOutcome r'"
    by (rule enc_GStr_inj [OF m [of "''outcome''"]]) (simp_all add: members_def)
  show "rPrevHash r = rPrevHash r'"
    by (rule enc_GStr_inj [OF m [of "''prev_hash''"]]) (simp_all add: members_def)
  show "rIntentHash r = rIntentHash r'"
    by (rule enc_nullable_inj [OF m [of "''intent_hash''"]]) (simp_all add: members_def)
  show "rJustification r = rJustification r'"
    by (rule enc_nullable_inj [OF m [of "''justification''"]]) (simp_all add: members_def)
qed

lemma preimage_seq:
  assumes "Preimage r = Inr b" and "Preimage r' = Inr b"
    and "\<bar>rSeq r\<bar> \<le> 2 ^ 53" and "\<bar>rSeq r'\<bar> \<le> 2 ^ 53"
  shows "rSeq r = rSeq r'"
  using preimage_member [OF assms(1,2), of "''seq''" "GInt (rSeq r)" "GInt (rSeq r')"]
    enc_GInt_inj [of "rSeq r" "rSeq r'"] assms(3,4)
  by (simp add: members_def)

lemma preimage_version:
  assumes "Preimage r = Inr b" and "Preimage r' = Inr b"
    and "\<bar>rV r\<bar> \<le> 2 ^ 53" and "\<bar>rV r'\<bar> \<le> 2 ^ 53"
  shows "rV r = rV r'"
  using preimage_member [OF assms(1,2), of "''v''" "GInt (rV r)" "GInt (rV r')"]
    enc_GInt_inj [of "rV r" "rV r'"] assms(3,4)
  by (simp add: members_def)

lemma preimage_actor:
  assumes "Preimage r = Inr b" and "Preimage r' = Inr b"
  shows "rActor r = rActor r'"
proof -
  let ?m = "\<lambda>r. [(''id'', nullable (actor_id (rActor r))), (''method'', nullable (actor_method (rActor r))),
          (''session'', nullable (actor_session (rActor r)))]"
  have mem: "(''actor'', GMap True (Some (?m x))) \<in> set (members x)" for x by (simp add: members_def)
  have h:
    "enc (GMap True (Some (?m r))) = enc (GMap True (Some (?m r'))) \<and> enc (GMap True (Some (?m r))) \<noteq> None"
    by (rule preimage_member [OF assms mem mem]) simp
  note m = enc_GMap_member [OF h]
  have "actor_id (rActor r) = actor_id (rActor r')"
    by (rule enc_nullable_inj [OF m [of "''id''"]]) (simp_all add: nullable_def)
  moreover have "actor_method (rActor r) = actor_method (rActor r')"
    by (rule enc_nullable_inj [OF m [of "''method''"]]) (simp_all add: nullable_def)
  moreover have "actor_session (rActor r) = actor_session (rActor r')"
    by (rule enc_nullable_inj [OF m [of "''session''"]]) (simp_all add: nullable_def)
  ultimately show ?thesis by simp
qed

lemma preimage_source:
  assumes "Preimage r = Inr b" and "Preimage r' = Inr b"
  shows "rSource r = rSource r'"
proof -
  let ?m = "\<lambda>r. [(''ip'', nullable (source_ip (rSource r))), (''version'', nullable (source_version (rSource r)))]"
  have mem: "(''source'', GMap True (Some (?m x))) \<in> set (members x)" for x by (simp add: members_def)
  have h:
    "enc (GMap True (Some (?m r))) = enc (GMap True (Some (?m r'))) \<and> enc (GMap True (Some (?m r))) \<noteq> None"
    by (rule preimage_member [OF assms mem mem]) simp
  note m = enc_GMap_member [OF h]
  have "source_ip (rSource r) = source_ip (rSource r')"
    by (rule enc_nullable_inj [OF m [of "''ip''"]]) (simp_all add: nullable_def)
  moreover have "source_version (rSource r) = source_version (rSource r')"
    by (rule enc_nullable_inj [OF m [of "''version''"]]) (simp_all add: nullable_def)
  ultimately show ?thesis by simp
qed

lemma encode_map_null: "encode_map m \<noteq> Inr ''null''"
  by (auto simp: encode_map_def Encode_def marshal_def split: sum.splits)

lemma preimage_target:
  assumes "Preimage r = Inr b" and "Preimage r' = Inr b"
  shows "rTarget r = rTarget r'"
proof -
  let ?m = "\<lambda>t. [(''kind'', nullable (target_kind t)), (''id'', nullable (target_id t))]"
  let ?g = "\<lambda>r. case rTarget r of None \<Rightarrow> GNil | Some t \<Rightarrow> GMap True (Some (?m t))"
  have mem: "(''target'', ?g x) \<in> set (members x)" for x by (simp add: members_def)
  have h: "enc (?g r) = enc (?g r') \<and> enc (?g r) \<noteq> None"
    by (rule preimage_member [OF assms mem mem]) simp
  have nn: "enc (GMap True (Some m)) \<noteq> enc GNil" for m
    using encode_map_null [of m] by (metis enc_GMap enc_GNil)
  show ?thesis
  proof (cases "rTarget r")
    case None
    with h nn show ?thesis by (cases "rTarget r'") (auto dest: sym)
  next
    case (Some t)
    with h nn obtain t' where t': "rTarget r' = Some t'" by (cases "rTarget r'") auto
    have "enc (GMap True (Some (?m t))) = enc (GMap True (Some (?m t'))) \<and>
      enc (GMap True (Some (?m t))) \<noteq> None" using h unfolding Some t' option.case .
    note m = enc_GMap_member [OF this]
    have "target_kind t = target_kind t'"
      by (rule enc_nullable_inj [OF m [of "''kind''"]]) (simp_all add: nullable_def)
    moreover have "target_id t = target_id t'"
      by (rule enc_nullable_inj [OF m [of "''id''"]]) (simp_all add: nullable_def)
    ultimately show ?thesis using Some t' by simp
  qed
qed

lemma preimage_detail:
  assumes "Preimage r = Inr b" and "Preimage r' = Inr b"
  shows "detailJSON r = detailJSON r' \<and> (\<exists>d. detailJSON r = Inr d)"
proof -
  have mem: "(''detail'', GMap True (Some (rDetail x))) \<in> set (members x)" for x by (simp add: members_def)
  have "enc (GMap True (Some (rDetail r))) = enc (GMap True (Some (rDetail r'))) \<and>
     enc (GMap True (Some (rDetail r))) \<noteq> None"
    by (rule preimage_member [OF assms mem mem]) simp
  then obtain d where "enc (GMap True (Some (rDetail r))) = Some d"
    "enc (GMap True (Some (rDetail r'))) = Some d"
    by (metis not_None_eq)
  then show ?thesis by (simp add: enc_GMap detailJSON_def)
qed

section \<open>Every printable record has a hash\<close>

lemma write_members_ok:
  "\<forall>(k, r) \<in> set ms. valid_utf8 (bytes k) \<and> (\<exists>b. r = Inr b) \<Longrightarrow> \<exists>xs. write_members p ms = Inr xs"
  by (induction p ms rule: write_members.induct) (auto simp: write_string_def at_def)

lemma enc_from_value:
  assumes "enc v \<noteq> None"
  shows "\<exists>x b. from_value p v = Inr x \<and> encode_value q x = Inr b"
proof -
  from assms obtain x b where "from_value [] v = Inr x" "encode_value [] x = Inr b"
    by (auto simp: enc_def Encode_def marshal_def split: sum.splits)
  with from_value_path(1) encode_value_path(1) show ?thesis by blast
qed

lemma from_map_ok:
  "\<forall>(k, v) \<in> set m. enc v \<noteq> None \<and> valid_utf8 (bytes k) \<Longrightarrow>
   \<exists>xs. from_map p m = Inr xs \<and> (\<forall>(k, r) \<in> set (encode_members q xs). valid_utf8 (bytes k) \<and> (\<exists>b. r = Inr b))"
proof (induction m)
  case Nil
  then show ?case by simp
next
  case (Cons kv m)
  obtain k v where kv: "kv = (k, v)" by (cases kv)
  from Cons kv obtain xs where xs: "from_map p m = Inr xs"
    "\<forall>(k, r) \<in> set (encode_members q xs). valid_utf8 (bytes k) \<and> (\<exists>b. r = Inr b)" by auto
  from Cons.prems kv enc_from_value [of v "member_path p k" "member_path q k"] obtain x b
    where "from_value (member_path p k) v = Inr x" "encode_value (member_path q k) x = Inr b" by auto
  with xs Cons.prems kv show ?case by auto
qed

lemma encode_map_ok:
  assumes "\<forall>(k, v) \<in> set m. enc v \<noteq> None \<and> valid_utf8 (bytes k)"
  shows "\<exists>b. encode_map m = Inr b"
proof -
  from from_map_ok [OF assms, of "[]" "[]"] obtain xs where xs: "from_map [] m = Inr xs"
    "\<forall>(k, r) \<in> set (encode_members [] xs). valid_utf8 (bytes k) \<and> (\<exists>b. r = Inr b)" by auto
  from write_members_ok [of "sort_by key_less (encode_members [] xs)" "[]"] xs(2)
  obtain ys where "write_members [] (sort_by key_less (encode_members [] xs)) = Inr ys" by auto
  with xs(1) show ?thesis by (simp add: encode_map_def Encode_def marshal_def)
qed

lemma enc_map_ok: "\<forall>(k, v) \<in> set m. enc v \<noteq> None \<and> valid_utf8 (bytes k) \<Longrightarrow> enc (GMap True (Some m)) \<noteq> None"
  using encode_map_ok [of m] enc_GMap [of m] by fastforce

lemma enc_ok:
  "valid_utf8 (bytes s) \<Longrightarrow> enc (GStr s) \<noteq> None"
  "valid_utf8 (bytes s) \<Longrightarrow> enc (nullable s) \<noteq> None"
  "\<bar>i\<bar> \<le> 2 ^ 53 \<Longrightarrow> enc (GInt i) \<noteq> None"
  "enc GNil \<noteq> None"
  by (simp_all add: enc_def nullable_def Encode_def marshal_def write_string_def at_def formatInt_small)

lemma digits_ascii: "\<forall>c \<in> set s. is_digit c \<Longrightarrow> ascii s"
  by (auto simp: ascii_def is_digit_def dest!: bspec)

lemma ascii_simps [simp]:
  "ascii []" "ascii (c # s) \<longleftrightarrow> (of_char c :: nat) < 128 \<and> ascii s"
  "ascii (a @ b) \<longleftrightarrow> ascii a \<and> ascii b"
  by (auto simp: ascii_def)

lemma ascii_show_int: "ascii (show_int i)"
  using digits_ascii [OF show_nat_digits] by (simp add: show_int_def)

lemma ascii_pad: "ascii (pad w n)"
  using ascii_show_int by (simp add: pad_def Let_def) (simp add: ascii_def)

lemma ascii_format_ts: "ascii (format_ts t)"
  using ascii_pad by (simp add: format_ts_def Let_def split: prod.splits)

text \<open>The texts of a record, and the records whose content can be written at all.\<close>

definition texts :: "Record \<Rightarrow> string list" where
  "texts r = [rInstall r, actor_id (rActor r), actor_method (rActor r), actor_session (rActor r),
     source_ip (rSource r), source_version (rSource r), rAction r, rIntentHash r, rJustification r,
     rOutcome r, rPrevHash r, fst (targetFields r), snd (targetFields r)]"

definition in_range :: "Record \<Rightarrow> bool" where
  "in_range r \<longleftrightarrow> \<bar>rV r\<bar> \<le> 2 ^ 53 \<and> \<bar>rSeq r\<bar> \<le> 2 ^ 53"

definition printable :: "Record \<Rightarrow> bool" where
  "printable r \<longleftrightarrow> in_range r \<and> (\<forall>s \<in> set (texts r). valid_utf8 (bytes s)) \<and>
     (\<exists>d. detailJSON r = Inr d)"

lemma Preimage_ok:
  assumes "printable r"
  shows "\<exists>b. Preimage r = Inr b"
proof -
  from assms have t: "\<forall>s \<in> set (texts r). valid_utf8 (bytes s)"
    and n: "\<bar>rV r\<bar> \<le> 2 ^ 53" "\<bar>rSeq r\<bar> \<le> 2 ^ 53"
    and d: "enc (GMap True (Some (rDetail r))) \<noteq> None"
    by (auto simp: printable_def in_range_def detailJSON_def simp flip: enc_GMap)
  have ts: "valid_utf8 (bytes (format_ts (rTS r)))" by (rule ascii_valid [OF ascii_format_ts])
  have "\<forall>(k, v) \<in> set (members r). k \<noteq> ''hash'' \<longrightarrow> enc v \<noteq> None \<and> valid_utf8 (bytes k)"
    using t n d ts
    by (simp add: members_def texts_def targetFields_def enc_ok ascii_valid ascii_def enc_map_ok
        del: not_None_eq split: option.splits)
  then show ?thesis unfolding Preimage_def by (intro encode_map_ok) (auto simp: del_def)
qed

text \<open>
  What a hash covers: everything a reader of the record sees, apart from the hash itself.
  Timestamps are compared as they are rendered and details as they are stored.
\<close>

definition same_content :: "Record \<Rightarrow> Record \<Rightarrow> bool" where
  "same_content r r' \<longleftrightarrow> rV r = rV r' \<and> rInstall r = rInstall r' \<and> rSeq r = rSeq r' \<and>
     format_ts (rTS r) = format_ts (rTS r') \<and> rActor r = rActor r' \<and> rSource r = rSource r' \<and>
     rAction r = rAction r' \<and> rTarget r = rTarget r' \<and> rIntentHash r = rIntentHash r' \<and>
     rJustification r = rJustification r' \<and> rOutcome r = rOutcome r' \<and>
     detailJSON r = detailJSON r' \<and> rPrevHash r = rPrevHash r'"

lemma preimage_same_content:
  assumes "Preimage r = Inr b" and "Preimage r' = Inr b" and "in_range r" and "in_range r'"
  shows "same_content r r'"
  using preimage_strings [OF assms(1,2)] preimage_seq [OF assms(1,2)] preimage_version [OF assms(1,2)]
    preimage_actor [OF assms(1,2)] preimage_source [OF assms(1,2)] preimage_target [OF assms(1,2)]
    preimage_detail [OF assms(1,2)] assms(3,4)
  by (simp add: same_content_def in_range_def)

text \<open>
  C4: the hash covers the whole record: if two records with versions and sequence numbers in the
  exactly representable range compute the same hash, then either every field other than the hash
  is the same in both, or two different preimages have been found that SHA-256 maps to one digest.
\<close>

theorem hash_covers_record:
  assumes "Compute sha r = Inr h" and "Compute sha r' = Inr h" and "in_range r" and "in_range r'"
  shows "same_content r r' \<or>
    (\<exists>b b'. Preimage r = Inr b \<and> Preimage r' = Inr b' \<and> b \<noteq> b' \<and> sha b = sha b')"
  using assms preimage_same_content by (auto simp: Compute_Inr)

definition sample_record :: "int \<Rightarrow> string \<Rightarrow> Record" where
  "sample_record n prev =
     \<lparr>rV = 1, rInstall = ''ins_0'', rSeq = n, rTS = 0,
      rActor = \<lparr>actor_id = ''usr_1'', actor_method = ''token'', actor_session = []\<rparr>,
      rSource = \<lparr>source_ip = [], source_version = ''1.0''\<rparr>, rAction = ''user.create'',
      rTarget = Some \<lparr>target_kind = ''user'', target_id = ''bob''\<rparr>, rIntentHash = [],
      rJustification = [], rOutcome = ''success'', rDetail = [(''role'', GStr ''viewer'')],
      rPrevHash = prev, rHash = []\<rparr>"

lemma sample_printable:
  assumes "\<bar>n\<bar> \<le> 2 ^ 53" and "ascii prev"
  shows "printable (sample_record n prev)"
proof -
  have "\<exists>b. encode_map [(''role'', GStr ''viewer'')] = Inr b"
    by (rule encode_map_ok) (simp add: enc_ok ascii_valid del: not_None_eq)
  then show ?thesis
    using assms by (simp add: printable_def sample_record_def in_range_def texts_def targetFields_def
        detailJSON_def ascii_valid)
qed

theorem hash_covers_record_witness:
  "same_content (sample_record 7 GenesisPrevHash) ((sample_record 7 GenesisPrevHash)\<lparr>rHash := ''f''\<rparr>)"
proof -
  let ?r = "sample_record 7 GenesisPrevHash"
  have "ascii GenesisPrevHash" by (simp add: GenesisPrevHash_def ascii_def)
  then have p: "printable ?r" by (simp add: sample_printable)
  from Preimage_ok [OF this] obtain b where "Preimage ?r = Inr b" by blast
  then have "Compute (\<lambda>s. s) ?r = Inr b" by (simp add: Compute_def)
  moreover then have "Compute (\<lambda>s. s) (?r\<lparr>rHash := ''f''\<rparr>) = Inr b" by simp
  moreover have "in_range ?r" "in_range (?r\<lparr>rHash := ''f''\<rparr>)" using p by (simp_all add: printable_def in_range_def)
  ultimately show ?thesis using hash_covers_record [of "\<lambda>s. s"] by (metis (no_types))
qed

end
