(* ===== verification/HashChain.thy ===== *)
theory HashChain
  imports Prelude
begin

text \<open>
  The interface between a chain of records and the hash each record carries, independent of what
  a record is: what has to hold of the hash for the last hash of a chain to fix the whole chain.
\<close>

fun chained :: "('r \<Rightarrow> int) \<Rightarrow> ('r \<Rightarrow> 'h) \<Rightarrow> ('r \<Rightarrow> 'h) \<Rightarrow> ('r \<Rightarrow> bool) \<Rightarrow> int \<times> 'h \<Rightarrow> 'r list \<Rightarrow> bool" where
  "chained pos prev hash intact a [] = True"
| "chained pos prev hash intact a (r # rs) =
     (pos r = fst a + 1 \<and> prev r = snd a \<and> intact r \<and> chained pos prev hash intact (pos r, hash r) rs)"

locale hash_chain =
  fixes pos :: "'r \<Rightarrow> int" and prev hash :: "'r \<Rightarrow> 'h" and intact good :: "'r \<Rightarrow> bool"
    and same clash :: "'r \<Rightarrow> 'r \<Rightarrow> bool"
  assumes covered: "intact r \<Longrightarrow> intact r' \<Longrightarrow> good r \<Longrightarrow> good r' \<Longrightarrow> hash r = hash r' \<Longrightarrow> same r r' \<or> clash r r'"
    and same_pos: "same r r' \<Longrightarrow> pos r = pos r'"
    and same_prev: "same r r' \<Longrightarrow> prev r = prev r'"
begin

abbreviation chain :: "int \<times> 'h \<Rightarrow> 'r list \<Rightarrow> bool" where
  "chain \<equiv> chained pos prev hash intact"

lemma chain_snoc:
  "chain a (rs @ [r]) \<longleftrightarrow> chain a rs \<and>
     chain (if rs = [] then a else (pos (last rs), hash (last rs))) [r]"
  by (induction rs arbitrary: a) auto

lemma chain_pos: "chain a rs \<Longrightarrow> r \<in> set rs \<Longrightarrow> fst a < pos r"
  by (induction rs arbitrary: a) fastforce+

text \<open>Two chains from one start whose last hashes agree are the same, or two records clash.\<close>

lemma last_hash_determines:
  assumes "chain a rs" and "chain a rs'" and "rs \<noteq> []" and "rs' \<noteq> []"
    and "hash (last rs) = hash (last rs')" and "\<forall>r \<in> set rs \<union> set rs'. good r"
  shows "list_all2 same rs rs' \<or> (\<exists>r \<in> set rs. \<exists>r' \<in> set rs'. clash r r')"
  using assms
proof (induction rs arbitrary: rs' rule: rev_induct)
  case Nil
  then show ?case by simp
next
  case (snoc r xs)
  from snoc.prems(4) obtain r' ys where rs': "rs' = ys @ [r']" by (metis rev_exhaust)
  have c: "chain a xs" "chain a ys"
    "chain (if xs = [] then a else (pos (last xs), hash (last xs))) [r]"
    "chain (if ys = [] then a else (pos (last ys), hash (last ys))) [r']"
    using snoc.prems(1,2) by (simp_all add: chain_snoc rs')
  from snoc.prems(5,6) c(3,4) covered [of r r'] rs' have "same r r' \<or> clash r r'" by auto
  then show ?case
  proof
    assume s: "same r r'"
    have p: "pos r = pos r'" "prev r = prev r'" using same_pos [OF s] same_prev [OF s] by auto
    show ?thesis
    proof (cases "xs = [] \<or> ys = []")
      case True
      have "pos (last xs) \<noteq> fst a" if "xs \<noteq> []" using chain_pos [OF c(1), of "last xs"] that by simp
      moreover have "pos (last ys) \<noteq> fst a" if "ys \<noteq> []" using chain_pos [OF c(2), of "last ys"] that by simp
      ultimately have "xs = []" "ys = []" using True c(3,4) p by (auto split: if_splits)
      with s rs' show ?thesis by simp
    next
      case False
      with c(3,4) p have "hash (last xs) = hash (last ys)" by simp
      from snoc.IH [OF c(1,2) _ _ this] False snoc.prems(6) rs'
      have "list_all2 same xs ys \<or> (\<exists>r \<in> set xs. \<exists>r' \<in> set ys. clash r r')" by auto
      with s rs' show ?thesis by (auto intro: list_all2_appendI)
    qed
  qed (use rs' in auto)
qed

end

end
