(* ===== verification/AuditChain.thy ===== *)
theory AuditChain
  imports AuditRecord HashChain
begin

text \<open>
  \<^verbatim>\<open>internal/audit/chain.go\<close>: the append path of the hash chain.  The \<open>audit\<close> table is the list of
  its rows in ascending sequence order, with the constraints of migration 0002 checked on insert;
  the singleton \<open>installation\<close> row (migrations 0002 and 0019) is optional.  A transaction that fails
  leaves no state behind, so an operation returns the new state only when it succeeds.
\<close>

section \<open>The tables\<close>

record Installation =
  inst_id :: string
  inst_created :: string
  inst_pruned_seq :: "int option"
  inst_pruned_hash :: "string option"

record audit_db =
  db_rows :: "Record list"
  db_inst :: "Installation option"

record Entry =
  eTS :: int
  eActor :: Actor
  eSource :: Source
  eAction :: string
  eTarget :: "Target option"
  eIntentHash :: string
  eJustification :: string
  eOutcome :: string
  eDetail :: "(string \<times> goval) list"

datatype append_err = RandomFailed | BadRecord record_err | ConstraintFailed

text \<open>
  The CHECK clauses of the \<open>audit\<close> table; \<open>glob_ts\<close> is the GLOB pattern on \<open>ts\<close>.  The clause on
  \<open>target_kind\<close> and \<open>target_id\<close> holds of every row written from a \<open>Target\<close>.
\<close>

definition glob_ts :: "string \<Rightarrow> bool" where
  "glob_ts s = list_all2 (\<lambda>p c. if p = CHR ''9'' then is_digit c else c = p) ''9999-99-99T99:99:99.999Z'' s"

definition row_checks :: "Record \<Rightarrow> bool" where
  "row_checks r \<longleftrightarrow> 0 < rSeq r \<and> 0 < rV r \<and>
     rOutcome r \<in> {OutcomeSuccess, OutcomeFailure, OutcomePartial} \<and>
     length (rHash r) = 64 \<and> length (rPrevHash r) = 64 \<and> glob_ts (format_ts (rTS r))"

text \<open>INSERT INTO audit: the primary key and the two UNIQUE columns, then the row in its place.\<close>

definition insert_row :: "Record list \<Rightarrow> Record \<Rightarrow> append_err + Record list" where
  "insert_row rows r =
     (if rSeq r \<in> rSeq ` set rows \<or> rPrevHash r \<in> rPrevHash ` set rows \<or> rHash r \<in> rHash ` set rows
         \<or> \<not> row_checks r
      then Inl ConstraintFailed
      else Inr (insort_key rSeq r rows))"

section \<open>AppendTx\<close>

definition tail :: "Record list \<Rightarrow> int \<times> string" where
  "tail rows = (if rows = [] then (0, GenesisPrevHash) else (rSeq (last rows), rHash (last rows)))"

text \<open>
  \<open>installID\<close>; \<open>raw\<close> is what \<open>crypto/rand\<close> delivers, sixteen bytes or a failure.
\<close>

definition hex_encode :: "nat list \<Rightarrow> string" where
  "hex_encode bs = concat (map (\<lambda>b. [char_of (hex_digit (b div 16)), char_of (hex_digit (b mod 16))]) bs)"

definition installID :: "nat list option \<Rightarrow> int \<Rightarrow> audit_db \<Rightarrow> append_err + string \<times> audit_db" where
  "installID raw now db =
     (case db_inst db of
        Some i \<Rightarrow> Inr (inst_id i, db)
      | None \<Rightarrow>
          (case raw of
             None \<Rightarrow> Inl RandomFailed
           | Some bs \<Rightarrow>
               let i = ''ins_'' @ hex_encode bs in
               Inr (i, db\<lparr>db_inst := Some \<lparr>inst_id = i, inst_created = format_ts (trunc_ms now),
                                       inst_pruned_seq = None, inst_pruned_hash = None\<rparr>\<rparr>)))"

definition InstallID :: "audit_db \<Rightarrow> string option" where
  "InstallID db = map_option inst_id (db_inst db)"

definition lift_record :: "record_err + 'a \<Rightarrow> append_err + 'a" where
  "lift_record r = (case r of Inl e \<Rightarrow> Inl (BadRecord e) | Inr x \<Rightarrow> Inr x)"

definition next_record :: "string \<Rightarrow> int \<times> string \<Rightarrow> Entry \<Rightarrow> Record" where
  "next_record install t e =
     \<lparr>rV = Version, rInstall = install, rSeq = fst t + 1, rTS = trunc_ms (eTS e), rActor = eActor e,
      rSource = eSource e, rAction = eAction e, rTarget = eTarget e, rIntentHash = eIntentHash e,
      rJustification = eJustification e, rOutcome = eOutcome e, rDetail = eDetail e,
      rPrevHash = snd t, rHash = []\<rparr>"

definition AppendTx :: "(string \<Rightarrow> string) \<Rightarrow> nat list option \<Rightarrow> Entry \<Rightarrow> audit_db \<Rightarrow>
    append_err + Record \<times> audit_db" where
  "AppendTx sha raw e db =
     sbind (installID raw (eTS e) db) (\<lambda>(install, db1).
     let r = next_record install (tail (db_rows db1)) e in
     sbind (lift_record (Validate r)) (\<lambda>_.
     sbind (lift_record (Compute sha r)) (\<lambda>h.
     let r1 = r\<lparr>rHash := h\<rparr> in
     sbind (lift_record (detailJSON r1)) (\<lambda>_.
     sbind (insert_row (db_rows db1) r1) (\<lambda>rows.
     Inr (r1, db1\<lparr>db_rows := rows\<rparr>))))))"

text \<open>\<open>Append\<close> is \<open>AppendTx\<close> in a transaction of its own: the state changes only if it commits.\<close>

definition Append :: "(string \<Rightarrow> string) \<Rightarrow> nat list option \<Rightarrow> Entry \<Rightarrow> audit_db \<Rightarrow>
    (append_err + Record) \<times> audit_db" where
  "Append sha raw e db =
     (case AppendTx sha raw e db of Inl err \<Rightarrow> (Inl err, db) | Inr (r, db') \<Rightarrow> (Inr r, db'))"

section \<open>Linked records\<close>

text \<open>
  \<open>linked sha (n, h) rs\<close>: the records follow position \<open>n\<close> with hash \<open>h\<close> one after the other, each
  carrying its predecessor's hash and hashing to its own.
\<close>

fun linked :: "(string \<Rightarrow> string) \<Rightarrow> int \<times> string \<Rightarrow> Record list \<Rightarrow> bool" where
  "linked sha a [] = True"
| "linked sha a (r # rs) =
     (rSeq r = fst a + 1 \<and> rPrevHash r = snd a \<and> Compute sha r = Inr (rHash r) \<and>
      linked sha (rSeq r, rHash r) rs)"

text \<open>Where a table's rows start: after the cut retention recorded, else at genesis.\<close>

definition start_of :: "audit_db \<Rightarrow> int \<times> string" where
  "start_of db =
     (case db_inst db of
        Some i \<Rightarrow> (case (inst_pruned_seq i, inst_pruned_hash i) of
                     (Some s, Some h) \<Rightarrow> (s, h) | _ \<Rightarrow> (0, GenesisPrevHash))
      | None \<Rightarrow> (0, GenesisPrevHash))"

definition end_of :: "int \<times> string \<Rightarrow> Record list \<Rightarrow> int \<times> string" where
  "end_of a rs = (if rs = [] then a else (rSeq (last rs), rHash (last rs)))"

text \<open>
  The invariant of the tables: the rows are one linked chain of this installation, a database with
  rows has an installation, and a chain that was cut still has rows.
\<close>

definition chain_ok :: "(string \<Rightarrow> string) \<Rightarrow> audit_db \<Rightarrow> bool" where
  "chain_ok sha db \<longleftrightarrow> linked sha (start_of db) (db_rows db) \<and>
     (\<forall>r \<in> set (db_rows db). Some (rInstall r) = InstallID db) \<and>
     (\<forall>i. db_inst db = Some i \<longrightarrow> (inst_pruned_seq i = None \<longleftrightarrow> inst_pruned_hash i = None) \<and>
        (inst_pruned_seq i \<noteq> None \<longrightarrow> db_rows db \<noteq> [])) \<and>
     0 \<le> fst (start_of db)"

definition empty_db :: audit_db where
  "empty_db = \<lparr>db_rows = [], db_inst = None\<rparr>"

lemma linked_append: "linked sha a (xs @ ys) \<longleftrightarrow> linked sha a xs \<and> linked sha (end_of a xs) ys"
  by (induction xs arbitrary: a) (auto simp: end_of_def)

lemma linked_bounds: "linked sha a rs \<Longrightarrow> r \<in> set rs \<Longrightarrow> fst a < rSeq r \<and> rSeq r \<le> fst (end_of a rs)"
proof (induction rs arbitrary: a r)
  case Nil
  then show ?case by simp
next
  case (Cons x rs)
  have e: "end_of a (x # rs) = end_of (rSeq x, rHash x) rs" by (simp add: end_of_def)
  have "rSeq x \<le> fst (end_of (rSeq x, rHash x) rs)"
    using Cons.IH [of "(rSeq x, rHash x)" "last rs"] Cons.prems(1) by (cases "rs = []") (auto simp: end_of_def)
  with Cons e show ?case by fastforce
qed

lemma linked_nth: "linked sha a rs \<Longrightarrow> k < length rs \<Longrightarrow> rSeq (rs ! k) = fst a + int k + 1"
  by (induction rs arbitrary: a k) (auto simp: nth_Cons split: nat.splits)

lemma linked_length: "linked sha a rs \<Longrightarrow> fst (end_of a rs) = fst a + int (length rs)"
  by (induction rs arbitrary: a) (fastforce simp: end_of_def)+

lemma linked_distinct: "linked sha a rs \<Longrightarrow> distinct (map rSeq rs)"
  by (rule distinct_conv_nth [THEN iffD2]) (simp add: linked_nth)

lemma linked_compute: "linked sha a rs \<Longrightarrow> r \<in> set rs \<Longrightarrow> Compute sha r = Inr (rHash r)"
  by (induction rs arbitrary: a) auto

text \<open>The audit records are a hash chain in the sense of \<^theory_text>\<open>hash_chain\<close>.\<close>

definition clash :: "(string \<Rightarrow> string) \<Rightarrow> Record \<Rightarrow> Record \<Rightarrow> bool" where
  "clash sha r r' \<longleftrightarrow>
     (\<exists>b b'. Preimage r = Inr b \<and> Preimage r' = Inr b' \<and> b \<noteq> b' \<and> sha b = sha b')"

abbreviation intact :: "(string \<Rightarrow> string) \<Rightarrow> Record \<Rightarrow> bool" where
  "intact sha r \<equiv> Compute sha r = Inr (rHash r)"

lemma linked_chained: "linked sha a rs = chained rSeq rPrevHash rHash (intact sha) a rs"
  by (induction rs arbitrary: a) auto

interpretation records: hash_chain rSeq rPrevHash rHash "intact sha" in_range same_content "clash sha" for sha
proof
  fix r r'
  assume i: "intact sha r" "intact sha r'" and g: "in_range r" "in_range r'" and h: "rHash r = rHash r'"
  from i obtain b b' where b: "Preimage r = Inr b" "Preimage r' = Inr b'" "rHash r = sha b" "rHash r' = sha b'"
    by (auto simp: Compute_Inr)
  show "same_content r r' \<or> clash sha r r'"
  proof (cases "b = b'")
    case True
    with preimage_same_content [OF b(1) _ g] b(2) show ?thesis by simp
  next
    case False
    with b h show ?thesis by (simp add: clash_def)
  qed
qed (simp_all add: same_content_def)

lemma insort_last: "\<forall>x \<in> set xs. rSeq x < rSeq r \<Longrightarrow> insort_key rSeq r xs = xs @ [r]"
  by (induction xs) auto

section \<open>Appending keeps the chain\<close>

lemma installID_Inr:
  assumes "installID raw now db = Inr (i, db1)"
  shows "db_rows db1 = db_rows db" "InstallID db1 = Some i"
    "db_inst db \<noteq> None \<Longrightarrow> db1 = db"
    "db_inst db = None \<Longrightarrow> \<exists>c. db_inst db1 = Some \<lparr>inst_id = i, inst_created = c, inst_pruned_seq = None, inst_pruned_hash = None\<rparr>"
  using assms by (auto simp: installID_def InstallID_def Let_def split: option.splits)

lemma installID_start: "installID raw now db = Inr (i, db1) \<Longrightarrow> start_of db1 = start_of db"
  using installID_Inr(3,4) by (cases "db_inst db") (fastforce simp: start_of_def)+

lemma installID_chain_ok:
  assumes "chain_ok sha db" and "installID raw now db = Inr (i, db1)"
  shows "chain_ok sha db1"
proof (cases "db_inst db")
  case None
  with assms(1) have "db_rows db = []" by (cases "db_rows db") (auto simp: chain_ok_def InstallID_def)
  with None assms installID_Inr [OF assms(2)] show ?thesis
    by (auto simp: chain_ok_def start_of_def)
next
  case (Some a)
  with assms installID_Inr(3) [OF assms(2)] show ?thesis by auto
qed

lemma lift_record_Inr [simp]: "lift_record r = Inr x \<longleftrightarrow> r = Inr x"
  by (auto simp: lift_record_def split: sum.splits)

lemma AppendTx_Inr:
  assumes "AppendTx sha raw e db = Inr (r, db')"
  obtains i db1 h rows where "installID raw (eTS e) db = Inr (i, db1)"
    "r = next_record i (tail (db_rows db)) e \<lparr>rHash := h\<rparr>"
    "Validate (next_record i (tail (db_rows db)) e) = Inr ()"
    "Compute sha r = Inr h" "insert_row (db_rows db) r = Inr rows" "db' = db1\<lparr>db_rows := rows\<rparr>"
proof -
  from assms obtain i db1 h rows d where *: "installID raw (eTS e) db = Inr (i, db1)"
    "r = next_record i (tail (db_rows db1)) e \<lparr>rHash := h\<rparr>"
    "Validate (next_record i (tail (db_rows db1)) e) = Inr ()"
    "Compute sha (next_record i (tail (db_rows db1)) e) = Inr h"
    "insert_row (db_rows db1) r = Inr rows" "db' = db1\<lparr>db_rows := rows\<rparr>"
    by (auto simp: AppendTx_def Let_def split_beta)
  with installID_Inr(1) [OF *(1)] show thesis using that by simp
qed

lemma tail_end:
  assumes "chain_ok sha db"
  shows "tail (db_rows db) = end_of (start_of db) (db_rows db)"
  using assms by (auto simp: chain_ok_def tail_def end_of_def start_of_def split: option.splits)

lemma AppendTx_rows:
  assumes "chain_ok sha db" and "AppendTx sha raw e db = Inr (r, db')"
  shows "db_rows db' = db_rows db @ [r]" "rSeq r = fst (tail (db_rows db)) + 1"
    "rPrevHash r = snd (tail (db_rows db))" "Compute sha r = Inr (rHash r)"
    "Some (rInstall r) = InstallID db'" "start_of db' = start_of db"
    "row_checks r" "rHash r \<notin> rHash ` set (db_rows db)"
proof -
  from assms(2) obtain i db1 h rows where *: "installID raw (eTS e) db = Inr (i, db1)"
    "r = next_record i (tail (db_rows db)) e \<lparr>rHash := h\<rparr>"
    "Compute sha r = Inr h" "insert_row (db_rows db) r = Inr rows" "db' = db1\<lparr>db_rows := rows\<rparr>"
    by (rule AppendTx_Inr)
  have l: "linked sha (start_of db) (db_rows db)" using assms(1) by (simp add: chain_ok_def)
  show seq: "rSeq r = fst (tail (db_rows db)) + 1" using * by (simp add: next_record_def)
  have "rSeq x < rSeq r" if "x \<in> set (db_rows db)" for x
    using linked_bounds [OF l that] seq tail_end [OF assms(1)] by simp
  with * show "db_rows db' = db_rows db @ [r]"
    by (auto simp: insert_row_def insort_last split: if_splits)
  show "rPrevHash r = snd (tail (db_rows db))" "Compute sha r = Inr (rHash r)"
    using * by (simp_all add: next_record_def)
  show "Some (rInstall r) = InstallID db'"
    using *(2,5) installID_Inr(2) [OF *(1)] by (auto simp: next_record_def InstallID_def)
  show "start_of db' = start_of db"
    using * installID_start [OF *(1)] by (simp add: start_of_def)
  show "row_checks r" "rHash r \<notin> rHash ` set (db_rows db)"
    using *(4) by (auto simp: insert_row_def split: if_splits)
qed

lemma AppendTx_inst:
  assumes "AppendTx sha raw e db = Inr (r, db')"
  obtains i where "db_inst db' = Some i" "inst_id i = rInstall r"
    "db_inst db = Some i \<or> (db_inst db = None \<and> inst_pruned_seq i = None \<and> inst_pruned_hash i = None)"
proof -
  from assms obtain i db1 h rows where *: "installID raw (eTS e) db = Inr (i, db1)"
    "r = next_record i (tail (db_rows db)) e \<lparr>rHash := h\<rparr>" "db' = db1\<lparr>db_rows := rows\<rparr>"
    by (rule AppendTx_Inr)
  show thesis
  proof (cases "db_inst db")
    case None
    with installID_Inr(4) [OF *(1)] * show thesis
      by (auto simp: next_record_def intro!: that)
  next
    case (Some a)
    with installID_Inr(2,3) [OF *(1)] * show thesis
      by (auto simp: next_record_def InstallID_def intro!: that)
  qed
qed

lemma AppendTx_chain_ok:
  assumes "chain_ok sha db" and "AppendTx sha raw e db = Inr (r, db')"
  shows "chain_ok sha db'"
proof -
  note R = AppendTx_rows [OF assms]
  from assms(2) obtain i where i: "db_inst db' = Some i" "inst_id i = rInstall r"
    "db_inst db = Some i \<or> (db_inst db = None \<and> inst_pruned_seq i = None \<and> inst_pruned_hash i = None)"
    by (rule AppendTx_inst)
  have "linked sha (start_of db') (db_rows db')"
    using assms(1) R(1-4,6) tail_end [OF assms(1)] by (simp add: chain_ok_def linked_append)
  moreover have "Some (rInstall x) = InstallID db'" if "x \<in> set (db_rows db')" for x
  proof (cases "x = r")
    case False
    with that R(1) assms(1) have "Some (rInstall x) = InstallID db" by (simp add: chain_ok_def)
    with i show ?thesis by (auto simp: InstallID_def)
  qed (use R(5) in simp)
  moreover have "0 \<le> fst (start_of db')" using R(6) assms(1) by (simp add: chain_ok_def)
  moreover have "inst_pruned_seq i = None \<longleftrightarrow> inst_pruned_hash i = None"
    using i(3) assms(1) by (auto simp: chain_ok_def)
  ultimately show ?thesis using i(1) R(1) by (simp add: chain_ok_def)
qed

lemma empty_db_chain_ok: "chain_ok sha empty_db"
  by (simp add: chain_ok_def empty_db_def start_of_def)

text \<open>
  C5: an append that succeeds adds exactly one record, after the existing ones and linked to the
  last of them, and keeps the chain; one that fails leaves the tables as they were.
\<close>

theorem append_extends_chain:
  assumes "chain_ok sha db" and "Append sha raw e db = (res, db')"
  shows "chain_ok sha db' \<and>
    (case res of Inl err \<Rightarrow> db' = db
     | Inr r \<Rightarrow> db_rows db' = db_rows db @ [r] \<and> rSeq r = fst (tail (db_rows db)) + 1 \<and>
               rPrevHash r = snd (tail (db_rows db)) \<and> Compute sha r = Inr (rHash r))"
  using assms AppendTx_chain_ok [of sha db] AppendTx_rows [of sha db]
  by (auto simp: Append_def split: sum.splits)

definition sample_sha :: "string \<Rightarrow> string" where
  "sample_sha s = replicate 64 (CHR ''a'')"

definition sample_entry :: Entry where
  "sample_entry =
     \<lparr>eTS = 1500000000, eActor = \<lparr>actor_id = ''usr_1'', actor_method = ''token'', actor_session = []\<rparr>,
      eSource = \<lparr>source_ip = [], source_version = ''1.0''\<rparr>, eAction = ''user.create'',
      eTarget = None, eIntentHash = [], eJustification = [], eOutcome = ''success'', eDetail = []\<rparr>"

lemma sample_append:
  "\<exists>r db'. AppendTx sample_sha (Some (replicate 16 0)) sample_entry empty_db = Inr (r, db')"
proof -
  let ?i = "''ins_'' @ hex_encode (replicate 16 0)"
  let ?r = "next_record ?i (tail []) sample_entry"
  have z: "char_of (hex_digit 0) = CHR ''0''" by (simp add: hex_digit_def char_of_def bit_simps)
  have id: "ascii ?i" by (simp add: hex_encode_def z ascii_def)
  have g: "ascii GenesisPrevHash" by (simp add: GenesisPrevHash_def ascii_def)
  have d: "\<exists>b. encode_map [] = Inr b" by (rule encode_map_ok) simp
  have "printable ?r"
    using d by (simp add: printable_def in_range_def texts_def targetFields_def detailJSON_def Version_def
        next_record_def sample_entry_def tail_def ascii_valid ascii_valid [OF id] ascii_valid [OF g]
        del: append.simps)
  from Preimage_ok [OF this] obtain b where b: "Compute sample_sha ?r = Inr (replicate 64 (CHR ''a''))"
    by (auto simp: Compute_def sample_sha_def)
  have v: "Validate ?r = Inr ()"
    by (simp add: Validate_def next_record_def sample_entry_def Version_def tail_def trunc_ms_def
        zero_time_def OutcomeSuccess_def hexHash_genesis)
  have ts: "glob_ts (format_ts (trunc_ms 1500000000))"
    by code_simp
  have ins: "\<exists>rows. insert_row [] (?r\<lparr>rHash := replicate 64 (CHR ''a'')\<rparr>) = Inr rows"
    using ts by (simp add: insert_row_def row_checks_def next_record_def tail_def Version_def
        sample_entry_def OutcomeSuccess_def GenesisPrevHash_def)
  have dj: "\<exists>d. detailJSON (?r\<lparr>rHash := replicate 64 (CHR ''a'')\<rparr>) = Inr d"
    using d by (simp add: detailJSON_def next_record_def sample_entry_def)
  show ?thesis
    using b v ins dj unfolding AppendTx_def installID_def empty_db_def
    by (auto simp: lift_record_def Let_def)
qed

theorem append_extends_chain_witness:
  "\<exists>r db'. AppendTx sample_sha (Some (replicate 16 0)) sample_entry empty_db = Inr (r, db') \<and>
     db_rows db' = [r] \<and> chain_ok sample_sha db'"
proof -
  from sample_append obtain r db' where r:
    "AppendTx sample_sha (Some (replicate 16 0)) sample_entry empty_db = Inr (r, db')" by blast
  then have "Append sample_sha (Some (replicate 16 0)) sample_entry empty_db = (Inr r, db')"
    by (simp add: Append_def)
  from append_extends_chain [OF empty_db_chain_ok this] r show ?thesis
    by (auto simp: empty_db_def)
qed

end
