(* ===== verification/AuditVerify.thy ===== *)
theory AuditVerify
  imports AuditChain
begin

text \<open>
  \<^verbatim>\<open>internal/audit/verify.go\<close>: verification of a chain read from the database or from a JSONL file,
  and the comparison of the two.  A source is the list of what its iterator yields: a record, or
  the text of the error met reading one.  A problem keeps its sequence number and kind; the detail
  text is not modelled.  The map \<open>pending\<close> is an association list.
\<close>

section \<open>Problems and results\<close>

datatype Kind = KindAltered | KindBroken | KindGap | KindOutOfOrder | KindNotGenesis
  | KindNotAnchored | KindMixedInstalls | KindClockWentBack | KindUnreadable

record Problem =
  pSeq :: int
  pKind :: Kind

record VResult =
  vRecords :: nat
  vFirstSeq :: int
  vLastSeq :: int
  vBreak :: "Problem option"
  vWarnings :: "Problem list"
  vFragment :: bool
  vAnchored :: bool
  vFirstPrevHash :: string

record Anchor =
  anchor_seq :: int
  anchor_hash :: string

record verifyOpts =
  requireGenesis :: bool
  opt_anchor :: "Anchor option"

type_synonym source = "(string + Record) list"
type_synonym pending = "(int \<times> Record) list"

definition problem :: "int \<Rightarrow> Kind \<Rightarrow> Problem" where
  "problem s k = \<lparr>pSeq = s, pKind = k\<rparr>"

definition empty_result :: VResult where
  "empty_result = \<lparr>vRecords = 0, vFirstSeq = 0, vLastSeq = 0, vBreak = None, vWarnings = [],
     vFragment = False, vAnchored = False, vFirstPrevHash = []\<rparr>"

definition result_OK :: "VResult \<Rightarrow> bool" where
  "result_OK r \<longleftrightarrow> vBreak r = None"

definition reorderWindow :: nat where "reorderWindow = 1024"

section \<open>Reading ahead\<close>

text \<open>\<open>sameRecord\<close>: whether \<open>b\<close> is a redelivery of \<open>a\<close>, or the problem \<open>b\<close> is.\<close>

definition sameRecord :: "(string \<Rightarrow> string) \<Rightarrow> Record \<Rightarrow> Record \<Rightarrow> Problem + bool" where
  "sameRecord sha a b =
     (case Compute sha b of
        Inl e \<Rightarrow> Inl (problem (rSeq b) KindUnreadable)
      | Inr h \<Rightarrow> if h \<noteq> rHash b then Inl (problem (rSeq b) KindAltered) else Inr (rHash a = rHash b))"

text \<open>What \<open>fill\<close> does with one record: refuse it, skip it or hold it.\<close>

definition admit_record :: "(string \<Rightarrow> string) \<Rightarrow> (Record \<times> int) option \<Rightarrow> pending \<Rightarrow> Record \<Rightarrow>
    Problem + pending" where
  "admit_record sha st p r =
     (case map_of p (rSeq r) of
        Some held \<Rightarrow>
          if rInstall held \<noteq> rInstall r then Inl (problem (rSeq r) KindMixedInstalls)
          else sbind (sameRecord sha held r) (\<lambda>same.
               if same then Inr p else Inl (problem (rSeq r) KindOutOfOrder))
      | None \<Rightarrow>
          (case st of
             Some (prev, next) \<Rightarrow>
               if rSeq r < next then
                 (if rSeq r = rSeq prev then
                    sbind (sameRecord sha prev r) (\<lambda>same.
                    if same then Inr p else Inl (problem (rSeq r) KindOutOfOrder))
                  else Inl (problem (rSeq r) KindOutOfOrder))
               else Inr ((rSeq r, r) # p)
           | None \<Rightarrow> Inr ((rSeq r, r) # p)))"

text \<open>
  \<open>fill n\<close>: pull records until \<open>n\<close> are held, the source is exhausted or an error is met.  The state
  is \<open>pending\<close>, \<open>sourceErr\<close> and the rest of the source; \<open>st\<close> is the last verified record and the next
  sequence number once verification has started.
\<close>

fun fill :: "(string \<Rightarrow> string) \<Rightarrow> nat \<Rightarrow> (Record \<times> int) option \<Rightarrow> pending \<Rightarrow> string option \<Rightarrow> source \<Rightarrow>
    Problem + pending \<times> string option \<times> source" where
  "fill sha n st p err [] = Inr (p, err, [])"
| "fill sha n st p err (x # src) =
     (if \<not> length p < n then Inr (p, err, x # src)
      else (case x of
              Inl e \<Rightarrow> Inr (p, Some e, src)
            | Inr r \<Rightarrow> sbind (admit_record sha st p r) (\<lambda>p'. fill sha n st p' err src)))"

definition lowest :: "pending \<Rightarrow> int" where
  "lowest p = foldl (\<lambda>out seq. if out = 0 \<or> seq < out then seq else out) 0 (map fst p)"

section \<open>verify\<close>

text \<open>What is checked of a record once its predecessors have been verified.\<close>

definition check_link :: "(Record \<times> int) option \<Rightarrow> string \<Rightarrow> Record \<Rightarrow> Problem option" where
  "check_link st install r =
     (case st of
        None \<Rightarrow> None
      | Some (prev, next) \<Rightarrow>
          if rInstall r \<noteq> install then Some (problem (rSeq r) KindMixedInstalls)
          else if rPrevHash r \<noteq> rHash prev then Some (problem (rSeq r) KindBroken)
          else None)"

definition check_hash :: "(string \<Rightarrow> string) \<Rightarrow> Record \<Rightarrow> Problem option" where
  "check_hash sha r =
     (case Compute sha r of
        Inl e \<Rightarrow> Some (problem (rSeq r) KindUnreadable)
      | Inr h \<Rightarrow> if h \<noteq> rHash r then Some (problem (rSeq r) KindAltered) else None)"

definition clock_warning :: "(Record \<times> int) option \<Rightarrow> Record \<Rightarrow> Problem list" where
  "clock_warning st r =
     (case st of
        Some (prev, next) \<Rightarrow> if rTS r < rTS prev then [problem (rSeq r) KindClockWentBack] else []
      | None \<Rightarrow> [])"

definition counted :: "VResult \<Rightarrow> (Record \<times> int) option \<Rightarrow> Record \<Rightarrow> VResult" where
  "counted res st r = res\<lparr>vWarnings := vWarnings res @ clock_warning st r,
     vRecords := vRecords res + 1, vLastSeq := rSeq r\<rparr>"

lemma fill_measure:
  "fill sha n st p err src = Inr (p', err', src') \<Longrightarrow> length p' + length src' \<le> length p + length src"
proof (induction sha n st p err src rule: fill.induct)
  case (2 sha n st p err x src)
  show ?case
  proof (cases "length p < n")
    case True
    show ?thesis
    proof (cases x)
      case (Inr r)
      with True 2(2) obtain q where q: "admit_record sha st p r = Inr q"
        "fill sha n st q err src = Inr (p', err', src')" by auto
      from q(1) have "length q \<le> length p + 1"
        by (auto simp: admit_record_def split: option.splits if_splits)
      with 2(1) [OF _ Inr q] True show ?thesis by simp
    qed (use 2 True in auto)
  qed (use 2 in auto)
qed simp

lemma length_del: "map_of p k = Some r \<Longrightarrow> length (del k p) < length p"
  by (induction p) (auto simp: del_def less_Suc_eq_le split: if_splits)

function verify_loop :: "(string \<Rightarrow> string) \<Rightarrow> VResult \<Rightarrow> (Record \<times> int) option \<Rightarrow> int \<Rightarrow> string \<Rightarrow> pending \<Rightarrow>
    string option \<Rightarrow> source \<Rightarrow> VResult" where
  "verify_loop sha res st next install p err src =
     (case map_of p next of
        None \<Rightarrow>
          if err \<noteq> None then res\<lparr>vBreak := Some (problem next KindUnreadable)\<rparr>
          else if p \<noteq> [] then res\<lparr>vBreak := Some (problem next KindGap)\<rparr>
          else res
      | Some r \<Rightarrow>
          (case check_link st install r of
             Some b \<Rightarrow> res\<lparr>vBreak := Some b\<rparr>
           | None \<Rightarrow>
               let install' = (if st = None then rInstall r else install) in
               (case check_hash sha r of
                  Some b \<Rightarrow> res\<lparr>vBreak := Some b\<rparr>
                | None \<Rightarrow>
                    let res' = counted res st r in
                    (case fill sha reorderWindow (Some (r, next + 1)) (del next p) err src of
                       Inl b \<Rightarrow> res'\<lparr>vBreak := Some b\<rparr>
                     | Inr (p', err', src') \<Rightarrow>
                         verify_loop sha res' (Some (r, next + 1)) (next + 1) install' p' err' src'))))"
  by pat_completeness auto
termination
proof (relation "measure (\<lambda>(sha, res, st, next, install, p, err, src). length p + length src)", goal_cases)
  case 1
  then show ?case by simp
next
  case (2 sha res st "next" install p err src r)
  then show ?case using fill_measure length_del by (fastforce simp: le_less_trans)
qed

declare verify_loop.simps [simp del]

text \<open>The lowest held sequence is where the source starts; what it must follow depends on the options.\<close>

definition check_start :: "verifyOpts \<Rightarrow> Record \<Rightarrow> VResult" where
  "check_start opts first =
     (case opt_anchor opts of
        Some a \<Rightarrow>
          if rSeq first \<noteq> anchor_seq a + 1 \<or> rPrevHash first \<noteq> anchor_hash a
          then empty_result\<lparr>vBreak := Some (problem (rSeq first) KindNotAnchored)\<rparr>
          else empty_result\<lparr>vAnchored := True, vFragment := (rSeq first \<noteq> 1)\<rparr>
      | None \<Rightarrow>
          if rSeq first = 1 \<or> requireGenesis opts then
            (if rSeq first \<noteq> 1 \<or> rPrevHash first \<noteq> GenesisPrevHash
             then empty_result\<lparr>vBreak := Some (problem (rSeq first) KindNotGenesis)\<rparr>
             else empty_result)
          else empty_result\<lparr>vFragment := True\<rparr>)"

definition verify :: "(string \<Rightarrow> string) \<Rightarrow> verifyOpts \<Rightarrow> source \<Rightarrow> VResult" where
  "verify sha opts src =
     (case fill sha reorderWindow None [] None src of
        Inl b \<Rightarrow> empty_result\<lparr>vBreak := Some b\<rparr>
      | Inr (p, err, rest) \<Rightarrow>
          if p = [] then
            (if err \<noteq> None then empty_result\<lparr>vBreak := Some (problem 1 KindUnreadable)\<rparr> else empty_result)
          else
            let start = lowest p in
            (case map_of p start of
               None \<Rightarrow> empty_result
             | Some first \<Rightarrow>
                 let res = check_start opts first in
                 if vBreak res \<noteq> None then res
                 else verify_loop sha (res\<lparr>vFirstSeq := start, vFirstPrevHash := rPrevHash first\<rparr>)
                        None start [] p err rest))"

section \<open>Soundness\<close>

text \<open>
  \<open>covers sha X r\<close>: some record of \<open>X\<close> has the sequence number and hash of \<open>r\<close>, and \<open>r\<close> is that
  record or hashes to the hash it carries.
\<close>

definition covers :: "(string \<Rightarrow> string) \<Rightarrow> Record set \<Rightarrow> Record \<Rightarrow> bool" where
  "covers sha X r \<longleftrightarrow> (\<exists>x \<in> X. rSeq x = rSeq r \<and> rHash x = rHash r \<and>
     (x = r \<or> Compute sha r = Inr (rHash r)))"

definition held :: "pending \<Rightarrow> Record set" where
  "held p = snd ` set p"

definition last_of :: "(Record \<times> int) option \<Rightarrow> Record set" where
  "last_of st = (case st of None \<Rightarrow> {} | Some (prev, next) \<Rightarrow> {prev})"

text \<open>The map \<open>pending\<close> is keyed by sequence number.\<close>

definition keyed :: "pending \<Rightarrow> bool" where
  "keyed p \<longleftrightarrow> distinct (map fst p) \<and> (\<forall>(k, r) \<in> set p. rSeq r = k)"

definition filled :: "pending \<Rightarrow> string option \<Rightarrow> source \<Rightarrow> bool" where
  "filled p err src \<longleftrightarrow> src = [] \<or> reorderWindow \<le> length p \<or> err \<noteq> None"

lemma covers_mono: "covers sha X r \<Longrightarrow> X \<subseteq> Y \<Longrightarrow> covers sha Y r"
  by (auto simp: covers_def)

lemma keyed_Nil [simp]: "keyed []"
  by (simp add: keyed_def)

lemma keyed_Cons: "keyed p \<Longrightarrow> map_of p (rSeq r) = None \<Longrightarrow> keyed ((rSeq r, r) # p)"
  by (auto simp: keyed_def map_of_eq_None_iff)

lemma keyed_del: "keyed p \<Longrightarrow> keyed (del k p)"
  by (auto simp: keyed_def del_def distinct_map_filter)

lemma keyed_map_of: "keyed p \<Longrightarrow> map_of p k = Some r \<Longrightarrow> rSeq r = k \<and> (k, r) \<in> set p"
  by (auto simp: keyed_def dest: map_of_SomeD)

lemma held_del: "keyed p \<Longrightarrow> map_of p k = Some r \<Longrightarrow> held p = insert r (held (del k p))"
proof -
  assume k: "keyed p" and m: "map_of p k = Some r"
  from m have "set p = insert (k, r) (set (del k p))"
    using k map_of_SomeD [OF m] by (auto simp: keyed_def del_def) (metis eq_key_imp_eq_value)+
  then show ?thesis by (auto simp: held_def)
qed

lemma sameRecord_True:
  "sameRecord sha a b = Inr True \<Longrightarrow> Compute sha b = Inr (rHash b) \<and> rHash a = rHash b"
  by (auto simp: sameRecord_def split: sum.splits if_splits)

lemma admit_record_Inr:
  assumes "admit_record sha st p r = Inr q" and "keyed p"
  shows "keyed q \<and> set p \<subseteq> set q \<and> covers sha (held q \<union> last_of st) r \<and> held q \<subseteq> insert r (held p)"
proof (cases "map_of p (rSeq r)")
  case (Some x)
  with assms have q: "q = p" "sameRecord sha x r = Inr True"
    by (auto simp: admit_record_def split: if_splits)
  from keyed_map_of [OF assms(2) Some] sameRecord_True [OF q(2)] q(1) assms(2) show ?thesis
    by (force simp: covers_def held_def)
next
  case None
  note N = this
  show ?thesis
  proof (cases "q = (rSeq r, r) # p")
    case True
    then show ?thesis using keyed_Cons [OF assms(2) None] by (auto simp: covers_def held_def)
  next
    case False
    with N assms obtain prev nx where st: "st = Some (prev, nx)" "q = p" "rSeq r = rSeq prev"
      "sameRecord sha prev r = Inr True"
      by (auto simp: admit_record_def split: option.splits if_splits)
    with sameRecord_True [OF st(4)] assms(2) show ?thesis by (auto simp: covers_def last_of_def)
  qed
qed

lemma fill_Inr:
  assumes "fill sha n st p err src = Inr (p', err', src')" and "keyed p"
  obtains used where "src = used @ src'" "keyed p'" "set p \<subseteq> set p'"
    "\<And>r. Inr r \<in> set used \<Longrightarrow> covers sha (held p' \<union> last_of st) r"
    "held p' \<subseteq> held p \<union> {r. Inr r \<in> set used}"
    "err' = None \<Longrightarrow> err = None \<and> (\<forall>e. Inl e \<notin> set used)"
    "src' = [] \<or> n \<le> length p' \<or> err' \<noteq> None"
proof -
  have "\<exists>used. src = used @ src' \<and> keyed p' \<and> set p \<subseteq> set p' \<and>
     (\<forall>r. Inr r \<in> set used \<longrightarrow> covers sha (held p' \<union> last_of st) r) \<and>
     held p' \<subseteq> held p \<union> {r. Inr r \<in> set used} \<and>
     (err' = None \<longrightarrow> err = None \<and> (\<forall>e. Inl e \<notin> set used)) \<and>
     (src' = [] \<or> n \<le> length p' \<or> err' \<noteq> None)"
    using assms
  proof (induction sha n st p err src rule: fill.induct)
    case (1 sha n st p err)
    then show ?case by simp
  next
    case (2 sha n st p err x src)
    show ?case
    proof (cases "length p < n")
      case False
      with 2 show ?thesis by (intro exI [of _ "[]"]) auto
    next
      case True
      show ?thesis
      proof (cases x)
        case (Inl e)
        with 2 True show ?thesis by (intro exI [of _ "[x]"]) auto
      next
        case (Inr r)
        with True 2(2) obtain q where q: "admit_record sha st p r = Inr q"
          "fill sha n st q err src = Inr (p', err', src')" by auto
        from admit_record_Inr [OF q(1) 2(3)] have a: "keyed q" "set p \<subseteq> set q"
          "covers sha (held q \<union> last_of st) r" "held q \<subseteq> insert r (held p)" by auto
        from True have "\<not> \<not> length p < n" by simp
        from 2(1) [OF this Inr q a(1)] obtain used where u: "src = used @ src'" "keyed p'" "set q \<subseteq> set p'"
          "\<forall>r. Inr r \<in> set used \<longrightarrow> covers sha (held p' \<union> last_of st) r"
          "held p' \<subseteq> held q \<union> {r. Inr r \<in> set used}"
          "err' = None \<longrightarrow> err = None \<and> (\<forall>e. Inl e \<notin> set used)"
          "src' = [] \<or> n \<le> length p' \<or> err' \<noteq> None" by blast
        have "held q \<subseteq> held p'" using u(3) by (auto simp: held_def)
        then have "covers sha (held p' \<union> last_of st) r" using covers_mono [OF a(3)] by blast
        with u a Inr show ?thesis by (intro exI [of _ "x # used"]) auto
      qed
    qed
  qed
  then show thesis using that by blast
qed

text \<open>What the loop has checked when it ends without a break: the rest of the chain.\<close>

definition rest_verified :: "(string \<Rightarrow> string) \<Rightarrow> (Record \<times> int) option \<Rightarrow> int \<Rightarrow> string \<Rightarrow> pending \<Rightarrow>
    source \<Rightarrow> Record list \<Rightarrow> bool" where
  "rest_verified sha st next install p src W \<longleftrightarrow>
     linked sha (next - 1, case st of Some (prev, n) \<Rightarrow> rHash prev | None \<Rightarrow> (if W = [] then [] else rPrevHash (hd W))) W \<and>
     (\<exists>i. \<forall>r \<in> set W. rInstall r = i \<and> (st \<noteq> None \<longrightarrow> i = install)) \<and>
     held p \<subseteq> set W \<and> (\<forall>e. Inl e \<notin> set src) \<and>
     (\<forall>r. Inr r \<in> set src \<longrightarrow> covers sha (set W \<union> last_of st) r) \<and>
     set W \<subseteq> held p \<union> {r. Inr r \<in> set src}"

lemma check_hash_None: "check_hash sha r = None \<longleftrightarrow> Compute sha r = Inr (rHash r)"
  by (auto simp: check_hash_def split: sum.splits)

lemma check_link_None:
  "check_link st install r = None \<longleftrightarrow>
     (\<forall>prev n. st = Some (prev, n) \<longrightarrow> rInstall r = install \<and> rPrevHash r = rHash prev)"
  by (auto simp: check_link_def split: option.splits)

text \<open>The facts about one turn of the loop, for a run that ends without a break.\<close>

lemma loop_turn:
  assumes "vBreak (verify_loop sha res st next install p err src) = None"
  obtains
    (finished) "map_of p next = None" "err = None" "p = []"
      "verify_loop sha res st next install p err src = res"
  | (turn) r p' err' src' where "map_of p next = Some r" "check_link st install r = None"
      "Compute sha r = Inr (rHash r)"
      "fill sha reorderWindow (Some (r, next + 1)) (del next p) err src = Inr (p', err', src')"
      "verify_loop sha res st next install p err src =
         verify_loop sha (counted res st r) (Some (r, next + 1)) (next + 1)
           (if st = None then rInstall r else install) p' err' src'"
proof (cases "map_of p next")
  case None
  with assms finished show thesis
    by (simp add: verify_loop.simps [of sha res st "next"] split: if_splits)
next
  case (Some r)
  from assms Some have l: "check_link st install r = None"
    by (simp add: verify_loop.simps [of sha res st "next"] split: option.splits)
  from assms Some l have h: "check_hash sha r = None"
    by (simp add: verify_loop.simps [of sha res st "next"] Let_def split: option.splits)
  from assms Some l h obtain p' err' src' where f:
    "fill sha reorderWindow (Some (r, next + 1)) (del next p) err src = Inr (p', err', src')"
    by (cases "fill sha reorderWindow (Some (r, next + 1)) (del next p) err src")
      (auto simp add: verify_loop.simps [of sha res st "next"] Let_def)
  show thesis
    using turn [OF Some l _ f] h Some l f check_hash_None
    by (simp add: verify_loop.simps [of sha res st "next"] Let_def)
qed

lemma loop_sound:
  assumes "vBreak (verify_loop sha res st next install p err src) = None" and "keyed p" and "filled p err src"
  shows "err = None \<and> (\<exists>W. rest_verified sha st next install p src W \<and>
     verify_loop sha res st next install p err src =
       res\<lparr>vRecords := vRecords res + length W,
           vLastSeq := (if W = [] then vLastSeq res else rSeq (last W)),
           vWarnings := vWarnings (verify_loop sha res st next install p err src)\<rparr>)"
  using assms
proof (induction "length p + length src" arbitrary: res st "next" install p err src rule: less_induct)
  case less
  let ?v = "verify_loop sha res st next install p err src"
  from less.prems(1) show ?case
  proof (cases rule: loop_turn)
    case finished
    with less.prems(3) have "src = []" by (simp add: filled_def reorderWindow_def)
    with finished show ?thesis by (intro conjI exI [of _ "[]"]) (simp_all add: rest_verified_def held_def)
  next
    case (turn r p' err' src')
    from turn(4) keyed_del [OF less.prems(2)] obtain used where u: "src = used @ src'" "keyed p'"
      "set (del next p) \<subseteq> set p'"
      "\<And>x. Inr x \<in> set used \<Longrightarrow> covers sha (held p' \<union> last_of (Some (r, next + 1))) x"
      "held p' \<subseteq> held (del next p) \<union> {x. Inr x \<in> set used}"
      "err' = None \<Longrightarrow> err = None \<and> (\<forall>e. Inl e \<notin> set used)"
      "src' = [] \<or> reorderWindow \<le> length p' \<or> err' \<noteq> None"
      by (rule fill_Inr) blast
    let ?i = "if st = None then rInstall r else install"
    from less.prems(1) have b: "vBreak (verify_loop sha (counted res st r) (Some (r, next + 1)) (next + 1) ?i p' err' src') = None"
      unfolding turn(5) .
    have "length p' + length src' < length p + length src"
      using fill_measure [OF turn(4)] length_del [OF turn(1)] by simp
    from less.hyps [OF this b u(2)] u(7) obtain W where W: "err' = None"
      "rest_verified sha (Some (r, next + 1)) (next + 1) ?i p' src' W"
      "?v = (counted res st r)\<lparr>vRecords := vRecords (counted res st r) + length W,
           vLastSeq := (if W = [] then vLastSeq (counted res st r) else rSeq (last W)),
           vWarnings := vWarnings ?v\<rparr>"
      unfolding turn(5) filled_def by blast
    have seq: "rSeq r = next" and rp: "(next, r) \<in> set p" using keyed_map_of [OF less.prems(2) turn(1)] by auto
    have hp: "held p = insert r (held (del next p))" by (rule held_del [OF less.prems(2) turn(1)])
    have dp: "held (del next p) \<subseteq> held p'" using u(3) by (auto simp: held_def)
    from W(2) have R: "linked sha (next, rHash r) W" "held p' \<subseteq> set W" "\<forall>e. Inl e \<notin> set src'"
      "\<And>x. Inr x \<in> set src' \<Longrightarrow> covers sha (insert r (set W)) x"
      "set W \<subseteq> held p' \<union> {x. Inr x \<in> set src'}" "\<forall>x \<in> set W. rInstall x = ?i"
      by (auto simp: rest_verified_def last_of_def)
    have "rest_verified sha st next install p src (r # W)"
      unfolding rest_verified_def
    proof (intro conjI)
      show "linked sha (next - 1, case st of Some (prev, n) \<Rightarrow> rHash prev
          | None \<Rightarrow> if r # W = [] then [] else rPrevHash (hd (r # W))) (r # W)"
        using turn(2,3) seq R(1) by (auto simp: check_link_None split: option.splits)
      show "\<exists>i. \<forall>x \<in> set (r # W). rInstall x = i \<and> (st \<noteq> None \<longrightarrow> i = install)"
        using R(6) turn(2) by (intro exI [of _ ?i]) (auto simp: check_link_None)
      show "held p \<subseteq> set (r # W)" using hp dp R(2) by auto
      show "\<forall>e. Inl e \<notin> set src" using u(1) u(6) [OF W(1)] R(3) by auto
      have "covers sha (insert r (set W)) x" if "Inr x \<in> set used" for x
        using covers_mono [OF u(4) [OF that], of "insert r (set W)"] R(2) by (auto simp: last_of_def)
      then show "\<forall>x. Inr x \<in> set src \<longrightarrow> covers sha (set (r # W) \<union> last_of st) x"
        using R(4) u(1) covers_mono [of sha "insert r (set W)" _ "set (r # W) \<union> last_of st"] by auto
      show "set (r # W) \<subseteq> held p \<union> {x. Inr x \<in> set src}" using hp R(5) u(1,5) by auto
    qed
    moreover have "?v = res\<lparr>vRecords := vRecords res + length (r # W),
        vLastSeq := (if r # W = [] then vLastSeq res else rSeq (last (r # W))), vWarnings := vWarnings ?v\<rparr>"
      by (subst W(3)) (simp add: counted_def)
    ultimately show ?thesis using u(6) [OF W(1)] by blast
  qed
qed

section \<open>Completeness\<close>

lemma lowest_is:
  assumes "\<forall>k \<in> set (map fst p). m \<le> k" and "m \<in> set (map fst p)" and "0 < m"
  shows "lowest p = m"
proof -
  let ?f = "\<lambda>out seq. if out = 0 \<or> seq < out then seq else out"
  have "foldl ?f out ks = m" if "\<forall>k \<in> set ks. m \<le> k" "out = m \<or> m \<in> set ks" "out = 0 \<or> m \<le> out"
    for out and ks :: "int list"
    using that assms(3) by (induction ks arbitrary: out) auto
  from this [of "map fst p" 0] show ?thesis using assms by (simp add: lowest_def)
qed

lemma keyed_held_map_of: "keyed p \<Longrightarrow> r \<in> held p \<Longrightarrow> map_of p (rSeq r) = Some r"
  by (auto simp: keyed_def held_def)

lemma keyed_length_del:
  assumes "keyed p" and "map_of p k = Some r"
  shows "length (del k p) = length p - 1"
  using assms
proof (induction p)
  case (Cons x p)
  show ?case
  proof (cases "fst x = k")
    case True
    with Cons.prems(1) have "del k p = p" by (force simp: keyed_def del_def filter_id_conv)
    with True show ?thesis by (cases x) (simp add: del_def)
  next
    case False
    with Cons.prems have "keyed p" "map_of p k = Some r" by (auto simp: keyed_def)
    with Cons.IH False show ?thesis by (cases p) (auto simp: del_def)
  qed
qed simp

text \<open>Records that are new to the verifier are all held, as far as the window goes.\<close>

lemma fill_fresh:
  assumes "keyed p" and "distinct (map rSeq xs)" and "\<forall>x \<in> set xs. map_of p (rSeq x) = None"
    and "\<forall>prev n. st = Some (prev, n) \<longrightarrow> (\<forall>x \<in> set xs. n \<le> rSeq x)"
  obtains p' where "fill sha n st p None (map Inr xs) = Inr (p', None, map Inr (drop (n - length p) xs))"
    "keyed p'" "held p' = held p \<union> set (take (n - length p) xs)"
    "length p' = length p + min (n - length p) (length xs)"
proof -
  have "\<exists>p'. fill sha n st p None (map Inr xs) = Inr (p', None, map Inr (drop (n - length p) xs)) \<and>
    keyed p' \<and> held p' = held p \<union> set (take (n - length p) xs) \<and>
    length p' = length p + min (n - length p) (length xs)"
    using assms
  proof (induction xs arbitrary: p)
    case Nil
    then show ?case by simp
  next
    case (Cons x xs)
    show ?case
    proof (cases "length p < n")
      case False
      with Cons.prems show ?thesis by simp
    next
      case True
      have ad: "admit_record sha st p x = Inr ((rSeq x, x) # p)"
        using Cons.prems by (auto simp: admit_record_def split: option.splits)
      have k: "keyed ((rSeq x, x) # p)" using keyed_Cons Cons.prems by simp
      from True obtain m where m: "n - length p = Suc m" "n - length ((rSeq x, x) # p) = m"
        by (metis Suc_diff_Suc diff_Suc_Suc length_Cons)
      have fresh: "\<forall>y \<in> set xs. map_of ((rSeq x, x) # p) (rSeq y) = None" using Cons.prems by (force simp: image_iff)
      from Cons.IH [OF k _ fresh] Cons.prems m obtain p' where
        "fill sha n st ((rSeq x, x) # p) None (map Inr xs) = Inr (p', None, map Inr (drop m xs))"
        "keyed p'" "held p' = held ((rSeq x, x) # p) \<union> set (take m xs)"
        "length p' = Suc (length p) + min m (length xs)" by auto
      with True ad m show ?thesis by (auto simp: held_def)
    qed
  qed
  then show thesis using that by blast
qed

text \<open>
  The order of arrival a source may have: it delivers exactly the records of the chain, and each
  before the window has moved past it.
\<close>

definition arrives :: "nat \<Rightarrow> Record list \<Rightarrow> Record list \<Rightarrow> bool" where
  "arrives w rs xs \<longleftrightarrow> mset xs = mset rs \<and> (\<forall>k < length rs. rs ! k \<in> set (take (k + w) xs))"

lemma linked_prev:
  "linked sha a rs \<Longrightarrow> k < length rs \<Longrightarrow>
   rPrevHash (rs ! k) = (if k = 0 then snd a else rHash (rs ! (k - 1)))"
proof (induction rs arbitrary: a k)
  case (Cons r rs)
  show ?case
  proof (cases k)
    case (Suc j)
    with Cons.IH [of "(rSeq r, rHash r)" j] Cons.prems show ?thesis by (cases j) auto
  qed (use Cons.prems in simp)
qed simp

lemma arrives_take:
  assumes "arrives w rs xs" and "i \<le> length rs"
  shows "set (take i rs) \<subseteq> set (take (i + w) xs)"
proof
  fix r assume "r \<in> set (take i rs)"
  then obtain k where k: "k < i" "r = rs ! k" using assms(2) by (auto simp: in_set_conv_nth)
  with assms have "r \<in> set (take (k + w) xs)" by (simp add: arrives_def)
  with k(1) show "r \<in> set (take (i + w) xs)" using set_take_subset_set_take [of "k + w" "i + w" xs] by auto
qed

lemma arrives_self: "0 < w \<Longrightarrow> arrives w rs rs"
  by (auto simp: arrives_def in_set_conv_nth intro!: exI)

lemma nth_notin_take: "distinct xs \<Longrightarrow> i < length xs \<Longrightarrow> xs ! i \<notin> set (take i xs)"
  by (auto simp: in_set_conv_nth nth_eq_iff_index_eq)

lemma loop_complete:
  assumes rs: "linked sha a rs" "\<forall>r \<in> set rs. rInstall r = inst" "arrives reorderWindow rs xs"
    and i: "i \<le> length rs" and p: "keyed p" "held p = set (take (i + reorderWindow) xs) - set (take i rs)"
      "length p + i = min (i + reorderWindow) (length rs)"
    and st: "st = (if i = 0 then None else Some (rs ! (i - 1), fst a + 1 + int i))"
      "i \<noteq> 0 \<longrightarrow> install = inst"
    and res: "vBreak res = None"
  shows "vBreak (verify_loop sha res st (fst a + 1 + int i) install p None (map Inr (drop (i + reorderWindow) xs))) = None \<and>
    vRecords (verify_loop sha res st (fst a + 1 + int i) install p None (map Inr (drop (i + reorderWindow) xs)))
      = vRecords res + (length rs - i)"
  using i p st res
proof (induction "length rs - i" arbitrary: i p st install res)
  case 0
  then have i: "i = length rs" by simp
  from rs(3) have "mset xs = mset rs" by (simp add: arrives_def)
  then have "length xs = length rs" by (metis size_mset)
  moreover have "p = []" using 0(5) i by simp
  ultimately show ?case using 0 i by (simp add: verify_loop.simps)
next
  case (Suc d)
  let ?n = "fst a + 1 + int i"
  let ?w = reorderWindow
  define r where "r = rs ! i"
  from Suc.hyps(2) have il: "i < length rs" by simp
  have dr: "distinct rs" using linked_distinct [OF rs(1)] by (simp add: distinct_map)
  have perm: "mset xs = mset rs" using rs(3) by (simp add: arrives_def)
  then have len: "length xs = length rs" by (metis size_mset)
  have dx: "distinct (map rSeq xs)"
    using linked_distinct [OF rs(1)] perm by (metis mset_eq_imp_distinct_iff mset_map)
  have seq: "rSeq r = ?n" using linked_nth [OF rs(1) il] by (simp add: r_def)
  have mem: "r \<in> set rs" using il by (simp add: r_def)
  have "r \<in> held p"
    using rs(3) il nth_notin_take [OF dr il] Suc.prems(3) by (auto simp: arrives_def r_def)
  then have m: "map_of p ?n = Some r" using keyed_held_map_of [OF Suc.prems(2)] seq by metis
  have l: "check_link st install r = None"
    using linked_prev [OF rs(1) il] Suc.prems(5,6) rs(2) mem
    by (auto simp: check_link_None r_def split: if_splits)
  have h: "check_hash sha r = None" using linked_compute [OF rs(1) mem] by (simp add: check_hash_None)
  let ?q = "del ?n p"
  have hq: "held p = insert r (held ?q)" by (rule held_del [OF Suc.prems(2) m])
  have nq: "r \<notin> held ?q" using keyed_del [OF Suc.prems(2)] seq by (auto simp: held_def del_def keyed_def)
  have lq: "length ?q = length p - 1" by (rule keyed_length_del [OF Suc.prems(2) m])
  have pos: "0 < length p" using m by (cases p) auto
  let ?ys = "drop (i + ?w) xs"
  have old: "held ?q \<subseteq> set (take (i + ?w) xs)" using Suc.prems(3) hq by auto
  have fresh: "\<forall>y \<in> set ?ys. map_of ?q (rSeq y) = None"
  proof (rule ccontr)
    assume "\<not> ?thesis"
    then obtain y z where y: "y \<in> set ?ys" "map_of ?q (rSeq y) = Some z" by auto
    from keyed_map_of [OF keyed_del [OF Suc.prems(2)] y(2)] old
    have z: "rSeq z = rSeq y" "z \<in> set (take (i + ?w) xs)" by (auto simp: held_def)
    have "distinct (map rSeq (take (i + ?w) xs @ drop (i + ?w) xs))" using dx by simp
    then have "rSeq ` set (take (i + ?w) xs) \<inter> rSeq ` set ?ys = {}"
      unfolding map_append distinct_append by simp
    with y(1) z show False by force
  qed
  have late: "\<forall>y \<in> set ?ys. ?n + 1 \<le> rSeq y"
  proof
    fix y assume y: "y \<in> set ?ys"
    then have "y \<in> set rs" using perm by (metis in_set_dropD set_mset_mset)
    then obtain k where k: "k < length rs" "y = rs ! k" by (auto simp: in_set_conv_nth)
    have "\<not> k \<le> i"
    proof
      assume "k \<le> i"
      with k rs(3) have "y \<in> set (take (k + ?w) xs)" by (simp add: arrives_def)
      then have "y \<in> set (take (i + ?w) xs)"
        using \<open>k \<le> i\<close> set_take_subset_set_take [of "k + ?w" "i + ?w" xs] by auto
      moreover have "distinct (take (i + ?w) xs @ drop (i + ?w) xs)" using dx by (simp add: distinct_map)
      ultimately show False using y unfolding distinct_append by auto
    qed
    with k linked_nth [OF rs(1) k(1)] show "?n + 1 \<le> rSeq y" by simp
  qed
  have dys: "distinct (map rSeq ?ys)" using dx by (simp add: drop_map [symmetric])
  from fill_fresh [OF keyed_del [OF Suc.prems(2)] dys fresh,
      where st = "Some (r, ?n + 1)" and n = ?w and sha = sha] late
  obtain p' where p': "fill sha ?w (Some (r, ?n + 1)) ?q None (map Inr ?ys) =
      Inr (p', None, map Inr (drop (?w - length ?q) ?ys))" "keyed p'"
    "held p' = held ?q \<union> set (take (?w - length ?q) ?ys)"
    "length p' = length ?q + min (?w - length ?q) (length ?ys)" by auto
  let ?k = "?w - length ?q"
  have k: "?k = 1 \<or> ?ys = []"
  proof (cases "i + ?w \<le> length rs")
    case True
    with Suc.prems(4) have "length p = ?w" by simp
    with lq pos show ?thesis by linarith
  qed (use len in simp)
  have eq: "take ?k ?ys = take 1 ?ys" "drop ?k ?ys = drop 1 ?ys" using k by auto
  have eq3: "length p' + Suc i = min (Suc i + ?w) (length rs)"
    using Suc.prems(4) lq pos len p'(4) il by (auto simp: min_def split: if_splits)
  have t: "set (take (Suc i + ?w) xs) = set (take (i + ?w) xs) \<union> set (take 1 ?ys)"
  proof -
    have "take (Suc i + ?w) xs = take (i + ?w) xs @ take 1 ?ys"
      using take_add [of "i + ?w" 1 xs] by simp
    then show ?thesis by (metis set_append)
  qed
  have ti: "set (take (Suc i) rs) = insert r (set (take i rs))" using il by (simp add: take_Suc_conv_app_nth r_def)
  have new: "set (take 1 ?ys) \<inter> set (take (Suc i) rs) = {}"
  proof (rule ccontr)
    assume "\<not> ?thesis"
    then obtain y where y: "y \<in> set (take 1 ?ys)" "y \<in> set (take (Suc i) rs)" by auto
    from y(2) obtain k where k: "k < Suc i" "y = rs ! k" using il by (auto simp: in_set_conv_nth)
    with linked_nth [OF rs(1), of k] il late y(1) show False by (fastforce dest: in_set_takeD)
  qed
  have held': "held p' = set (take (Suc i + ?w) xs) - set (take (Suc i) rs)"
    using p'(3) eq(1) t ti new hq nq Suc.prems(3) by auto
  have step: "verify_loop sha res st ?n install p None (map Inr ?ys) =
    verify_loop sha (counted res st r) (Some (r, ?n + 1)) (?n + 1) (if st = None then rInstall r else install)
      p' None (map Inr (drop (Suc i + ?w) xs))"
    using m l h p'(1) eq(2) by (subst verify_loop.simps) (simp add: Let_def)
  have inst: "(if st = None then rInstall r else install) = inst"
    using Suc.prems(5,6) rs(2) mem by auto
  have "d = length rs - Suc i" using Suc.hyps(2) by simp
  from Suc.hyps(1) [OF this _ p'(2) held' eq3, of "Some (r, ?n + 1)"
      "if st = None then rInstall r else install" "counted res st r"] il inst Suc.prems(7)
  show ?case unfolding step by (auto simp: r_def counted_def add.assoc)
qed

lemma check_start_fields:
  "vRecords (check_start opts r) = 0" "vLastSeq (check_start opts r) = 0"
  by (auto simp: check_start_def empty_result_def split: option.splits)

lemma window_pos: "0 < reorderWindow"
  by (simp add: reorderWindow_def)

lemma verify_complete:
  assumes rs: "linked sha a rs" "\<forall>r \<in> set rs. rInstall r = inst" "arrives reorderWindow rs xs"
    and ne: "rs \<noteq> []" and pos: "0 \<le> fst a" and start: "vBreak (check_start opts (hd rs)) = None"
  shows "result_OK (verify sha opts (map Inr xs)) \<and> vRecords (verify sha opts (map Inr xs)) = length rs"
proof -
  have perm: "mset xs = mset rs" using rs(3) by (simp add: arrives_def)
  have dx: "distinct (map rSeq xs)"
    using linked_distinct [OF rs(1)] perm by (metis mset_eq_imp_distinct_iff mset_map)
  obtain p where p: "fill sha reorderWindow None [] None (map Inr xs) =
      Inr (p, None, map Inr (drop reorderWindow xs))" "keyed p"
    "held p = set (take reorderWindow xs)" "length p = min reorderWindow (length xs)"
    using fill_fresh [of "[]" xs None sha reorderWindow] dx by (auto simp: held_def)
  have len: "length xs = length rs" using perm by (metis size_mset)
  have first: "hd rs \<in> held p" using rs(3) ne p(3) by (force simp: arrives_def hd_conv_nth)
  have hs: "rSeq (hd rs) = fst a + 1" using rs(1) ne by (cases rs) auto
  have m: "map_of p (fst a + 1) = Some (hd rs)" using keyed_held_map_of [OF p(2) first] hs by simp
  have "lowest p = fst a + 1"
  proof (rule lowest_is)
    show "\<forall>k \<in> set (map fst p). fst a + 1 \<le> k"
    proof
      fix k assume "k \<in> set (map fst p)"
      then obtain r where r: "(k, r) \<in> set p" by auto
      then have "r \<in> held p" "rSeq r = k" using p(2) by (force simp: held_def keyed_def)+
      moreover from this have "r \<in> set rs" using p(3) perm by (metis in_set_takeD set_mset_mset)
      ultimately show "fst a + 1 \<le> k" using linked_bounds [OF rs(1), of r] by simp
    qed
    show "fst a + 1 \<in> set (map fst p)" using map_of_SomeD [OF m] by force
  qed (use pos in simp)
  moreover have "p \<noteq> []" using m by auto
  ultimately have v: "verify sha opts (map Inr xs) =
    verify_loop sha ((check_start opts (hd rs))\<lparr>vFirstSeq := fst a + 1, vFirstPrevHash := rPrevHash (hd rs)\<rparr>)
      None (fst a + 1) [] p None (map Inr (drop reorderWindow xs))"
    using p(1) m start by (simp add: verify_def Let_def)
  have "vBreak (verify sha opts (map Inr xs)) = None \<and> vRecords (verify sha opts (map Inr xs)) = 0 + (length rs - 0)"
    unfolding v
    using loop_complete [OF rs, of 0 p None "[]" "(check_start opts (hd rs))\<lparr>vFirstSeq := fst a + 1, vFirstPrevHash := rPrevHash (hd rs)\<rparr>"]
      p start len by (simp add: check_start_fields)
  then show ?thesis by (simp add: result_OK_def)
qed

lemma verify_empty: "verify sha opts [] = empty_result"
  by (simp add: verify_def)

text \<open>What the options require of the record a verified source starts with.\<close>

definition starts_as :: "verifyOpts \<Rightarrow> Record \<Rightarrow> bool" where
  "starts_as opts r \<longleftrightarrow>
     (case opt_anchor opts of
        Some a \<Rightarrow> rSeq r = anchor_seq a + 1 \<and> rPrevHash r = anchor_hash a
      | None \<Rightarrow> (rSeq r = 1 \<longrightarrow> rPrevHash r = GenesisPrevHash) \<and> (requireGenesis opts \<longrightarrow> rSeq r = 1))"

lemma check_start_None:
  "vBreak (check_start opts r) = None \<longleftrightarrow> starts_as opts r"
  by (auto simp: check_start_def starts_as_def empty_result_def split: option.splits)

definition one_install :: "Record list \<Rightarrow> bool" where
  "one_install rs \<longleftrightarrow> (\<exists>i. \<forall>r \<in> set rs. rInstall r = i)"

text \<open>What \<open>verify\<close> promises of a source it passes.\<close>

definition verified_as :: "(string \<Rightarrow> string) \<Rightarrow> verifyOpts \<Rightarrow> source \<Rightarrow> VResult \<Rightarrow> Record list \<Rightarrow> bool" where
  "verified_as sha opts src v W \<longleftrightarrow>
     linked sha (vFirstSeq v - 1, vFirstPrevHash v) W \<and> one_install W \<and> vRecords v = length W \<and>
     (\<forall>e. Inl e \<notin> set src) \<and> (\<forall>r. Inr r \<in> set src \<longrightarrow> covers sha (set W) r) \<and>
     set W \<subseteq> {r. Inr r \<in> set src} \<and>
     (W \<noteq> [] \<longrightarrow> vFirstSeq v = rSeq (hd W) \<and> vFirstPrevHash v = rPrevHash (hd W) \<and>
        vLastSeq v = rSeq (last W) \<and> starts_as opts (hd W))"

lemma lowest_mem:
  assumes "p \<noteq> []"
  shows "lowest p \<in> set (map fst p)"
proof -
  have "foldl (\<lambda>out seq. if out = 0 \<or> seq < out then seq else out) o' ks \<in> insert o' (set ks)"
    for o' and ks :: "int list" by (induction ks arbitrary: o') fastforce+
  from this [of "fst (hd p)" "map fst (tl p)"] assms show ?thesis
    by (cases p) (auto simp: lowest_def)
qed

lemma verify_sound:
  assumes "result_OK (verify sha opts src)"
  shows "\<exists>W. verified_as sha opts src (verify sha opts src) W"
proof (cases "fill sha reorderWindow None [] None src")
  case (Inl b)
  with assms show ?thesis by (simp add: verify_def result_OK_def)
next
  case (Inr t)
  obtain p err rest where t: "t = (p, err, rest)" by (cases t)
  from Inr t obtain used where u: "src = used @ rest" "keyed p"
    "\<And>x. Inr x \<in> set used \<Longrightarrow> covers sha (held p \<union> last_of None) x"
    "held p \<subseteq> held [] \<union> {x. Inr x \<in> set used}"
    "err = None \<Longrightarrow> None = None \<and> (\<forall>e. Inl e \<notin> set used)"
    "rest = [] \<or> reorderWindow \<le> length p \<or> err \<noteq> None"
    by (auto elim: fill_Inr [of sha reorderWindow None "[]" None src p err rest])
  show ?thesis
  proof (cases "p = []")
    case True
    with assms Inr t have err: "err = None" by (auto simp: verify_def result_OK_def split: if_splits)
    with True u(6) have "rest = []" by (simp add: reorderWindow_def)
    moreover have "Inr x \<notin> set used" for x using u(3) [of x] True by (auto simp: covers_def held_def last_of_def)
    moreover have "Inl e \<notin> set used" for e using u(5) [OF err] by auto
    ultimately have "src = []" using u(1) by (cases used) (auto, metis sum.exhaust)
    then show ?thesis by (intro exI [of _ "[]"]) (simp add: verified_as_def verify_empty empty_result_def one_install_def)
  next
    case False
    let ?v = "verify sha opts src"
    show ?thesis
    proof (cases "map_of p (lowest p)")
      case None
      with lowest_mem [OF False] show ?thesis by (simp add: map_of_eq_None_iff)
    next
      case (Some first)
      let ?r0 = "(check_start opts first)\<lparr>vFirstSeq := lowest p, vFirstPrevHash := rPrevHash first\<rparr>"
      from assms Inr t False Some have cs: "vBreak (check_start opts first) = None"
        by (auto simp: verify_def result_OK_def Let_def split: if_splits)
      with Inr t False Some have v: "?v = verify_loop sha ?r0 None (lowest p) [] p err rest"
        by (simp add: verify_def Let_def)
      from assms have "vBreak (verify_loop sha ?r0 None (lowest p) [] p err rest) = None"
        unfolding v result_OK_def .
      from loop_sound [OF this u(2)] u(6) obtain W where W: "err = None"
        "rest_verified sha None (lowest p) [] p rest W"
        "?v = ?r0\<lparr>vRecords := vRecords ?r0 + length W,
            vLastSeq := (if W = [] then vLastSeq ?r0 else rSeq (last W)), vWarnings := vWarnings ?v\<rparr>"
        unfolding v filled_def by blast
      have f: "first \<in> held p" "rSeq first = lowest p"
        using keyed_map_of [OF u(2) Some] by (force simp: held_def)+
      from W(2) have R: "linked sha (lowest p - 1, if W = [] then [] else rPrevHash (hd W)) W"
        "one_install W" "held p \<subseteq> set W" "\<forall>e. Inl e \<notin> set rest"
        "\<forall>r. Inr r \<in> set rest \<longrightarrow> covers sha (set W) r" "set W \<subseteq> held p \<union> {r. Inr r \<in> set rest}"
        by (auto simp: rest_verified_def one_install_def last_of_def)
      have ne: "W \<noteq> []" using f R(3) by auto
      have hd: "hd W = first"
      proof -
        have "rSeq (hd W) = lowest p" using R(1) ne by (cases W) auto
        moreover have "first \<in> set W" using f R(3) by auto
        ultimately show ?thesis
          using linked_distinct [OF R(1)] f(2) ne by (auto simp: distinct_map inj_on_def)
      qed
      have fields: "vFirstSeq ?v = lowest p" "vFirstPrevHash ?v = rPrevHash first" "vRecords ?v = length W"
        "vLastSeq ?v = rSeq (last W)"
        using ne by (subst W(3), simp add: check_start_fields)+
      have "covers sha (set W) x" if "Inr x \<in> set used" for x
        using covers_mono [OF u(3) [OF that], of "set W"] R(3) by (simp add: last_of_def)
      then have "\<forall>r. Inr r \<in> set src \<longrightarrow> covers sha (set W) r" using u(1) R(5) by auto
      moreover have "\<forall>e. Inl e \<notin> set src" using u(1) u(5) [OF W(1)] R(4) by auto
      moreover have "held [] = {}" by (simp add: held_def)
      then have "set W \<subseteq> {r. Inr r \<in> set src}" using u(1,4) R(6) by auto
      ultimately have "verified_as sha opts src ?v W"
        unfolding verified_as_def fields using R(1,2) ne hd f(2) cs check_start_None by simp
      then show ?thesis by blast
    qed
  qed
qed

section \<open>VerifyDB, VerifyFile and VerifyMirror\<close>

definition pruneAnchor :: "Installation option \<Rightarrow> string + Anchor option" where
  "pruneAnchor inst =
     (case inst of
        None \<Rightarrow> Inr None
      | Some i \<Rightarrow>
          (case (inst_pruned_seq i, inst_pruned_hash i) of
             (None, None) \<Rightarrow> Inr None
           | (Some s, Some h) \<Rightarrow> Inr (Some \<lparr>anchor_seq = s, anchor_hash = h\<rparr>)
           | _ \<Rightarrow> Inl ''the prune anchor is half written''))"

definition emptyChainIsGenuine :: "Installation option \<Rightarrow> VResult \<Rightarrow> VResult" where
  "emptyChainIsGenuine inst res =
     (case inst of None \<Rightarrow> res | Some i \<Rightarrow> res\<lparr>vBreak := Some (problem 1 KindGap)\<rparr>)"

text \<open>The rows arrive as \<open>scanRecord\<close> reads them, in sequence order.\<close>

definition VerifyDB :: "(string \<Rightarrow> string) \<Rightarrow> source \<Rightarrow> Installation option \<Rightarrow> string + VResult" where
  "VerifyDB sha rows inst =
     sbind (pruneAnchor inst) (\<lambda>anchor.
     let opts = (case anchor of
                   None \<Rightarrow> \<lparr>requireGenesis = True, opt_anchor = None\<rparr>
                 | Some a \<Rightarrow> \<lparr>requireGenesis = False, opt_anchor = Some a\<rparr>);
         res = verify sha opts rows in
     Inr (if vBreak res = None \<and> vRecords res = 0 then emptyChainIsGenuine inst res else res))"

definition VerifyFile :: "(string \<Rightarrow> string) \<Rightarrow> Anchor option \<Rightarrow> source \<Rightarrow> VResult" where
  "VerifyFile sha anchor records = verify sha \<lparr>requireGenesis = False, opt_anchor = anchor\<rparr> records"

definition hashAt :: "Record list \<Rightarrow> int \<Rightarrow> string option" where
  "hashAt rows seq = (if seq < 1 then None else map_option rHash (find (\<lambda>r. rSeq r = seq) rows))"

definition VerifyMirror :: "(string \<Rightarrow> string) \<Rightarrow> Record list option \<Rightarrow> source \<Rightarrow> VResult" where
  "VerifyMirror sha db records =
     (let res = VerifyFile sha None records in
      case db of
        None \<Rightarrow> res
      | Some rows \<Rightarrow>
          if vBreak res \<noteq> None \<or> \<not> vFragment res then res
          else (case hashAt rows (vFirstSeq res - 1) of
                  None \<Rightarrow> res
                | Some h \<Rightarrow>
                    if h \<noteq> vFirstPrevHash res
                    then res\<lparr>vBreak := Some (problem (vFirstSeq res) KindNotAnchored)\<rparr>
                    else res\<lparr>vAnchored := True\<rparr>))"

section \<open>Assessment\<close>

record Comparison =
  cInstalls :: "(string \<times> string) option"
  cDiverged :: int
  cBehind :: int
  cAhead :: int

record Assessment =
  aChain :: "VResult option"
  aMirror :: "VResult option"
  aComparison :: "Comparison option"

definition Assessment_OK :: "Assessment \<Rightarrow> bool" where
  "Assessment_OK a \<longleftrightarrow>
     (\<forall>r \<in> set [aChain a, aMirror a]. case r of None \<Rightarrow> True | Some v \<Rightarrow> result_OK v) \<and>
     (case aComparison a of None \<Rightarrow> True
      | Some c \<Rightarrow> cInstalls c = None \<and> cDiverged c = 0 \<and> cAhead c = 0)"

definition Comparable :: "Assessment \<Rightarrow> bool" where
  "Comparable a \<longleftrightarrow>
     (case aChain a of None \<Rightarrow> False | Some v \<Rightarrow> result_OK v) \<and>
     (case aMirror a of None \<Rightarrow> False | Some v \<Rightarrow> result_OK v)"

section \<open>What verification establishes\<close>

text \<open>
  C1: if a source verifies, it holds one linked chain of a single installation: every line was
  readable, every record is a record of the chain or a redelivery that hashes to the hash it carries,
  the chain uses only records of the source, and it starts where the options require.
\<close>

theorem verify_establishes_chain:
  assumes "result_OK (verify sha opts src)"
  shows "\<exists>W. verified_as sha opts src (verify sha opts src) W"
  using assms by (rule verify_sound)

lemma sample_chain:
  obtains r db' where "AppendTx sample_sha (Some (replicate 16 0)) sample_entry empty_db = Inr (r, db')"
    "db_rows db' = [r]" "linked sample_sha (0, GenesisPrevHash) [r]" "chain_ok sample_sha db'"
proof -
  from sample_append obtain r db' where r:
    "AppendTx sample_sha (Some (replicate 16 0)) sample_entry empty_db = Inr (r, db')" by blast
  from AppendTx_rows [OF empty_db_chain_ok r] have "db_rows db' = [r]" "rSeq r = 1"
    "rPrevHash r = GenesisPrevHash" "Compute sample_sha r = Inr (rHash r)"
    by (simp_all add: empty_db_def tail_def)
  with r AppendTx_chain_ok [OF empty_db_chain_ok r] that show thesis by simp
qed

theorem verify_establishes_chain_witness:
  "\<exists>r. \<exists>W. verified_as sample_sha \<lparr>requireGenesis = True, opt_anchor = None\<rparr> [Inr r]
     (verify sample_sha \<lparr>requireGenesis = True, opt_anchor = None\<rparr> [Inr r]) W"
proof -
  obtain r where r: "linked sample_sha (0, GenesisPrevHash) [r]" by (metis sample_chain)
  have "starts_as \<lparr>requireGenesis = True, opt_anchor = None\<rparr> r" using r by (simp add: starts_as_def)
  with verify_complete [OF r, of "rInstall r" "[r]" "\<lparr>requireGenesis = True, opt_anchor = None\<rparr>"]
  have "result_OK (verify sample_sha \<lparr>requireGenesis = True, opt_anchor = None\<rparr> [Inr r])"
    by (simp add: check_start_None arrives_self window_pos)
  from verify_establishes_chain [OF this] show ?thesis by blast
qed

text \<open>
  C2: an intact chain verifies, whatever order its records arrive in, as long as none arrives more
  than the reorder window late: no false report of tampering, and every record is counted.
\<close>

theorem verify_accepts_chain:
  assumes "linked sha a rs" and "\<forall>r \<in> set rs. rInstall r = inst" and "arrives reorderWindow rs xs"
    and "rs \<noteq> []" and "0 \<le> fst a" and "starts_as opts (hd rs)"
  shows "result_OK (verify sha opts (map Inr xs)) \<and> vRecords (verify sha opts (map Inr xs)) = length rs"
  using verify_complete [OF assms(1-5)] assms(6) by (simp add: check_start_None)

theorem verify_accepts_chain_witness:
  "\<exists>r. result_OK (verify sample_sha \<lparr>requireGenesis = True, opt_anchor = None\<rparr> (map Inr [r]))"
proof -
  obtain r where r: "linked sample_sha (0, GenesisPrevHash) [r]" by (metis sample_chain)
  have s: "starts_as \<lparr>requireGenesis = True, opt_anchor = None\<rparr> (hd [r])" using r by (simp add: starts_as_def)
  have "\<forall>x \<in> set [r]. rInstall x = rInstall r" by simp
  from verify_accepts_chain [OF r this arrives_self [OF window_pos] _ _ s] show ?thesis by auto
qed

text \<open>
  C3: the last hash is evidence for the whole chain: two verified sources that start in the same
  place and end in the same hash tell the same history, record by record, or they hold two records
  with different preimages and one SHA-256 digest.
\<close>

theorem last_hash_fixes_history:
  assumes "verified_as sha opts src (verify sha opts src) W" and "verified_as sha opts' src' (verify sha opts' src') W'"
    and "vFirstSeq (verify sha opts src) = vFirstSeq (verify sha opts' src')"
    and "vFirstPrevHash (verify sha opts src) = vFirstPrevHash (verify sha opts' src')"
    and "W \<noteq> []" and "W' \<noteq> []" and "rHash (last W) = rHash (last W')"
    and "\<forall>r \<in> set W \<union> set W'. in_range r"
  shows "list_all2 same_content W W' \<or> (\<exists>r \<in> set W. \<exists>r' \<in> set W'. clash sha r r')"
proof (rule records.last_hash_determines)
  let ?a = "(vFirstSeq (verify sha opts src) - 1, vFirstPrevHash (verify sha opts src))"
  show "chained rSeq rPrevHash rHash (intact sha) ?a W" "chained rSeq rPrevHash rHash (intact sha) ?a W'"
    using assms(1-4) by (simp_all add: verified_as_def linked_chained)
qed (use assms in simp_all)

theorem last_hash_fixes_history_witness:
  "\<exists>r W. verified_as sample_sha \<lparr>requireGenesis = True, opt_anchor = None\<rparr> [Inr r]
      (verify sample_sha \<lparr>requireGenesis = True, opt_anchor = None\<rparr> [Inr r]) W \<and> W \<noteq> [] \<and>
    (list_all2 same_content W W \<or> (\<exists>r \<in> set W. \<exists>r' \<in> set W. clash sample_sha r r'))"
proof -
  let ?o = "\<lparr>requireGenesis = True, opt_anchor = None\<rparr>"
  obtain r db' where r: "AppendTx sample_sha (Some (replicate 16 0)) sample_entry empty_db = Inr (r, db')"
    "linked sample_sha (0, GenesisPrevHash) [r]" by (metis sample_chain)
  from r(1) have "rV r = 1" by (rule AppendTx_Inr) (simp add: next_record_def Version_def)
  with r(2) have g: "in_range r" by (simp add: in_range_def)
  have "starts_as ?o r" using r(2) by (simp add: starts_as_def)
  with verify_complete [OF r(2), of "rInstall r" "[r]" ?o]
  have ok: "result_OK (verify sample_sha ?o [Inr r])" "vRecords (verify sample_sha ?o [Inr r]) = 1"
    by (simp_all add: check_start_None arrives_self window_pos)
  from verify_sound [OF ok(1)] obtain W where W: "verified_as sample_sha ?o [Inr r] (verify sample_sha ?o [Inr r]) W"
    by blast
  with ok(2) g have "W \<noteq> []" "\<forall>x \<in> set W \<union> set W. in_range x" by (auto simp: verified_as_def)
  with last_hash_fixes_history [OF W W refl refl _ _ refl] W show ?thesis by blast
qed

lemma pruneAnchor_start:
  assumes "pruneAnchor (db_inst db) = Inr anchor"
  shows "case anchor of
     None \<Rightarrow> start_of db = (0, GenesisPrevHash)
   | Some a \<Rightarrow> start_of db = (anchor_seq a, anchor_hash a) \<and> db_inst db \<noteq> None"
  using assms by (auto simp: pruneAnchor_def start_of_def split: option.splits)

lemma VerifyDB_complete:
  assumes "chain_ok sha db" and "db_rows db = [] \<longrightarrow> db_inst db = None"
  shows "\<exists>v. VerifyDB sha (map Inr (db_rows db)) (db_inst db) = Inr v \<and> result_OK v \<and>
    vRecords v = length (db_rows db)"
proof (cases "db_rows db = []")
  case True
  with assms(2) show ?thesis
    by (simp add: VerifyDB_def pruneAnchor_def verify_empty empty_result_def emptyChainIsGenuine_def result_OK_def)
next
  case False
  from assms(1) have pa: "\<exists>anchor. pruneAnchor (db_inst db) = Inr anchor"
    by (auto simp: chain_ok_def pruneAnchor_def split: option.splits)
  then obtain anchor where anchor: "pruneAnchor (db_inst db) = Inr anchor" by blast
  have st: "case anchor of None \<Rightarrow> start_of db = (0, GenesisPrevHash)
     | Some a \<Rightarrow> start_of db = (anchor_seq a, anchor_hash a) \<and> db_inst db \<noteq> None"
    by (rule pruneAnchor_start [OF anchor])
  let ?opts = "case anchor of None \<Rightarrow> \<lparr>requireGenesis = True, opt_anchor = None\<rparr>
     | Some a \<Rightarrow> \<lparr>requireGenesis = False, opt_anchor = Some a\<rparr>"
  from assms(1) have l: "linked sha (start_of db) (db_rows db)" "0 \<le> fst (start_of db)"
    "\<forall>r \<in> set (db_rows db). rInstall r = the (InstallID db)"
    by (auto simp: chain_ok_def) (metis option.sel)
  from l(1) False have hd: "rSeq (hd (db_rows db)) = fst (start_of db) + 1"
    "rPrevHash (hd (db_rows db)) = snd (start_of db)" by (cases "db_rows db", auto)+
  with st have "vBreak (check_start ?opts (hd (db_rows db))) = None"
    by (auto simp: check_start_None starts_as_def split: option.splits)
  from verify_complete [OF l(1,3) arrives_self [OF window_pos] False l(2) this] anchor False
  show ?thesis by (simp add: VerifyDB_def Let_def result_OK_def)
qed

text \<open>
  the database is always found intact: whatever chain the append path and retention leave
  behind (\<open>chain_ok\<close>) verifies, with every row counted.  A database with an installation has a record.
\<close>

theorem database_verifies:
  assumes "chain_ok sha db" and "db_rows db = [] \<longrightarrow> db_inst db = None"
  shows "\<exists>v. VerifyDB sha (map Inr (db_rows db)) (db_inst db) = Inr v \<and> result_OK v \<and>
    vRecords v = length (db_rows db)"
  using assms by (rule VerifyDB_complete)

theorem database_verifies_witness:
  "\<exists>v. VerifyDB sample_sha (map Inr (db_rows empty_db)) (db_inst empty_db) = Inr v \<and> result_OK v"
  using database_verifies [OF empty_db_chain_ok [of sample_sha]] by (auto simp: empty_db_def)

text \<open>
  C6: a database that verifies holds what was appended: either it never recorded anything, or
  its readable rows are one linked chain that starts where retention cut it, or at genesis.  So
  deleting every row, a prefix beyond the cut or a row in the middle is reported.
\<close>

theorem verified_database_is_complete:
  assumes "VerifyDB sha rows inst = Inr v" and "result_OK v"
  shows "(rows = [] \<and> inst = None) \<or>
    (\<exists>W. W \<noteq> [] \<and> linked sha (start_of \<lparr>db_rows = W, db_inst = inst\<rparr>) W \<and> one_install W \<and>
      vRecords v = length W \<and> (\<forall>e. Inl e \<notin> set rows) \<and> (\<forall>r. Inr r \<in> set rows \<longrightarrow> covers sha (set W) r) \<and>
      set W \<subseteq> {r. Inr r \<in> set rows})"
proof -
  from assms(1) obtain anchor where anchor: "pruneAnchor inst = Inr anchor" by (auto simp: VerifyDB_def)
  let ?opts = "case anchor of None \<Rightarrow> \<lparr>requireGenesis = True, opt_anchor = None\<rparr>
     | Some a \<Rightarrow> \<lparr>requireGenesis = False, opt_anchor = Some a\<rparr>"
  let ?w = "verify sha ?opts rows"
  from assms anchor have v: "v = (if vBreak ?w = None \<and> vRecords ?w = 0 then emptyChainIsGenuine inst ?w else ?w)"
    by (simp add: VerifyDB_def Let_def)
  with assms(2) have ok: "result_OK ?w"
    by (auto simp: result_OK_def emptyChainIsGenuine_def split: option.splits if_splits)
  from verify_sound [OF ok] obtain W where W: "verified_as sha ?opts rows ?w W" by blast
  show ?thesis
  proof (cases "W = []")
    case True
    with W have "Inr r \<notin> set rows" "Inl e \<notin> set rows" for r e by (auto simp: verified_as_def covers_def)
    then have rows: "rows = []" by (cases rows) (auto, metis sum.exhaust)
    with v assms(2) have "inst = None"
      by (auto simp: verify_empty empty_result_def emptyChainIsGenuine_def result_OK_def split: option.splits)
    with rows show ?thesis by blast
  next
    case False
    with W have "linked sha (rSeq (hd W) - 1, rPrevHash (hd W)) W" and s: "starts_as ?opts (hd W)"
      by (auto simp: verified_as_def)
    moreover have "start_of \<lparr>db_rows = W, db_inst = inst\<rparr> = (rSeq (hd W) - 1, rPrevHash (hd W))"
      using pruneAnchor_start [of "\<lparr>db_rows = W, db_inst = inst\<rparr>"] anchor s
      by (auto simp: starts_as_def split: option.splits)
    moreover have "v = ?w" using v W False by (auto simp: verified_as_def)
    ultimately show ?thesis using W False by (intro disjI2 exI [of _ W]) (simp add: verified_as_def)
  qed
qed

theorem verified_database_is_complete_witness:
  "\<exists>r i v W. VerifyDB sample_sha [Inr r] (Some i) = Inr v \<and> result_OK v \<and>
     W \<noteq> [] \<and> linked sample_sha (start_of \<lparr>db_rows = W, db_inst = Some i\<rparr>) W"
proof -
  obtain r db' where r: "AppendTx sample_sha (Some (replicate 16 0)) sample_entry empty_db = Inr (r, db')"
    "db_rows db' = [r]" "chain_ok sample_sha db'" by (metis sample_chain)
  from AppendTx_inst [OF r(1)] obtain i where i: "db_inst db' = Some i" by metis
  from VerifyDB_complete [OF r(3)] r(2) i
  obtain v where v: "VerifyDB sample_sha [Inr r] (Some i) = Inr v" "result_OK v" by auto
  from verified_database_is_complete [OF v] v show ?thesis by auto
qed

lemma loop_step:
  assumes "map_of p next = Some r" and "check_link st install r = None" and "check_hash sha r = None"
    and "fill sha reorderWindow (Some (r, next + 1)) (del next p) err src = Inr (p', err', src')"
  shows "verify_loop sha res st next install p err src =
    verify_loop sha (counted res st r) (Some (r, next + 1)) (next + 1)
      (if st = None then rInstall r else install) p' err' src'"
  using assms by (subst verify_loop.simps) (simp add: Let_def)

text \<open>
  an unreadable line does not stop the reading: with a damaged line between the two records
  of a chain, both records are verified and the damage is reported after the second of them.
\<close>

theorem unreadable_line_is_read_past:
  assumes l: "linked sha (0, GenesisPrevHash) [r1, r2]" and i: "rInstall r1 = rInstall r2"
  shows "vRecords (verify sha \<lparr>requireGenesis = False, opt_anchor = None\<rparr> [Inr r1, Inl e, Inr r2]) = 2 \<and>
    vBreak (verify sha \<lparr>requireGenesis = False, opt_anchor = None\<rparr> [Inr r1, Inl e, Inr r2]) = Some (problem 3 KindUnreadable)"
proof -
  from l have s: "rSeq r1 = 1" "rSeq r2 = 2" "rPrevHash r1 = GenesisPrevHash" "rPrevHash r2 = rHash r1"
    "Compute sha r1 = Inr (rHash r1)" "Compute sha r2 = Inr (rHash r2)" by auto
  have f1: "fill sha reorderWindow None [] None [Inr r1, Inl e, Inr r2] = Inr ([(1, r1)], Some e, [Inr r2])"
    by (simp add: reorderWindow_def admit_record_def s)
  have f2: "fill sha reorderWindow (Some (r1, 2)) [] (Some e) [Inr r2] = Inr ([(2, r2)], Some e, [])"
    by (simp add: reorderWindow_def admit_record_def s)
  have d: "del (1::int) [(1, r1)] = []" "del (2::int) [(2, r2)] = []" by (simp_all add: del_def)
  have c: "check_link None [] r1 = None" "check_link (Some (r1, 2)) (rInstall r1) r2 = None"
    using s i by (simp_all add: check_link_def)
  have h: "check_hash sha r1 = None" "check_hash sha r2 = None" using s by (simp_all add: check_hash_None)
  have st: "check_start \<lparr>requireGenesis = False, opt_anchor = None\<rparr> r1 = empty_result"
    using s by (simp add: check_start_def)
  let ?v = "verify sha \<lparr>requireGenesis = False, opt_anchor = None\<rparr> [Inr r1, Inl e, Inr r2]"
  let ?r0 = "empty_result\<lparr>vFirstSeq := 1, vFirstPrevHash := rPrevHash r1\<rparr>"
  have "?v = verify_loop sha ?r0 None 1 [] [(1, r1)] (Some e) [Inr r2]"
    using f1 st by (simp add: verify_def lowest_def Let_def empty_result_def del: fill.simps)
  also have "\<dots> = verify_loop sha (counted ?r0 None r1) (Some (r1, 2)) 2 (rInstall r1) [(2, r2)] (Some e) []"
    using loop_step [of "[(1, r1)]" 1, OF _ c(1) h(1)] f2 d by (simp del: fill.simps)
  also have "\<dots> = verify_loop sha (counted (counted ?r0 None r1) (Some (r1, 2)) r2) (Some (r2, 3)) 3 (rInstall r1) [] (Some e) []"
    using loop_step [of "[(2, r2)]" 2, OF _ c(2) h(2)] d by simp
  also have "\<dots> = (counted (counted ?r0 None r1) (Some (r1, 2)) r2)\<lparr>vBreak := Some (problem 3 KindUnreadable)\<rparr>"
    by (simp add: verify_loop.simps)
  finally show ?thesis by (simp add: counted_def empty_result_def)
qed
definition sample_r1 :: Record where
  "sample_r1 = (sample_record 1 GenesisPrevHash)\<lparr>rHash := replicate 64 (CHR ''a'')\<rparr>"

definition sample_r2 :: Record where
  "sample_r2 = (sample_record 2 (replicate 64 (CHR ''a'')))\<lparr>rHash := replicate 64 (CHR ''a'')\<rparr>"

lemma sample_fields:
  "rSeq sample_r1 = 1" "rSeq sample_r2 = 2" "rInstall sample_r1 = ''ins_0''" "rInstall sample_r2 = ''ins_0''"
  "rTS sample_r1 = 0" "rTS sample_r2 = 0"
  "rHash sample_r1 = replicate 64 (CHR ''a'')" "rHash sample_r2 = replicate 64 (CHR ''a'')"
  "rPrevHash sample_r1 = GenesisPrevHash" "rPrevHash sample_r2 = replicate 64 (CHR ''a'')"
  by (simp_all only: sample_r1_def sample_r2_def sample_record_def Record.simps Record.update_convs Record.select_convs)

lemma sample_linked: "linked sample_sha (0, GenesisPrevHash) [sample_r1, sample_r2]"
proof -
  have "ascii GenesisPrevHash" "ascii (replicate 64 (CHR ''a''))" by (simp_all add: GenesisPrevHash_def ascii_def)
  then have "printable (sample_record 1 GenesisPrevHash)" "printable (sample_record 2 (replicate 64 (CHR ''a'')))"
    by (simp_all add: sample_printable)
  from Preimage_ok [OF this(1)] Preimage_ok [OF this(2)]
  have "Compute sample_sha sample_r1 = Inr (rHash sample_r1)" "Compute sample_sha sample_r2 = Inr (rHash sample_r2)"
    by (auto simp: Compute_def sample_sha_def sample_r1_def sample_r2_def)
  then show ?thesis by (simp add: sample_fields)
qed

theorem unreadable_line_is_read_past_witness:
  "vRecords (verify sample_sha \<lparr>requireGenesis = False, opt_anchor = None\<rparr>
     [Inr sample_r1, Inl ''not a JSON object'', Inr sample_r2]) = 2"
  using unreadable_line_is_read_past [OF sample_linked] by (simp add: sample_fields)

end
