(* ===== verification/Retention.thy ===== *)
theory Retention
  imports AuditVerify
begin

text \<open>
  \<^verbatim>\<open>internal/retention/retention.go\<close>: one retention pass over the tables it prunes.  Timestamps are
  stored as text in \<open>audit.TimeFormat\<close> and compared as text.  A SQL statement is a function of the
  table; scanning a NULL into an \<open>int64\<close> or \<open>string\<close> is an error, as in \<open>database/sql\<close>.
\<close>

section \<open>Tables\<close>

record Window =
  AuditDays :: int
  UsageDays :: int

record Removed =
  AuditFrom :: int
  AuditThrough :: int
  AuditAnchor :: string
  UsageRows :: nat
  UsageGroups :: nat
  JoinTokens :: nat
  IdempotencyKeys :: nat
  UsageBefore :: string
  AuditBefore :: string

record usage_row =
  u_ts :: string
  u_user_id :: "string option"
  u_model_id :: "string option"
  u_prompt :: int
  u_completion :: int

type_synonym daily_key = "string \<times> string \<times> string"
type_synonym daily_total = "int \<times> int \<times> int"

record tables =
  t_usage :: "usage_row list"
  t_daily :: "(daily_key \<times> daily_total) list"
  t_tokens :: "string list"
  t_idem :: "string list"
  t_audit :: audit_db

datatype prune_err = BadWindow | NullScan | NoAnchorHash

definition Any :: "Removed \<Rightarrow> bool" where
  "Any r \<longleftrightarrow> 0 < AuditThrough r \<or> 0 < UsageRows r \<or> 0 < JoinTokens r \<or> 0 < IdempotencyKeys r"

section \<open>Cutoffs\<close>

text \<open>\<open>time.Duration\<close> is an int64 of nanoseconds.\<close>

definition wrap64 :: "int \<Rightarrow> int" where
  "wrap64 i = (i + 2 ^ 63) mod 2 ^ 64 - 2 ^ 63"

definition stamp :: "int \<Rightarrow> string" where
  "stamp t = format_ts t"

definition before :: "int \<Rightarrow> int \<Rightarrow> string" where
  "before now days = stamp (now + wrap64 (wrap64 (- days * 24) * 3600000000000))"

definition joinTokenGrace :: int where "joinTokenGrace = 86400000000000"
definition idempotencyWindow :: int where "idempotencyWindow = 86400000000000"

definition start :: "Window \<Rightarrow> int \<Rightarrow> prune_err + Removed" where
  "start w now =
     (if AuditDays w < 1 \<or> UsageDays w < 1 then Inl BadWindow
      else Inr \<lparr>AuditFrom = 0, AuditThrough = 0, AuditAnchor = [], UsageRows = 0, UsageGroups = 0,
                JoinTokens = 0, IdempotencyKeys = 0,
                UsageBefore = before now (UsageDays w), AuditBefore = before now (AuditDays w)\<rparr>)"

section \<open>Usage\<close>

definition daily_key_of :: "usage_row \<Rightarrow> daily_key" where
  "daily_key_of u = (take 10 (u_ts u), case_option [] id (u_user_id u), case_option [] id (u_model_id u))"

text \<open>The upsert: one aggregate row per group, added to the row already there.\<close>

definition add_total :: "usage_row \<Rightarrow> (daily_key \<times> daily_total) list \<Rightarrow> (daily_key \<times> daily_total) list" where
  "add_total u daily =
     (case map_of daily (daily_key_of u) of
        None \<Rightarrow> put (daily_key_of u) (1, u_prompt u, u_completion u) daily
      | Some (n, p, c) \<Rightarrow> put (daily_key_of u) (n + 1, p + u_prompt u, c + u_completion u) daily)"

definition old_usage :: "string \<Rightarrow> usage_row list \<Rightarrow> usage_row list" where
  "old_usage cutoff us = filter (\<lambda>u. u_ts u < cutoff) us"

definition usage_groups :: "string \<Rightarrow> usage_row list \<Rightarrow> nat" where
  "usage_groups cutoff us = length (remdups (map daily_key_of (old_usage cutoff us)))"

definition pruneUsage :: "tables \<times> Removed \<Rightarrow> tables \<times> Removed" where
  "pruneUsage tr =
     (let (t, r) = tr; old = old_usage (UsageBefore r) (t_usage t) in
      (t\<lparr>t_daily := foldl (\<lambda>d u. add_total u d) (t_daily t) old,
         t_usage := filter (\<lambda>u. \<not> u_ts u < UsageBefore r) (t_usage t)\<rparr>,
       r\<lparr>UsageRows := length old, UsageGroups := usage_groups (UsageBefore r) (t_usage t)\<rparr>))"

definition pruneJoinTokens :: "string \<Rightarrow> tables \<times> Removed \<Rightarrow> tables \<times> Removed" where
  "pruneJoinTokens cutoff tr =
     (let (t, r) = tr in
      (t\<lparr>t_tokens := filter (\<lambda>x. \<not> x < cutoff) (t_tokens t)\<rparr>,
       r\<lparr>JoinTokens := length (filter (\<lambda>x. x < cutoff) (t_tokens t))\<rparr>))"

definition pruneIdempotency :: "string \<Rightarrow> tables \<times> Removed \<Rightarrow> tables \<times> Removed" where
  "pruneIdempotency cutoff tr =
     (let (t, r) = tr in
      (t\<lparr>t_idem := filter (\<lambda>x. \<not> x < cutoff) (t_idem t)\<rparr>,
       r\<lparr>IdempotencyKeys := length (filter (\<lambda>x. x < cutoff) (t_idem t))\<rparr>))"

section \<open>The chain\<close>

text \<open>
  \<open>SELECT min(seq), (SELECT hash ...) ... WHERE seq < ?\<close> always gives one row; its columns are NULL
  when no record matches.
\<close>

definition min_seq :: "Record list \<Rightarrow> int option" where
  "min_seq rows = (if rows = [] then None else Some (Min (rSeq ` set rows)))"

definition hash_of_seq :: "Record list \<Rightarrow> int \<Rightarrow> string option" where
  "hash_of_seq rows seq = map_option rHash (find (\<lambda>r. rSeq r = seq) rows)"

definition keep_from :: "string \<Rightarrow> Record list \<Rightarrow> int option" where
  "keep_from cutoff rows =
     (case find (\<lambda>r. \<not> format_ts (rTS r) < cutoff) rows of
        Some r \<Rightarrow> Some (rSeq r)
      | None \<Rightarrow> if rows = [] then None else Some (rSeq (last rows)))"

definition auditPrefix :: "Record list \<Rightarrow> Removed \<Rightarrow> prune_err + Removed" where
  "auditPrefix rows r =
     (case keep_from (AuditBefore r) rows of
        None \<Rightarrow> Inr r
      | Some keepFrom \<Rightarrow>
          if keepFrom \<le> 1 then Inr r
          else (case (min_seq (filter (\<lambda>x. rSeq x < keepFrom) rows), hash_of_seq rows (keepFrom - 1)) of
                  (Some from, Some anchor) \<Rightarrow>
                    if anchor = [] then Inl NoAnchorHash
                    else Inr (r\<lparr>AuditFrom := from, AuditThrough := keepFrom - 1, AuditAnchor := anchor\<rparr>)
                | _ \<Rightarrow> Inl NullScan))"

text \<open>The delete and the UPDATE of the installation row.\<close>

definition cut_at :: "int \<Rightarrow> string \<Rightarrow> audit_db \<Rightarrow> audit_db" where
  "cut_at through anchor db =
     db\<lparr>db_rows := filter (\<lambda>x. \<not> rSeq x \<le> through) (db_rows db),
        db_inst := map_option (\<lambda>i. i\<lparr>inst_pruned_seq := Some through, inst_pruned_hash := Some anchor\<rparr>) (db_inst db)\<rparr>"

definition pruneAudit :: "tables \<times> Removed \<Rightarrow> prune_err + tables \<times> Removed" where
  "pruneAudit tr =
     (let (t, r) = tr in
      sbind (auditPrefix (db_rows (t_audit t)) r) (\<lambda>r'.
      if AuditThrough r' = 0 then Inr (t, r')
      else Inr (t\<lparr>t_audit := cut_at (AuditThrough r') (AuditAnchor r') (t_audit t)\<rparr>, r')))"

definition Prune :: "Window \<Rightarrow> int \<Rightarrow> tables \<Rightarrow> prune_err + tables \<times> Removed" where
  "Prune w now t =
     sbind (start w now) (\<lambda>r.
     pruneAudit (pruneIdempotency (stamp (now - idempotencyWindow))
       (pruneJoinTokens (stamp (now - joinTokenGrace)) (pruneUsage (t, r)))))"

definition Plan :: "Window \<Rightarrow> int \<Rightarrow> tables \<Rightarrow> prune_err + Removed" where
  "Plan w now t =
     sbind (start w now) (\<lambda>r.
     auditPrefix (db_rows (t_audit t))
       (r\<lparr>UsageRows := length (old_usage (UsageBefore r) (t_usage t)),
          UsageGroups := usage_groups (UsageBefore r) (t_usage t),
          JoinTokens := length (filter (\<lambda>x. x < stamp (now - joinTokenGrace)) (t_tokens t)),
          IdempotencyKeys := length (filter (\<lambda>x. x < stamp (now - idempotencyWindow)) (t_idem t))\<rparr>))"

section \<open>The preview is the pass\<close>

text \<open>
  what the preview shows an operator is what the pass then removes, and it is refused for the
  same reason.
\<close>

theorem plan_is_what_prune_removes:
  "Plan w now t = (case Prune w now t of Inl e \<Rightarrow> Inl e | Inr (t', r) \<Rightarrow> Inr r)"
proof (cases "start w now")
  case (Inr r)
  let ?r = "r\<lparr>UsageRows := length (old_usage (UsageBefore r) (t_usage t)),
          UsageGroups := usage_groups (UsageBefore r) (t_usage t),
          JoinTokens := length (filter (\<lambda>x. x < stamp (now - joinTokenGrace)) (t_tokens t)),
          IdempotencyKeys := length (filter (\<lambda>x. x < stamp (now - idempotencyWindow)) (t_idem t))\<rparr>"
  from Inr show ?thesis
    by (cases "auditPrefix (db_rows (t_audit t)) ?r")
      (simp_all add: Plan_def Prune_def pruneAudit_def pruneUsage_def pruneJoinTokens_def pruneIdempotency_def Let_def)
qed (simp add: Plan_def Prune_def)

section \<open>Cutting a linked chain\<close>

lemma linked_filter_drop:
  assumes "linked sha a rows" and "k < length rows"
  shows "filter (\<lambda>x. \<not> rSeq x \<le> rSeq (rows ! k) - 1) rows = drop k rows"
    "filter (\<lambda>x. rSeq x < rSeq (rows ! k)) rows = take k rows"
proof -
  have s: "rSeq (rows ! i) = fst a + int i + 1" if "i < length rows" for i
    by (rule linked_nth [OF assms(1) that])
  have t: "\<forall>x \<in> set (take k rows). rSeq x < rSeq (rows ! k)"
    using s assms(2) by (auto simp: in_set_conv_nth)
  have d: "\<forall>x \<in> set (drop k rows). \<not> rSeq x < rSeq (rows ! k)"
    using s assms(2) by (auto simp: in_set_conv_nth)
  have "filter (\<lambda>x. \<not> rSeq x \<le> rSeq (rows ! k) - 1) (take k rows) = []"
    "filter (\<lambda>x. \<not> rSeq x \<le> rSeq (rows ! k) - 1) (drop k rows) = drop k rows"
    "filter (\<lambda>x. rSeq x < rSeq (rows ! k)) (take k rows) = take k rows"
    "filter (\<lambda>x. rSeq x < rSeq (rows ! k)) (drop k rows) = []"
    using t d by (auto simp: filter_empty_conv filter_id_conv)
  then show "filter (\<lambda>x. \<not> rSeq x \<le> rSeq (rows ! k) - 1) rows = drop k rows"
    "filter (\<lambda>x. rSeq x < rSeq (rows ! k)) rows = take k rows"
    by (metis append_take_drop_id append_Nil append_Nil2 filter_append)+
qed

lemma keep_from_index:
  assumes "keep_from cutoff rows = Some s"
  obtains k where "k < length rows" "s = rSeq (rows ! k)"
    "\<forall>i < k. format_ts (rTS (rows ! i)) < cutoff"
proof (cases "find (\<lambda>r. \<not> format_ts (rTS r) < cutoff) rows")
  case None
  with assms have "rows \<noteq> []" "s = rSeq (last rows)" by (auto simp: keep_from_def split: if_splits)
  moreover from None have "\<forall>i < length rows. format_ts (rTS (rows ! i)) < cutoff" by (auto simp: find_None_iff)
  ultimately show thesis using that [of "length rows - 1"] by (simp add: last_conv_nth)
next
  case (Some r)
  then obtain k where "k < length rows" "r = rows ! k" "\<forall>i < k. format_ts (rTS (rows ! i)) < cutoff"
    by (auto simp: find_Some_iff)
  with assms Some that show thesis by (auto simp: keep_from_def)
qed

lemma hash_of_seq_nth:
  assumes "linked sha a rows" and "k < length rows"
  shows "hash_of_seq rows (rSeq (rows ! k)) = Some (rHash (rows ! k))"
proof -
  have "find (\<lambda>r. rSeq r = rSeq (rows ! k)) rows = Some (rows ! k)"
    unfolding find_Some_iff using assms(2) linked_nth [OF assms(1)] by (intro exI [of _ k]) auto
  then show ?thesis by (simp add: hash_of_seq_def)
qed

text \<open>What \<open>auditPrefix\<close> decides on a linked table, by the index of the first record to keep.\<close>

lemma auditPrefix_linked:
  assumes "linked sha a rows" and "0 \<le> fst a" and "k < length rows"
    and "keep_from (AuditBefore r) rows = Some (rSeq (rows ! k))"
  shows "auditPrefix rows r =
    (if rSeq (rows ! k) \<le> 1 then Inr r
     else if k = 0 then Inl NullScan
     else if rHash (rows ! (k - 1)) = [] then Inl NoAnchorHash
     else Inr (r\<lparr>AuditFrom := fst a + 1, AuditThrough := rSeq (rows ! (k - 1)), AuditAnchor := rHash (rows ! (k - 1))\<rparr>))"
proof (cases "k = 0")
  case True
  have f: "filter (\<lambda>x. rSeq x < rSeq (rows ! k)) rows = []"
    using linked_filter_drop(2) [OF assms(1,3)] True by simp
  show ?thesis using assms(4) unfolding True by (simp add: auditPrefix_def f [unfolded True] min_seq_def)
next
  case False
  have f: "filter (\<lambda>x. rSeq x < rSeq (rows ! k)) rows = take k rows"
    by (rule linked_filter_drop(2) [OF assms(1,3)])
  have prev: "rSeq (rows ! (k - 1)) = rSeq (rows ! k) - 1"
    using linked_nth [OF assms(1)] assms(3) False by simp
  have h: "hash_of_seq rows (rSeq (rows ! k) - 1) = Some (rHash (rows ! (k - 1)))"
    using hash_of_seq_nth [OF assms(1), of "k - 1"] prev assms(3) by simp
  have "Min (rSeq ` set (take k rows)) = fst a + 1"
  proof (rule Min_eqI)
    show "fst a + 1 \<le> y" if "y \<in> rSeq ` set (take k rows)" for y
      using that linked_bounds [OF assms(1)] by (fastforce dest: in_set_takeD)
    have "rows ! 0 \<in> set (take k rows)" using False assms(3) by (simp add: in_set_conv_nth) (use False in force)
    then show "fst a + 1 \<in> rSeq ` set (take k rows)"
      using linked_nth [OF assms(1), of 0] assms(3) by (metis add.right_neutral bot_nat_0.extremum_strict
          gr_zeroI image_eqI int_ops(1) not_less_iff_gr_or_eq)
  qed simp
  moreover have "take k rows \<noteq> []" using False assms(3) by auto
  ultimately have "min_seq (take k rows) = Some (fst a + 1)" by (simp add: min_seq_def)
  with assms(4) f h prev False show ?thesis by (simp add: auditPrefix_def)
qed

lemma cut_chain_ok:
  assumes "chain_ok sha db" and "k < length (db_rows db)" and "0 < k"
  shows "chain_ok sha (cut_at (rSeq (db_rows db ! (k - 1))) (rHash (db_rows db ! (k - 1))) db)"
    and "db_rows (cut_at (rSeq (db_rows db ! (k - 1))) (rHash (db_rows db ! (k - 1))) db) = drop k (db_rows db)"
proof -
  let ?rows = "db_rows db" and ?p = "db_rows db ! (k - 1)"
  have l: "linked sha (start_of db) ?rows" using assms(1) by (simp add: chain_ok_def)
  have prev: "rSeq ?p = rSeq (?rows ! k) - 1"
    using linked_nth [OF l] assms(2,3) by simp
  show r: "db_rows (cut_at (rSeq ?p) (rHash ?p) db) = drop k ?rows"
    using linked_filter_drop(1) [OF l assms(2)] prev by (simp add: cut_at_def)
  have inst: "Some (rInstall (?rows ! k)) = InstallID db" using assms(1,2) by (simp add: chain_ok_def)
  then obtain i where i: "db_inst db = Some i" by (cases "db_inst db") (auto simp: InstallID_def)
  have "take k ?rows \<noteq> []" using assms(2,3) by auto
  moreover from this have "last (take k ?rows) = ?p"
    using assms(2,3) by (simp add: last_conv_nth)
  ultimately have "linked sha (rSeq ?p, rHash ?p) (drop k ?rows)"
    using l linked_append [of sha "start_of db" "take k ?rows" "drop k ?rows"] by (simp add: end_of_def)
  moreover have "0 \<le> rSeq ?p"
    using linked_nth [OF l, of "k - 1"] assms by (simp add: chain_ok_def)
  moreover have "start_of (cut_at (rSeq ?p) (rHash ?p) db) = (rSeq ?p, rHash ?p)"
    by (simp add: cut_at_def start_of_def i)
  moreover have "InstallID (cut_at (rSeq ?p) (rHash ?p) db) = InstallID db"
    by (simp add: cut_at_def InstallID_def i)
  moreover have "\<forall>x \<in> set (drop k ?rows). Some (rInstall x) = InstallID db"
    using assms(1) by (auto simp: chain_ok_def dest: in_set_dropD)
  moreover have "drop k ?rows \<noteq> []" using assms(2) by simp
  ultimately show "chain_ok sha (cut_at (rSeq ?p) (rHash ?p) db)"
    unfolding chain_ok_def r by (auto simp: cut_at_def i)
qed

section \<open>Pruning keeps the chain verifiable\<close>

lemma Prune_Inr:
  assumes "Prune w now t = Inr (t', r)"
  obtains r0 where "AuditBefore r0 = before now (AuditDays w)" "AuditThrough r0 = 0"
    "auditPrefix (db_rows (t_audit t)) r0 = Inr r"
    "t_audit t' = (if AuditThrough r = 0 then t_audit t else cut_at (AuditThrough r) (AuditAnchor r) (t_audit t))"
    "t_usage t' = filter (\<lambda>u. \<not> u_ts u < before now (UsageDays w)) (t_usage t)"
    "t_daily t' = foldl (\<lambda>d u. add_total u d) (t_daily t) (old_usage (before now (UsageDays w)) (t_usage t))"
proof -
  from assms have win: "\<not> (AuditDays w < 1 \<or> UsageDays w < 1)" by (auto simp: Prune_def start_def)
  let ?r0 = "\<lparr>AuditFrom = 0, AuditThrough = 0, AuditAnchor = [],
      UsageRows = length (old_usage (before now (UsageDays w)) (t_usage t)),
      UsageGroups = usage_groups (before now (UsageDays w)) (t_usage t),
      JoinTokens = length (filter (\<lambda>x. x < stamp (now - joinTokenGrace)) (t_tokens t)),
      IdempotencyKeys = length (filter (\<lambda>x. x < stamp (now - idempotencyWindow)) (t_idem t)),
      UsageBefore = before now (UsageDays w), AuditBefore = before now (AuditDays w)\<rparr>"
  define t1 where "t1 = t\<lparr>t_daily := foldl (\<lambda>d u. add_total u d) (t_daily t) (old_usage (before now (UsageDays w)) (t_usage t)),
      t_usage := filter (\<lambda>u. \<not> u_ts u < before now (UsageDays w)) (t_usage t),
      t_tokens := filter (\<lambda>x. \<not> x < stamp (now - joinTokenGrace)) (t_tokens t),
      t_idem := filter (\<lambda>x. \<not> x < stamp (now - idempotencyWindow)) (t_idem t)\<rparr>"
  have t1: "t_audit t1 = t_audit t" "t_usage t1 = filter (\<lambda>u. \<not> u_ts u < before now (UsageDays w)) (t_usage t)"
    "t_daily t1 = foldl (\<lambda>d u. add_total u d) (t_daily t) (old_usage (before now (UsageDays w)) (t_usage t))"
    by (simp_all add: t1_def)
  from assms win have "pruneAudit (t1, ?r0) = Inr (t', r)"
    by (simp add: Prune_def start_def pruneUsage_def pruneJoinTokens_def pruneIdempotency_def Let_def t1_def)
  then have "auditPrefix (db_rows (t_audit t)) ?r0 = Inr r"
    "t' = (if AuditThrough r = 0 then t1 else t1\<lparr>t_audit := cut_at (AuditThrough r) (AuditAnchor r) (t_audit t)\<rparr>)"
    using t1(1) by (auto simp: pruneAudit_def Let_def simp del: sbind.simps split: if_splits)
  with t1 show thesis by (intro that [of ?r0]) simp_all
qed

text \<open>What a pass does to the chain: nothing, or a cut before the first record it must keep.\<close>

lemma Prune_chain:
  assumes "chain_ok sha (t_audit t)" and "Prune w now t = Inr (t', r)"
  shows "(t_audit t' = t_audit t) \<or>
    (\<exists>k. 0 < k \<and> k < length (db_rows (t_audit t)) \<and>
       (\<forall>i < k. format_ts (rTS (db_rows (t_audit t) ! i)) < before now (AuditDays w)) \<and>
       t_audit t' = cut_at (rSeq (db_rows (t_audit t) ! (k - 1))) (rHash (db_rows (t_audit t) ! (k - 1))) (t_audit t))"
proof -
  let ?db = "t_audit t"
  from assms(2) obtain r0 where r0: "AuditBefore r0 = before now (AuditDays w)" "AuditThrough r0 = 0"
    "auditPrefix (db_rows ?db) r0 = Inr r"
    "t_audit t' = (if AuditThrough r = 0 then ?db else cut_at (AuditThrough r) (AuditAnchor r) ?db)"
    by (rule Prune_Inr)
  show ?thesis
  proof (cases "keep_from (AuditBefore r0) (db_rows ?db)")
    case None
    with r0 show ?thesis by (simp add: auditPrefix_def)
  next
    case (Some s)
    from keep_from_index [OF this] obtain k where k: "k < length (db_rows ?db)" "s = rSeq (db_rows ?db ! k)"
      "\<forall>i < k. format_ts (rTS (db_rows ?db ! i)) < AuditBefore r0" by metis
    from assms(1) have l: "linked sha (start_of ?db) (db_rows ?db)" "0 \<le> fst (start_of ?db)"
      by (simp_all add: chain_ok_def)
    from auditPrefix_linked [OF l k(1), of r0] Some k(2) r0(2-4) show ?thesis
      using k(1,3) r0(1) by (auto split: if_splits intro!: exI [of _ k])
  qed
qed

definition sample_tables :: tables where
  "sample_tables =
     \<lparr>t_usage = [\<lparr>u_ts = ''1970-01-01T00:00:00.000Z'', u_user_id = Some ''usr_1'', u_model_id = None,
                  u_prompt = 10, u_completion = 5\<rparr>],
      t_daily = [((''1970-01-01'', ''usr_1'', []), (2, 7, 3))], t_tokens = [], t_idem = [],
      t_audit = \<lparr>db_rows = [sample_r1, sample_r2],
        db_inst = Some \<lparr>inst_id = ''ins_0'', inst_created = format_ts 0, inst_pruned_seq = None, inst_pruned_hash = None\<rparr>\<rparr>\<rparr>"

lemma sample_tables_ok: "chain_ok sample_sha (t_audit sample_tables)"
  using sample_linked
  by (simp add: sample_tables_def chain_ok_def start_of_def InstallID_def sample_fields)

lemma sample_cutoffs:
  "format_ts 0 < before 864000000000000 1" "\<not> format_ts 0 < before 0 1"
  by code_simp+

lemma sample_prune: "\<exists>t' r. Prune \<lparr>AuditDays = 1, UsageDays = 1\<rparr> 864000000000000 sample_tables = Inr (t', r)"
proof -
  let ?rows = "db_rows (t_audit sample_tables)"
  have l: "linked sample_sha (0, GenesisPrevHash) ?rows" "0 \<le> fst (0 :: int, GenesisPrevHash)" "1 < length ?rows"
    using sample_linked by (simp_all add: sample_tables_def)
  have "keep_from (before 864000000000000 1) ?rows = Some (rSeq (?rows ! 1))"
    using sample_cutoffs by (simp add: keep_from_def sample_tables_def sample_fields)
  from auditPrefix_linked [OF l] this have
    "\<exists>r'. auditPrefix ?rows r = Inr r'" if "AuditBefore r = before 864000000000000 1" for r
    using that by (simp add: sample_tables_def sample_fields)
  then obtain f where "\<And>r. AuditBefore r = before 864000000000000 1 \<Longrightarrow> auditPrefix ?rows r = Inr (f r)" by metis
  then show ?thesis
    by (simp add: Prune_def start_def pruneAudit_def pruneUsage_def pruneJoinTokens_def pruneIdempotency_def Let_def)
qed

text \<open>
  C12: retention never damages the chain: after a pass the tables are one linked chain that starts at
  the recorded cut, the surviving records are a suffix of the old ones, a record inside the window is
  never removed, and the last record always survives.
\<close>

theorem prune_keeps_chain:
  assumes "chain_ok sha (t_audit t)" and "Prune w now t = Inr (t', r)"
  shows "chain_ok sha (t_audit t') \<and>
    (\<exists>gone. db_rows (t_audit t) = gone @ db_rows (t_audit t') \<and>
       (\<forall>x \<in> set gone. format_ts (rTS x) < before now (AuditDays w)) \<and>
       (db_rows (t_audit t) \<noteq> [] \<longrightarrow> db_rows (t_audit t') \<noteq> []))"
  using Prune_chain [OF assms]
proof
  assume "t_audit t' = t_audit t"
  with assms(1) show ?thesis by (intro conjI exI [of _ "[]"]) auto
next
  assume "\<exists>k. 0 < k \<and> k < length (db_rows (t_audit t)) \<and>
       (\<forall>i < k. format_ts (rTS (db_rows (t_audit t) ! i)) < before now (AuditDays w)) \<and>
       t_audit t' = cut_at (rSeq (db_rows (t_audit t) ! (k - 1))) (rHash (db_rows (t_audit t) ! (k - 1))) (t_audit t)"
  then obtain k where k: "0 < k" "k < length (db_rows (t_audit t))"
    "\<forall>i < k. format_ts (rTS (db_rows (t_audit t) ! i)) < before now (AuditDays w)"
    "t_audit t' = cut_at (rSeq (db_rows (t_audit t) ! (k - 1))) (rHash (db_rows (t_audit t) ! (k - 1))) (t_audit t)"
    by blast
  note c = cut_chain_ok [OF assms(1) k(2,1)]
  have "db_rows (t_audit t) = take k (db_rows (t_audit t)) @ db_rows (t_audit t')"
    unfolding k(4) c(2) by simp
  moreover have "\<forall>x \<in> set (take k (db_rows (t_audit t))). format_ts (rTS x) < before now (AuditDays w)"
    using k(2,3) by (auto simp: in_set_conv_nth)
  moreover have "db_rows (t_audit t') \<noteq> []" unfolding k(4) c(2) using k(2) by simp
  ultimately show ?thesis using c(1) k(4) by metis
qed

theorem prune_keeps_chain_witness:
  "\<exists>t' r. Prune \<lparr>AuditDays = 1, UsageDays = 1\<rparr> 864000000000000 sample_tables = Inr (t', r) \<and>
     chain_ok sample_sha (t_audit t')"
proof -
  from sample_prune obtain t' r where "Prune \<lparr>AuditDays = 1, UsageDays = 1\<rparr> 864000000000000 sample_tables = Inr (t', r)"
    by blast
  with prune_keeps_chain [OF sample_tables_ok this] show ?thesis by blast
qed

text \<open>
  a second pass that finds nothing new to remove from a chain that has been cut does not succeed:
  once retention has cut the chain, while the first surviving record is still inside the window
  both the preview and the pass fail with the scan of a NULL, and with them the pruning of usage,
  join tokens and idempotency keys.
\<close>

theorem pruning_a_cut_chain_fails:
  assumes "chain_ok sha (t_audit t)" and "db_rows (t_audit t) = x # xs" and "1 < rSeq x"
    and "\<not> format_ts (rTS x) < before now (AuditDays w)" and "1 \<le> AuditDays w" and "1 \<le> UsageDays w"
  shows "Prune w now t = Inl NullScan"
proof -
  from assms(1) have l: "linked sha (start_of (t_audit t)) (db_rows (t_audit t))" "0 \<le> fst (start_of (t_audit t))"
    by (simp_all add: chain_ok_def)
  have "auditPrefix (db_rows (t_audit t)) r = Inl NullScan" if "AuditBefore r = before now (AuditDays w)" for r
  proof -
    have "keep_from (AuditBefore r) (db_rows (t_audit t)) = Some (rSeq (db_rows (t_audit t) ! 0))"
      using assms(2,4) that by (simp add: keep_from_def)
    from auditPrefix_linked [OF l _ this] assms(2,3) show ?thesis by simp
  qed
  with assms(5,6) show ?thesis
    by (simp add: Prune_def start_def pruneAudit_def pruneUsage_def pruneJoinTokens_def pruneIdempotency_def Let_def)
qed

theorem pruning_a_cut_chain_fails_witness:
  "Prune \<lparr>AuditDays = 1, UsageDays = 1\<rparr> 0
     (sample_tables\<lparr>t_audit := cut_at 1 (replicate 64 (CHR ''a'')) (t_audit sample_tables)\<rparr>) = Inl NullScan"
proof -
  let ?t = "sample_tables\<lparr>t_audit := cut_at 1 (replicate 64 (CHR ''a'')) (t_audit sample_tables)\<rparr>"
  have rows: "db_rows (t_audit sample_tables) = [sample_r1, sample_r2]" by (simp add: sample_tables_def)
  have "chain_ok sample_sha (t_audit ?t)" "db_rows (t_audit ?t) = [sample_r2]"
    using cut_chain_ok [OF sample_tables_ok, of 1] by (simp_all add: rows sample_fields)
  from pruning_a_cut_chain_fails [OF this] show ?thesis
    using sample_cutoffs(2) by (simp add: sample_fields)
qed

section \<open>Usage is rolled up, not lost\<close>

text \<open>The requests an aggregate holds, over all its rows.\<close>

definition daily_requests :: "(daily_key \<times> daily_total) list \<Rightarrow> int" where
  "daily_requests d = sum_list (map (fst \<circ> snd) d)"

definition daily_tokens :: "(daily_key \<times> daily_total) list \<Rightarrow> int" where
  "daily_tokens d = sum_list (map (\<lambda>(k, n, p, c). p + c) d)"

lemma sum_put:
  fixes f :: "'v \<Rightarrow> int"
  shows "distinct (map fst m) \<Longrightarrow> sum_list (map (f \<circ> snd) (put k v m)) =
    sum_list (map (f \<circ> snd) m) + f v - (case map_of m k of None \<Rightarrow> 0 | Some w \<Rightarrow> f w)"
proof (induction k v m rule: put.induct)
  case (2 k v k' v' m)
  have "k' = k \<Longrightarrow> map_of m k = None" using 2(2) by (auto simp: map_of_eq_None_iff)
  with 2 show ?case by auto
qed simp

lemma add_total_requests:
  "distinct (map fst d) \<Longrightarrow> daily_requests (add_total u d) = daily_requests d + 1"
  using sum_put [of d fst "daily_key_of u"]
  by (auto simp: add_total_def daily_requests_def split: option.splits)

lemma daily_tokens_comp: "daily_tokens d = sum_list (map ((\<lambda>(n, p, c). p + c) \<circ> snd) d)"
  unfolding daily_tokens_def by (rule arg_cong [where f = sum_list]) (auto simp: comp_def)

lemma add_total_tokens:
  "distinct (map fst d) \<Longrightarrow> daily_tokens (add_total u d) = daily_tokens d + u_prompt u + u_completion u"
  using sum_put [of d "\<lambda>(n, p, c). p + c" "daily_key_of u"]
  by (auto simp: add_total_def daily_tokens_comp split: option.splits)

lemma add_total_distinct: "distinct (map fst d) \<Longrightarrow> distinct (map fst (add_total u d))"
  by (auto simp: add_total_def distinct_put split: option.splits)

lemma rolled_totals:
  "distinct (map fst d) \<Longrightarrow>
   distinct (map fst (foldl (\<lambda>d u. add_total u d) d us)) \<and>
   daily_requests (foldl (\<lambda>d u. add_total u d) d us) = daily_requests d + int (length us) \<and>
   daily_tokens (foldl (\<lambda>d u. add_total u d) d us) = daily_tokens d + sum_list (map (\<lambda>u. u_prompt u + u_completion u) us)"
  by (induction us arbitrary: d)
    (simp_all add: add_total_distinct add_total_requests add_total_tokens algebra_simps)

lemma split_old:
  fixes f :: "usage_row \<Rightarrow> int"
  shows "sum_list (map f us) = sum_list (map f (old_usage c us)) + sum_list (map f (filter (\<lambda>u. \<not> u_ts u < c) us))"
  by (induction us) (auto simp: old_usage_def)

text \<open>
  no request and no token disappears from the books: the requests and tokens held by the raw
  usage rows and the daily aggregate together are the same before and after a pass.
\<close>

theorem prune_conserves_usage:
  assumes "distinct (map fst (t_daily t))" and "Prune w now t = Inr (t', r)"
  shows "daily_requests (t_daily t') + int (length (t_usage t')) = daily_requests (t_daily t) + int (length (t_usage t)) \<and>
    daily_tokens (t_daily t') + sum_list (map (\<lambda>u. u_prompt u + u_completion u) (t_usage t')) =
    daily_tokens (t_daily t) + sum_list (map (\<lambda>u. u_prompt u + u_completion u) (t_usage t))"
proof -
  let ?c = "before now (UsageDays w)"
  from assms(2) have t': "t_usage t' = filter (\<lambda>u. \<not> u_ts u < ?c) (t_usage t)"
    "t_daily t' = foldl (\<lambda>d u. add_total u d) (t_daily t) (old_usage ?c (t_usage t))"
    by (rule Prune_Inr, simp)+
  have len: "length (old_usage ?c us) + length (filter (\<lambda>u. \<not> u_ts u < ?c) us) = length us" for us
    unfolding old_usage_def by (rule sum_length_filter_compl)
  show ?thesis
    unfolding t' using rolled_totals [OF assms(1), of "old_usage ?c (t_usage t)"] len [of "t_usage t"]
      split_old [of "\<lambda>u. u_prompt u + u_completion u" "t_usage t" ?c] by simp
qed

theorem prune_conserves_usage_witness:
  "\<exists>t' r. Prune \<lparr>AuditDays = 1, UsageDays = 1\<rparr> 864000000000000 sample_tables = Inr (t', r) \<and>
     daily_requests (t_daily t') + int (length (t_usage t')) = 3"
proof -
  from sample_prune obtain t' r where p: "Prune \<lparr>AuditDays = 1, UsageDays = 1\<rparr> 864000000000000 sample_tables = Inr (t', r)"
    by blast
  have "distinct (map fst (t_daily sample_tables))" by (simp add: sample_tables_def)
  from prune_conserves_usage [OF this p] p show ?thesis
    by (simp add: sample_tables_def daily_requests_def)
qed

end
