(* ===== verification/Throttle.thy ===== *)
theory Throttle
  imports Float64 Retention
begin

text \<open>
  \<^verbatim>\<open>internal/gateway/throttle.go\<close>: the reduction of the limits that apply to a caller, the token
  buckets, admission and release.  Instants and durations are nanoseconds; the zero \<open>time.Time\<close> of a
  fresh bucket is \<open>None\<close>.  A token count is the value of a \<open>float64\<close>: every operation on it is rounded
  (\<open>fl\<close>) where the code rounds.
\<close>

section \<open>Limits\<close>

definition perMinute :: int where "perMinute = 60000000000"
definition dailyResetHour :: int where "dailyResetHour = 0"
definition second_ns :: int where "second_ns = 1000000000"
definition day :: int where "day = 86400 * second_ns"

record limit =
  l_value :: int
  l_subject :: string

record limits =
  ls_rpm :: limit
  ls_tpm :: limit
  ls_daily :: limit
  ls_concurrent :: limit

definition no_limit :: limit where "no_limit = \<lparr>l_value = 0, l_subject = []\<rparr>"

definition no_limits :: limits where
  "no_limits = \<lparr>ls_rpm = no_limit, ls_tpm = no_limit, ls_daily = no_limit, ls_concurrent = no_limit\<rparr>"

definition tighten :: "int \<Rightarrow> string \<Rightarrow> limit \<Rightarrow> limit" where
  "tighten v subject l =
     (if v \<le> 0 then l
      else if l_value l = 0 \<or> v < l_value l then \<lparr>l_value = v, l_subject = subject\<rparr>
      else l)"

definition limits_none :: "limits \<Rightarrow> bool" where
  "limits_none l \<longleftrightarrow> l_value (ls_rpm l) = 0 \<and> l_value (ls_tpm l) = 0 \<and>
     l_value (ls_daily l) = 0 \<and> l_value (ls_concurrent l) = 0"

text \<open>A row of the \<open>limits\<close> table; a NULL column scans to an invalid \<open>sql.NullInt64\<close>, whose value is 0.\<close>

record limit_row =
  lr_kind :: string
  lr_id :: string
  lr_rpm :: "int option"
  lr_tpm :: "int option"
  lr_daily :: "int option"
  lr_concurrent :: "int option"

definition null_int :: "int option \<Rightarrow> int" where
  "null_int v = (case v of None \<Rightarrow> 0 | Some i \<Rightarrow> i)"

text \<open>What of an \<open>identity.Principal\<close> the limiter reads.\<close>

record caller =
  c_name :: string
  c_id :: string
  c_role :: string
  c_token :: string

definition applies :: "caller \<Rightarrow> limit_row \<Rightarrow> bool" where
  "applies p r \<longleftrightarrow> (lr_kind r = ''user'' \<and> (lr_id r = c_name p \<or> lr_id r = c_id p)) \<or>
     (lr_kind r = ''role'' \<and> lr_id r = c_role p) \<or> lr_kind r = ''global''"

definition row_subject :: "limit_row \<Rightarrow> string" where
  "row_subject r = (if lr_kind r = ''global'' then ''global'' else lr_kind r @ '':'' @ lr_id r)"

definition tighten_row :: "limits \<Rightarrow> limit_row \<Rightarrow> limits" where
  "tighten_row l r =
     \<lparr>ls_rpm = tighten (null_int (lr_rpm r)) (row_subject r) (ls_rpm l),
      ls_tpm = tighten (null_int (lr_tpm r)) (row_subject r) (ls_tpm l),
      ls_daily = tighten (null_int (lr_daily r)) (row_subject r) (ls_daily l),
      ls_concurrent = tighten (null_int (lr_concurrent r)) (row_subject r) (ls_concurrent l)\<rparr>"

text \<open>\<open>rows\<close> is the table, or the error of reading it.\<close>

definition limitsFor :: "'e + limit_row list \<Rightarrow> caller \<Rightarrow> 'e + limits" where
  "limitsFor rows p = sbind rows (\<lambda>rs. Inr (foldl tighten_row no_limits (filter (applies p) rs)))"

section \<open>Refusals\<close>

record refusal =
  r_limit :: string
  r_subject :: string
  r_value :: int
  r_used :: int
  r_resets :: int

definition errThrottled :: string where "errThrottled = ''a limit was reached''"

definition refusal_Error :: "refusal \<Rightarrow> string" where
  "refusal_Error r = errThrottled @ '': '' @ r_limit r @ '' is '' @ show_int (r_value r) @ '' for '' @
     r_subject r @ '' and '' @ show_int (r_used r) @ '' is already spent; it resets in '' @
     show_int (r_resets r) @ ''s''"

definition retryAfter :: "refusal \<Rightarrow> string" where
  "retryAfter r = show_int (r_resets r)"

text \<open>\<open>Duration.Seconds\<close>: whole seconds and the rest, each converted, divided and added in \<open>float64\<close>.\<close>

definition seconds :: "int \<Rightarrow> rat" where
  "seconds d =
     (let sec = sgn d * (\<bar>d\<bar> div second_ns); nsec = d - sec * second_ns in
      fl (fl (rat_of_int sec) + fl (fl (rat_of_int nsec) / fl (rat_of_int second_ns))))"

definition ceilSeconds :: "int \<Rightarrow> int" where
  "ceilSeconds d = (let s = \<lceil>seconds d\<rceil> in if 0 < s then s else 1)"

definition lastDailyReset :: "int \<Rightarrow> int" where
  "lastDailyReset now =
     (let reset = now div day * day + dailyResetHour * 3600 * second_ns in
      if now < reset then reset - day else reset)"

definition secondsUntilDailyReset :: "int \<Rightarrow> int" where
  "secondsUntilDailyReset now = ceilSeconds (lastDailyReset now + day - now)"

section \<open>Buckets\<close>

record bucket =
  b_tokens :: rat
  b_last :: "int option"

definition new_bucket :: bucket where "new_bucket = \<lparr>b_tokens = 0, b_last = None\<rparr>"

text \<open>\<open>Time.Sub\<close> saturates at the ends of a \<open>time.Duration\<close>.\<close>

definition sub_time :: "int \<Rightarrow> int \<Rightarrow> int" where
  "sub_time t l = max (- (2 ^ 63)) (min (2 ^ 63 - 1) (t - l))"

definition refill :: "rat \<Rightarrow> int \<Rightarrow> int \<Rightarrow> bucket \<Rightarrow> bucket" where
  "refill capacity per now b =
     (case b_last b of
        None \<Rightarrow> \<lparr>b_tokens = capacity, b_last = Some now\<rparr>
      | Some l \<Rightarrow>
          (let elapsed = sub_time now l in
           if 0 < elapsed
           then \<lparr>b_tokens = min capacity (fl (b_tokens b + fl (fl (capacity * seconds elapsed) / seconds per))),
                 b_last = Some now\<rparr>
           else b))"

definition take_tokens :: "rat \<Rightarrow> rat \<Rightarrow> int \<Rightarrow> int \<Rightarrow> bucket \<Rightarrow> bool \<times> bucket" where
  "take_tokens n capacity per now b =
     (let b' = refill capacity per now b in
      if b_tokens b' < n then (False, b') else (True, b'\<lparr>b_tokens := fl (b_tokens b' - n)\<rparr>))"

definition spend :: "rat \<Rightarrow> rat \<Rightarrow> int \<Rightarrow> int \<Rightarrow> bucket \<Rightarrow> bucket" where
  "spend n capacity per now b = (let b' = refill capacity per now b in b'\<lparr>b_tokens := fl (b_tokens b' - n)\<rparr>)"

definition waitFor :: "rat \<Rightarrow> rat \<Rightarrow> int \<Rightarrow> bucket \<Rightarrow> int" where
  "waitFor n capacity per b =
     (if n \<le> b_tokens b \<or> capacity \<le> 0 then 0
      else (let need = fl (n - b_tokens b) in
            to_int64 (fl (fl (fl (need / capacity) * seconds per) * fl (rat_of_int second_ns)))))"

section \<open>Admission\<close>

record throttle =
  t_buckets :: "(string \<times> bucket) list"
  t_inflight :: "(string \<times> int) list"

definition newThrottle :: throttle where "newThrottle = \<lparr>t_buckets = [], t_inflight = []\<rparr>"

definition bucket_at :: "throttle \<Rightarrow> string \<Rightarrow> bucket" where
  "bucket_at t key = (case map_of (t_buckets t) key of None \<Rightarrow> new_bucket | Some b \<Rightarrow> b)"

definition set_bucket :: "string \<Rightarrow> bucket \<Rightarrow> throttle \<Rightarrow> throttle" where
  "set_bucket key b t = t\<lparr>t_buckets := put key b (t_buckets t)\<rparr>"

definition inflight_at :: "throttle \<Rightarrow> string \<Rightarrow> int" where
  "inflight_at t key = (case map_of (t_inflight t) key of None \<Rightarrow> 0 | Some n \<Rightarrow> n)"

definition concurrent_key :: "limits \<Rightarrow> string" where
  "concurrent_key l = ''concurrent|'' @ l_subject (ls_concurrent l)"

definition tpm_key :: "limits \<Rightarrow> string" where "tpm_key l = ''tpm|'' @ l_subject (ls_tpm l)"
definition rpm_key :: "limits \<Rightarrow> string" where "rpm_key l = ''rpm|'' @ l_subject (ls_rpm l)"

text \<open>What the release closure captured: the limits and the concurrency key, empty when no slot is held.\<close>

record ticket =
  k_limits :: limits
  k_key :: string

text \<open>The daily and the concurrency check change nothing.\<close>

definition read_only_checks :: "limits \<Rightarrow> int \<Rightarrow> int \<Rightarrow> throttle \<Rightarrow> refusal option" where
  "read_only_checks l now dailyUsed t =
     (if 0 < l_value (ls_daily l) \<and> l_value (ls_daily l) \<le> dailyUsed
      then Some \<lparr>r_limit = ''daily_tokens'', r_subject = l_subject (ls_daily l), r_value = l_value (ls_daily l),
                 r_used = dailyUsed, r_resets = secondsUntilDailyReset now\<rparr>
      else if 0 < l_value (ls_concurrent l) \<and> l_value (ls_concurrent l) \<le> inflight_at t (concurrent_key l)
      then Some \<lparr>r_limit = ''max_concurrent'', r_subject = l_subject (ls_concurrent l),
                 r_value = l_value (ls_concurrent l), r_used = inflight_at t (concurrent_key l), r_resets = 1\<rparr>
      else None)"

definition check_tpm :: "limits \<Rightarrow> int \<Rightarrow> throttle \<Rightarrow> throttle \<times> refusal option" where
  "check_tpm l now t =
     (if 0 < l_value (ls_tpm l) then
        (let capacity = fl (rat_of_int (l_value (ls_tpm l)));
             b = refill capacity perMinute now (bucket_at t (tpm_key l)) in
         (set_bucket (tpm_key l) b t,
          if b_tokens b < 1
          then Some \<lparr>r_limit = ''tpm'', r_subject = l_subject (ls_tpm l), r_value = l_value (ls_tpm l),
                     r_used = l_value (ls_tpm l), r_resets = ceilSeconds (waitFor 1 capacity perMinute b)\<rparr>
          else None))
      else (t, None))"

definition take_rpm :: "limits \<Rightarrow> int \<Rightarrow> throttle \<Rightarrow> throttle \<times> refusal option" where
  "take_rpm l now t =
     (if 0 < l_value (ls_rpm l) then
        (let capacity = fl (rat_of_int (l_value (ls_rpm l)));
             (ok, b) = take_tokens 1 capacity perMinute now (bucket_at t (rpm_key l)) in
         (set_bucket (rpm_key l) b t,
          if \<not> ok
          then Some \<lparr>r_limit = ''rpm'', r_subject = l_subject (ls_rpm l), r_value = l_value (ls_rpm l),
                     r_used = l_value (ls_rpm l), r_resets = ceilSeconds (waitFor 1 capacity perMinute b)\<rparr>
          else None))
      else (t, None))"

definition hold_slot :: "limits \<Rightarrow> throttle \<Rightarrow> throttle \<times> ticket" where
  "hold_slot l t =
     (if 0 < l_value (ls_concurrent l)
      then (t\<lparr>t_inflight := put (concurrent_key l) (inflight_at t (concurrent_key l) + 1) (t_inflight t)\<rparr>,
            \<lparr>k_limits = l, k_key = concurrent_key l\<rparr>)
      else (t, \<lparr>k_limits = l, k_key = []\<rparr>))"

definition admit :: "limits \<Rightarrow> int \<Rightarrow> int \<Rightarrow> throttle \<Rightarrow> throttle \<times> (refusal + ticket)" where
  "admit l now dailyUsed t =
     (case read_only_checks l now dailyUsed t of
        Some r \<Rightarrow> (t, Inl r)
      | None \<Rightarrow>
          (case check_tpm l now t of
             (t1, Some r) \<Rightarrow> (t1, Inl r)
           | (t1, None) \<Rightarrow>
               (case take_rpm l now t1 of
                  (t2, Some r) \<Rightarrow> (t2, Inl r)
                | (t2, None) \<Rightarrow> (let (t3, k) = hold_slot l t2 in (t3, Inr k)))))"

text \<open>The release closure; \<open>clock\<close> is \<open>time.Now()\<close> when it runs.\<close>

definition free_slot :: "string \<Rightarrow> throttle \<Rightarrow> throttle" where
  "free_slot key t =
     (if key \<noteq> [] then
        (let n = inflight_at t key - 1 in
         t\<lparr>t_inflight := if n \<le> 0 then del key (put key n (t_inflight t)) else put key n (t_inflight t)\<rparr>)
      else t)"

definition release :: "ticket \<Rightarrow> int \<Rightarrow> int \<Rightarrow> throttle \<Rightarrow> throttle" where
  "release k tokens clock t =
     (let t1 = free_slot (k_key k) t; l = k_limits k in
      if 0 < l_value (ls_tpm l) \<and> 0 < tokens
      then set_bucket (tpm_key l)
             (spend (fl (rat_of_int tokens)) (fl (rat_of_int (l_value (ls_tpm l)))) perMinute clock (bucket_at t1 (tpm_key l))) t1
      else t1)"

section \<open>The server's admission\<close>

text \<open>\<open>SELECT SUM(...)\<close> is NULL over no rows, which scans to 0.\<close>

definition dailyTokensUsed :: "'e + usage_row list \<Rightarrow> string \<Rightarrow> int \<Rightarrow> 'e + int" where
  "dailyTokensUsed usage user now =
     sbind usage (\<lambda>us. Inr (sum_list (map (\<lambda>u. u_prompt u + u_completion u)
       (filter (\<lambda>u. u_user_id u = Some user \<and> format_ts (lastDailyReset now) \<le> u_ts u) us))))"

text \<open>A caller with no limits gets a release that does nothing: \<open>None\<close>.\<close>

definition Server_admit :: "'e + limit_row list \<Rightarrow> 'e + usage_row list \<Rightarrow> caller \<Rightarrow> int \<Rightarrow> throttle \<Rightarrow>
    throttle \<times> ('e + (refusal + ticket option))" where
  "Server_admit rows usage p now t =
     (case limitsFor rows p of
        Inl e \<Rightarrow> (t, Inl e)
      | Inr l \<Rightarrow>
          if limits_none l then (t, Inr (Inr None))
          else (case (if 0 < l_value (ls_daily l) then dailyTokensUsed usage (c_id p) now else Inr 0) of
                  Inl e \<Rightarrow> (t, Inl e)
                | Inr used \<Rightarrow>
                    (case admit l now used t of
                       (t', Inl r) \<Rightarrow> (t', Inr (Inl r))
                     | (t', Inr k) \<Rightarrow> (t', Inr (Inr (Some k))))))"

section \<open>The token bucket contract\<close>

text \<open>How many of a sequence of requests a bucket grants.\<close>

fun grants :: "('b \<Rightarrow> int \<Rightarrow> bool \<times> 'b) \<Rightarrow> 'b \<Rightarrow> int list \<Rightarrow> nat" where
  "grants step b [] = 0"
| "grants step b (t # ts) = (let (ok, b') = step b t in (if ok then 1 else 0) + grants step b' ts)"

text \<open>
  A meter whose level stays between nothing and its capacity, is paid down by each grant and grows at most
  at \<open>rate\<close> with its clock, which never goes back.  The arithmetic of one step may give away up to
  \<open>slack\<close>.
\<close>

locale token_bucket =
  fixes step :: "'b \<Rightarrow> int \<Rightarrow> bool \<times> 'b" and level :: "'b \<Rightarrow> rat" and clock :: "'b \<Rightarrow> int option"
    and cap rate slack :: rat
  assumes rate_nonneg: "0 \<le> rate" and cap_nonneg: "0 \<le> cap" and slack_nonneg: "0 \<le> slack"
    and fresh: "clock b = None \<Longrightarrow> step b t = (ok, b') \<Longrightarrow>
      clock b' = Some t \<and> 0 \<le> level b' \<and> level b' \<le> cap \<and> level b' + of_bool ok \<le> cap + slack"
    and later: "clock b = Some l \<Longrightarrow> 0 \<le> level b \<Longrightarrow> level b \<le> cap \<Longrightarrow> step b t = (ok, b') \<Longrightarrow>
      clock b' = Some (max l t) \<and> 0 \<le> level b' \<and> level b' \<le> cap \<and>
      level b' + of_bool ok \<le> level b + rate * rat_of_int (max l t - l) + slack"
    and capped: "clock b = Some l \<Longrightarrow> 0 \<le> level b \<Longrightarrow> level b \<le> cap \<Longrightarrow> l < t \<Longrightarrow> step b t = (ok, b') \<Longrightarrow>
      level b' + of_bool ok \<le> cap + slack"
begin

lemma grants_from_level:
  assumes "clock b = Some l" and "0 \<le> level b" and "level b \<le> cap" and "\<forall>t \<in> set ts. t \<le> t1" and "l \<le> t1"
  shows "rat_of_nat (grants step b ts) \<le> level b + rate * rat_of_int (t1 - l) + slack * rat_of_nat (length ts)"
  using assms
proof (induction ts arbitrary: b l)
  case Nil
  then show ?case using rate_nonneg by simp
next
  case (Cons t ts)
  obtain ok b' where s: "step b t = (ok, b')" by fastforce
  note nx = later [OF Cons.prems(1-3) s]
  have ih: "rat_of_nat (grants step b' ts) \<le>
      level b' + rate * rat_of_int (t1 - max l t) + slack * rat_of_nat (length ts)"
    using Cons.IH [of b' "max l t"] nx Cons.prems by auto
  have sp: "rate * rat_of_int (t1 - l) = rate * rat_of_int (max l t - l) + rate * rat_of_int (t1 - max l t)"
    by (simp flip: distrib_left of_int_add)
  have sl: "slack * rat_of_nat (length (t # ts)) = slack + slack * rat_of_nat (length ts)"
    by (simp add: algebra_simps)
  have "rat_of_nat (grants step b (t # ts)) = of_bool ok + rat_of_nat (grants step b' ts)"
    using s by (cases ok) simp_all
  with ih nx show ?case unfolding sp sl by linarith
qed

lemma window_bound:
  assumes "clock b = None \<or> 0 \<le> level b \<and> level b \<le> cap" and "\<forall>t \<in> set ts. t0 \<le> t \<and> t \<le> t1" and "t0 \<le> t1"
  shows "rat_of_nat (grants step b ts) \<le> cap + rate * rat_of_int (t1 - t0) + slack * rat_of_nat (length ts)"
proof (cases ts)
  case Nil
  then show ?thesis using cap_nonneg rate_nonneg assms(3) by simp
next
  case (Cons t ts')
  obtain ok b' where s: "step b t = (ok, b')" by fastforce
  have t: "t0 \<le> t" "t \<le> t1" "\<forall>t \<in> set ts'. t \<le> t1" using assms(2) Cons by auto
  have widen: "rate * rat_of_int (t1 - c) \<le> rate * rat_of_int (t1 - t0)" if "t0 \<le> c" for c
    using rate_nonneg that by (intro mult_left_mono) auto
  show ?thesis
  proof (cases "\<exists>l. clock b = Some l \<and> t0 \<le> l")
    case True
    then obtain l where l: "clock b = Some l" "t0 \<le> l" by blast
    then have lv: "0 \<le> level b" "level b \<le> cap" using assms(1) by auto
    show ?thesis
    proof (cases "l \<le> t1")
      case True
      with grants_from_level [OF l(1) lv _ True, of ts] widen [OF l(2)] assms(2) lv show ?thesis by force
    next
      case False
      have "\<forall>t \<in> set ts. t \<le> l" using assms(2) False by fastforce
      with grants_from_level [OF l(1) lv, of ts l] lv
      have "rat_of_nat (grants step b ts) \<le> cap + slack * rat_of_nat (length ts)" by simp
      moreover have "0 \<le> rate * rat_of_int (t1 - t0)" using rate_nonneg assms(3) by simp
      ultimately show ?thesis by linarith
    qed
  next
    case False
    have b': "clock b' = Some t \<and> 0 \<le> level b' \<and> level b' \<le> cap \<and> level b' + of_bool ok \<le> cap + slack"
    proof (cases "clock b")
      case None
      from fresh [OF this s] show ?thesis .
    next
      case (Some l)
      then have lv: "0 \<le> level b" "level b \<le> cap" "l < t" using False assms(1) t(1) by auto
      from later [OF Some lv(1,2) s] capped [OF Some lv s] lv(3) show ?thesis by simp
    qed
    have "rat_of_nat (grants step b' ts') \<le> level b' + rate * rat_of_int (t1 - t) + slack * rat_of_nat (length ts')"
      using grants_from_level [of b' t ts' t1] b' t by blast
    moreover have "rat_of_nat (grants step b ts) = of_bool ok + rat_of_nat (grants step b' ts')"
      using s Cons by (cases ok) simp_all
    moreover have "slack * rat_of_nat (length ts) = slack + slack * rat_of_nat (length ts')"
      by (simp add: Cons algebra_simps)
    ultimately show ?thesis using b' widen [OF t(1)] by linarith
  qed
qed

end

section \<open>The buckets of the throttle\<close>

lemma refill_last: "b_last (refill c per now b) = Some (case b_last b of None \<Rightarrow> now | Some l \<Rightarrow> max l now)"
  by (auto simp: refill_def sub_time_def max_def Let_def split: option.split)

lemma take_tokens_cases:
  "take_tokens n c per now b = (ok, b') \<longleftrightarrow>
     (\<exists>r. r = refill c per now b \<and> ok = (n \<le> b_tokens r) \<and>
        b' = (if ok then r\<lparr>b_tokens := fl (b_tokens r - n)\<rparr> else r))"
  by (auto simp: take_tokens_def Let_def)

text \<open>What an elapsed time, in seconds, may gain by rounding.\<close>

lemma seconds_minute: "seconds perMinute = 60"
  by (simp add: seconds_def perMinute_def second_ns_def fl_numeral)

lemma seconds_bounds:
  assumes "0 < d" and "d < 2 ^ 63"
  shows "seconds d \<le> rat_of_int d / 10 ^ 9 * (1 + 1 / 2 ^ 53) ^ 2" "1 / 2 ^ 32 \<le> seconds d" "seconds d \<le> 2 ^ 35"
proof -
  define sec nsec where "sec = d div second_ns" and "nsec = d mod second_ns"
  have d: "d = sec * second_ns + nsec" by (simp add: sec_def nsec_def)
  have n: "0 \<le> nsec" "nsec < second_ns" by (simp_all add: nsec_def second_ns_def)
  have sec: "0 \<le> sec" using assms(1) by (simp add: sec_def second_ns_def pos_imp_zdiv_nonneg_iff)
  have sec34: "sec \<le> 2 ^ 34" using assms(2) n(1) d by (simp add: second_ns_def)
  have one: "sec = 0 \<Longrightarrow> 1 \<le> nsec" using d assms(1) by simp
  define q where "q = fl (rat_of_int nsec / 10 ^ 9)"
  have q: "q \<le> rat_of_int nsec / 10 ^ 9 * (1 + 1 / 2 ^ 53)" "rat_of_int nsec / 10 ^ 9 * (1 - 1 / 2 ^ 53) \<le> q" "0 \<le> q"
  proof -
    show "0 \<le> q" unfolding q_def using n by (intro fl_nonneg) simp
    have "q \<le> rat_of_int nsec / 10 ^ 9 * (1 + 1 / 2 ^ 53) \<and> rat_of_int nsec / 10 ^ 9 * (1 - 1 / 2 ^ 53) \<le> q"
    proof (cases "nsec = 0")
      case False
      have "(2::rat) powi (- 1022) \<le> 1 / 10 ^ 9" by (simp add: power_int_minus)
      also have "\<dots> \<le> rat_of_int nsec / 10 ^ 9" using n False by (intro divide_right_mono) simp_all
      finally have l: "2 powi (- 1022) \<le> rat_of_int nsec / 10 ^ 9" .
      have "rat_of_int nsec \<le> rat_of_int second_ns" using n by (simp only: of_int_le_iff)
      then have "rat_of_int nsec / 10 ^ 9 \<le> 1" by (simp add: second_ns_def)
      then have "rat_of_int nsec / 10 ^ 9 \<le> 2 ^ 1000" by (rule order.trans) simp
      from fl_normal [OF l this] show ?thesis by (simp add: q_def power_int_minus)
    qed (simp add: q_def)
    then show "q \<le> rat_of_int nsec / 10 ^ 9 * (1 + 1 / 2 ^ 53)" "rat_of_int nsec / 10 ^ 9 * (1 - 1 / 2 ^ 53) \<le> q" by simp_all
  qed
  have qs: "q \<le> 2"
  proof -
    have "rat_of_int nsec \<le> rat_of_int second_ns" using n by (simp only: of_int_le_iff)
    then have "rat_of_int nsec / 10 ^ 9 * (1 + 1 / 2 ^ 53) \<le> 1 * (1 + 1 / 2 ^ 53)"
      by (intro mult_right_mono) (simp_all add: second_ns_def)
    with q(1) show ?thesis by simp
  qed
  have s: "seconds d = fl (rat_of_int sec + q)"
  proof -
    have "sgn d * (\<bar>d\<bar> div second_ns) = sec" using assms(1) by (simp add: sec_def)
    moreover have "d - sec * second_ns = nsec" using d by linarith
    moreover have "fl (rat_of_int sec) = rat_of_int sec" "fl (rat_of_int nsec) = rat_of_int nsec"
      using sec sec34 n by (simp_all add: fl_int second_ns_def)
    moreover have "fl (rat_of_int second_ns) = 10 ^ 9" by (simp add: second_ns_def fl_numeral)
    ultimately show ?thesis by (simp only: seconds_def Let_def q_def)
  qed
  have l: "1 / 2 ^ 31 \<le> rat_of_int sec + q"
  proof (cases "sec = 0")
    case True
    then have "1 / 10 ^ 9 * (1 - 1 / 2 ^ 53) \<le> rat_of_int nsec / 10 ^ 9 * (1 - 1 / 2 ^ 53)"
      using one by (intro mult_right_mono divide_right_mono) simp_all
    with q(2) True show ?thesis by simp
  next
    case False
    then have "1 \<le> rat_of_int sec" using sec by simp
    moreover have "1 / 2 ^ 31 \<le> (1::rat)" by simp
    ultimately show ?thesis using q(3) by linarith
  qed
  have "rat_of_int sec \<le> rat_of_int (2 ^ 34)" using sec34 by (simp only: of_int_le_iff)
  then have h: "rat_of_int sec + q \<le> 2 ^ 34 + 2" using qs by simp
  have n22: "2 powi (- 1022) \<le> rat_of_int sec + q" using l by (rule order.trans [rotated]) (simp add: power_int_minus)
  have "rat_of_int sec + q \<le> 2 ^ 1000" using h by (rule order.trans) simp
  note f = fl_normal [OF n22 this, folded s]
  have u: "(2::rat) powi (- 53) = 1 / 2 ^ 53" by (simp add: power_int_minus)
  have "rat_of_int sec + q \<le> rat_of_int d / 10 ^ 9 * (1 + 1 / 2 ^ 53)"
  proof -
    have "rat_of_int d / 10 ^ 9 = rat_of_int sec + rat_of_int nsec / 10 ^ 9"
      using d by (simp add: second_ns_def field_simps)
    moreover have "rat_of_int sec * 1 \<le> rat_of_int sec * (1 + 1 / 2 ^ 53)" using sec by (intro mult_left_mono) simp_all
    ultimately show ?thesis using q(1) by (simp only: distrib_right)
  qed
  then have "(rat_of_int sec + q) * (1 + 1 / 2 ^ 53) \<le> rat_of_int d / 10 ^ 9 * (1 + 1 / 2 ^ 53) * (1 + 1 / 2 ^ 53)"
    by (intro mult_right_mono) simp_all
  with f(1) show "seconds d \<le> rat_of_int d / 10 ^ 9 * (1 + 1 / 2 ^ 53) ^ 2"
    unfolding u power2_eq_square by (simp only: mult.assoc)
  have "1 / 2 ^ 31 * (1 - 1 / 2 ^ 53) \<le> (rat_of_int sec + q) * (1 - 1 / 2 ^ 53)" using l by (intro mult_right_mono) simp_all
  with f(2) show "1 / 2 ^ 32 \<le> seconds d" unfolding u by simp
  have "(rat_of_int sec + q) * (1 + 1 / 2 ^ 53) \<le> (2 ^ 34 + 2) * (1 + 1 / 2 ^ 53)" using h by (intro mult_right_mono) simp_all
  with f(1) show "seconds d \<le> 2 ^ 35" unfolding u by simp
qed

text \<open>
  One refill and one take, for a capacity \<open>float64\<close> holds exactly: the level stays in range and gains at
  most the elapsed share, with four roundings, and half a unit in the last place of the capacity.
\<close>

lemma min_fl_bound:
  assumes "0 \<le> x" and "1 \<le> c" and "c \<le> 2 ^ 53"
  shows "0 \<le> min c (fl x)" "min c (fl x) \<le> c" "min c (fl x) \<le> x + c / 2 ^ 53"
proof -
  show "0 \<le> min c (fl x)" using assms fl_nonneg [of x] by simp
  show "min c (fl x) \<le> c" by simp
  show "min c (fl x) \<le> x + c / 2 ^ 53"
  proof (cases "c < x")
    case True
    have "0 \<le> c / 2 ^ 53" using assms by simp
    with True show ?thesis by linarith
  next
    case False
    have "c \<le> 2 ^ 1000" using assms(3) by (rule order.trans) simp
    then have "\<bar>fl x - x\<bar> \<le> 2 powi (- 53) * c" using False assms by (intro fl_absolute) simp_all
    moreover have "2 powi (- 53) * c = c / 2 ^ 53" by (simp add: power_int_minus)
    ultimately show ?thesis by linarith
  qed
qed

lemma refill_share:
  assumes "1 \<le> c" and "c \<le> 2 ^ 53" and "0 < d" and "d < 2 ^ 63"
  shows "0 \<le> fl (fl (c * seconds d) / seconds perMinute)"
    "fl (fl (c * seconds d) / seconds perMinute) \<le> c * rat_of_int d / rat_of_int perMinute * (1 + 1 / 2 ^ 53) ^ 4"
proof -
  define u :: rat where "u = 1 + 1 / 2 ^ 53"
  have u: "1 + 2 powi (- 53) = u" "(1::rat) - 2 powi (- 53) = 1 - 1 / 2 ^ 53" "0 < u" by (simp_all add: u_def power_int_minus)
  note sb = seconds_bounds [OF assms(3,4)]
  have e: "(2::rat) powi (- 1022) \<le> 1 / 2 ^ 40" by (simp add: power_int_minus)
  have "1 * (1 / 2 ^ 32) \<le> c * seconds d" using assms(1) sb(2) by (intro mult_mono) simp_all
  then have cs: "1 / 2 ^ 32 \<le> c * seconds d" by simp
  have "c * seconds d \<le> 2 ^ 53 * 2 ^ 35" using assms(1,2) sb(2,3) by (intro mult_mono) simp_all
  then have ch: "c * seconds d \<le> 2 ^ 88" by simp
  have "(1::rat) / 2 ^ 40 \<le> 1 / 2 ^ 32" by simp
  with e cs have "2 powi (- 1022) \<le> c * seconds d" by linarith
  moreover have "c * seconds d \<le> 2 ^ 1000" using ch by (rule order.trans) simp
  ultimately have p: "fl (c * seconds d) \<le> c * seconds d * u" "c * seconds d * (1 - 1 / 2 ^ 53) \<le> fl (c * seconds d)"
    using fl_normal [of "c * seconds d"] unfolding u(1,2) by blast+
  define x where "x = fl (c * seconds d) / 60"
  have "1 / 2 ^ 32 * (1 - 1 / 2 ^ 53) \<le> c * seconds d * (1 - 1 / 2 ^ 53)" using cs by (intro mult_right_mono) simp_all
  then have x: "1 / 2 ^ 40 \<le> x" using p(2) by (simp add: x_def)
  have "c * seconds d * u \<le> 2 ^ 88 * u" using ch u(3) by (intro mult_right_mono) simp_all
  then have "x \<le> 2 ^ 1000" using p(1) by (simp add: x_def u_def)
  moreover have "2 powi (- 1022) \<le> x" using e x by (rule order.trans)
  ultimately have y: "fl x \<le> x * u" using fl_normal(1) [of x] unfolding u(1) by blast
  have "0 \<le> x" using x by (rule order.trans [rotated]) simp
  then show "0 \<le> fl (fl (c * seconds d) / seconds perMinute)" unfolding seconds_minute x_def by (rule fl_nonneg)
  have "x \<le> c * seconds d * u / 60" using p(1) by (simp add: x_def)
  also have "c * seconds d * u / 60 \<le> c * (rat_of_int d / 10 ^ 9 * u ^ 2) * u / 60"
    using sb(1) assms(1) u(3) unfolding u_def [symmetric] by (intro divide_right_mono mult_right_mono mult_left_mono) simp_all
  finally have "x * u \<le> c * (rat_of_int d / 10 ^ 9 * u ^ 2) * u / 60 * u" using u(3) by (intro mult_right_mono) simp_all
  also have "\<dots> = c * rat_of_int d / rat_of_int perMinute * u ^ 4"
    by (simp add: perMinute_def power2_eq_square power4_eq_xxxx)
  finally show "fl (fl (c * seconds d) / seconds perMinute) \<le> c * rat_of_int d / rat_of_int perMinute * (1 + 1 / 2 ^ 53) ^ 4"
    using y unfolding seconds_minute x_def u_def [symmetric] by linarith
qed

definition refill_rate :: "rat \<Rightarrow> rat" where
  "refill_rate c = c / rat_of_int perMinute * (1 + 1 / 2 ^ 53) ^ 4"

lemma refill_bound:
  assumes c: "1 \<le> c" "c \<le> 2 ^ 53" and l: "b_last b = Some l" and lv: "0 \<le> b_tokens b" "b_tokens b \<le> c"
  shows "0 \<le> b_tokens (refill c perMinute t b)" "b_tokens (refill c perMinute t b) \<le> c"
    "b_tokens (refill c perMinute t b) \<le> b_tokens b + refill_rate c * rat_of_int (max l t - l) + c / 2 ^ 53"
proof -
  define r where "r = refill c perMinute t b"
  have "0 \<le> b_tokens r \<and> b_tokens r \<le> c \<and> b_tokens r \<le> b_tokens b + refill_rate c * rat_of_int (max l t - l) + c / 2 ^ 53"
  proof (cases "0 < sub_time t l")
    case True
    define d where "d = sub_time t l"
    have d: "0 < d" "d < 2 ^ 63" "d \<le> max l t - l" using True by (auto simp: d_def sub_time_def)
    define y where "y = fl (fl (c * seconds d) / seconds perMinute)"
    have y: "0 \<le> y" "y \<le> refill_rate c * rat_of_int d"
      using refill_share [OF c d(1,2)] unfolding y_def refill_rate_def by (simp_all add: algebra_simps)
    have "refill_rate c * rat_of_int d \<le> refill_rate c * rat_of_int (max l t - l)"
      using c(1) d(3) by (intro mult_left_mono) (simp_all add: refill_rate_def perMinute_def)
    moreover have "b_tokens r = min c (fl (b_tokens b + y))"
      using True l by (simp add: r_def refill_def d_def [symmetric] y_def)
    moreover have "0 \<le> b_tokens b + y" using lv y by simp
    ultimately show ?thesis using min_fl_bound [of "b_tokens b + y" c] c y(2) by linarith
  next
    case False
    then have "r = b" using l by (simp add: r_def refill_def)
    moreover have "0 \<le> refill_rate c * rat_of_int (max l t - l)" "0 \<le> c / 2 ^ 53"
      using c(1) by (simp_all add: refill_rate_def perMinute_def)
    ultimately show ?thesis using lv by simp
  qed
  then show "0 \<le> b_tokens (refill c perMinute t b)" "b_tokens (refill c perMinute t b) \<le> c"
    "b_tokens (refill c perMinute t b) \<le> b_tokens b + refill_rate c * rat_of_int (max l t - l) + c / 2 ^ 53"
    unfolding r_def by blast+
qed

lemma pay_bound:
  assumes "1 \<le> t" and "t \<le> c" and "c \<le> 2 ^ 53"
  shows "0 \<le> fl (t - 1)" "fl (t - 1) \<le> c" "fl (t - 1) + 1 \<le> t + c / 2 ^ 53"
proof -
  show "0 \<le> fl (t - 1)" using assms by (intro fl_nonneg) simp
  have "c \<le> 2 ^ 1000" using assms(3) by (rule order.trans) simp
  then have "\<bar>fl (t - 1) - (t - 1)\<bar> \<le> 2 powi (- 53) * c" using assms by (intro fl_absolute) simp_all
  moreover have "2 powi (- 53) * c = c / 2 ^ 53" by (simp add: power_int_minus)
  moreover have "c / 2 ^ 53 \<le> 1" using assms(3) by simp
  ultimately show "fl (t - 1) + 1 \<le> t + c / 2 ^ 53" "fl (t - 1) \<le> c" using assms(2) by linarith+
qed

lemma take_bound:
  assumes "take_tokens 1 c perMinute t b = (ok, b')" and "1 \<le> c" and "c \<le> 2 ^ 53"
    and "0 \<le> b_tokens (refill c perMinute t b)" and "b_tokens (refill c perMinute t b) \<le> c"
  shows "b_last b' = b_last (refill c perMinute t b)" "0 \<le> b_tokens b'" "b_tokens b' \<le> c"
    "b_tokens b' + of_bool ok \<le> b_tokens (refill c perMinute t b) + c / 2 ^ 53"
proof -
  have "0 \<le> c / 2 ^ 53" using assms(2) by simp
  then show "b_last b' = b_last (refill c perMinute t b)" "0 \<le> b_tokens b'" "b_tokens b' \<le> c"
    "b_tokens b' + of_bool ok \<le> b_tokens (refill c perMinute t b) + c / 2 ^ 53"
    using assms pay_bound [of "b_tokens (refill c perMinute t b)" c] by (auto simp: take_tokens_cases)
qed

lemma minute_bucket:
  assumes c: "1 \<le> c" "c \<le> 2 ^ 53"
  shows "token_bucket (\<lambda>b now. take_tokens 1 c perMinute now b) b_tokens b_last c (refill_rate c) (c / 2 ^ 52)"
proof
  show "0 \<le> refill_rate c" "0 \<le> c" "0 \<le> c / 2 ^ 52" using c by (simp_all add: refill_rate_def perMinute_def)
  have h: "c / 2 ^ 52 = c / 2 ^ 53 + c / 2 ^ 53" by simp
  have p: "0 \<le> c / 2 ^ 53" using c by simp
  fix b t ok b'
  assume s: "take_tokens 1 c perMinute t b = (ok, b')"
  note tb = take_bound [OF s c]
  show "b_last b' = Some t \<and> 0 \<le> b_tokens b' \<and> b_tokens b' \<le> c \<and> b_tokens b' + of_bool ok \<le> c + c / 2 ^ 52"
    if "b_last b = None"
  proof -
    have r: "b_tokens (refill c perMinute t b) = c" "b_last (refill c perMinute t b) = Some t"
      using that by (simp_all add: refill_def)
    from tb r c p show ?thesis unfolding h by simp
  qed
  fix l
  assume b: "b_last b = Some l" "0 \<le> b_tokens b" "b_tokens b \<le> c"
  note rb = refill_bound [OF c b, of t]
  note tb = tb [OF rb(1,2)]
  have "b_last b' = Some (max l t)" using tb(1) refill_last [of c perMinute t b] b(1) by simp
  then show "b_last b' = Some (max l t) \<and> 0 \<le> b_tokens b' \<and> b_tokens b' \<le> c \<and>
      b_tokens b' + of_bool ok \<le> b_tokens b + refill_rate c * rat_of_int (max l t - l) + c / 2 ^ 52"
    using tb(2-4) rb(3) unfolding h by linarith
  show "b_tokens b' + of_bool ok \<le> c + c / 2 ^ 52" if "l < t"
    using tb(4) rb(2) p unfolding h by linarith
qed

definition whole_capacity :: "rat \<Rightarrow> rat" where
  "whole_capacity c = max 1 (min (2 ^ 53) c)"

interpretation minute: token_bucket "\<lambda>b now. take_tokens 1 (whole_capacity c) perMinute now b" b_tokens b_last
    "whole_capacity c" "refill_rate (whole_capacity c)" "whole_capacity c / 2 ^ 52" for c
  by (rule minute_bucket) (simp_all add: whole_capacity_def)

text \<open>What each operation does to the bucket and the slot count under one key.\<close>

lemma bucket_at_set [simp]: "bucket_at (set_bucket k b t) k' = (if k' = k then b else bucket_at t k')"
  by (simp add: bucket_at_def set_bucket_def)

lemma inflight_set_bucket [simp]: "t_inflight (set_bucket k b t) = t_inflight t"
  by (simp add: set_bucket_def)

lemma inflight_at_cong: "t_inflight t = t_inflight t' \<Longrightarrow> inflight_at t k = inflight_at t' k"
  by (simp add: inflight_at_def)

lemma hold_slot_bucket [simp]: "bucket_at (fst (hold_slot l t)) k = bucket_at t k"
  by (simp add: hold_slot_def bucket_at_def)

lemma free_slot_bucket [simp]: "bucket_at (free_slot key t) k = bucket_at t k"
  by (simp add: free_slot_def bucket_at_def Let_def)

lemma key_neq [simp]:
  "rpm_key l \<noteq> tpm_key l'" "tpm_key l \<noteq> rpm_key l'" "concurrent_key l \<noteq> []"
  by (simp_all add: rpm_key_def tpm_key_def concurrent_key_def)

lemma rpm_key_eq [simp]: "rpm_key l = rpm_key l' \<longleftrightarrow> l_subject (ls_rpm l) = l_subject (ls_rpm l')"
  by (simp add: rpm_key_def)

lemma tpm_key_eq [simp]: "tpm_key l = tpm_key l' \<longleftrightarrow> l_subject (ls_tpm l) = l_subject (ls_tpm l')"
  by (simp add: tpm_key_def)

lemma concurrent_key_eq [simp]:
  "concurrent_key l = concurrent_key l' \<longleftrightarrow> l_subject (ls_concurrent l) = l_subject (ls_concurrent l')"
  by (simp add: concurrent_key_def)

lemma check_tpm_inflight [simp]: "t_inflight (fst (check_tpm l now t)) = t_inflight t"
  by (simp add: check_tpm_def Let_def)

lemma take_rpm_inflight [simp]: "t_inflight (fst (take_rpm l now t)) = t_inflight t"
  by (simp add: take_rpm_def Let_def split: prod.splits)

lemma check_tpm_rpm_bucket [simp]: "bucket_at (fst (check_tpm l now t)) (rpm_key l') = bucket_at t (rpm_key l')"
  by (simp add: check_tpm_def Let_def)

lemma release_rpm_bucket [simp]: "bucket_at (release k n c t) (rpm_key l) = bucket_at t (rpm_key l)"
  by (simp add: release_def Let_def)

lemma release_inflight: "t_inflight (release k n c t) = t_inflight (free_slot (k_key k) t)"
  by (simp add: release_def Let_def)

text \<open>An admission is four checks that all passed.\<close>

lemma admit_Inr_iff:
  "admit l now d t = (t', Inr k) \<longleftrightarrow>
     read_only_checks l now d t = None \<and> snd (check_tpm l now t) = None \<and>
     snd (take_rpm l now (fst (check_tpm l now t))) = None \<and>
     hold_slot l (fst (take_rpm l now (fst (check_tpm l now t)))) = (t', k)"
  by (auto simp: admit_def split: option.splits prod.splits)

lemma admit_Inl_inflight: "admit l now d t = (t', Inl r) \<Longrightarrow> t_inflight t' = t_inflight t"
  by (auto simp: admit_def split: option.splits prod.splits)
    (metis check_tpm_inflight take_rpm_inflight fst_conv)+

section \<open>Runs\<close>

datatype event = Arrive limits int int | Finish ticket int int

fun serve :: "event \<Rightarrow> throttle \<Rightarrow> throttle \<times> ticket option" where
  "serve (Arrive l now d) t = (case admit l now d t of (t', Inl r) \<Rightarrow> (t', None) | (t', Inr k) \<Rightarrow> (t', Some k))"
| "serve (Finish k n c) t = (release k n c t, None)"

text \<open>The requests admitted on the account of one requests-per-minute subject.\<close>

fun admissions :: "string \<Rightarrow> throttle \<Rightarrow> event list \<Rightarrow> nat" where
  "admissions s t [] = 0"
| "admissions s t (e # es) =
     (let (t', k) = serve e t in
      (case k of None \<Rightarrow> 0
       | Some k \<Rightarrow> if 0 < l_value (ls_rpm (k_limits k)) \<and> l_subject (ls_rpm (k_limits k)) = s then 1 else 0) +
      admissions s t' es)"

text \<open>The arrivals that reach the bucket of the subject, as instants.\<close>

fun rpm_times :: "string \<Rightarrow> throttle \<Rightarrow> event list \<Rightarrow> int list" where
  "rpm_times s t [] = []"
| "rpm_times s t (e # es) =
     (case e of
        Arrive l now d \<Rightarrow>
          if 0 < l_value (ls_rpm l) \<and> l_subject (ls_rpm l) = s \<and> read_only_checks l now d t = None \<and>
             snd (check_tpm l now t) = None then [now] else []
      | Finish k n c \<Rightarrow> []) @ rpm_times s (fst (serve e t)) es"

fun event_in :: "string \<Rightarrow> int \<Rightarrow> int \<Rightarrow> int \<Rightarrow> event \<Rightarrow> bool" where
  "event_in s v t0 t1 (Arrive l now d) \<longleftrightarrow> t0 \<le> now \<and> now \<le> t1 \<and>
     (0 < l_value (ls_rpm l) \<and> l_subject (ls_rpm l) = s \<longrightarrow> l_value (ls_rpm l) = v)"
| "event_in s v t0 t1 (Finish k n c) = True"

lemma hold_slot_limits [simp]: "k_limits (snd (hold_slot l t)) = l"
  by (simp add: hold_slot_def)

lemma take_rpm_bucket:
  assumes "0 < l_value (ls_rpm l)"
    and "take_tokens 1 (fl (rat_of_int (l_value (ls_rpm l)))) perMinute now (bucket_at t (rpm_key l)) = (ok, b)"
  shows "take_rpm l now t = (set_bucket (rpm_key l) b t, snd (take_rpm l now t))"
    and "snd (take_rpm l now t) = None \<longleftrightarrow> ok"
  using assms by (simp_all add: take_rpm_def Let_def)

lemma take_rpm_other:
  "\<not> (0 < l_value (ls_rpm l) \<and> l_subject (ls_rpm l) = l_subject (ls_rpm l')) \<Longrightarrow>
   bucket_at (fst (take_rpm l now t)) (rpm_key l') = bucket_at t (rpm_key l')"
  by (auto simp: take_rpm_def Let_def split: prod.splits)

lemma fst_serve_Arrive: "fst (serve (Arrive l now d) t) = fst (admit l now d t)"
  by (auto split: prod.splits sum.splits)

lemma fst_admit:
  "fst (admit l now d t) =
     (if read_only_checks l now d t \<noteq> None then t
      else if snd (check_tpm l now t) \<noteq> None then fst (check_tpm l now t)
      else if snd (take_rpm l now (fst (check_tpm l now t))) \<noteq> None then fst (take_rpm l now (fst (check_tpm l now t)))
      else fst (hold_slot l (fst (take_rpm l now (fst (check_tpm l now t))))))"
  by (auto simp: admit_def split: option.splits prod.splits)

text \<open>The run of the throttle, seen from one bucket, is a run of that bucket.\<close>

lemma admissions_are_grants:
  assumes "\<forall>e \<in> set es. event_in s v t0 t1 e" and "s = l_subject (ls_rpm l0)"
  shows "admissions s t es =
    grants (\<lambda>b now. take_tokens 1 (fl (rat_of_int v)) perMinute now b) (bucket_at t (rpm_key l0)) (rpm_times s t es)"
  using assms(1)
proof (induction es arbitrary: t)
  case Nil
  show ?case by simp
next
  case (Cons e es)
  obtain t' k where st: "serve e t = (t', k)" by fastforce
  have ih: "admissions s t' es = grants (\<lambda>b now. take_tokens 1 (fl (rat_of_int v)) perMinute now b)
      (bucket_at t' (rpm_key l0)) (rpm_times s t' es)"
    using Cons by simp
  show ?case
  proof (cases e)
    case (Finish kk n c)
    with st ih show ?thesis by auto
  next
    case (Arrive l now d)
    have t': "t' = fst (admit l now d t)" using st Arrive by (metis fst_conv fst_serve_Arrive)
    have k: "k = (case snd (admit l now d t) of Inl r \<Rightarrow> None | Inr k \<Rightarrow> Some k)"
      using st Arrive by (auto split: prod.splits sum.splits)
    let ?mine = "0 < l_value (ls_rpm l) \<and> l_subject (ls_rpm l) = s"
    let ?t1 = "fst (check_tpm l now t)"
    show ?thesis
    proof (cases "?mine \<and> read_only_checks l now d t = None \<and> snd (check_tpm l now t) = None")
      case True
      then have v: "l_value (ls_rpm l) = v" using Cons.prems Arrive by simp
      obtain ok b where b: "take_tokens 1 (fl (rat_of_int v)) perMinute now (bucket_at t (rpm_key l)) = (ok, b)"
        by fastforce
      note rpm = take_rpm_bucket [of l now ?t1 ok b, unfolded check_tpm_rpm_bucket v]
      have sub: "rpm_key l0 = rpm_key l" using True assms(2) by simp
      have "bucket_at t' (rpm_key l) = b" "k \<noteq> None \<longleftrightarrow> ok"
        using True b v rpm t' k by (auto simp: fst_admit admit_def hold_slot_def bucket_at_def set_bucket_def
            split: option.splits prod.splits sum.splits)
      moreover have "k_limits (the k) = l" if "k \<noteq> None"
        using that k by (auto simp: admit_def hold_slot_def Let_def split: option.splits prod.splits if_splits)
      ultimately have k: "k = None \<or> k_limits (the k) = l" and b': "bucket_at t' (rpm_key l0) = b"
        and ok: "k \<noteq> None \<longleftrightarrow> ok" using sub by (auto simp del: rpm_key_eq)
      have "take_tokens 1 (fl (rat_of_int v)) perMinute now (bucket_at t (rpm_key l0)) = (ok, b)"
        using b sub by (simp only:)
      then show ?thesis using ih True Arrive st b' k ok by (cases k) auto
    next
      case False
      have "bucket_at t' (rpm_key l0) = bucket_at t (rpm_key l0)"
        using False t' assms(2) by (auto simp: fst_admit take_rpm_other)
      moreover have "case k of None \<Rightarrow> True | Some k \<Rightarrow> \<not> (0 < l_value (ls_rpm (k_limits k)) \<and> l_subject (ls_rpm (k_limits k)) = s)"
        using False k by (auto simp: admit_def hold_slot_def Let_def split: option.splits prod.splits if_splits)
      moreover have "rpm_times s t (e # es) = rpm_times s t' es"
        using False Arrive st by auto
      ultimately show ?thesis using ih st by (auto split: option.splits)
    qed
  qed
qed

lemma rpm_times_in:
  "\<forall>e \<in> set es. event_in s v t0 t1 e \<Longrightarrow> \<forall>now \<in> set (rpm_times s t es). t0 \<le> now \<and> now \<le> t1"
  by (induction s t es rule: rpm_times.induct) (auto split: event.splits if_splits)

lemma rpm_times_length: "length (rpm_times s t es) \<le> length es"
  by (induction s t es rule: rpm_times.induct) (auto split: event.splits)

text \<open>
  C14: Requests per minute bind over every window.  Whatever arrives and finishes, in any order and at any
  instants between \<open>t0\<close> and \<open>t1\<close>, the throttle admits on the account of one subject at most its ceiling
  plus what the ceiling refills in that time, and what the rounding of \<open>float64\<close> can add: four roundings
  of the refill and 2^-52 of the ceiling for each event.  The ceiling is one that \<open>float64\<close> holds exactly, and
  the bucket is new or between empty and full.
\<close>

theorem rpm_bounds_every_window:
  assumes "\<forall>e \<in> set es. event_in s v t0 t1 e" and "t0 \<le> t1" and "0 < v" and "v \<le> 2 ^ 53"
    and "b_last (bucket_at t (''rpm|'' @ s)) = None \<or>
      0 \<le> b_tokens (bucket_at t (''rpm|'' @ s)) \<and> b_tokens (bucket_at t (''rpm|'' @ s)) \<le> rat_of_int v"
  shows "rat_of_nat (admissions s t es)
    \<le> rat_of_int v + rat_of_int v * rat_of_int (t1 - t0) / rat_of_int perMinute * (1 + 1 / 2 ^ 53) ^ 4 +
       rat_of_int v / 2 ^ 52 * rat_of_nat (length es)"
proof -
  define l0 where "l0 = no_limits\<lparr>ls_rpm := \<lparr>l_value = v, l_subject = s\<rparr>\<rparr>"
  have s: "s = l_subject (ls_rpm l0)" and key: "''rpm|'' @ s = rpm_key l0"
    by (simp_all add: l0_def rpm_key_def)
  have "rat_of_int v \<le> rat_of_int (2 ^ 53)" using assms(4) by (simp only: of_int_le_iff)
  then have v: "fl (rat_of_int v) = rat_of_int v" "whole_capacity (rat_of_int v) = rat_of_int v"
    using assms(3,4) by (simp_all add: fl_int whole_capacity_def)
  have "rat_of_nat (admissions s t es) \<le> rat_of_int v + refill_rate (rat_of_int v) * rat_of_int (t1 - t0) +
      rat_of_int v / 2 ^ 52 * rat_of_nat (length (rpm_times s t es))"
    using minute.window_bound [of "bucket_at t (rpm_key l0)" "rat_of_int v" "rpm_times s t es" t0 t1]
      assms(2,5) rpm_times_in [OF assms(1), of t]
    unfolding v key admissions_are_grants [OF assms(1) s] by blast
  moreover have "rat_of_int v / 2 ^ 52 * rat_of_nat (length (rpm_times s t es)) \<le> rat_of_int v / 2 ^ 52 * rat_of_nat (length es)"
    using assms(3) rpm_times_length [of s t es] by (intro mult_left_mono) simp_all
  moreover have "refill_rate (rat_of_int v) * rat_of_int (t1 - t0) =
      rat_of_int v * rat_of_int (t1 - t0) / rat_of_int perMinute * (1 + 1 / 2 ^ 53) ^ 4"
    by (simp add: refill_rate_def)
  ultimately show ?thesis by linarith
qed

definition sample_limits :: limits where
  "sample_limits = \<lparr>ls_rpm = \<lparr>l_value = 2, l_subject = ''global''\<rparr>, ls_tpm = \<lparr>l_value = 100, l_subject = ''user:u1''\<rparr>,
     ls_daily = no_limit, ls_concurrent = \<lparr>l_value = 1, l_subject = ''role:user''\<rparr>\<rparr>"

theorem rpm_bounds_every_window_witness:
  "rat_of_nat (admissions ''global'' newThrottle [Arrive sample_limits 5 0, Arrive sample_limits 6 0])
    \<le> 2 + 2 * rat_of_int (10 - 0) / rat_of_int perMinute * (1 + 1 / 2 ^ 53) ^ 4 + 2 / 2 ^ 52 * 2"
proof -
  have "\<forall>e \<in> set [Arrive sample_limits 5 0, Arrive sample_limits 6 0]. event_in ''global'' 2 0 10 e"
    by (simp add: sample_limits_def)
  moreover have "b_last (bucket_at newThrottle (''rpm|'' @ ''global'')) = None"
    by (simp add: newThrottle_def bucket_at_def new_bucket_def)
  ultimately show ?thesis
    using rpm_bounds_every_window [of "[Arrive sample_limits 5 0, Arrive sample_limits 6 0]" "''global''" 2 0 10 newThrottle]
    by simp
qed

section \<open>Slots\<close>

text \<open>The throttle together with the tickets of the requests in flight.\<close>

inductive serving :: "throttle \<Rightarrow> ticket list \<Rightarrow> bool" where
  idle: "serving newThrottle []"
| admitted: "serving t ks \<Longrightarrow> admit l now d t = (t', Inr k) \<Longrightarrow> serving t' (k # ks)"
| refused: "serving t ks \<Longrightarrow> admit l now d t = (t', Inl r) \<Longrightarrow> serving t' ks"
| finished: "serving t ks \<Longrightarrow> k \<in> set ks \<Longrightarrow> serving (release k n c t) (remove1 k ks)"

definition holders :: "string \<Rightarrow> ticket list \<Rightarrow> nat" where
  "holders key ks = length (filter (\<lambda>k. k_key k = key) ks)"

lemma holders_simps [simp]:
  "holders key [] = 0" "holders key (k # ks) = (if k_key k = key then 1 else 0) + holders key ks"
  by (simp_all add: holders_def)

lemma holders_remove1: "k \<in> set ks \<Longrightarrow> holders key ks = (if k_key k = key then 1 else 0) + holders key (remove1 k ks)"
  by (induction ks) auto

definition slots_ok :: "throttle \<Rightarrow> ticket list \<Rightarrow> bool" where
  "slots_ok t ks \<longleftrightarrow> (\<forall>key. map_of (t_inflight t) key =
     (if key \<noteq> [] \<and> holders key ks \<noteq> 0 then Some (int (holders key ks)) else None))"

lemma slots_ok_at: "slots_ok t ks \<Longrightarrow> key \<noteq> [] \<Longrightarrow> inflight_at t key = int (holders key ks)"
  by (simp add: slots_ok_def inflight_at_def)

lemma slots_ok_lookup:
  "slots_ok t ks \<Longrightarrow> map_of (t_inflight t) key =
     (if key \<noteq> [] \<and> holders key ks \<noteq> 0 then Some (int (holders key ks)) else None)"
  by (simp only: slots_ok_def)

lemma slots_ok_hold:
  assumes "slots_ok t ks" and "hold_slot l t = (t', k)"
  shows "slots_ok t' (k # ks)"
  unfolding slots_ok_def
proof
  fix key
  show "map_of (t_inflight t') key =
      (if key \<noteq> [] \<and> holders key (k # ks) \<noteq> 0 then Some (int (holders key (k # ks))) else None)"
  proof (cases "0 < l_value (ls_concurrent l)")
    case True
    with assms(2) slots_ok_lookup [OF assms(1), of key] slots_ok_at [OF assms(1), of "concurrent_key l"]
    show ?thesis by (cases "key = concurrent_key l") (auto simp: hold_slot_def)
  next
    case False
    with assms(2) slots_ok_lookup [OF assms(1), of key] show ?thesis by (auto simp: hold_slot_def)
  qed
qed

lemma slots_ok_free:
  assumes "slots_ok t ks" and "k \<in> set ks"
  shows "slots_ok (free_slot (k_key k) t) (remove1 k ks)"
  unfolding slots_ok_def
proof
  fix key
  note n = holders_remove1 [OF assms(2), of key]
  show "map_of (t_inflight (free_slot (k_key k) t)) key =
      (if key \<noteq> [] \<and> holders key (remove1 k ks) \<noteq> 0 then Some (int (holders key (remove1 k ks))) else None)"
  proof (cases "k_key k = key \<and> key \<noteq> []")
    case True
    with n slots_ok_at [OF assms(1), of key] show ?thesis by (simp add: free_slot_def Let_def)
  next
    case False
    with n slots_ok_lookup [OF assms(1), of key] show ?thesis by (auto simp: free_slot_def Let_def)
  qed
qed

lemma slots_ok_cong: "slots_ok t ks \<Longrightarrow> t_inflight t' = t_inflight t \<Longrightarrow> slots_ok t' ks"
  by (simp add: slots_ok_def)

lemma serving_slots: "serving t ks \<Longrightarrow> slots_ok t ks"
proof (induction rule: serving.induct)
  case idle
  show ?case by (simp add: slots_ok_def newThrottle_def)
next
  case (admitted t ks l now d t' k)
  have "hold_slot l (fst (take_rpm l now (fst (check_tpm l now t)))) = (t', k)"
    using admitted.hyps by (simp add: admit_Inr_iff)
  then show ?case by (intro slots_ok_hold) (auto intro: slots_ok_cong [OF admitted.IH])
next
  case (refused t ks l now d t' r)
  then show ?case by (blast intro: slots_ok_cong admit_Inl_inflight)
next
  case (finished t ks k n c)
  then show ?case by (blast intro: slots_ok_cong [OF slots_ok_free] release_inflight)
qed

text \<open>
  C15: Slots are counted exactly.  In every state the throttle can reach, the counter of a concurrency
  subject is the number of requests holding it, a request is admitted under a concurrency ceiling only
  while fewer than the ceiling hold it, and once everything has finished no counter is left.
\<close>

theorem slots_are_counted:
  assumes "serving t ks"
  shows "inflight_at t (concurrent_key l) = int (holders (concurrent_key l) ks) \<and>
    (admit l now d t = (t', Inr k) \<and> 0 < l_value (ls_concurrent l) \<longrightarrow>
      int (holders (concurrent_key l) (k # ks)) \<le> l_value (ls_concurrent l)) \<and>
    (ks = [] \<longrightarrow> t_inflight t = [])"
proof (intro conjI impI)
  note inv = serving_slots [OF assms]
  show at: "inflight_at t (concurrent_key l) = int (holders (concurrent_key l) ks)"
    by (rule slots_ok_at [OF inv]) simp
  show "int (holders (concurrent_key l) (k # ks)) \<le> l_value (ls_concurrent l)"
    if "admit l now d t = (t', Inr k) \<and> 0 < l_value (ls_concurrent l)"
    using that at by (auto simp: admit_Inr_iff read_only_checks_def hold_slot_def split: if_splits)
  show "t_inflight t = []" if "ks = []"
    using inv that by (cases "t_inflight t") (auto simp: slots_ok_def split: if_splits)
qed

theorem slots_are_counted_witness:
  "holders (concurrent_key sample_limits) [snd (hold_slot sample_limits newThrottle)] \<le> 1 \<and>
   t_inflight newThrottle = []"
proof -
  have "admit sample_limits 5 0 newThrottle =
      (fst (admit sample_limits 5 0 newThrottle), Inr (snd (hold_slot sample_limits newThrottle)))"
    by (simp add: admit_def read_only_checks_def check_tpm_def take_rpm_def take_tokens_def refill_def hold_slot_def
        sample_limits_def newThrottle_def no_limit_def bucket_at_def new_bucket_def inflight_at_def set_bucket_def
        fl_numeral Let_def split: prod.splits)
  with slots_are_counted [OF serving.idle, of sample_limits 5 0 "fst (admit sample_limits 5 0 newThrottle)"
      "snd (hold_slot sample_limits newThrottle)"]
  show ?thesis by (simp add: sample_limits_def)
qed

section \<open>Limits that apply\<close>







section \<open>Refusing\<close>

lemma rpm_refused:
  assumes "snd (take_rpm l now t) = Some r"
  shows "\<exists>b. b = refill (fl (rat_of_int (l_value (ls_rpm l)))) perMinute now (bucket_at t (rpm_key l)) \<and>
    0 < l_value (ls_rpm l) \<and> b_tokens b < 1 \<and> fst (take_rpm l now t) = set_bucket (rpm_key l) b t \<and>
    r = \<lparr>r_limit = ''rpm'', r_subject = l_subject (ls_rpm l), r_value = l_value (ls_rpm l), r_used = l_value (ls_rpm l),
         r_resets = ceilSeconds (waitFor 1 (fl (rat_of_int (l_value (ls_rpm l)))) perMinute b)\<rparr>"
  using assms by (auto simp: take_rpm_def take_tokens_def Let_def split: if_splits)

lemma tpm_refused:
  assumes "snd (check_tpm l now t) = Some r"
  shows "\<exists>b. b = refill (fl (rat_of_int (l_value (ls_tpm l)))) perMinute now (bucket_at t (tpm_key l)) \<and>
    0 < l_value (ls_tpm l) \<and> b_tokens b < 1 \<and> fst (check_tpm l now t) = set_bucket (tpm_key l) b t \<and>
    r = \<lparr>r_limit = ''tpm'', r_subject = l_subject (ls_tpm l), r_value = l_value (ls_tpm l), r_used = l_value (ls_tpm l),
         r_resets = ceilSeconds (waitFor 1 (fl (rat_of_int (l_value (ls_tpm l)))) perMinute b)\<rparr>"
  using assms by (auto simp: check_tpm_def Let_def split: if_splits)

lemma admit_Inl_cases:
  assumes "admit l now d t = (t', Inl r)"
  obtains (checks) "read_only_checks l now d t = Some r" "t' = t"
    | (tpm) "snd (check_tpm l now t) = Some r" "t' = fst (check_tpm l now t)"
    | (rpm) "snd (check_tpm l now t) = None" "snd (take_rpm l now (fst (check_tpm l now t))) = Some r"
        "t' = fst (take_rpm l now (fst (check_tpm l now t)))"
proof (cases "read_only_checks l now d t")
  case None
  obtain t1 r1 where c: "check_tpm l now t = (t1, r1)" by fastforce
  obtain t2 r2 where k: "take_rpm l now t1 = (t2, r2)" by fastforce
  from None assms c k show thesis
    by (cases r1; cases r2) (simp_all add: admit_def tpm rpm split: prod.splits)
next
  case (Some r')
  with assms show thesis by (simp add: admit_def checks)
qed

definition spent_throttle :: throttle where
  "spent_throttle = \<lparr>t_buckets = [(''rpm|global'', \<lparr>b_tokens = 1 / 2, b_last = Some 100\<rparr>)], t_inflight = []\<rparr>"

text \<open>
  C17: A refusal spends nothing.  A refused request leaves every slot counter alone, and every bucket is
  as it was or only refilled up to the instant of the request.
\<close>

theorem refusal_spends_nothing:
  assumes "admit l now d t = (t', Inl r)"
  shows "t_inflight t' = t_inflight t \<and>
    (\<forall>key. bucket_at t' key = bucket_at t key \<or>
       (\<exists>v > 0. bucket_at t' key = refill (fl (rat_of_int v)) perMinute now (bucket_at t key)))"
proof (intro conjI allI)
  show "t_inflight t' = t_inflight t" by (rule admit_Inl_inflight [OF assms])
  have tpm: "bucket_at (fst (check_tpm l now t)) key = bucket_at t key \<or>
      (key = tpm_key l \<and> 0 < l_value (ls_tpm l) \<and> bucket_at (fst (check_tpm l now t)) key =
         refill (fl (rat_of_int (l_value (ls_tpm l)))) perMinute now (bucket_at t key))" for key
    by (simp add: check_tpm_def Let_def)
  fix key
  show "bucket_at t' key = bucket_at t key \<or>
      (\<exists>v > 0. bucket_at t' key = refill (fl (rat_of_int v)) perMinute now (bucket_at t key))"
    using assms
  proof (cases rule: admit_Inl_cases)
    case rpm
    from rpm_refused [OF rpm(2)] rpm(3) tpm [of key] show ?thesis by auto
  qed (use tpm [of key] in auto)
qed

theorem refusal_spends_nothing_witness:
  "\<exists>t' r. admit sample_limits 100 0 spent_throttle = (t', Inl r) \<and> t_inflight t' = []"
proof -
  have "\<exists>t' r. admit sample_limits 100 0 spent_throttle = (t', Inl r)"
    by (simp add: admit_def read_only_checks_def check_tpm_def take_rpm_def take_tokens_def refill_def sub_time_def
        sample_limits_def spent_throttle_def no_limit_def bucket_at_def new_bucket_def inflight_at_def set_bucket_def
        rpm_key_def tpm_key_def fl_numeral put.simps Let_def)
  then obtain t' r where a: "admit sample_limits 100 0 spent_throttle = (t', Inl r)" by blast
  from refusal_spends_nothing [OF a] have "t_inflight t' = []" by (simp add: spent_throttle_def)
  with a show ?thesis by blast
qed

end
