(* ===== verification/Timestamps.thy ===== *)
theory Timestamps
  imports AuditRecord
begin

text \<open>
  \<open>time.Parse(audit.TimeFormat, s)\<close>, through which every stored timestamp is read back, and its round
  trip with \<open>format_ts\<close>.  As in Go, the hour may have one digit and the fraction may follow a comma.
\<close>

section \<open>Civil dates\<close>

definition leap :: "int \<Rightarrow> bool" where
  "leap y \<longleftrightarrow> y mod 4 = 0 \<and> (y mod 100 \<noteq> 0 \<or> y mod 400 = 0)"

definition days_in :: "int \<Rightarrow> int \<Rightarrow> int" where
  "days_in m y = (if m = 2 then (if leap y then 29 else 28) else if m \<in> {4, 6, 9, 11} then 30 else 31)"

definition day_of_civil :: "int \<Rightarrow> int \<Rightarrow> int \<Rightarrow> int" where
  "day_of_civil y m d =
     (let y' = (if m \<le> 2 then y - 1 else y); era = y' div 400; yoe = y' mod 400;
          mp = (if m > 2 then m - 3 else m + 9);
          doy = (153 * mp + 2) div 5 + d - 1;
          doe = yoe * 365 + yoe div 4 - yoe div 100 + doy
      in era * 146097 + doe - 719468)"

section \<open>Reading\<close>

definition fixed_digits :: "nat \<Rightarrow> string \<Rightarrow> (int \<times> string) option" where
  "fixed_digits n s =
     (if length s < n \<or> \<not> (\<forall>c \<in> set (take n s). is_digit c) then None
      else Some (int (read_nat (take n s)), drop n s))"

definition one_or_two_digits :: "string \<Rightarrow> (int \<times> string) option" where
  "one_or_two_digits s = (case fixed_digits 2 s of Some r \<Rightarrow> Some r | None \<Rightarrow> fixed_digits 1 s)"

fun expect :: "char list \<Rightarrow> string \<Rightarrow> string option" where
  "expect cs [] = None"
| "expect cs (c # s) = (if c \<in> set cs then Some s else None)"

definition parse_ts :: "string \<Rightarrow> int option" where
  "parse_ts s =
     Option.bind (fixed_digits 4 s) (\<lambda>(y, s).
     Option.bind (expect ''-'' s) (\<lambda>s.
     Option.bind (fixed_digits 2 s) (\<lambda>(mo, s).
     Option.bind (expect ''-'' s) (\<lambda>s.
     Option.bind (fixed_digits 2 s) (\<lambda>(d, s).
     Option.bind (expect ''T'' s) (\<lambda>s.
     Option.bind (one_or_two_digits s) (\<lambda>(h, s).
     Option.bind (expect '':'' s) (\<lambda>s.
     Option.bind (fixed_digits 2 s) (\<lambda>(mi, s).
     Option.bind (expect '':'' s) (\<lambda>s.
     Option.bind (fixed_digits 2 s) (\<lambda>(sec, s).
     Option.bind (expect ''.,'' s) (\<lambda>s.
     Option.bind (fixed_digits 3 s) (\<lambda>(ms, s).
     Option.bind (expect ''Z'' s) (\<lambda>s.
     if s \<noteq> [] \<or> mo < 1 \<or> 12 < mo \<or> d < 1 \<or> days_in mo y < d \<or> 24 \<le> h \<or> 60 \<le> mi \<or> 60 \<le> sec then None
     else Some ((((day_of_civil y mo d * 24 + h) * 60 + mi) * 60 + sec) * 1000000000 + ms * 1000000)))))))))))))))"

section \<open>Round trip\<close>

lemma read_nat_padded: "read_nat (replicate k (CHR ''0'') @ s) = read_nat s"
  by (induction k) (simp_all add: read_nat_def digit_val_def)

lemma show_int_nonneg: "0 \<le> n \<Longrightarrow> show_int n = show_nat (nat n)"
  by (simp add: show_int_def)

lemma length_show_nat_le: "0 < w \<Longrightarrow> n < 10 ^ w \<Longrightarrow> length (show_nat n) \<le> w"
proof (rule ccontr)
  assume a: "0 < w" "n < 10 ^ w" "\<not> length (show_nat n) \<le> w"
  then have "w \<le> length (show_nat n) - 1" by simp
  then have p: "(10::nat) ^ w \<le> 10 ^ (length (show_nat n) - 1)" by (rule power_increasing) simp
  have "0 < n" using a(1,3) by (cases n) (auto simp: show_nat_small)
  from show_nat_bounds [OF this] p a(2) show False by linarith
qed

lemma pad_digits:
  assumes "0 < w" and "0 \<le> n" and "n < 10 ^ w"
  shows "length (pad w n) = w" and "\<forall>c \<in> set (pad w n). is_digit c" and "int (read_nat (pad w n)) = n"
proof -
  have "nat n < 10 ^ w" using assms(2,3) by (simp add: nat_less_iff)
  from length_show_nat_le [OF assms(1) this] assms(2) show "length (pad w n) = w"
    by (simp add: pad_def Let_def show_int_nonneg)
  show "\<forall>c \<in> set (pad w n). is_digit c"
    using show_nat_digits [of "nat n"] assms(2) by (auto simp: pad_def Let_def show_int_nonneg is_digit_def)
  show "int (read_nat (pad w n)) = n"
    using assms(2) by (simp add: pad_def Let_def show_int_nonneg read_nat_padded read_show_nat)
qed

lemma fixed_digits_pad:
  "0 < w \<Longrightarrow> 0 \<le> n \<Longrightarrow> n < 10 ^ w \<Longrightarrow> fixed_digits w (pad w n @ s) = Some (n, s)"
  using pad_digits [of w n] by (simp add: fixed_digits_def)

lemma yoe_century:
  fixes r b :: int
  assumes "0 \<le> r" and "r < 36524" and "0 \<le> b" and "b \<le> 3"
  defines "y \<equiv> (r - (24 * b + r) div 1460) div 365"
  shows "0 \<le> y \<and> y \<le> 99 \<and> 0 \<le> r - 365 * y - y div 4 \<and> r - 365 * y - y div 4 \<le> 365 \<and>
    (r - 365 * y - y div 4 = 365 \<longrightarrow> (y + 1) mod 4 = 0 \<and> y \<noteq> 99)"
proof -
  define k s where "k = r div 1461" and "s = r mod 1461"
  have r: "r = 1461 * k + s" "0 \<le> s" "s \<le> 1460" "0 \<le> k" "k \<le> 24"
    using assms(1,2) by (simp_all add: k_def s_def)
  define e where "e = (24 * b + k + s) div 1460"
  have e: "e = 0 \<or> e = 1" "e = 1 \<Longrightarrow> 1364 \<le> s" "s = 1460 \<Longrightarrow> e = 1"
  proof -
    have one: "w div 1460 = (if w < 1460 then 0 else 1)" if "0 \<le> w" "w < 2920" for w :: int
      using that int_div_pos_eq [of w 1460 1 "w - 1460"] by auto
    have "e = (if 24 * b + k + s < 1460 then 0 else 1)"
      unfolding e_def using r assms(3,4) by (intro one) linarith+
    then show "e = 0 \<or> e = 1" "e = 1 \<Longrightarrow> 1364 \<le> s" "s = 1460 \<Longrightarrow> e = 1"
      using r assms(3,4) by (auto split: if_splits)
  qed
  have "24 * b + r = (24 * b + k + s) + 1460 * k" using r by simp
  then have a: "(24 * b + r) div 1460 = k + e" unfolding e_def by simp
  define j where "j = (s - e) div 365"
  have j: "365 * j \<le> s - e" "s - e < 365 * j + 365" "0 \<le> s - e"
    using e r unfolding j_def by auto
  have "s - e \<le> 1459" using e(1,3) r(3) by (cases "s = 1460") auto
  then have j4: "0 \<le> j" "j \<le> 3" using j by linarith+
  have "r - (24 * b + r) div 1460 = (s - e) + 365 * (4 * k)" unfolding a using r by simp
  then have "(r - (24 * b + r) div 1460) div 365 = 4 * k + j" unfolding j_def by simp
  then have y: "y = 4 * k + j" by (simp add: y_def)
  have doy: "r - 365 * y - y div 4 = s - 365 * j" using r y j4 by simp
  have top: "s = 1460 \<and> j = 3" if "s - 365 * j = 365"
  proof -
    have "e = 1" using that j(2) e(1) by auto
    with e(2) that have "3 * 365 < 365 * (j + 1)" by simp
    then have "j = 3" using j4 by simp
    with that show ?thesis by simp
  qed
  have last: "(y + 1) mod 4 = 0" "y \<noteq> 99" if "s - 365 * j = 365"
    using top [OF that] y r(1) assms(2) by auto
  have "0 \<le> y" "y \<le> 99" using y r j4 by auto
  moreover have "0 \<le> s - 365 * j" "s - 365 * j \<le> 365" using j e(1) by auto
  ultimately show ?thesis unfolding doy using last by blast
qed

text \<open>The year of era and day of year that \<open>civil_date\<close> computes.\<close>

definition era_year :: "int \<Rightarrow> int" where
  "era_year doe = (doe - doe div 1460 + doe div 36524 - doe div 146096) div 365"

definition era_day :: "int \<Rightarrow> int" where
  "era_day doe = doe - (365 * era_year doe + era_year doe div 4 - era_year doe div 100)"

lemma era_year_century:
  assumes "0 \<le> r" and "r < 36524" and "0 \<le> b" and "b \<le> 3"
  shows "era_year (36524 * b + r) = 100 * b + (r - (24 * b + r) div 1460) div 365"
proof -
  have d: "(36524 * b + r) div 36524 = b" "(36524 * b + r) div 146096 = 0" using assms by auto
  have "36524 * b + r = (24 * b + r) + 1460 * (25 * b)" by simp
  then have "(36524 * b + r) div 1460 = 25 * b + (24 * b + r) div 1460" by simp
  then have "36524 * b + r - (36524 * b + r) div 1460 + b - 0 = (r - (24 * b + r) div 1460) + 365 * (100 * b)"
    by simp
  then show ?thesis unfolding era_year_def d by simp
qed

lemma era_bounds:
  assumes "0 \<le> doe" and "doe < 146097"
  shows "0 \<le> era_year doe \<and> era_year doe \<le> 399 \<and> 0 \<le> era_day doe \<and> era_day doe \<le> 365 \<and>
    (era_day doe = 365 \<longrightarrow> leap (era_year doe + 1))"
proof (cases "doe = 146096")
  case True
  then show ?thesis by (simp add: era_year_def era_day_def leap_def)
next
  case False
  define b r where "b = doe div 36524" and "r = doe mod 36524"
  have br: "doe = 36524 * b + r" "0 \<le> r" "r < 36524" "0 \<le> b" "b \<le> 3"
    using assms False by (auto simp: b_def r_def)
  define y where "y = (r - (24 * b + r) div 1460) div 365"
  note c = yoe_century [OF br(2,3,4,5), folded y_def]
  have Y: "era_year doe = 100 * b + y" unfolding br(1) y_def by (rule era_year_century [OF br(2,3,4,5)])
  have y: "0 \<le> y" "y \<le> 99" using c by auto
  have "(100 * b + y) div 100 = b" "(100 * b + y) div 4 = 25 * b + y div 4" using y by auto
  then have D: "era_day doe = r - 365 * y - y div 4" unfolding era_day_def Y using br(1) by simp
  have "leap (era_year doe + 1)" if "era_day doe = 365"
  proof -
    have m: "(y + 1) mod 4 = 0" "y \<noteq> 99" using c that D by auto
    then have "(100 * b + y + 1) mod 4 = 0" by presburger
    moreover have "(100 * b + (y + 1)) mod 100 = y + 1" using y m(2) by simp
    then have "(100 * b + y + 1) mod 100 \<noteq> 0" using y by (simp add: add.assoc)
    ultimately show ?thesis unfolding leap_def Y by blast
  qed
  then show ?thesis using c y br Y D by auto
qed

text \<open>Months of a year that starts in March: every day of year, with 31 and 30 day months in fixed order.\<close>

definition month_of :: "int \<Rightarrow> int" where "month_of doy = (5 * doy + 2) div 153"

definition month_ok :: "int \<Rightarrow> bool" where
  "month_ok doy \<longleftrightarrow>
     (let mp = month_of doy; d = doy - (153 * mp + 2) div 5 + 1; m = (if mp < 10 then mp + 3 else mp - 9) in
      0 \<le> mp \<and> mp \<le> 11 \<and> 1 \<le> d \<and>
      d \<le> (if m = 2 then (if doy = 365 then 29 else 28) else if m \<in> {4, 6, 9, 11} then 30 else 31))"

lemma month_bounds: "0 \<le> doy \<Longrightarrow> doy \<le> 365 \<Longrightarrow> month_ok doy"
proof -
  assume doy: "0 \<le> doy" "doy \<le> 365"
  define mp where "mp = month_of doy"
  have mp: "153 * mp \<le> 5 * doy + 2" "5 * doy + 2 < 153 * mp + 153"
    by (auto simp: mp_def month_of_def)
  with doy have "0 \<le> mp" "mp \<le> 11" by linarith+
  then have "mp = 0 \<or> mp = 1 \<or> mp = 2 \<or> mp = 3 \<or> mp = 4 \<or> mp = 5 \<or> mp = 6 \<or> mp = 7 \<or> mp = 8 \<or>
      mp = 9 \<or> mp = 10 \<or> mp = 11" by presburger
  with mp doy show ?thesis
    unfolding month_ok_def Let_def mp_def [symmetric] by (elim disjE) simp_all
qed

lemma civil_date_unfold:
  "civil_date days =
     (let doe = (days + 719468) mod 146097; mp = month_of (era_day doe);
          m = (if mp < 10 then mp + 3 else mp - 9)
      in (era_year doe + (days + 719468) div 146097 * 400 + (if m \<le> 2 then 1 else 0), m,
          era_day doe - (153 * mp + 2) div 5 + 1))"
  unfolding civil_date_def era_year_def era_day_def month_of_def Let_def by (rule refl)

lemma leap_era: "leap (y + e * 400) \<longleftrightarrow> leap y"
proof -
  have "(y + e * 400) mod 4 = y mod 4" "(y + e * 400) mod 100 = y mod 100" "(y + e * 400) mod 400 = y mod 400"
    using mod_mult_self1 [of y "e * 100" 4] mod_mult_self1 [of y "e * 4" 100] by (simp_all add: mult.commute)
  then show ?thesis by (simp add: leap_def)
qed

lemma day_of_civil_date:
  assumes "civil_date days = (y, m, d)"
  shows "day_of_civil y m d = days" and "1 \<le> m" and "m \<le> 12" and "1 \<le> d" and "d \<le> days_in m y"
proof -
  define doe where "doe = (days + 719468) mod 146097"
  define era where "era = (days + 719468) div 146097"
  define mp where "mp = month_of (era_day doe)"
  note eb = era_bounds [of doe]
  have b: "0 \<le> era_year doe" "era_year doe \<le> 399" "0 \<le> era_day doe" "era_day doe \<le> 365"
    "era_day doe = 365 \<longrightarrow> leap (era_year doe + 1)"
    using eb by (simp_all add: doe_def)
  note ok = month_bounds [OF b(3,4), unfolded month_ok_def Let_def, folded mp_def]
  have c: "y = era_year doe + era * 400 + (if m \<le> 2 then 1 else 0)" "m = (if mp < 10 then mp + 3 else mp - 9)"
    "d = era_day doe - (153 * mp + 2) div 5 + 1"
    using assms by (auto simp: civil_date_unfold Let_def mp_def doe_def era_def)
  show "1 \<le> m" "m \<le> 12" "1 \<le> d" using ok c by (auto split: if_splits)
  have "leap y" if "era_day doe = 365" "m = 2" using b(5) that c(1) leap_era [of "era_year doe + 1" era]
    by (simp add: algebra_simps)
  then show "d \<le> days_in m y" using ok c(2,3) by (auto simp: days_in_def split: if_splits)
  have y': "(if m \<le> 2 then y - 1 else y) = era_year doe + era * 400" using c(1) by auto
  have mp': "(if m > 2 then m - 3 else m + 9) = mp" using c(2) ok by auto
  have "(era_year doe + era * 400) div 400 = era" "(era_year doe + era * 400) mod 400 = era_year doe"
    using b(1,2) by auto
  then have "day_of_civil y m d = era * 146097 + doe - 719468"
    unfolding day_of_civil_def Let_def y' mp' using c(3) by (simp add: era_day_def)
  then show "day_of_civil y m d = days" by (simp add: era_def doe_def)
qed

text \<open>The instants whose year has four digits.\<close>

definition four_digit_year :: "int \<Rightarrow> bool" where
  "four_digit_year t \<longleftrightarrow> (let (y, m, d) = civil_date (t div 1000000 div 86400000) in 0 \<le> y \<and> y \<le> 9999)"

lemma expect_simps [simp]: "c \<in> set cs \<Longrightarrow> expect cs (c # s) = Some s"
  by simp

lemma clock_parts:
  fixes r :: int
  assumes "0 \<le> r" and "r < 86400000"
  shows "(((r div 3600000) * 60 + r div 60000 mod 60) * 60 + r div 1000 mod 60) * 1000 + r mod 1000 = r"
proof -
  have "r div 60000 = r div 1000 div 60" "r div 3600000 = r div 1000 div 60 div 60"
    by (simp_all add: zdiv_zmult2_eq [symmetric])
  moreover have "x div 60 * 60 + x mod 60 = x" for x :: int by simp
  ultimately show ?thesis by (metis mult_div_mod_eq mult.commute)
qed

lemma parse_parts:
  assumes "0 \<le> y" "y \<le> 9999" "1 \<le> m" "m \<le> 12" "1 \<le> d" "d \<le> days_in m y" "0 \<le> h" "h < 24"
    "0 \<le> mi" "mi < 60" "0 \<le> se" "se < 60" "0 \<le> f" "f < 1000"
  shows "parse_ts (pad 4 y @ ''-'' @ pad 2 m @ ''-'' @ pad 2 d @ ''T'' @ pad 2 h @ '':'' @ pad 2 mi @ '':'' @
      pad 2 se @ ''.'' @ pad 3 f @ ''Z'') =
    Some ((((day_of_civil y m d * 24 + h) * 60 + mi) * 60 + se) * 1000000000 + f * 1000000)"
proof -
  have "days_in m y \<le> 31" by (simp add: days_in_def)
  then have d: "d < 100" using assms by simp
  have hour: "one_or_two_digits (pad 2 h @ s) = Some (h, s)" for s
    using assms by (simp add: one_or_two_digits_def fixed_digits_pad)
  show ?thesis using assms d by (simp add: parse_ts_def fixed_digits_pad hour)
qed

lemma parse_format_ts:
  assumes "four_digit_year t"
  shows "parse_ts (format_ts t) = Some (trunc_ms t)"
proof -
  define ms days r where "ms = t div 1000000" and "days = ms div 86400000" and "r = ms mod 86400000"
  obtain y m d where c: "civil_date days = (y, m, d)" by (cases "civil_date days") auto
  note v = day_of_civil_date [OF c]
  have y: "0 \<le> y" "y \<le> 9999" using assms c by (simp_all add: four_digit_year_def days_def ms_def)
  have r: "0 \<le> r" "r < 86400000" by (simp_all add: r_def)
  then have h: "0 \<le> r div 3600000" "r div 3600000 < 24" by auto
  have "format_ts t = pad 4 y @ ''-'' @ pad 2 m @ ''-'' @ pad 2 d @ ''T'' @ pad 2 (r div 3600000) @ '':'' @
      pad 2 (r div 60000 mod 60) @ '':'' @ pad 2 (r div 1000 mod 60) @ ''.'' @ pad 3 (r mod 1000) @ ''Z''"
    using c by (simp add: format_ts_def Let_def ms_def days_def r_def)
  then have "parse_ts (format_ts t) =
      Some ((((day_of_civil y m d * 24 + r div 3600000) * 60 + r div 60000 mod 60) * 60 + r div 1000 mod 60)
        * 1000000000 + r mod 1000 * 1000000)"
    using parse_parts [OF y v(2,3,4,5) h, of "r div 60000 mod 60" "r div 1000 mod 60" "r mod 1000"] by simp
  also have "\<dots> = Some ((days * 86400000 + ((((r div 3600000) * 60 + r div 60000 mod 60) * 60 + r div 1000 mod 60) * 1000
      + r mod 1000)) * 1000000)"
    unfolding v(1) by simp
  also have "\<dots> = Some (ms * 1000000)" unfolding clock_parts [OF r] by (simp add: days_def r_def)
  also have "ms * 1000000 = trunc_ms t" by (simp add: trunc_ms_def ms_def minus_mod_eq_mult_div)
  finally show ?thesis .
qed

end
