(* ===== verification/AuditDelivery.thy ===== *)
theory AuditDelivery
  imports Utf
begin

text \<open>
  \<^verbatim>\<open>internal/audit/sink.go\<close>, \<^verbatim>\<open>httpsink.go\<close> and \<^verbatim>\<open>syslogsink.go\<close>: the sink specification, the
  delivery of committed records and the memory of failing sinks that the block posture reads, and
  the bounded queue of the network sink.  \<open>net/url\<close>, \<open>net.ParseIP\<close> and the syslog dialer are
  arguments.
\<close>

section \<open>Errors\<close>

text \<open>
  A Go error: a message, a \<open>Partial\<close>, an error wrapped by \<open>fmt.Errorf\<close> (its text and what it wraps)
  or a join.
\<close>

datatype goerr = GoErr string | PartialErr goerr | Wrapped string "goerr list" | Joined "goerr list"

fun err_text :: "goerr \<Rightarrow> string" where
  "err_text (GoErr s) = s"
| "err_text (PartialErr e) = ''partially applied: '' @ err_text e"
| "err_text (Wrapped s es) = s"
| "err_text (Joined es) = join [CHR 0x0A] (map err_text es)"

section \<open>Sink specifications\<close>

record url =
  u_scheme :: string
  u_host :: string
  u_hostname :: string
  u_port :: string
  u_user :: bool

datatype sink = ConsoleSink string | SyslogSink string | FileSink string | HTTPSink string

fun sink_name :: "sink \<Rightarrow> string" where
  "sink_name (ConsoleSink n) = n"
| "sink_name (SyslogSink spec) = spec"
| "sink_name (FileSink path) = ''file:'' @ path"
| "sink_name (HTTPSink u) = u"

datatype spec_err = EmptyEntry | RepeatedEntry string | NoneNotAlone | NoPath | BadURL string | NoHost string
  | NoPort string | BadTransport string | CredentialInURL string | PlaintextRemote string | UnknownSink string
  | DialFailed string | BadPosture string

definition isLoopback :: "(string \<Rightarrow> bool option) \<Rightarrow> string \<Rightarrow> bool" where
  "isLoopback parse_ip host = (host = ''localhost'' \<or> parse_ip host = Some True)"

definition checkEndpoint :: "(string \<Rightarrow> url option) \<Rightarrow> (string \<Rightarrow> bool option) \<Rightarrow> string \<Rightarrow> spec_err + unit" where
  "checkEndpoint parse_url parse_ip raw =
     (case parse_url raw of
        None \<Rightarrow> Inl (BadURL raw)
      | Some u \<Rightarrow>
          if u_host u = [] then Inl (NoHost raw)
          else if u_user u then Inl (CredentialInURL raw)
          else if u_scheme u = ''http'' \<and> \<not> isLoopback parse_ip (u_hostname u) then Inl (PlaintextRemote raw)
          else Inr ())"

definition parseSyslogSpec :: "(string \<Rightarrow> url option) \<Rightarrow> string \<Rightarrow> spec_err + string \<times> string" where
  "parseSyslogSpec parse_url spec =
     (let rest = trim_space (trim_prefix (trim_prefix spec ''syslog'') '':'') in
      if rest = [] then Inr ([], [])
      else (case parse_url rest of
              None \<Rightarrow> Inl (BadURL spec)
            | Some u \<Rightarrow>
                if u_scheme u \<noteq> ''tcp'' \<and> u_scheme u \<noteq> ''udp'' then Inl (BadTransport spec)
                else if u_host u = [] then Inl (NoHost spec)
                else if u_port u = [] then Inl (NoPort spec)
                else Inr (u_scheme u, u_host u)))"

text \<open>What stands outside the package when a specification is read.\<close>

record sink_env =
  e_parse_url :: "string \<Rightarrow> url option"
  e_parse_ip :: "string \<Rightarrow> bool option"
  e_dial :: "string \<Rightarrow> string \<Rightarrow> bool"

definition parse_field :: "sink_env \<Rightarrow> string \<Rightarrow> spec_err + sink" where
  "parse_field env f =
     (if f = ''stdout'' \<or> f = ''stderr'' then Inr (ConsoleSink f)
      else if f = ''syslog'' \<or> has_prefix f ''syslog:'' then
        sbind (parseSyslogSpec (e_parse_url env) f) (\<lambda>(network, address).
        if e_dial env network address then Inr (SyslogSink f) else Inl (DialFailed f))
      else if has_prefix f ''file:'' then
        (let path = trim_space (trim_prefix f ''file:'') in
         if path = [] then Inl NoPath else Inr (FileSink path))
      else if has_prefix f ''https://'' \<or> has_prefix f ''http://'' then
        sbind (checkEndpoint (e_parse_url env) (e_parse_ip env) f) (\<lambda>_. Inr (HTTPSink f))
      else Inl (UnknownSink f))"

text \<open>
  The loop of \<open>ParseSinks\<close>; \<open>alone\<close> is whether the specification has one field, \<open>seen\<close> the fields so
  far.  A \<open>none\<close> ends the reading.
\<close>

fun parse_fields :: "sink_env \<Rightarrow> bool \<Rightarrow> string list \<Rightarrow> sink list \<Rightarrow> string list \<Rightarrow> spec_err + sink list" where
  "parse_fields env alone seen sinks [] = Inr sinks"
| "parse_fields env alone seen sinks (raw # fs) =
     (let f = trim_space raw in
      if f = [] then Inl EmptyEntry
      else if f \<in> set seen then Inl (RepeatedEntry f)
      else if f = ''none'' then (if alone then Inr [] else Inl NoneNotAlone)
      else sbind (parse_field env f) (\<lambda>s. parse_fields env alone (f # seen) (sinks @ [s]) fs))"

definition ParseSinks :: "sink_env \<Rightarrow> string \<Rightarrow> spec_err + sink list" where
  "ParseSinks env spec =
     (let fields = split_on (CHR '','') spec in parse_fields env (length fields = 1) [] [] fields)"

datatype Posture = Warn | Block

definition posture_text :: "Posture \<Rightarrow> string" where
  "posture_text p = (if p = Block then ''block'' else ''warn'')"

definition ParsePosture :: "string \<Rightarrow> spec_err + Posture" where
  "ParsePosture s =
     (if trim_space s = ''warn'' then Inr Warn else if trim_space s = ''block'' then Inr Block
      else Inl (BadPosture s))"

section \<open>Delivery\<close>

record Delivery =
  d_sinks :: "sink list"
  d_posture :: Posture
  d_failing :: "(string \<times> goerr) list"
  d_warned :: "string list"

definition NewDelivery :: "sink list \<Rightarrow> Posture \<Rightarrow> Delivery" where
  "NewDelivery sinks p = \<lparr>d_sinks = sinks, d_posture = p, d_failing = [], d_warned = []\<rparr>"

text \<open>\<open>env_sinks\<close> and \<open>env_posture\<close> are the environment variables, empty when unset.\<close>

definition DeliveryFor :: "sink_env \<Rightarrow> string \<Rightarrow> string \<Rightarrow> string \<Rightarrow> string \<Rightarrow> string \<Rightarrow> spec_err + Delivery" where
  "DeliveryFor env env_sinks env_posture audit_log spec posture =
     (let spec1 = (if env_sinks \<noteq> [] then env_sinks else spec);
          spec2 = (if spec1 = [] then ''file:'' @ audit_log else spec1) in
      sbind (ParseSinks env spec2) (\<lambda>sinks.
      let posture1 = (if env_posture \<noteq> [] then env_posture else posture) in
      sbind (if posture1 = [] then Inr Warn else ParsePosture posture1) (\<lambda>on.
      Inr (NewDelivery sinks on))))"

definition DeliveryFromEnv :: "sink_env \<Rightarrow> string \<Rightarrow> string \<Rightarrow> string \<Rightarrow> spec_err + Delivery" where
  "DeliveryFromEnv env env_sinks env_posture audit_log =
     DeliveryFor env env_sinks env_posture audit_log [] []"

text \<open>
  \<open>Emit\<close>: \<open>answer s\<close> is what sink \<open>s\<close> returns for this record.  A transition is announced once.
\<close>

definition emit_one :: "(sink \<Rightarrow> goerr option) \<Rightarrow> sink \<Rightarrow> Delivery \<Rightarrow> Delivery" where
  "emit_one answer s d =
     (let was = map_of (d_failing d) (sink_name s) \<noteq> None in
      case answer s of
        Some err \<Rightarrow>
          d\<lparr>d_failing := put (sink_name s) err (d_failing d),
            d_warned := d_warned d @ (if was then [] else [sink_name s @ '' is failing''])\<rparr>
      | None \<Rightarrow>
          if was then d\<lparr>d_failing := del (sink_name s) (d_failing d),
                        d_warned := d_warned d @ [sink_name s @ '' has recovered'']\<rparr>
          else d)"

definition Emit :: "(sink \<Rightarrow> goerr option) \<Rightarrow> Delivery \<Rightarrow> Delivery" where
  "Emit answer d = foldl (\<lambda>d s. emit_one answer s d) d (d_sinks d)"

definition Blocked :: "Delivery \<Rightarrow> goerr option" where
  "Blocked d =
     (if d_posture d \<noteq> Block then None
      else if d_failing d = [] then None
      else
        let names = sort_strings (map fst (d_failing d));
            causes = map (\<lambda>n. the (map_of (d_failing d) n)) names in
        Some (Wrapped (''audit delivery to '' @ join '', '' names @ '' is failing and the policy is block: '' @
                       err_text (Joined causes)) [Joined causes]))"

lemma emit_one_simps [simp]:
  "d_sinks (emit_one answer s d) = d_sinks d" "d_posture (emit_one answer s d) = d_posture d"
  by (auto simp: emit_one_def Let_def split: option.splits)

lemma failing_emit_one:
  "map_of (d_failing (emit_one answer s d)) n =
     (if n = sink_name s then answer s else map_of (d_failing d) n)"
  by (auto simp: emit_one_def Let_def split: option.splits)

lemma emit_fold [simp]:
  "d_sinks (foldl (\<lambda>d s. emit_one answer s d) d ss) = d_sinks d"
  "d_posture (foldl (\<lambda>d s. emit_one answer s d) d ss) = d_posture d"
  by (induction ss arbitrary: d) auto

lemma failing_fold:
  assumes "distinct (map sink_name ss)"
  shows "map_of (d_failing (foldl (\<lambda>d s. emit_one answer s d) d ss)) n =
     (case find (\<lambda>s. sink_name s = n) ss of Some s \<Rightarrow> answer s | None \<Rightarrow> map_of (d_failing d) n)"
  using assms
proof (induction ss arbitrary: d)
  case (Cons s ss)
  have "sink_name s = n \<Longrightarrow> find (\<lambda>s. sink_name s = n) ss = None"
    using Cons.prems by (force simp: find_None_iff image_iff)
  with Cons show ?case by (auto simp: failing_emit_one split: option.splits)
qed simp

text \<open>The sinks that failed the last record are exactly the failing ones afterwards.\<close>

lemma failing_Emit:
  assumes "distinct (map sink_name (d_sinks d))" and "fst ` set (d_failing d) \<subseteq> sink_name ` set (d_sinks d)"
  shows "fst ` set (d_failing (Emit answer d)) = {sink_name s |s. s \<in> set (d_sinks d) \<and> answer s \<noteq> None}"
proof -
  have dom: "fst ` set m = {n. map_of m n \<noteq> None}" for m :: "(string \<times> goerr) list"
    by (auto simp: map_of_eq_None_iff simp del: not_None_eq)
  have "map_of (d_failing (Emit answer d)) n \<noteq> None \<longleftrightarrow>
    (\<exists>s \<in> set (d_sinks d). sink_name s = n \<and> answer s \<noteq> None)" for n
  proof (cases "find (\<lambda>s. sink_name s = n) (d_sinks d)")
    case None
    then have "n \<notin> sink_name ` set (d_sinks d)" by (auto simp: find_None_iff)
    with assms(2) have "map_of (d_failing d) n = None" by (auto simp: map_of_eq_None_iff)
    with None have "map_of (d_failing (Emit answer d)) n = None"
      using failing_fold [OF assms(1), of answer d n] by (simp add: Emit_def)
    with \<open>n \<notin> sink_name ` set (d_sinks d)\<close> show ?thesis by blast
  next
    case (Some s)
    then have s: "s \<in> set (d_sinks d)" "sink_name s = n"
      by (auto simp: find_Some_iff)
    have "t = s" if "t \<in> set (d_sinks d)" "sink_name t = n" for t
      using that s assms(1) by (auto simp: distinct_map inj_on_def)
    moreover have "map_of (d_failing (Emit answer d)) n = answer s"
      using failing_fold [OF assms(1), of answer d n] Some by (simp add: Emit_def)
    ultimately show ?thesis using s by metis
  qed
  then have "n \<in> {n. map_of (d_failing (Emit answer d)) n \<noteq> None} \<longleftrightarrow>
    n \<in> {sink_name s |s. s \<in> set (d_sinks d) \<and> answer s \<noteq> None}" for n
    unfolding mem_Collect_eq by metis
  then show ?thesis unfolding dom by (rule set_eqI)
qed

lemma failing_nil: "m = [] \<longleftrightarrow> fst ` set m = {}"
  by auto

text \<open>
  under the block posture the next mutation is refused exactly when some sink failed the last
  record, so a delivery that succeeds everywhere unblocks the appliance; under warn it never is.
\<close>

theorem blocked_iff_last_delivery_failed:
  assumes "distinct (map sink_name (d_sinks d))" and "fst ` set (d_failing d) \<subseteq> sink_name ` set (d_sinks d)"
  shows "Blocked (Emit answer d) \<noteq> None \<longleftrightarrow>
    d_posture d = Block \<and> (\<exists>s \<in> set (d_sinks d). answer s \<noteq> None)"
proof -
  have "d_failing (Emit answer d) = [] \<longleftrightarrow> \<not> (\<exists>s \<in> set (d_sinks d). answer s \<noteq> None)"
    unfolding failing_nil failing_Emit [OF assms] by blast
  then show ?thesis by (auto simp: Blocked_def Let_def Emit_def)
qed

theorem blocked_iff_last_delivery_failed_witness:
  "Blocked (Emit (\<lambda>s. if s = ConsoleSink ''stderr'' then Some (GoErr ''closed'') else None)
     (NewDelivery [ConsoleSink ''stdout'', ConsoleSink ''stderr''] Block)) \<noteq> None"
proof -
  let ?d = "NewDelivery [ConsoleSink ''stdout'', ConsoleSink ''stderr''] Block"
  have "distinct (map sink_name (d_sinks ?d))" "fst ` set (d_failing ?d) \<subseteq> sink_name ` set (d_sinks ?d)"
    by (simp_all add: NewDelivery_def)
  from blocked_iff_last_delivery_failed [OF this] show ?thesis by (simp add: NewDelivery_def)
qed

text \<open>
  the check for a repeated sink looks at the text of the field, before the path is trimmed, so
  one file can be configured twice and receives every record twice.
\<close>

theorem repeated_file_sink_is_accepted:
  "ParseSinks env ''file:/a,file: /a'' = Inr [FileSink ''/a'', FileSink ''/a'']"
  by (simp add: ParseSinks_def parse_field_def trim_space_def is_space_def has_prefix_def trim_prefix_def Let_def)

section \<open>The network sink\<close>

text \<open>
  \<open>httpSink\<close>: Emit puts a line in the bounded queue or counts a drop, the worker takes a batch and
  posts it.  \<open>h_posted\<close> records every batch and whether its POST succeeded; it is not in the code.
\<close>

definition httpQueueDepth :: nat where "httpQueueDepth = 1024"
definition httpBatchMax :: nat where "httpBatchMax = 256"

record http_sink =
  h_queue :: "string list"
  h_last :: "goerr option"
  h_dropped :: nat
  h_closed :: bool
  h_done :: bool
  h_accepted :: "string list"
  h_posted :: "string list list"

definition NewHTTPSink :: http_sink where
  "NewHTTPSink = \<lparr>h_queue = [], h_last = None, h_dropped = 0, h_closed = False, h_done = False,
     h_accepted = [], h_posted = []\<rparr>"

definition http_status :: "http_sink \<Rightarrow> goerr option" where
  "http_status s = (if 0 < h_dropped s then Some (GoErr (show_nat (h_dropped s) @ '' record(s) dropped''))
     else h_last s)"

text \<open>
  The select of Emit: with room in the queue and the sink closed the runtime may take either ready
  case, which \<open>prefer_closed\<close> resolves.
\<close>

definition http_emit :: "bool \<Rightarrow> string \<Rightarrow> http_sink \<Rightarrow> goerr option \<times> http_sink" where
  "http_emit prefer_closed line s =
     (if h_closed s \<and> (prefer_closed \<or> httpQueueDepth \<le> length (h_queue s)) then (Some (GoErr ''closed''), s)
      else if length (h_queue s) < httpQueueDepth then
        (let s' = s\<lparr>h_queue := h_queue s @ [line], h_accepted := h_accepted s @ [line]\<rparr> in (http_status s', s'))
      else (let s' = s\<lparr>h_dropped := h_dropped s + 1\<rparr> in (http_status s', s')))"

definition drain :: "nat \<Rightarrow> http_sink \<Rightarrow> string list \<times> http_sink" where
  "drain n s = (take n (h_queue s), s\<lparr>h_queue := drop n (h_queue s)\<rparr>)"

definition post :: "goerr option \<Rightarrow> string list \<Rightarrow> http_sink \<Rightarrow> http_sink" where
  "post err batch s =
     s\<lparr>h_last := err, h_dropped := (if err = None then 0 else h_dropped s), h_posted := h_posted s @ [batch]\<rparr>"

definition http_body :: "string list \<Rightarrow> string" where
  "http_body batch = concat (map (\<lambda>l. l @ [CHR 0x0A]) batch)"

text \<open>One turn of \<open>run\<close>, woken by the line at the head of the queue, and its last turn on Close.\<close>

definition run_turn :: "goerr option \<Rightarrow> http_sink \<Rightarrow> http_sink" where
  "run_turn err s =
     (case h_queue s of
        [] \<Rightarrow> s
      | line # q \<Rightarrow>
          let (rest, s') = drain (httpBatchMax - 1) (s\<lparr>h_queue := q\<rparr>) in post err (line # rest) s')"

definition run_close :: "goerr option \<Rightarrow> http_sink \<Rightarrow> http_sink" where
  "run_close err s =
     (let (batch, s') = drain httpBatchMax s in
      (if batch = [] then s' else post err batch s')\<lparr>h_done := True\<rparr>)"

definition http_close :: "http_sink \<Rightarrow> http_sink" where
  "http_close s = s\<lparr>h_closed := True\<rparr>"

inductive http_step :: "http_sink \<Rightarrow> http_sink \<Rightarrow> bool" where
  emit: "http_emit b line s = (r, s') \<Longrightarrow> http_step s s'"
| turn: "h_queue s \<noteq> [] \<Longrightarrow> \<not> h_done s \<Longrightarrow> http_step s (run_turn err s)"
| close: "http_step s (http_close s)"
| last: "h_closed s \<Longrightarrow> \<not> h_done s \<Longrightarrow> http_step s (run_close err s)"

inductive http_reachable :: "http_sink \<Rightarrow> bool" where
  init: "http_reachable NewHTTPSink"
| step: "http_reachable s \<Longrightarrow> http_step s s' \<Longrightarrow> http_reachable s'"

inductive_cases http_stepE: "http_step s s'"

definition http_inv :: "http_sink \<Rightarrow> bool" where
  "http_inv s \<longleftrightarrow> length (h_queue s) \<le> httpQueueDepth \<and> concat (h_posted s) @ h_queue s = h_accepted s \<and>
     (\<forall>b \<in> set (h_posted s). b \<noteq> [] \<and> length b \<le> httpBatchMax)"

lemma http_step_inv:
  assumes "http_step s s'" and "http_inv s"
  shows "http_inv s'"
  using assms
proof (cases rule: http_step.cases)
  case (emit b line r)
  with assms(2) show ?thesis
    by (auto simp: http_emit_def http_inv_def Let_def split: if_splits)
next
  case (turn err)
  then obtain line q where q: "h_queue s = line # q" by (cases "h_queue s") auto
  have m: "Suc (min (length q) (httpBatchMax - 1)) \<le> httpBatchMax" by (simp add: httpBatchMax_def)
  from assms(2) q m show ?thesis unfolding turn(1)
    by (auto simp: run_turn_def drain_def post_def http_inv_def Let_def)
next
  case close
  with assms(2) show ?thesis by (simp add: http_close_def http_inv_def)
next
  case (last err)
  from assms(2) show ?thesis unfolding last(1)
    by (auto simp: run_close_def drain_def post_def http_inv_def Let_def)
qed

lemma http_reachable_inv: "http_reachable s \<Longrightarrow> http_inv s"
proof (induction rule: http_reachable.induct)
  case init
  then show ?case by (simp add: http_inv_def NewHTTPSink_def)
qed (rule http_step_inv)

text \<open>
  C13: the network sink holds a bounded number of lines and delivers what it accepted in order:
  whatever the interleaving of emissions and the worker, the batches posted so far followed by the
  queue are the accepted lines, no batch is empty or larger than the limit.
\<close>

theorem http_sink_keeps_order:
  assumes "http_reachable s"
  shows "concat (h_posted s) @ h_queue s = h_accepted s \<and> length (h_queue s) \<le> httpQueueDepth \<and>
    (\<forall>b \<in> set (h_posted s). 0 < length b \<and> length b \<le> httpBatchMax)"
  using http_reachable_inv [OF assms] by (auto simp: http_inv_def)

theorem http_sink_keeps_order_witness:
  "concat (h_posted (run_turn None (snd (http_emit False ''{}'' NewHTTPSink)))) = [''{}'']"
proof -
  let ?s = "snd (http_emit False ''{}'' NewHTTPSink)"
  have q: "h_queue ?s = [''{}'']" "\<not> h_done ?s" "h_accepted ?s = [''{}'']"
    by (simp_all add: http_emit_def NewHTTPSink_def httpQueueDepth_def Let_def)
  have "http_step NewHTTPSink ?s" by (rule http_step.emit [where r = "fst (http_emit False ''{}'' NewHTTPSink)"]) simp
  then have "http_reachable ?s" by (rule http_reachable.step [OF http_reachable.init])
  moreover have "http_step ?s (run_turn None ?s)" by (rule http_step.turn) (use q in simp_all)
  ultimately have "http_reachable (run_turn None ?s)" by (rule http_reachable.step)
  from http_sink_keeps_order [OF this] show ?thesis
    using q by (simp add: run_turn_def drain_def post_def Let_def)
qed

end
