(* ===== verification/AuditLog.thy ===== *)
theory AuditLog
  imports AuditChain AuditDelivery
begin

text \<open>
  \<^verbatim>\<open>internal/audit/log.go\<close> over \<^verbatim>\<open>internal/store/store.go\<close>'s \<open>WriteTx\<close>: the seam every mutating
  call passes through.  A mutation is a function of the application's state that returns an
  optional error, the details it recorded and the new state; a transaction that does not commit
  restores both the application's state and the audit tables.
\<close>

section \<open>WriteTx\<close>

text \<open>
  What the environment does to one transaction: BEGIN may fail, the context may be cancelled while
  the callback runs, COMMIT may fail.  The callback's captured variables \<open>'c\<close> outlive a rollback.
\<close>

record tx_env =
  read_only :: bool
  begin_err :: "goerr option"
  ctx_err :: "goerr option"
  commit_err :: "goerr option"

definition WriteTx :: "tx_env \<Rightarrow> ('c \<Rightarrow> 's \<Rightarrow> 'c \<times> (goerr + 's)) \<Rightarrow> 'c \<Rightarrow> 's \<Rightarrow> 'c \<times> goerr option \<times> 's" where
  "WriteTx env fn c s =
     (if read_only env then (c, Some (Wrapped ''the database was opened read-only'' []), s)
      else case begin_err env of
        Some e \<Rightarrow> (c, Some (Wrapped (''beginning write transaction: '' @ err_text e) [e]), s)
      | None \<Rightarrow>
          (case fn c s of
             (c', Inl e) \<Rightarrow> (c', Some (case ctx_err env of Some ce \<Rightarrow> Joined [ce, e] | None \<Rightarrow> e), s)
           | (c', Inr s') \<Rightarrow>
               (case commit_err env of
                  Some e \<Rightarrow>
                    (c', Some (case ctx_err env of Some ce \<Rightarrow> Joined [ce, e]
                               | None \<Rightarrow> Wrapped (''committing write transaction: '' @ err_text e) [e]), s)
                | None \<Rightarrow> (c', None, s'))))"

lemma WriteTx_atomic: "WriteTx env fn c s = (c', Some e, s') \<Longrightarrow> s' = s"
  by (auto simp: WriteTx_def split: option.splits prod.splits sum.splits if_splits)

lemma WriteTx_commits: "WriteTx env fn c s = (c', None, s') \<Longrightarrow> fn c s = (c', Inr s')"
  by (auto simp: WriteTx_def split: option.splits prod.splits sum.splits if_splits)

section \<open>Text repair\<close>

text \<open>\<open>strings.ToValidUTF8(s, "\\uFFFD")\<close>: one replacement per run of ill-formed bytes.\<close>

declare take_rune.simps [simp del]

function to_valid :: "bool \<Rightarrow> nat list \<Rightarrow> nat list" where
  "to_valid bad [] = []"
| "to_valid bad (a # bs) =
     (case take_rune (a # bs) of
        Some (r, rest) \<Rightarrow> encode_rune r @ to_valid False rest
      | None \<Rightarrow> (if bad then [] else encode_rune 0xFFFD) @ to_valid True bs)"
  by pat_completeness auto
termination
  by (relation "measure (\<lambda>(bad, bs). length bs)") (auto dest!: take_rune_shorter)

definition validUTF8 :: "string \<Rightarrow> string" where
  "validUTF8 s = of_bytes (to_valid False (bytes s))"

text \<open>\<open>utf8.RuneStart\<close>, and the loop that backs up to one.\<close>

definition rune_start :: "nat \<Rightarrow> bool" where
  "rune_start b \<longleftrightarrow> \<not> cont b"

fun back_up :: "nat list \<Rightarrow> nat \<Rightarrow> nat" where
  "back_up bs 0 = 0"
| "back_up bs (Suc k) = (if rune_start (bs ! Suc k) then Suc k else back_up bs k)"

definition trunc_mark :: string where
  "trunc_mark = of_bytes [0xE2, 0x80, 0xA6] @ '' (truncated)''"

definition maxErrorTail :: nat where "maxErrorTail = 2048"
definition maxDetailValue :: nat where "maxDetailValue = 65536"

definition truncate_text :: "string \<Rightarrow> nat \<Rightarrow> string" where
  "truncate_text s n =
     (let v = validUTF8 s in
      if length v \<le> n then v else take (back_up (bytes v) n) v @ trunc_mark)"

lemma scalar_replacement: "scalar 0xFFFD"
  by (simp add: scalar_def)

lemma to_valid_valid: "valid_utf8 (to_valid bad bs)"
proof (induction bad bs rule: to_valid.induct)
  case (2 bad a bs)
  show ?case
  proof (cases "take_rune (a # bs)")
    case None
    with 2 scalar_replacement show ?thesis by (auto simp: valid_utf8_encode_append)
  next
    case (Some p)
    obtain r rest where p: "p = (r, rest)" by (cases p)
    with Some have "scalar r" by (simp add: take_rune_iff)
    with 2 Some p show ?thesis by (simp add: valid_utf8_encode_append)
  qed
qed simp

lemma to_valid_id: "valid_utf8 bs \<Longrightarrow> to_valid bad bs = bs"
proof (induction bad bs rule: to_valid.induct)
  case (2 bad a bs)
  from 2(3) obtain r rest where t: "take_rune (a # bs) = Some (r, rest)" "valid_utf8 rest"
    by (auto split: option.splits)
  then have e: "a # bs = encode_rune r @ rest" by (simp add: take_rune_iff)
  have "to_valid bad (a # bs) = encode_rune r @ to_valid False rest" using t(1) by simp
  with 2(2) [OF t(1) refl t(2)] e show ?case by simp
qed simp

lemma valid_utf8_byte:
  assumes "valid_utf8 bs" and "b \<in> set bs"
  shows "b < 256"
proof -
  from valid_utf8_runes [OF assms(1)] obtain rs where "bs = concat (map encode_rune rs)" "\<forall>r \<in> set rs. scalar r"
    by metis
  with assms(2) encode_rune_byte show ?thesis by auto
qed

lemma validUTF8_valid: "valid_utf8 (bytes (validUTF8 s))"
proof -
  have v: "valid_utf8 (to_valid False (bytes s))" by (rule to_valid_valid)
  have "\<forall>b \<in> set (to_valid False (bytes s)). b < 256"
    using valid_utf8_byte [OF v] by blast
  with v show ?thesis by (simp add: validUTF8_def bytes_of_bytes)
qed

lemma validUTF8_id: "valid_utf8 (bytes s) \<Longrightarrow> validUTF8 s = s"
  by (simp add: validUTF8_def to_valid_id)

lemma encode_rune_tail: "scalar r \<Longrightarrow> 0 < k \<Longrightarrow> k < length (encode_rune r) \<Longrightarrow> cont (encode_rune r ! k)"
  by (auto simp: encode_rune_def cont_def scalar_def nth_Cons less_Suc_eq split: nat.splits if_splits)

text \<open>Cutting well-formed text before a byte that starts a rune leaves well-formed text.\<close>

lemma valid_take:
  "valid_utf8 bs \<Longrightarrow> k < length bs \<Longrightarrow> rune_start (bs ! k) \<Longrightarrow> valid_utf8 (take k bs)"
proof (induction bs arbitrary: k rule: valid_utf8.induct)
  case (2 b bs)
  then obtain r rest where t: "take_rune (b # bs) = Some (r, rest)" "valid_utf8 rest"
    by (auto split: option.splits)
  then have r: "scalar r" "b # bs = encode_rune r @ rest" by (auto simp: take_rune_iff)
  show ?case
  proof (cases "k < length (encode_rune r)")
    case True
    with 2(4) r encode_rune_tail [OF r(1), of k] have "k = 0"
      unfolding r(2) by (cases k) (auto simp: rune_start_def nth_append)
    then show ?thesis by simp
  next
    case False
    with 2(3,4) have "k - length (encode_rune r) < length rest" "rune_start (rest ! (k - length (encode_rune r)))"
      unfolding r(2) by (auto simp: nth_append)
    with 2(1) [OF t(1) refl t(2)] False show ?thesis
      unfolding r(2) by (simp add: valid_utf8_encode_append [OF r(1)])
  qed
qed simp

lemma back_up_le: "back_up bs n \<le> n"
  by (induction bs n rule: back_up.induct) auto

lemma back_up_start: "back_up bs n = 0 \<or> rune_start (bs ! back_up bs n)"
  by (induction bs n rule: back_up.induct) auto

lemma valid_append: "valid_utf8 a \<Longrightarrow> valid_utf8 b \<Longrightarrow> valid_utf8 (a @ b)"
proof (induction a rule: valid_utf8.induct)
  case (2 x a)
  then obtain r rest where t: "take_rune (x # a) = Some (r, rest)" "valid_utf8 rest"
    by (auto split: option.splits)
  then have r: "scalar r" "x # a = encode_rune r @ rest" by (auto simp: take_rune_iff)
  from 2(1) [OF t(1) refl t(2) 2(3)] show ?case unfolding r(2) by (simp add: valid_utf8_encode_append [OF r(1)])
qed simp

lemma bytes_append [simp]: "bytes (a @ b) = bytes a @ bytes b"
  by (simp add: bytes_def)

lemma bytes_take: "bytes (take k s) = take k (bytes s)"
  by (simp add: bytes_def take_map)

lemma length_bytes [simp]: "length (bytes s) = length s"
  by (simp add: bytes_def)

lemma trunc_mark_facts: "valid_utf8 (bytes trunc_mark)" "length trunc_mark = 15"
proof -
  have b: "bytes trunc_mark = encode_rune 0x2026 @ bytes '' (truncated)''"
    by (simp add: trunc_mark_def bytes_of_bytes encode_rune_def)
  have "scalar 0x2026" by (simp add: scalar_def)
  then show "valid_utf8 (bytes trunc_mark)"
    unfolding b by (simp add: valid_utf8_encode_append ascii_valid)
  show "length trunc_mark = 15" by (simp add: trunc_mark_def of_bytes_def)
qed

lemma truncate_valid: "valid_utf8 (bytes (truncate_text s n))"
proof (cases "length (validUTF8 s) \<le> n")
  case True
  then show ?thesis by (simp add: truncate_text_def Let_def validUTF8_valid)
next
  case False
  let ?v = "validUTF8 s" and ?k = "back_up (bytes (validUTF8 s)) n"
  have "?k < length (bytes ?v)" using back_up_le [of "bytes ?v" n] False by simp
  then have "valid_utf8 (take ?k (bytes ?v))"
    using back_up_start [of "bytes ?v" n] valid_take [OF validUTF8_valid] by auto
  with False trunc_mark_facts(1) show ?thesis
    by (simp add: truncate_text_def Let_def bytes_take valid_append)
qed

lemma truncate_length: "length (truncate_text s n) \<le> n + 15"
  using back_up_le [of "bytes (validUTF8 s)" n] trunc_mark_facts(2)
  by (auto simp: truncate_text_def Let_def)

section \<open>Details\<close>

text \<open>
  A value handed to \<open>Detail\<close>, as \<open>repairDetail\<close> looks at it: nil, an error (its text), a string, a
  map (whether its keys are strings), a slice (whether of bytes) or an array, and anything else.
\<close>

datatype dval = DNil | DErr string | DStr string | DMap bool "(string \<times> dval) list option"
  | DSlice bool "dval list option" | DArray bool "dval list" | DPlain goval

fun repairDetail :: "dval \<Rightarrow> dval \<times> bool"
  and repair_items :: "dval list \<Rightarrow> dval list \<times> bool"
  and repair_members :: "(string \<times> dval) list \<Rightarrow> (string \<times> dval) list \<times> bool"
where
  "repairDetail DNil = (DNil, False)"
| "repairDetail (DErr text) = (DStr (truncate_text text maxDetailValue), maxDetailValue < length text)"
| "repairDetail (DStr s) =
     (let r = truncate_text s maxDetailValue in if r \<noteq> s then (DStr r, True) else (DStr s, False))"
| "repairDetail (DMap string_key None) = (DMap string_key None, False)"
| "repairDetail (DMap string_key (Some ms)) =
     (if \<not> string_key then (DMap string_key (Some ms), False)
      else (let (out, changed) = repair_members ms in (DMap True (Some out), changed)))"
| "repairDetail (DSlice u8 None) = (DSlice u8 None, False)"
| "repairDetail (DSlice u8 (Some vs)) =
     (if u8 then (DSlice u8 (Some vs), False)
      else (let (out, changed) = repair_items vs in (DSlice False (Some out), changed)))"
| "repairDetail (DArray u8 vs) =
     (if u8 then (DArray u8 vs, False)
      else (let (out, changed) = repair_items vs in (DSlice False (Some out), changed)))"
| "repairDetail (DPlain v) = (DPlain v, False)"
| "repair_items [] = ([], False)"
| "repair_items (v # vs) =
     (let (e, c) = repairDetail v; (out, changed) = repair_items vs in (e # out, c \<or> changed))"
| "repair_members [] = ([], False)"
| "repair_members ((k, v) # ms) =
     (let (e, c) = repairDetail v; (out, changed) = repair_members ms in ((k, e) # out, c \<or> changed))"

text \<open>What the canonical encoder sees; an error left in place is a struct with no exported field.\<close>

fun to_goval :: "dval \<Rightarrow> goval" where
  "to_goval DNil = GNil"
| "to_goval (DErr text) = GStruct []"
| "to_goval (DStr s) = GStr s"
| "to_goval (DMap string_key m) =
     GMap string_key (map_option (map (\<lambda>(k, v). (k, to_goval v))) m)"
| "to_goval (DSlice u8 vs) = (if u8 then GBytes else GSlice (map_option (map to_goval) vs))"
| "to_goval (DArray u8 vs) = (if u8 then GBytes else GArray (map to_goval vs))"
| "to_goval (DPlain v) = v"

text \<open>\<open>encodable\<close>; \<open>render\<close> is \<open>fmt.Sprintf("%v", v)\<close>.\<close>

definition encodable :: "(dval \<Rightarrow> string) \<Rightarrow> dval \<Rightarrow> goval \<times> bool" where
  "encodable render v =
     (let (w, repaired) = repairDetail v in
      case Encode (to_goval w) of
        Inr b \<Rightarrow> (to_goval w, repaired)
      | Inl e \<Rightarrow>
          (let s = validUTF8 (render w) in
           case Encode (GStr s) of
             Inl e' \<Rightarrow> (GStr ''<unrepresentable value>'', True)
           | Inr b \<Rightarrow> (GStr s, True)))"

record mutation =
  m_detail :: "(string \<times> goval) list"
  m_coerced :: "string list"

definition mutation_reset :: mutation where
  "mutation_reset = \<lparr>m_detail = [], m_coerced = []\<rparr>"

definition Detail :: "(dval \<Rightarrow> string) \<Rightarrow> string \<Rightarrow> dval \<Rightarrow> mutation \<Rightarrow> mutation" where
  "Detail render key value m =
     (let k = validUTF8 key; (v, coerced) = encodable render value in
      m\<lparr>m_detail := put k v (m_detail m), m_coerced := m_coerced m @ (if coerced then [k] else [])\<rparr>)"

definition snapshot :: "mutation \<Rightarrow> (string \<times> goval) list" where
  "snapshot m =
     (if m_coerced m = [] then m_detail m
      else put ''_coerced'' (GSlice (Some (map GStr (sort_strings (m_coerced m))))) (m_detail m))"

section \<open>Requests and outcomes\<close>

record Request =
  q_actor :: Actor
  q_source :: Source
  q_action :: string
  q_target :: "Target option"
  q_intent :: string
  q_just :: string

definition encodable_request :: "Request \<Rightarrow> Request" where
  "encodable_request r =
     \<lparr>q_actor = \<lparr>actor_id = validUTF8 (actor_id (q_actor r)), actor_method = validUTF8 (actor_method (q_actor r)),
                 actor_session = validUTF8 (actor_session (q_actor r))\<rparr>,
      q_source = \<lparr>source_ip = validUTF8 (source_ip (q_source r)), source_version = validUTF8 (source_version (q_source r))\<rparr>,
      q_action = validUTF8 (q_action r),
      q_target = map_option (\<lambda>t. \<lparr>target_kind = validUTF8 (target_kind t), target_id = validUTF8 (target_id t)\<rparr>) (q_target r),
      q_intent = validUTF8 (q_intent r), q_just = validUTF8 (q_just r)\<rparr>"

fun isPartial :: "goerr \<Rightarrow> bool" where
  "isPartial (GoErr s) = False"
| "isPartial (PartialErr e) = True"
| "isPartial (Wrapped s es) = list_ex isPartial es"
| "isPartial (Joined es) = list_ex isPartial es"

text \<open>\<open>errors.Is\<close>, with structural equality for the identity of errors.\<close>

fun err_is :: "goerr \<Rightarrow> goerr \<Rightarrow> bool" where
  "err_is (GoErr s) t = (GoErr s = t)"
| "err_is (PartialErr e) t = (PartialErr e = t \<or> err_is e t)"
| "err_is (Wrapped s es) t = (Wrapped s es = t \<or> list_ex (\<lambda>e. err_is e t) es)"
| "err_is (Joined es) t = (Joined es = t \<or> list_ex (\<lambda>e. err_is e t) es)"

definition outcomeOf :: "goerr option \<Rightarrow> string" where
  "outcomeOf actErr =
     (case actErr of None \<Rightarrow> OutcomeSuccess | Some e \<Rightarrow> if isPartial e then OutcomePartial else OutcomeFailure)"

definition log_entry :: "int \<Rightarrow> Request \<Rightarrow> string \<Rightarrow> mutation \<Rightarrow> goerr option \<Rightarrow> Entry" where
  "log_entry now req outcome m actErr =
     (let detail = (case actErr of
                      None \<Rightarrow> snapshot m
                    | Some e \<Rightarrow> put ''error'' (GStr (truncate_text (err_text e) maxErrorTail)) (snapshot m));
          r = encodable_request req in
      \<lparr>eTS = now, eActor = q_actor r, eSource = q_source r, eAction = q_action r, eTarget = q_target r,
       eIntentHash = q_intent r, eJustification = q_just r, eOutcome = outcome, eDetail = detail\<rparr>)"

section \<open>Act\<close>

record 'w world =
  w_app :: 'w
  w_db :: audit_db

text \<open>The variables the transaction's callback assigns.\<close>

record captured =
  c_mutation :: mutation
  c_actErr :: "goerr option"
  c_record :: "Record option"

definition append_goerr :: "append_err \<Rightarrow> goerr" where
  "append_goerr e =
     (case e of RandomFailed \<Rightarrow> GoErr ''minting an installation id''
      | BadRecord b \<Rightarrow> GoErr ''audit record is not well formed''
      | ConstraintFailed \<Rightarrow> GoErr ''writing audit record'')"

definition append_tx :: "(string \<Rightarrow> string) \<Rightarrow> nat list option \<Rightarrow> tx_env \<Rightarrow> Entry \<Rightarrow> 'w world \<Rightarrow>
    Record option \<times> goerr option \<times> 'w world" where
  "append_tx sha raw env e w =
     WriteTx env
       (\<lambda>c w. case AppendTx sha raw e (w_db w) of
                Inl err \<Rightarrow> (c, Inl (append_goerr err))
              | Inr (r, db') \<Rightarrow> (Some r, Inr (w\<lparr>w_db := db'\<rparr>))) None w"

text \<open>
  The callback is handed the raw transaction, so a mutation ranges over the whole database: the
  application's tables and the audit tables (retention prunes those inside \<open>Act\<close>).
\<close>

type_synonym 'w action = "'w world \<Rightarrow> goerr option \<times> (string \<times> dval) list \<times> 'w world"

definition act_body :: "(string \<Rightarrow> string) \<Rightarrow> (dval \<Rightarrow> string) \<Rightarrow> nat list option \<Rightarrow> int \<Rightarrow> Request \<Rightarrow> 'w action \<Rightarrow>
    captured \<Rightarrow> 'w world \<Rightarrow> captured \<times> (goerr + 'w world)" where
  "act_body sha render raw now req fn c w =
     (let (err, details, w1) = fn w;
          m = foldl (\<lambda>m (k, v). Detail render k v m) mutation_reset details;
          c1 = \<lparr>c_mutation = m, c_actErr = err, c_record = None\<rparr> in
      case err of
        Some e \<Rightarrow>
          if \<not> isPartial e then (c1, Inl e)
          else (case AppendTx sha raw (log_entry now req (outcomeOf err) m err) (w_db w1) of
                  Inl ae \<Rightarrow> (c1, Inl (append_goerr ae))
                | Inr (r, db') \<Rightarrow> (c1\<lparr>c_record := Some r\<rparr>, Inr (w1\<lparr>w_db := db'\<rparr>)))
      | None \<Rightarrow>
          (case AppendTx sha raw (log_entry now req (outcomeOf None) m None) (w_db w1) of
             Inl ae \<Rightarrow> (c1, Inl (append_goerr ae))
           | Inr (r, db') \<Rightarrow> (c1\<lparr>c_record := Some r\<rparr>, Inr (w1\<lparr>w_db := db'\<rparr>))))"

text \<open>\<open>emit\<close>: a record that was committed is handed to the sinks; \<open>answer r\<close> is what they return.\<close>

definition emit_record :: "(Record \<Rightarrow> sink \<Rightarrow> goerr option) \<Rightarrow> Record option \<Rightarrow> Delivery \<Rightarrow> Delivery" where
  "emit_record answer r d =
     (case r of
        None \<Rightarrow> d
      | Some rec \<Rightarrow>
          if rSeq rec = 0 then d
          else (case Line rec of
                  Inl e \<Rightarrow> d\<lparr>d_warned := d_warned d @ [''audit record cannot be serialized'']\<rparr>
                | Inr line \<Rightarrow> Emit (answer rec) d))"

text \<open>The record of a refusal or a rolled-back failure, written in a transaction of its own.\<close>

definition ErrDeliveryBlocked :: "goerr \<Rightarrow> goerr" where
  "ErrDeliveryBlocked err =
     Wrapped (''refused: audit delivery is failing: '' @ err_text err) [GoErr ''refused: audit delivery is failing'', err]"

definition conclude :: "(Record \<Rightarrow> sink \<Rightarrow> goerr option) \<Rightarrow> string \<Rightarrow> goerr \<Rightarrow> Delivery \<Rightarrow>
    Record option \<times> goerr option \<times> 'w world \<Rightarrow> (Record option \<times> goerr option) \<times> Delivery \<times> 'w world" where
  "conclude answer doing cause d res =
     (let (r, ae, w') = res in
      case ae of
        Some e \<Rightarrow> ((None, Some (Joined [cause, Wrapped (doing @ err_text e) [e]])), d, w')
      | None \<Rightarrow> ((r, Some cause), emit_record answer r d, w'))"

definition Act :: "(string \<Rightarrow> string) \<Rightarrow> (dval \<Rightarrow> string) \<Rightarrow> nat list option \<Rightarrow> int \<Rightarrow> tx_env \<Rightarrow> tx_env \<Rightarrow>
    (Record \<Rightarrow> sink \<Rightarrow> goerr option) \<Rightarrow> Request \<Rightarrow> 'w action \<Rightarrow> Delivery \<Rightarrow> 'w world \<Rightarrow>
    (Record option \<times> goerr option) \<times> Delivery \<times> 'w world" where
  "Act sha render raw now env1 env2 answer req fn d w =
     (case Blocked d of
        Some err \<Rightarrow>
          conclude answer ''recording the refusal: '' (ErrDeliveryBlocked err) d
            (append_tx sha raw env2
               (log_entry now req OutcomeFailure mutation_reset (Some (ErrDeliveryBlocked err))) w)
      | None \<Rightarrow>
          (let (c, txErr, w1) = WriteTx env1 (act_body sha render raw now req fn)
                 \<lparr>c_mutation = mutation_reset, c_actErr = None, c_record = None\<rparr> w in
           case txErr of
             None \<Rightarrow> ((c_record c, c_actErr c), emit_record answer (c_record c) d, w1)
           | Some te \<Rightarrow>
               (case c_actErr c of
                  None \<Rightarrow> ((None, Some te), d, w1)
                | Some actErr \<Rightarrow>
                    let cause = (if err_is te actErr then actErr else Joined [actErr, te]) in
                    conclude answer ''recording the failure: '' cause d
                      (append_tx sha raw env2
                         (log_entry now req (outcomeOf (Some actErr)) (c_mutation c) (Some cause)) w1))))"

section \<open>Every detail encodes\<close>

lemma enc_unrepresentable: "enc (GStr ''<unrepresentable value>'') \<noteq> None"
  by (rule enc_ok(1)) (simp add: ascii_valid)

lemma encodable_encodes: "enc (fst (encodable render v)) \<noteq> None"
proof -
  obtain w c where w: "repairDetail v = (w, c)" by (cases "repairDetail v")
  show ?thesis
  proof (cases "Encode (to_goval w)")
    case (Inr b)
    with w show ?thesis by (simp add: encodable_def enc_def)
  next
    case (Inl e)
    with w enc_ok(1) [OF validUTF8_valid, of "render w"] enc_unrepresentable show ?thesis
      by (auto simp: encodable_def enc_def Let_def split: sum.splits)
  qed
qed

definition detail_ok :: "(string \<times> goval) list \<Rightarrow> bool" where
  "detail_ok m \<longleftrightarrow> (\<forall>(k, v) \<in> set m. enc v \<noteq> None \<and> valid_utf8 (bytes k))"

lemma set_put_subset: "set (put k v m) \<subseteq> insert (k, v) (set m)"
  by (induction k v m rule: put.induct) auto

lemma detail_ok_put: "detail_ok m \<Longrightarrow> enc v \<noteq> None \<Longrightarrow> valid_utf8 (bytes k) \<Longrightarrow> detail_ok (put k v m)"
  using set_put_subset [of k v m] by (fastforce simp: detail_ok_def simp del: not_None_eq)

definition mutation_ok :: "mutation \<Rightarrow> bool" where
  "mutation_ok m \<longleftrightarrow> detail_ok (m_detail m) \<and> (\<forall>k \<in> set (m_coerced m). valid_utf8 (bytes k))"

lemma Detail_ok: "mutation_ok m \<Longrightarrow> mutation_ok (Detail render k v m)"
  using encodable_encodes [of render v] validUTF8_valid [of k]
  by (auto simp: mutation_ok_def Detail_def Let_def split_beta detail_ok_put simp del: not_None_eq)

lemma details_ok: "mutation_ok m \<Longrightarrow> mutation_ok (foldl (\<lambda>m (k, v). Detail render k v m) m details)"
  by (induction details arbitrary: m) (auto simp: Detail_ok)

lemma enc_strings: "\<forall>s \<in> set ss. valid_utf8 (bytes s) \<Longrightarrow> enc (GSlice (Some (map GStr ss))) \<noteq> None"
proof -
  assume v: "\<forall>s \<in> set ss. valid_utf8 (bytes s)"
  have f: "from_items p i (map GStr xs) = Inr (map IStr xs)" for p i xs
    by (induction xs arbitrary: i) auto
  have "\<exists>b. encode_items p i (map IStr xs) = Inr b" if "\<forall>s \<in> set xs. valid_utf8 (bytes s)" for p i xs
    using that by (induction xs arbitrary: i) (auto simp: write_string_def)
  with v obtain b where "encode_items [] 0 (map IStr ss) = Inr b" by blast
  then show ?thesis by (simp add: enc_def Encode_def marshal_def f)
qed

lemma snapshot_ok: "mutation_ok m \<Longrightarrow> detail_ok (snapshot m)"
  using enc_strings [of "sort_strings (m_coerced m)"]
  by (auto simp: snapshot_def mutation_ok_def sort_strings_def ascii_valid intro!: detail_ok_put)

lemma reset_ok: "mutation_ok mutation_reset"
  by (simp add: mutation_ok_def mutation_reset_def detail_ok_def)

lemma log_entry_detail_ok:
  assumes "mutation_ok m"
  shows "detail_ok (eDetail (log_entry now req outcome m err))"
proof (cases err)
  case None
  with snapshot_ok [OF assms] show ?thesis by (simp add: log_entry_def Let_def)
next
  case (Some e)
  have "detail_ok (put ''error'' (GStr (truncate_text (err_text e) maxErrorTail)) (snapshot m))"
    by (rule detail_ok_put [OF snapshot_ok [OF assms] enc_ok(1) [OF truncate_valid] ascii_valid]) simp
  with Some show ?thesis by (simp add: log_entry_def Let_def)
qed

text \<open>The texts of an entry that \<open>Act\<close> assembles are well formed whatever the caller passed.\<close>

lemma log_entry_printable:
  assumes "mutation_ok m" and "valid_utf8 (bytes outcome)"
    and "ascii install" and "ascii (snd t)" and "\<bar>fst t + 1\<bar> \<le> 2 ^ 53"
  shows "printable (next_record install t (log_entry now req outcome m err))"
proof -
  let ?e = "log_entry now req outcome m err"
  have "\<exists>d. encode_map (eDetail ?e) = Inr d"
    using encode_map_ok log_entry_detail_ok [OF assms(1)] by (auto simp: detail_ok_def)
  then show ?thesis
    using assms(2-5) by (auto simp: printable_def in_range_def texts_def targetFields_def detailJSON_def
        next_record_def Version_def log_entry_def Let_def encodable_request_def validUTF8_valid ascii_valid
        split: option.splits)
qed

lemma outcome_ascii: "valid_utf8 (bytes (outcomeOf e))"
  by (auto simp: outcomeOf_def OutcomeSuccess_def OutcomeFailure_def OutcomePartial_def ascii_valid split: option.splits)

text \<open>
  no detail and no request can keep a record from being hashed: whatever bytes the caller, a
  subprocess or an error supplied, the record that \<open>Act\<close> assembles has a preimage.
\<close>

theorem act_record_always_encodes:
  assumes "ascii install" and "ascii prev" and "0 \<le> seq" and "seq < 2 ^ 53"
  shows "\<exists>b. Preimage (next_record install (seq, prev)
     (log_entry now req (outcomeOf err) (foldl (\<lambda>m (k, v). Detail render k v m) mutation_reset details) cause)) = Inr b"
  by (rule Preimage_ok, rule log_entry_printable) (use assms details_ok [OF reset_ok] outcome_ascii in auto)

theorem act_record_always_encodes_witness:
  "\<exists>b. Preimage (next_record ''ins_0'' (0, GenesisPrevHash)
     (log_entry 0 \<lparr>q_actor = \<lparr>actor_id = [CHR 0xFF], actor_method = ''local'', actor_session = []\<rparr>,
         q_source = \<lparr>source_ip = [], source_version = []\<rparr>, q_action = ''x'', q_target = None, q_intent = [], q_just = []\<rparr>
       (outcomeOf (Some (GoErr [CHR 0xC3])))
       (foldl (\<lambda>m (k, v). Detail (\<lambda>v. []) k v m) mutation_reset [(''stdout'', DStr [CHR 0xFF]), (''chan'', DPlain GOther)])
       (Some (GoErr [CHR 0xC3])))) = Inr b"
proof -
  have "ascii GenesisPrevHash" by (simp add: GenesisPrevHash_def ascii_def)
  moreover have "ascii ''ins_0''" by simp
  ultimately show ?thesis by (intro act_record_always_encodes) simp_all
qed

section \<open>What Act leaves behind\<close>

lemma append_tx_world:
  assumes "append_tx sha raw env e w = (r, ae, w')"
  shows "(ae = None \<and> (\<exists>x db'. r = Some x \<and> AppendTx sha raw e (w_db w) = Inr (x, db') \<and> w' = w\<lparr>w_db := db'\<rparr>)) \<or>
    (ae \<noteq> None \<and> w' = w)"
proof (cases ae)
  case None
  with assms WriteTx_commits show ?thesis
    unfolding append_tx_def by (fastforce split: sum.splits prod.splits)
next
  case (Some x)
  with assms WriteTx_atomic show ?thesis unfolding append_tx_def by fast
qed

lemma act_body_Inr:
  assumes "act_body sha render raw now req fn c w = (c', Inr w')"
  obtains r e where "c_record c' = Some r" "AppendTx sha raw e (w_db (snd (snd (fn w)))) = Inr (r, w_db w')"
    "eOutcome e = outcomeOf (c_actErr c')" "c_actErr c' = None \<or> (\<exists>x. c_actErr c' = Some x \<and> isPartial x)"
    "w_app w' = w_app (snd (snd (fn w)))" "c_actErr c' = fst (fn w)"
  using assms
  by (auto simp: act_body_def Let_def log_entry_def split_beta split: option.splits sum.splits if_splits
      elim!: meta_mp)

lemma conclude_append:
  assumes "conclude answer doing cause d (append_tx sha raw env e w) = ((r, err), d', w')"
  shows "(r = None \<and> w' = w) \<or>
    (\<exists>x. r = Some x \<and> err \<noteq> None \<and> AppendTx sha raw e (w_db w) = Inr (x, w_db w') \<and> w_app w' = w_app w)"
proof -
  obtain r1 ae w1 where a: "append_tx sha raw env e w = (r1, ae, w1)" using prod_cases3 by blast
  from append_tx_world [OF a] assms show ?thesis
    unfolding a by (cases ae) (auto simp: conclude_def)
qed

lemma log_entry_outcome [simp]: "eOutcome (log_entry now req outcome m err) = outcome"
  by (simp add: log_entry_def Let_def)

lemma outcome_of_error: "outcomeOf (Some e) \<in> {OutcomeFailure, OutcomePartial}"
  by (simp add: outcomeOf_def)

text \<open>
  Every way through \<open>Act\<close>: nothing committed; the mutation committed with the record appended to the
  tables it left; or the record of a refusal or of a failure appended to the tables as they were.
\<close>

lemma Act_cases:
  assumes "Act sha render raw now env1 env2 answer req fn d w = ((r, err), d', w')"
  obtains "r = None" "w' = w"
  | x e where "r = Some x" "Blocked d = None" "err = fst (fn w)"
      "AppendTx sha raw e (w_db (snd (snd (fn w)))) = Inr (x, w_db w')"
      "w_app w' = w_app (snd (snd (fn w)))" "eOutcome e \<in> {OutcomeSuccess, OutcomePartial}"
  | x e where "r = Some x" "err \<noteq> None" "AppendTx sha raw e (w_db w) = Inr (x, w_db w')"
      "w_app w' = w_app w" "eOutcome e \<in> {OutcomeFailure, OutcomePartial}"
proof (cases "Blocked d")
  case (Some b)
  with assms have "conclude answer ''recording the refusal: '' (ErrDeliveryBlocked b) d
      (append_tx sha raw env2 (log_entry now req OutcomeFailure mutation_reset (Some (ErrDeliveryBlocked b))) w)
      = ((r, err), d', w')" by (simp add: Act_def)
  from conclude_append [OF this] show thesis using that(1,3) by (metis insertI1 log_entry_outcome)
next
  case nb: None
  obtain c txErr w1 where W: "WriteTx env1 (act_body sha render raw now req fn)
     \<lparr>c_mutation = mutation_reset, c_actErr = None, c_record = None\<rparr> w = (c, txErr, w1)"
    using prod_cases3 by blast
  show thesis
  proof (cases txErr)
    case None
    have b: "act_body sha render raw now req fn \<lparr>c_mutation = mutation_reset, c_actErr = None, c_record = None\<rparr> w
        = (c, Inr w1)" by (rule WriteTx_commits [OF W [unfolded None]])
    have r: "r = c_record c" "w' = w1" "err = c_actErr c" using assms nb W None by (simp_all add: Act_def)
    from b show thesis
    proof (rule act_body_Inr)
      fix x e
      assume x: "c_record c = Some x" "AppendTx sha raw e (w_db (snd (snd (fn w)))) = Inr (x, w_db w1)"
        "eOutcome e = outcomeOf (c_actErr c)" "c_actErr c = None \<or> (\<exists>y. c_actErr c = Some y \<and> isPartial y)"
        "w_app w1 = w_app (snd (snd (fn w)))" "c_actErr c = fst (fn w)"
      have o: "eOutcome e \<in> {OutcomeSuccess, OutcomePartial}" using x(3,4) by (auto simp: outcomeOf_def)
      show thesis by (rule that(2) [OF _ _ _ _ _ o]) (use x(1,2,5,6) nb r in simp_all)
    qed
  next
    case (Some te)
    have w1: "w1 = w" by (rule WriteTx_atomic [OF W [unfolded Some]])
    show thesis
    proof (cases "c_actErr c")
      case None
      with assms nb W Some w1 show thesis by (intro that(1)) (simp_all add: Act_def)
    next
      case act: (Some act)
      define cause where "cause = (if err_is te act then act else Joined [act, te])"
      from assms nb W Some w1 act have "conclude answer ''recording the failure: '' cause d
          (append_tx sha raw env2 (log_entry now req (outcomeOf (Some act)) (c_mutation c) (Some cause)) w)
          = ((r, err), d', w')" by (simp add: Act_def Let_def cause_def)
      from conclude_append [OF this] show thesis using that(1,3) outcome_of_error [of act] by (metis log_entry_outcome)
    qed
  qed
qed

lemma AppendTx_outcome: "AppendTx sha raw e db = Inr (x, db') \<Longrightarrow> rOutcome x = eOutcome e"
  by (erule AppendTx_Inr) (simp add: next_record_def)

text \<open>
  C11: \<open>Act\<close> keeps the chain and never changes state silently.  Without a record the database is as it
  was.  With one, the tables are one linked chain, and either the mutation committed, with its whole
  effect and the record of a success or a partial success behind the tables it left, or the database
  is as it was but for the record of the refusal or failure, and the caller got an error.  A mutation
  may write the audit tables (pruning does), as long as it leaves a chain there.
\<close>

theorem act_is_audited:
  assumes "chain_ok sha (w_db w)" and "chain_ok sha (w_db (snd (snd (fn w))))"
    and "Act sha render raw now env1 env2 answer req fn d w = ((r, err), d', w')"
  shows "case r of
      None \<Rightarrow> w' = w
    | Some x \<Rightarrow> chain_ok sha (w_db w') \<and>
        (let w1 = snd (snd (fn w)) in
         (Blocked d = None \<and> err = fst (fn w) \<and> rOutcome x \<in> {OutcomeSuccess, OutcomePartial} \<and>
            w_app w' = w_app w1 \<and> db_rows (w_db w') = db_rows (w_db w1) @ [x]) \<or>
         (err \<noteq> None \<and> rOutcome x \<in> {OutcomeFailure, OutcomePartial} \<and>
            w_app w' = w_app w \<and> db_rows (w_db w') = db_rows (w_db w) @ [x]))"
  using assms(3)
proof (cases rule: Act_cases)
  case 1
  then show ?thesis by simp
next
  case (2 x e)
  with AppendTx_chain_ok [OF assms(2) 2(4)] AppendTx_rows(1) [OF assms(2) 2(4)] AppendTx_outcome [OF 2(4)]
  show ?thesis by simp
next
  case (3 x e)
  with AppendTx_chain_ok [OF assms(1) 3(3)] AppendTx_rows(1) [OF assms(1) 3(3)] AppendTx_outcome [OF 3(3)]
  show ?thesis by simp
qed

theorem act_is_audited_witness:
  "\<exists>r err d' w'. Act sample_sha (\<lambda>v. []) (Some (replicate 16 0)) 0
      \<lparr>read_only = False, begin_err = None, ctx_err = None, commit_err = None\<rparr>
      \<lparr>read_only = False, begin_err = None, ctx_err = None, commit_err = None\<rparr> (\<lambda>r s. None)
      \<lparr>q_actor = \<lparr>actor_id = ''usr_1'', actor_method = ''token'', actor_session = []\<rparr>,
       q_source = \<lparr>source_ip = [], source_version = ''1.0''\<rparr>, q_action = ''user.create'', q_target = None,
       q_intent = [], q_just = []\<rparr>
      (\<lambda>w. (None, [(''n'', DStr ''1'')], w\<lparr>w_app := Suc (w_app w)\<rparr>)) (NewDelivery [] Warn)
      \<lparr>w_app = 0, w_db = empty_db\<rparr>
      = ((r, err), d', w') \<and> (r \<noteq> None \<longrightarrow> chain_ok sample_sha (w_db w'))"
  (is "\<exists>r err d' w'. ?act = _ \<and> _")
proof -
  let ?w = "\<lparr>w_app = 0 :: nat, w_db = empty_db\<rparr>"
  obtain p d' w' where p: "?act = (p, d', w')" by (rule prod_cases3)
  obtain r err where "p = (r, err)" by (rule prod.exhaust)
  with p have a: "?act = ((r, err), d', w')" by (simp only:)
  have c: "chain_ok sample_sha (w_db ?w)" by (simp add: empty_db_chain_ok)
  have "chain_ok sample_sha (w_db (snd (snd ((None :: goerr option, [(''n'', DStr ''1'')], ?w\<lparr>w_app := Suc (w_app ?w)\<rparr>)))))"
    by (simp add: empty_db_chain_ok)
  note audited = act_is_audited [OF c this a]
  have "r \<noteq> None \<longrightarrow> chain_ok sample_sha (w_db w')"
  proof
    assume "r \<noteq> None"
    then obtain x where "r = Some x" by blast
    from audited show "chain_ok sample_sha (w_db w')" unfolding \<open>r = Some x\<close> option.case by (rule conjunct1)
  qed
  with a show ?thesis by blast
qed

end
