(* ===== verification/Identity.thy ===== *)
theory Identity
  imports "HOL-Library.Product_Lexorder" Timestamps AuditLog
begin

text \<open>
  \<^verbatim>\<open>internal/identity\<close>: roles (role.go), accounts (user.go), credentials and join tokens (token.go),
  principals (principal.go) and their reports (report.go).  The tables hold timestamps as text in \<open>audit.TimeFormat\<close>;
  a zero \<open>time.Time\<close> is a NULL column.  A mutation returns its value, the tables and the details it put
  on the audit record, or an error, after which the transaction holds nothing.  What \<open>crypto/rand\<close>
  yields, already in base32, is an argument, \<open>None\<close> when it fails.
\<close>

section \<open>Roles\<close>

definition RoleViewer :: string where "RoleViewer = ''viewer''"
definition RoleUser :: string where "RoleUser = ''user''"
definition RoleOperator :: string where "RoleOperator = ''operator''"
definition RoleAdmin :: string where "RoleAdmin = ''admin''"

definition Roles :: "string list" where
  "Roles = [RoleViewer, RoleUser, RoleOperator, RoleAdmin]"

datatype ident_err = ErrUnknownRole string | ErrDenied string "string option" | ErrNotFound string
  | ErrNameTaken string | ErrBadName string | ErrBadTransition string | ErrUnknownKind string | ErrBadToken
  | ErrTokenRevoked string | ErrTokenExpired string | ErrNotActive string | ErrNoTokens string
  | Unreadable string | ErrRandom | ErrConstraint string

fun index_of :: "'a \<Rightarrow> 'a list \<Rightarrow> nat option" where
  "index_of x [] = None"
| "index_of x (y # ys) = (if x = y then Some 0 else map_option Suc (index_of x ys))"

text \<open>\<open>slices.Index\<close> gives -1 for an unknown role, whose rank is then 0.\<close>

definition rank :: "string \<Rightarrow> nat" where
  "rank r = (case index_of r Roles of None \<Rightarrow> 0 | Some i \<Rightarrow> i + 1)"

definition role_Valid :: "string \<Rightarrow> bool" where "role_Valid r \<longleftrightarrow> r \<in> set Roles"

definition ParseRole :: "string \<Rightarrow> ident_err + string" where
  "ParseRole s = (if role_Valid s then Inr s else Inl (ErrUnknownRole s))"

definition joinWords :: "string list \<Rightarrow> string" where
  "joinWords ws =
     (case ws of [] \<Rightarrow> [] | [w] \<Rightarrow> w
      | _ \<Rightarrow> join '', '' (butlast ws) @ '' or '' @ last ws)"

definition JoinRoles :: string where "JoinRoles = joinWords Roles"

definition minimumRole :: "string \<Rightarrow> string option" where
  "minimumRole p = map_of
     [(''state.read'', RoleViewer), (''usage.read.self'', RoleViewer), (''inference.use'', RoleUser),
      (''model.enable'', RoleOperator), (''model.disable'', RoleOperator), (''model.restart'', RoleOperator),
      (''model.stage'', RoleOperator), (''node.drain'', RoleOperator), (''config.write'', RoleAdmin),
      (''catalog.write'', RoleAdmin), (''backend.register'', RoleAdmin), (''node.approve'', RoleAdmin),
      (''user.manage'', RoleAdmin), (''token.manage'', RoleAdmin), (''policy.apply'', RoleAdmin)] p"

definition Can :: "string \<Rightarrow> string \<Rightarrow> bool" where
  "Can r p = (case minimumRole p of None \<Rightarrow> False | Some m \<Rightarrow> rank m \<le> rank r)"

definition Authorize :: "string \<Rightarrow> string \<Rightarrow> ident_err + unit" where
  "Authorize r p = (if Can r p then Inr () else Inl (ErrDenied p (minimumRole p)))"

section \<open>Tables\<close>

record user_row =
  ur_id :: string
  ur_name :: string
  ur_email :: "string option"
  ur_role :: string
  ur_state :: string
  ur_seed :: "string option"
  ur_step :: "int option"
  ur_enrolled :: "string option"
  ur_password :: "string option"
  ur_created :: string

record token_row =
  tk_id :: string
  tk_user :: string
  tk_kind :: string
  tk_hash :: string
  tk_prefix :: string
  tk_name :: "string option"
  tk_expires :: "string option"
  tk_revoked :: "string option"
  tk_used :: "string option"
  tk_unattended :: bool
  tk_created :: string

record join_row =
  jn_id :: string
  jn_hash :: string
  jn_prefix :: string
  jn_uses :: int
  jn_expires :: string
  jn_by :: string
  jn_created :: string

record id_db =
  d_users :: "user_row list"
  d_tokens :: "token_row list"
  d_joins :: "join_row list"

type_synonym detail = "(string \<times> goval) list"
type_synonym 'a act = "ident_err + 'a \<times> id_db \<times> detail"

section \<open>Times\<close>

definition truncateTime :: "int \<Rightarrow> int" where
  "truncateTime t = (if t = zero_time then t else trunc_ms t)"

definition formatTime :: "int \<Rightarrow> string" where "formatTime t = format_ts t"

definition nullableTime :: "int \<Rightarrow> string option" where
  "nullableTime t = (if t = zero_time then None else Some (formatTime t))"

definition nullable_text :: "string \<Rightarrow> string option" where
  "nullable_text s = (if trim_space s = [] then None else Some s)"

definition null_text :: "string option \<Rightarrow> string" where
  "null_text s = (case s of None \<Rightarrow> [] | Some t \<Rightarrow> t)"

definition read_time :: "string \<Rightarrow> ident_err + int" where
  "read_time s = (case parse_ts s of None \<Rightarrow> Inl (Unreadable s) | Some t \<Rightarrow> Inr t)"

definition read_null_time :: "string option \<Rightarrow> ident_err + int" where
  "read_null_time s = (case s of None \<Rightarrow> Inr zero_time | Some t \<Rightarrow> read_time t)"

section \<open>Accounts\<close>

definition StateActive :: string where "StateActive = ''active''"
definition StateSuspended :: string where "StateSuspended = ''suspended''"
definition StateDeleted :: string where "StateDeleted = ''deleted''"

definition transitions :: "string \<Rightarrow> string list" where
  "transitions s =
     (if s = StateActive then [StateSuspended, StateDeleted]
      else if s = StateSuspended then [StateDeleted] else [])"

record User =
  us_id :: string
  us_name :: string
  us_email :: string
  us_role :: string
  us_state :: string
  us_totp :: bool
  us_created :: int

definition Active :: "User \<Rightarrow> bool" where "Active u \<longleftrightarrow> us_state u = StateActive"

definition scanUser :: "user_row \<Rightarrow> ident_err + User" where
  "scanUser r = sbind (read_time (ur_created r)) (\<lambda>ts.
     Inr \<lparr>us_id = ur_id r, us_name = ur_name r, us_email = null_text (ur_email r), us_role = ur_role r,
          us_state = ur_state r, us_totp = (ur_enrolled r \<noteq> None), us_created = ts\<rparr>)"

text \<open>\<open>ORDER BY state = 'deleted', created_at DESC LIMIT 1\<close>: the first of the best rows.\<close>

definition row_before :: "user_row \<Rightarrow> user_row \<Rightarrow> bool" where
  "row_before a b \<longleftrightarrow>
     (ur_state a \<noteq> StateDeleted \<and> ur_state b = StateDeleted) \<or>
     ((ur_state a = StateDeleted) = (ur_state b = StateDeleted) \<and> ur_created b < ur_created a)"

fun best_row :: "user_row list \<Rightarrow> user_row option" where
  "best_row [] = None"
| "best_row (r # rs) = (case best_row rs of None \<Rightarrow> Some r | Some b \<Rightarrow> if row_before b r then Some b else Some r)"

definition scan_one :: "string \<Rightarrow> user_row option \<Rightarrow> ident_err + User" where
  "scan_one key r = (case r of None \<Rightarrow> Inl (ErrNotFound key) | Some r \<Rightarrow> scanUser r)"

definition Get :: "id_db \<Rightarrow> string \<Rightarrow> ident_err + User" where
  "Get db name = scan_one name (best_row (filter (\<lambda>r. ur_name r = name) (d_users db)))"

definition getLive :: "id_db \<Rightarrow> string \<Rightarrow> ident_err + User" where
  "getLive db name = scan_one name (find (\<lambda>r. ur_name r = name \<and> ur_state r \<noteq> StateDeleted) (d_users db))"

definition GetByID :: "id_db \<Rightarrow> string \<Rightarrow> ident_err + User" where
  "GetByID db key = scan_one key (find (\<lambda>r. ur_id r = key) (d_users db))"

definition List :: "id_db \<Rightarrow> bool \<Rightarrow> ident_err + User list" where
  "List db deleted = traverse scanUser
     (sort_key (\<lambda>r. (ur_name r, ur_created r)) (filter (\<lambda>r. deleted \<or> ur_state r \<noteq> StateDeleted) (d_users db)))"

text \<open>\<open>unicode.IsSpace\<close> and \<open>unicode.IsControl\<close>.\<close>

definition blank_rune :: "nat \<Rightarrow> bool" where
  "blank_rune r \<longleftrightarrow> r \<le> 0x20 \<or> (0x7F \<le> r \<and> r \<le> 0xA0) \<or> r = 0x1680 \<or> (0x2000 \<le> r \<and> r \<le> 0x200A) \<or>
     r \<in> {0x2028, 0x2029, 0x202F, 0x205F, 0x3000}"

definition maxNameLength :: nat where "maxNameLength = 64"

definition checkName :: "string \<Rightarrow> ident_err + unit" where
  "checkName name =
     (if name = [] \<or> \<not> valid_utf8 (bytes name) \<or> maxNameLength < length name \<or>
         (\<exists>r \<in> set (runes (bytes name)). blank_rune r)
      then Inl (ErrBadName name) else Inr ())"

definition checkEmail :: "string \<Rightarrow> ident_err + unit" where
  "checkEmail email =
     (if email = [] then Inr ()
      else if \<not> valid_utf8 (bytes email) \<or> maxNameLength * 4 < length email \<or>
         (\<exists>r \<in> set (runes (bytes email)). blank_rune r)
      then Inl (ErrBadName email) else Inr ())"

text \<open>The constraints of the \<open>user\<close> table a row has to satisfy beside the rows already there.\<close>

definition user_row_ok :: "user_row \<Rightarrow> bool" where
  "user_row_ok r \<longleftrightarrow> has_prefix (ur_id r) ''usr_'' \<and> ur_name r \<noteq> [] \<and> ur_role r \<in> set Roles \<and>
     ur_state r \<in> {StateActive, StateSuspended, StateDeleted} \<and>
     (ur_seed r = None) = (ur_enrolled r = None) \<and>
     (case ur_step r of None \<Rightarrow> True | Some n \<Rightarrow> 0 \<le> n \<and> ur_seed r \<noteq> None) \<and>
     (ur_state r = StateDeleted \<longrightarrow> ur_seed r = None)"

definition insert_user :: "user_row \<Rightarrow> id_db \<Rightarrow> ident_err + id_db" where
  "insert_user r db =
     (if \<not> user_row_ok r \<or> (\<exists>x \<in> set (d_users db). ur_id x = ur_id r) \<or>
         (ur_state r \<noteq> StateDeleted \<and> (\<exists>x \<in> set (d_users db). ur_name x = ur_name r \<and> ur_state x \<noteq> StateDeleted))
      then Inl (ErrConstraint (ur_id r)) else Inr (db\<lparr>d_users := d_users db @ [r]\<rparr>))"

definition update_user :: "string \<Rightarrow> (user_row \<Rightarrow> user_row) \<Rightarrow> id_db \<Rightarrow> ident_err + id_db" where
  "update_user key f db =
     (let us = map (\<lambda>r. if ur_id r = key then f r else r) (d_users db) in
      if \<forall>r \<in> set us. ur_id r = key \<longrightarrow> user_row_ok r then Inr (db\<lparr>d_users := us\<rparr>)
      else Inl (ErrConstraint key))"

definition newID :: "string \<Rightarrow> string option \<Rightarrow> ident_err + string" where
  "newID prefix rnd = (case rnd of None \<Rightarrow> Inl ErrRandom | Some b \<Rightarrow> Inr (prefix @ b))"

definition Add :: "string option \<Rightarrow> string \<Rightarrow> int \<Rightarrow> string \<Rightarrow> string \<Rightarrow> string \<Rightarrow> id_db \<Rightarrow> User act" where
  "Add rnd by now name email role db =
     sbind (Authorize by ''user.manage'') (\<lambda>_.
     sbind (checkName name) (\<lambda>_.
     sbind (checkEmail email) (\<lambda>_.
     if \<not> role_Valid role then Inl (ErrUnknownRole role)
     else (case getLive db name of
             Inr u \<Rightarrow> Inl (ErrNameTaken name)
           | Inl (ErrNotFound _) \<Rightarrow>
               sbind (newID ''usr_'' rnd) (\<lambda>key.
               let u = \<lparr>us_id = key, us_name = name, us_email = email, us_role = role, us_state = StateActive,
                        us_totp = False, us_created = trunc_ms now\<rparr>;
                   r = \<lparr>ur_id = key, ur_name = name, ur_email = nullable_text email, ur_role = role,
                        ur_state = StateActive, ur_seed = None, ur_step = None, ur_enrolled = None,
                        ur_password = None, ur_created = format_ts (trunc_ms now)\<rparr> in
               sbind (insert_user r db) (\<lambda>db'.
               Inr (u, db', [(''name'', GStr name), (''role'', GStr role)])))
           | Inl e \<Rightarrow> Inl e))))"

definition prepare :: "string \<Rightarrow> string \<Rightarrow> string \<Rightarrow> id_db \<Rightarrow> ident_err + User" where
  "prepare by name to db =
     sbind (Authorize by ''user.manage'') (\<lambda>_.
     sbind (Get db name) (\<lambda>u.
     if to \<notin> set (transitions (us_state u)) then Inl (ErrBadTransition name) else Inr u))"

definition writeState :: "User \<Rightarrow> string \<Rightarrow> id_db \<Rightarrow> ident_err + (id_db \<times> detail)" where
  "writeState u to db =
     sbind (update_user (us_id u) (\<lambda>r. r\<lparr>ur_state := to\<rparr>) db) (\<lambda>db'.
     Inr (db', [(''name'', GStr (us_name u)), (''from'', GStr (us_state u)), (''to'', GStr to)]))"

text \<open>
  \<open>return u, writeState(..., &u, ...)\<close> does not fix whether the returned copy is taken before or after
  the call changes its state; the model returns the account as it was read.
\<close>

definition Suspend :: "string \<Rightarrow> string \<Rightarrow> id_db \<Rightarrow> User act" where
  "Suspend by name db =
     sbind (prepare by name StateSuspended db) (\<lambda>u.
     sbind (writeState u StateSuspended db) (\<lambda>(db', d). Inr (u, db', d)))"

definition scrub_seed :: "user_row \<Rightarrow> user_row" where
  "scrub_seed r = r\<lparr>ur_seed := None, ur_step := None, ur_enrolled := None\<rparr>"

definition revoke_all :: "int \<Rightarrow> string \<Rightarrow> id_db \<Rightarrow> id_db" where
  "revoke_all now user db = db\<lparr>d_tokens := map (\<lambda>t.
     if tk_user t = user \<and> tk_revoked t = None then t\<lparr>tk_revoked := Some (format_ts now)\<rparr> else t) (d_tokens db)\<rparr>"

definition revoked_count :: "string \<Rightarrow> id_db \<Rightarrow> int" where
  "revoked_count user db = int (length (filter (\<lambda>t. tk_user t = user \<and> tk_revoked t = None) (d_tokens db)))"

definition Delete :: "string \<Rightarrow> int \<Rightarrow> string \<Rightarrow> id_db \<Rightarrow> User act" where
  "Delete by now name db =
     sbind (prepare by name StateDeleted db) (\<lambda>u.
     sbind (update_user (us_id u) scrub_seed db) (\<lambda>db1.
     let db2 = revoke_all now (us_id u) db1 in
     sbind (writeState (u\<lparr>us_totp := False\<rparr>) StateDeleted db2) (\<lambda>(db3, d).
     Inr (u\<lparr>us_totp := False\<rparr>, db3, (''tokens_revoked'', GInt (revoked_count (us_id u) db1)) # d))))"

section \<open>Credentials\<close>

definition KindPersonal :: string where "KindPersonal = ''pt''"
definition KindService :: string where "KindService = ''sk''"
definition KindJoin :: string where "KindJoin = ''jt''"

definition Kinds :: "string list" where "Kinds = [KindJoin, KindService, KindPersonal]"
definition userKinds :: "string list" where "userKinds = [KindPersonal, KindService]"

definition Prefix :: "string \<Rightarrow> string" where "Prefix k = ''nodary_'' @ k @ ''_''"

definition ParseKind :: "string \<Rightarrow> ident_err + string" where
  "ParseKind s =
     (let k = trim_suffix (trim_prefix s ''nodary_'') ''_'' in
      if k \<in> set Kinds then Inr k else Inl (ErrUnknownKind s))"

definition kindOf :: "string \<Rightarrow> string option" where
  "kindOf presented = find (\<lambda>k. has_prefix presented (Prefix k)) Kinds"

definition mintSecret :: "string \<Rightarrow> string option \<Rightarrow> ident_err + string" where
  "mintSecret k rnd = (case rnd of None \<Rightarrow> Inl ErrRandom | Some b \<Rightarrow> Inr (Prefix k @ b))"

definition displayPrefixChars :: nat where "displayPrefixChars = 8"

definition displayPrefix :: "string \<Rightarrow> string \<Rightarrow> string" where
  "displayPrefix plaintext k = Prefix k @ take displayPrefixChars (trim_prefix plaintext (Prefix k))"

record Token =
  t_id :: string
  t_user :: string
  t_kind :: string
  t_prefix :: string
  t_name :: string
  t_expires :: int
  t_revoked :: int
  t_used :: int
  t_created :: int
  t_unattended :: bool

definition Revoked :: "Token \<Rightarrow> bool" where "Revoked t \<longleftrightarrow> t_revoked t \<noteq> zero_time"

definition Expired :: "Token \<Rightarrow> int \<Rightarrow> bool" where
  "Expired t now \<longleftrightarrow> t_expires t \<noteq> zero_time \<and> t_expires t \<le> now"

definition Usable :: "Token \<Rightarrow> int \<Rightarrow> bool" where "Usable t now \<longleftrightarrow> \<not> Revoked t \<and> \<not> Expired t now"

definition TokenState :: "Token \<Rightarrow> int \<Rightarrow> string" where
  "TokenState t now = (if Revoked t then ''revoked'' else if Expired t now then ''expired'' else ''active'')"

definition scanToken :: "token_row \<Rightarrow> ident_err + Token" where
  "scanToken r =
     sbind (read_null_time (tk_expires r)) (\<lambda>ex.
     sbind (read_null_time (tk_revoked r)) (\<lambda>rv.
     sbind (read_null_time (tk_used r)) (\<lambda>us.
     sbind (read_time (tk_created r)) (\<lambda>cr.
     Inr \<lparr>t_id = tk_id r, t_user = tk_user r, t_kind = tk_kind r, t_prefix = tk_prefix r,
          t_name = null_text (tk_name r), t_expires = ex, t_revoked = rv, t_used = us, t_created = cr,
          t_unattended = tk_unattended r\<rparr>))))"

definition TokenByID :: "id_db \<Rightarrow> string \<Rightarrow> ident_err + Token" where
  "TokenByID db key =
     (case find (\<lambda>t. tk_id t = key) (d_tokens db) of None \<Rightarrow> Inl (ErrNoTokens key) | Some r \<Rightarrow> scanToken r)"

definition tokenByHash :: "id_db \<Rightarrow> string \<Rightarrow> ident_err + Token" where
  "tokenByHash db h =
     (case find (\<lambda>t. tk_hash t = h) (d_tokens db) of None \<Rightarrow> Inl (ErrNoTokens []) | Some r \<Rightarrow> scanToken r)"

definition ListTokens :: "id_db \<Rightarrow> string \<Rightarrow> ident_err + Token list" where
  "ListTokens db user = traverse scanToken (sort_by
     (\<lambda>a b. tk_created b < tk_created a \<or> (tk_created a = tk_created b \<and> tk_id a < tk_id b))
     (filter (\<lambda>t. user = [] \<or> tk_user t = user) (d_tokens db)))"

text \<open>\<open>hashToken\<close> is SHA-256 in hex of the whole presented string: the argument \<open>sha\<close>.\<close>

definition insert_token :: "token_row \<Rightarrow> id_db \<Rightarrow> ident_err + id_db" where
  "insert_token r db =
     (if \<not> has_prefix (tk_id r) ''tok_'' \<or> tk_kind r \<notin> set userKinds \<or> length (tk_hash r) \<noteq> 64 \<or> tk_prefix r = [] \<or>
         (\<exists>x \<in> set (d_tokens db). tk_id x = tk_id r \<or> tk_hash x = tk_hash r) \<or>
         \<not> (\<exists>u \<in> set (d_users db). ur_id u = tk_user r)
      then Inl (ErrConstraint (tk_id r)) else Inr (db\<lparr>d_tokens := d_tokens db @ [r]\<rparr>))"

definition minted :: "string \<Rightarrow> User \<Rightarrow> string \<Rightarrow> string \<Rightarrow> string \<Rightarrow> int \<Rightarrow> int \<Rightarrow> bool \<Rightarrow> Token" where
  "minted key u kind plaintext name expires now unattended =
     \<lparr>t_id = key, t_user = us_id u, t_kind = kind, t_prefix = displayPrefix plaintext kind, t_name = name,
      t_expires = truncateTime expires, t_revoked = zero_time, t_used = zero_time,
      t_created = truncateTime now, t_unattended = unattended\<rparr>"

definition minted_row :: "string \<Rightarrow> Token \<Rightarrow> token_row" where
  "minted_row h t =
     \<lparr>tk_id = t_id t, tk_user = t_user t, tk_kind = t_kind t, tk_hash = h, tk_prefix = t_prefix t,
      tk_name = nullable_text (t_name t), tk_expires = nullableTime (t_expires t), tk_revoked = None,
      tk_used = None, tk_unattended = t_unattended t, tk_created = formatTime (t_created t)\<rparr>"

definition mint_checks :: "string \<Rightarrow> int \<Rightarrow> string \<Rightarrow> string \<Rightarrow> string \<Rightarrow> int \<Rightarrow> id_db \<Rightarrow> ident_err + User" where
  "mint_checks by now userName kind name expires db =
     sbind (Authorize by ''token.manage'') (\<lambda>_.
     if kind \<notin> set userKinds then Inl (ErrUnknownKind kind)
     else if name \<noteq> [] \<and> checkEmail name \<noteq> Inr () then Inl (ErrBadName name)
     else
     sbind (Get db userName) (\<lambda>u.
     if \<not> Active u then Inl (ErrNotActive userName)
     else if expires \<noteq> zero_time \<and> expires \<le> now then Inl (ErrBadName (format_ts expires))
     else Inr u))"

definition MintToken :: "(string \<Rightarrow> string) \<Rightarrow> string option \<Rightarrow> string option \<Rightarrow> string \<Rightarrow> int \<Rightarrow> string \<Rightarrow> string \<Rightarrow>
    string \<Rightarrow> int \<Rightarrow> bool \<Rightarrow> id_db \<Rightarrow> (Token \<times> string) act" where
  "MintToken sha secret rnd by now userName kind name expires unattended db =
     sbind (mint_checks by now userName kind name expires db) (\<lambda>u.
     sbind (mintSecret kind secret) (\<lambda>plaintext.
     sbind (newID ''tok_'' rnd) (\<lambda>key.
     let t = minted key u kind plaintext name expires now unattended in
     sbind (insert_token (minted_row (sha plaintext) t) db) (\<lambda>db'.
     Inr ((t, plaintext), db',
       [(''user'', GStr (us_name u)), (''kind'', GStr kind)] @
       (if unattended then [(''allow_unattended'', GBool True)] else []) @
       [(''prefix'', GStr (t_prefix t))])))))"

definition Authenticate :: "(string \<Rightarrow> string) \<Rightarrow> id_db \<Rightarrow> int \<Rightarrow> string \<Rightarrow> ident_err + User \<times> Token" where
  "Authenticate sha db now presented =
     (case kindOf presented of
        None \<Rightarrow> Inl ErrBadToken
      | Some kind \<Rightarrow>
          (case tokenByHash db (sha presented) of
             Inl (ErrNoTokens _) \<Rightarrow> Inl ErrBadToken
           | Inl e \<Rightarrow> Inl e
           | Inr t \<Rightarrow>
               if t_kind t \<noteq> kind then Inl ErrBadToken
               else if Revoked t then Inl (ErrTokenRevoked (t_prefix t))
               else if Expired t now then Inl (ErrTokenExpired (t_prefix t))
               else sbind (GetByID db (t_user t)) (\<lambda>u.
                 if \<not> Active u then Inl (ErrNotActive (us_name u)) else Inr (u, t))))"

definition Touch :: "int \<Rightarrow> string \<Rightarrow> id_db \<Rightarrow> ident_err + id_db" where
  "Touch now key db =
     (if key = [] then Inl (ErrNoTokens [])
      else Inr (db\<lparr>d_tokens := map (\<lambda>t. if tk_id t = key then t\<lparr>tk_used := Some (formatTime (truncateTime now))\<rparr> else t)
        (d_tokens db)\<rparr>))"

definition RevokeToken :: "string \<Rightarrow> int \<Rightarrow> string \<Rightarrow> id_db \<Rightarrow> Token act" where
  "RevokeToken by now key db =
     sbind (Authorize by ''token.manage'') (\<lambda>_.
     sbind (TokenByID db key) (\<lambda>t.
     if Revoked t then Inl (ErrBadTransition (t_prefix t))
     else
       (let db' = db\<lparr>d_tokens := map (\<lambda>r. if tk_id r = t_id t then r\<lparr>tk_revoked := Some (formatTime (truncateTime now))\<rparr> else r)
                    (d_tokens db)\<rparr> in
        Inr (t\<lparr>t_revoked := truncateTime now\<rparr>, db', [(''prefix'', GStr (t_prefix t)), (''kind'', GStr (t_kind t))]))))"

record principal =
  p_user :: User
  p_token :: Token
  p_role :: string
  p_actor :: Actor

definition Local :: "principal \<Rightarrow> bool" where "Local p \<longleftrightarrow> actor_method (p_actor p) = ''local''"
definition HasToken :: "principal \<Rightarrow> bool" where "HasToken p \<longleftrightarrow> t_id (p_token p) \<noteq> []"

definition zero_User :: User where
  "zero_User = \<lparr>us_id = [], us_name = [], us_email = [], us_role = [], us_state = [], us_totp = False, us_created = zero_time\<rparr>"

definition zero_Token :: Token where
  "zero_Token = \<lparr>t_id = [], t_user = [], t_kind = [], t_prefix = [], t_name = [], t_expires = zero_time,
     t_revoked = zero_time, t_used = zero_time, t_created = zero_time, t_unattended = False\<rparr>"

definition LocalRoot :: principal where
  "LocalRoot = \<lparr>p_user = zero_User, p_token = zero_Token, p_role = RoleAdmin,
     p_actor = \<lparr>actor_id = ''root'', actor_method = ''local'', actor_session = []\<rparr>\<rparr>"

definition ResolveToken :: "(string \<Rightarrow> string) \<Rightarrow> id_db \<Rightarrow> int \<Rightarrow> string \<Rightarrow> ident_err + principal" where
  "ResolveToken sha db now presented =
     sbind (Authenticate sha db now presented) (\<lambda>(u, t).
     Inr \<lparr>p_user = u, p_token = t, p_role = us_role u,
          p_actor = \<lparr>actor_id = us_id u, actor_method = ''token'', actor_session = t_id t\<rparr>\<rparr>)"

section \<open>Join tokens\<close>

record JoinToken =
  j_id :: string
  j_prefix :: string
  j_uses :: int
  j_expires :: int
  j_by :: string
  j_created :: int

definition insert_join :: "join_row \<Rightarrow> id_db \<Rightarrow> ident_err + id_db" where
  "insert_join r db =
     (if \<not> has_prefix (jn_id r) ''jt_'' \<or> jn_prefix r = [] \<or> jn_uses r < 0 \<or> length (jn_hash r) \<noteq> 64 \<or>
         (\<exists>x \<in> set (d_joins db). jn_id x = jn_id r \<or> jn_hash x = jn_hash r)
      then Inl (ErrConstraint (jn_id r)) else Inr (db\<lparr>d_joins := d_joins db @ [r]\<rparr>))"

definition MintJoinToken :: "(string \<Rightarrow> string) \<Rightarrow> string option \<Rightarrow> string option \<Rightarrow> string \<Rightarrow> int \<Rightarrow> string \<Rightarrow> int \<Rightarrow> int \<Rightarrow>
    id_db \<Rightarrow> (JoinToken \<times> string) act" where
  "MintJoinToken sha secret rnd by now createdBy uses expires db =
     sbind (Authorize by ''token.manage'') (\<lambda>_.
     if uses < 1 \<or> expires = zero_time \<or> expires \<le> now \<or> createdBy = [] then Inl (ErrBadName createdBy)
     else
     sbind (mintSecret KindJoin secret) (\<lambda>plaintext.
     sbind (newID ''jt_'' rnd) (\<lambda>key.
     let j = \<lparr>j_id = key, j_prefix = displayPrefix plaintext KindJoin, j_uses = uses, j_expires = truncateTime expires,
              j_by = createdBy, j_created = truncateTime now\<rparr>;
         r = \<lparr>jn_id = key, jn_hash = sha plaintext, jn_prefix = j_prefix j, jn_uses = uses,
              jn_expires = formatTime (j_expires j), jn_by = createdBy, jn_created = formatTime (j_created j)\<rparr> in
     sbind (insert_join r db) (\<lambda>db'.
     Inr ((j, plaintext), db', [(''kind'', GStr KindJoin), (''prefix'', GStr (j_prefix j)), (''uses'', GInt uses),
       (''expires'', GStr (formatTime (j_expires j)))])))))"

definition scan_join :: "join_row \<Rightarrow> ident_err + JoinToken" where
  "scan_join r =
     sbind (read_time (jn_expires r)) (\<lambda>ex.
     sbind (read_time (jn_created r)) (\<lambda>cr.
     Inr \<lparr>j_id = jn_id r, j_prefix = jn_prefix r, j_uses = jn_uses r, j_expires = ex, j_by = jn_by r, j_created = cr\<rparr>))"

definition ListJoinTokens :: "id_db \<Rightarrow> ident_err + JoinToken list" where
  "ListJoinTokens db = traverse scan_join (sort_by
     (\<lambda>a b. jn_created b < jn_created a \<or> (jn_created a = jn_created b \<and> jn_id a < jn_id b)) (d_joins db))"

text \<open>The UPDATE whose WHERE clause is the check.\<close>

definition spendable :: "string \<Rightarrow> int \<Rightarrow> join_row \<Rightarrow> bool" where
  "spendable h now r \<longleftrightarrow> jn_hash r = h \<and> 0 < jn_uses r \<and> formatTime now < jn_expires r"

definition spend_join :: "string \<Rightarrow> int \<Rightarrow> id_db \<Rightarrow> id_db" where
  "spend_join h now db = db\<lparr>d_joins := map (\<lambda>r. if spendable h now r then r\<lparr>jn_uses := jn_uses r - 1\<rparr> else r) (d_joins db)\<rparr>"

definition RedeemJoinToken :: "(string \<Rightarrow> string) \<Rightarrow> int \<Rightarrow> string \<Rightarrow> id_db \<Rightarrow> JoinToken act" where
  "RedeemJoinToken sha now plaintext db =
     (if \<not> has_prefix plaintext (Prefix KindJoin) then Inl ErrBadToken
      else
        (let h = sha plaintext; spent = filter (spendable h now) (d_joins db); db' = spend_join h now db in
         case find (\<lambda>r. jn_hash r = h) (d_joins db') of
           None \<Rightarrow> Inl ErrBadToken
         | Some r \<Rightarrow>
             sbind (scan_join r) (\<lambda>j.
             if spent = [] then
               (if j_expires j \<le> now then Inl (ErrTokenExpired (j_prefix j)) else Inl ErrBadToken)
             else Inr (j, db', [(''join_token'', GStr (j_id j)), (''prefix'', GStr (j_prefix j)),
                                (''uses_left'', GInt (j_uses j))]))))"

end
