(* ===== verification/FleetTables.thy ===== *)
theory FleetTables
  imports Identity Retention
begin

text \<open>
  The tables the fleet is kept in (\<^verbatim>\<open>internal/store/migrations\<close>), as far as the modelled operations
  read or write them: one record per row, NULL as \<open>None\<close>, and the CHECK, PRIMARY KEY and REFERENCES
  clauses as predicates on a row beside the rows already there.  A statement that breaks one fails,
  and with it the transaction it is part of.
\<close>

section \<open>Rows\<close>

record node_row =
  nd_name :: string
  nd_fingerprint :: "string option"
  nd_state :: string
  nd_arch :: "string option"
  nd_os :: "string option"
  nd_driver :: "string option"
  nd_gpus :: string
  nd_topology :: string
  nd_offer :: string
  nd_constraints :: string
  nd_reboot :: string
  nd_agent :: "string option"
  nd_protocol :: "int option"
  nd_seen :: "string option"
  nd_approved_by :: "string option"
  nd_approved_at :: "string option"
  nd_departed_at :: "string option"
  nd_created :: string
  nd_cert_expires :: "string option"
  nd_upgrade_error :: "string option"
  nd_upgrade_target :: "string option"
  nd_logon :: string

record model_row =
  md_id :: string
  md_backend :: string
  md_source :: string
  md_artifact :: string
  md_org :: "string option"
  md_country :: "string option"
  md_license :: "string option"
  md_manifest :: "string option"
  md_bytes :: "int option"
  md_hints :: string
  md_body :: "string option"

record staging_row =
  sg_model :: string
  sg_node :: string
  sg_state :: string
  sg_done :: int
  sg_total :: "int option"
  sg_error :: "string option"
  sg_updated :: string

record deployment_row =
  dp_id :: string
  dp_model :: string
  dp_node :: string
  dp_backend :: string
  dp_params :: string
  dp_args :: string
  dp_env :: string
  dp_port :: "int option"
  dp_image :: "string option"
  dp_artifact :: "string option"
  dp_state :: string
  dp_health :: string
  dp_error :: "string option"
  dp_created :: string
  dp_updated :: string
  dp_disabled :: bool
  dp_egress :: "string option"
  dp_egress_reason :: "string option"
  dp_egress_checked :: "string option"

record gpu_row =
  gp_deployment :: string
  gp_node :: string
  gp_index :: int

record route_row =
  rt_name :: string
  rt_strategy :: string

record member_row =
  rm_route :: string
  rm_deployment :: string
  rm_weight :: int

record grant_row =
  gr_user :: string
  gr_route :: string

record reset_row =
  rr_node :: string
  rr_model :: string
  rr_requested :: string

record restart_row =
  rs_node :: string
  rs_deployment :: string
  rs_requested :: string
  rs_roll :: string
  rs_sequence :: int

record refusal_row =
  rf_node :: string
  rf_deployment :: string
  rf_rev :: int
  rf_reason :: string
  rf_kind :: string
  rf_updated :: string

text \<open>A row of \<open>usage\<close> beyond the columns retention sums up.\<close>

record metered_row = usage_row +
  mu_id :: string
  mu_token :: "string option"
  mu_route :: "string option"
  mu_deployment :: "string option"
  mu_node :: "string option"
  mu_request :: "string option"
  mu_latency :: int
  mu_status :: int
  mu_streamed :: int
  mu_partial :: int

record fleet_db =
  f_nodes :: "node_row list"
  f_models :: "model_row list"
  f_staging :: "staging_row list"
  f_deployments :: "deployment_row list"
  f_gpus :: "gpu_row list"
  f_routes :: "route_row list"
  f_members :: "member_row list"
  f_grants :: "grant_row list"
  f_resets :: "reset_row list"
  f_restarts :: "restart_row list"
  f_refusals :: "refusal_row list"
  f_usage :: "metered_row list"

definition empty_fleet :: fleet_db where
  "empty_fleet = \<lparr>f_nodes = [], f_models = [], f_staging = [], f_deployments = [], f_gpus = [], f_routes = [],
     f_members = [], f_grants = [], f_resets = [], f_restarts = [], f_refusals = [], f_usage = []\<rparr>"

section \<open>Checks\<close>

definition node_check :: "node_row \<Rightarrow> bool" where
  "node_check n \<longleftrightarrow> nd_name n \<noteq> [] \<and>
     nd_state n \<in> {''pending'', ''approved'', ''ready'', ''draining'', ''departed''} \<and>
     nd_reboot n \<in> {''manual-console'', ''host-managed'', ''unattended''} \<and>
     (nd_approved_by n = None) = (nd_approved_at n = None) \<and>
     (nd_state n = ''departed'' \<longrightarrow> nd_departed_at n \<noteq> None)"

definition staging_check :: "staging_row \<Rightarrow> bool" where
  "staging_check s \<longleftrightarrow>
     sg_state s \<in> {''absent'', ''staging'', ''verifying'', ''staged'', ''corrupt''} \<and> 0 \<le> sg_done s \<and>
     (case sg_total s of None \<Rightarrow> True | Some n \<Rightarrow> sg_done s \<le> n) \<and>
     (sg_state s = ''corrupt'' \<longrightarrow> sg_error s \<noteq> None)"

definition deployment_check :: "deployment_row \<Rightarrow> bool" where
  "deployment_check d \<longleftrightarrow> dp_id d \<noteq> [] \<and>
     dp_state d \<in> {''defined'', ''staging'', ''preparing'', ''starting'', ''ready'', ''stopped'', ''failed''} \<and>
     dp_health d \<in> {''unknown'', ''healthy'', ''unhealthy''} \<and>
     (case dp_port d of None \<Rightarrow> True | Some p \<Rightarrow> 1024 < p \<and> p < 65536) \<and>
     (dp_state d = ''failed'' \<longrightarrow> dp_error d \<noteq> None)"

definition usage_check :: "metered_row \<Rightarrow> bool" where
  "usage_check u \<longleftrightarrow> 0 \<le> u_prompt u \<and> 0 \<le> u_completion u \<and> 0 \<le> mu_latency u \<and>
     mu_streamed u \<in> {0, 1} \<and> mu_partial u \<in> {0, 1}"

section \<open>Statements\<close>

text \<open>\<open>UPDATE t SET \<dots> WHERE p\<close>, under the checks of \<open>t\<close>.\<close>

definition update_rows :: "('r \<Rightarrow> bool) \<Rightarrow> ('r \<Rightarrow> bool) \<Rightarrow> ('r \<Rightarrow> 'r) \<Rightarrow> 'r list \<Rightarrow> ident_err + 'r list" where
  "update_rows check p f rows =
     (if \<forall>r \<in> set rows. p r \<longrightarrow> check (f r) then Inr (map (\<lambda>r. if p r then f r else r) rows)
      else Inl (ErrConstraint ''CHECK''))"

text \<open>\<open>INSERT \<dots> ON CONFLICT (key) DO UPDATE\<close>: the row already under the key is merged with the new one.\<close>

definition upsert_row :: "('r \<Rightarrow> 'k) \<Rightarrow> ('r \<Rightarrow> 'r \<Rightarrow> 'r) \<Rightarrow> 'r \<Rightarrow> 'r list \<Rightarrow> 'r list" where
  "upsert_row key merge r rows =
     (if key r \<in> key ` set rows then map (\<lambda>x. if key x = key r then merge x r else x) rows else rows @ [r])"

text \<open>\<open>INSERT\<close> under a primary key.\<close>

definition insert_row :: "('r \<Rightarrow> 'k) \<Rightarrow> 'r \<Rightarrow> 'r list \<Rightarrow> ident_err + 'r list" where
  "insert_row key r rows =
     (if key r \<in> key ` set rows then Inl (ErrConstraint ''PRIMARY KEY'') else Inr (rows @ [r]))"

definition delete_rows :: "('r \<Rightarrow> bool) \<Rightarrow> 'r list \<Rightarrow> 'r list" where
  "delete_rows p rows = filter (\<lambda>r. \<not> p r) rows"

definition node_exists :: "fleet_db \<Rightarrow> string \<Rightarrow> bool" where
  "node_exists db name \<longleftrightarrow> (\<exists>n \<in> set (f_nodes db). nd_name n = name)"

definition model_exists :: "fleet_db \<Rightarrow> string \<Rightarrow> bool" where
  "model_exists db key \<longleftrightarrow> (\<exists>m \<in> set (f_models db). md_id m = key)"

definition deployment_exists :: "fleet_db \<Rightarrow> string \<Rightarrow> string \<Rightarrow> bool" where
  "deployment_exists db key node \<longleftrightarrow> (\<exists>d \<in> set (f_deployments db). dp_id d = key \<and> dp_node d = node)"

text \<open>A loop of statements in one transaction.\<close>

fun each :: "('x \<Rightarrow> 's \<Rightarrow> 'e + 's) \<Rightarrow> 'x list \<Rightarrow> 's \<Rightarrow> 'e + 's" where
  "each f [] s = Inr s"
| "each f (x # xs) s = sbind (f x s) (each f xs)"

lemma each_invariant:
  assumes "each f xs s = Inr s'" and "I s" and "\<And>x s s'. x \<in> set xs \<Longrightarrow> f x s = Inr s' \<Longrightarrow> I s \<Longrightarrow> I s'"
  shows "I s'"
  using assms by (induction xs arbitrary: s) (auto 4 3)

lemma each_preserves:
  assumes "each f xs s = Inr s'" and "\<And>x s s'. f x s = Inr s' \<Longrightarrow> g s' = g s"
  shows "g s' = g s"
  using each_invariant [OF assms(1), of "\<lambda>t. g t = g s"] assms(2) by simp

lemma each_append: "each f (xs @ ys) s = sbind (each f xs s) (each f ys)"
proof (induction xs arbitrary: s)
  case (Cons x xs)
  then show ?case by (cases "f x s") auto
qed simp

lemma update_rows_Inr:
  "update_rows check p f rows = Inr rows' \<longleftrightarrow>
     (\<forall>r \<in> set rows. p r \<longrightarrow> check (f r)) \<and> rows' = map (\<lambda>r. if p r then f r else r) rows"
  by (auto simp: update_rows_def)

lemma update_rows_map:
  "update_rows check p f rows = Inr rows' \<Longrightarrow> (\<And>r. g (f r) = g r) \<Longrightarrow> map g rows' = map g rows"
  by (auto simp: update_rows_Inr)

lemma update_rows_filter:
  assumes "update_rows check p f rows = Inr rows'" and "\<And>r. q (f r) = q r" and "\<And>r. p r \<Longrightarrow> \<not> q r"
  shows "filter q rows' = filter q rows"
proof -
  have "filter q (map (\<lambda>r. if p r then f r else r) rows) = filter q rows"
    using assms(2,3) by (induction rows) auto
  with assms(1) show ?thesis by (simp add: update_rows_Inr)
qed

lemma insert_row_Inr: "insert_row key r rows = Inr rows' \<longleftrightarrow> key r \<notin> key ` set rows \<and> rows' = rows @ [r]"
  by (auto simp: insert_row_def)

lemma upsert_row_filter:
  "(\<And>x. key x = key r \<Longrightarrow> \<not> q x) \<Longrightarrow> (\<And>x. key x = key r \<Longrightarrow> \<not> q (merge x r)) \<Longrightarrow>
     filter q (upsert_row key merge r rows) = filter q rows"
proof -
  assume "\<And>x. key x = key r \<Longrightarrow> \<not> q x" "\<And>x. key x = key r \<Longrightarrow> \<not> q (merge x r)"
  moreover from this have "filter q (map (\<lambda>x. if key x = key r then merge x r else x) rows) = filter q rows"
    by (induction rows) auto
  ultimately show ?thesis by (simp add: upsert_row_def)
qed

lemma delete_rows_filter: "(\<And>r. p r \<Longrightarrow> \<not> q r) \<Longrightarrow> filter q (delete_rows p rows) = filter q rows"
  unfolding delete_rows_def by (induction rows) auto

end
