(* ===== verification/Observed.thy ===== *)
theory Observed
  imports FleetTables
begin

text \<open>
  \<^verbatim>\<open>internal/observed\<close>: the writes that are observations and not decisions (observed.go, usage.go).
  Each is one transaction: the tables it leaves, or an error and the tables as they were.
\<close>

section \<open>Reports\<close>

record refusal_report =
  fr_deployment :: string
  fr_reason :: string

record deployment_report =
  dr_id :: string
  dr_state :: string
  dr_health :: string
  dr_error :: string
  dr_egress :: string
  dr_egress_reason :: string
  dr_artifact :: string

record staging_report =
  sr_model :: string
  sr_state :: string
  sr_done :: int
  sr_total :: int
  sr_error :: string

record node_report =
  nr_agent :: string
  nr_protocol :: int
  nr_arch :: string
  nr_os :: string
  nr_driver :: string
  nr_gpus :: string
  nr_topology :: string
  nr_logon :: string
  nr_deployments :: "deployment_report list"
  nr_staging :: "staging_report list"
  nr_upgrade_target :: string
  nr_upgrade_error :: string
  nr_reset_done :: "string list"
  nr_restart_done :: "string list"
  nr_refusals :: "refusal_report list"
  nr_out_of_policy :: "refusal_report list"
  nr_rev :: int

definition KindRefused :: string where "KindRefused = ''refused''"
definition KindOutOfPolicy :: string where "KindOutOfPolicy = ''out_of_policy''"

definition orDefault :: "string \<Rightarrow> string \<Rightarrow> string" where
  "orDefault s d = (if s = [] then d else s)"

definition nullOr :: "string \<Rightarrow> string option" where
  "nullOr s = (if s = [] then None else Some s)"

definition positiveOrNull :: "int \<Rightarrow> int option" where
  "positiveOrNull n = (if n \<le> 0 then None else Some n)"

section \<open>Heartbeat\<close>

definition observe_node :: "string \<Rightarrow> node_report \<Rightarrow> node_row \<Rightarrow> node_row" where
  "observe_node ts r n =
     n\<lparr>nd_seen := Some ts, nd_agent := Some (nr_agent r), nd_protocol := Some (nr_protocol r),
       nd_arch := Some (nr_arch r), nd_os := Some (nr_os r), nd_driver := Some (nr_driver r),
       nd_gpus := nr_gpus r, nd_topology := nr_topology r, nd_logon := nr_logon r,
       nd_upgrade_target := nullOr (nr_upgrade_target r), nd_upgrade_error := nullOr (nr_upgrade_error r)\<rparr>"

definition record_node :: "string \<Rightarrow> string \<Rightarrow> node_report \<Rightarrow> fleet_db \<Rightarrow> ident_err + fleet_db" where
  "record_node name ts r db =
     sbind (update_rows node_check (\<lambda>n. nd_name n = name) (observe_node ts r) (f_nodes db))
       (\<lambda>ns. Inr (db\<lparr>f_nodes := ns\<rparr>))"

definition update_deployment :: "string \<Rightarrow> string \<Rightarrow> (deployment_row \<Rightarrow> deployment_row) \<Rightarrow> fleet_db \<Rightarrow> ident_err + fleet_db" where
  "update_deployment name key f db =
     sbind (update_rows deployment_check (\<lambda>d. dp_id d = key \<and> dp_node d = name) f (f_deployments db))
       (\<lambda>ds. Inr (db\<lparr>f_deployments := ds\<rparr>))"

definition record_deployment :: "string \<Rightarrow> string \<Rightarrow> deployment_report \<Rightarrow> fleet_db \<Rightarrow> ident_err + fleet_db" where
  "record_deployment name ts d db =
     sbind (update_deployment name (dr_id d)
       (\<lambda>x. x\<lparr>dp_state := dr_state d, dp_health := orDefault (dr_health d) ''unknown'',
             dp_error := nullOr (dr_error d), dp_updated := ts\<rparr>) db) (\<lambda>db1.
     sbind (if dr_artifact d \<noteq> []
            then update_deployment name (dr_id d) (\<lambda>x. x\<lparr>dp_artifact := Some (dr_artifact d)\<rparr>) db1
            else Inr db1) (\<lambda>db2.
     if dr_egress d = [] then Inr db2
     else update_deployment name (dr_id d)
       (\<lambda>x. x\<lparr>dp_egress := Some (dr_egress d), dp_egress_reason := nullOr (dr_egress_reason d),
             dp_egress_checked := Some ts\<rparr>) db2))"

definition staging_of :: "string \<Rightarrow> string \<Rightarrow> staging_report \<Rightarrow> staging_row" where
  "staging_of name ts s =
     \<lparr>sg_model = sr_model s, sg_node = name, sg_state = sr_state s, sg_done = sr_done s,
      sg_total = positiveOrNull (sr_total s), sg_error = nullOr (sr_error s), sg_updated = ts\<rparr>"

definition merge_staging :: "staging_row \<Rightarrow> staging_row \<Rightarrow> staging_row" where
  "merge_staging x r = x\<lparr>sg_state := sg_state r, sg_done := sg_done r, sg_total := sg_total r,
     sg_error := sg_error r, sg_updated := sg_updated r\<rparr>"

definition record_staging :: "string \<Rightarrow> string \<Rightarrow> staging_report \<Rightarrow> fleet_db \<Rightarrow> ident_err + fleet_db" where
  "record_staging name ts s db =
     (if \<not> model_exists db (sr_model s) then Inr db
      else if \<not> staging_check (staging_of name ts s) \<or> \<not> node_exists db name
      then Inl (ErrConstraint ''staging'')
      else Inr (db\<lparr>f_staging := upsert_row (\<lambda>x. (sg_model x, sg_node x)) merge_staging
                    (staging_of name ts s) (f_staging db)\<rparr>))"

definition clear_reset :: "string \<Rightarrow> string \<Rightarrow> fleet_db \<Rightarrow> fleet_db" where
  "clear_reset name model db =
     db\<lparr>f_resets := delete_rows (\<lambda>r. rr_node r = name \<and> rr_model r = model) (f_resets db)\<rparr>"

definition clear_restart :: "string \<Rightarrow> string \<Rightarrow> fleet_db \<Rightarrow> fleet_db" where
  "clear_restart name key db =
     db\<lparr>f_restarts := delete_rows (\<lambda>r. rs_node r = name \<and> rs_deployment r = key) (f_restarts db)\<rparr>"

definition refusal_of :: "string \<Rightarrow> string \<Rightarrow> int \<Rightarrow> string \<Rightarrow> refusal_report \<Rightarrow> refusal_row" where
  "refusal_of name ts rv kind f =
     \<lparr>rf_node = name, rf_deployment = fr_deployment f, rf_rev = rv, rf_reason = fr_reason f,
      rf_kind = kind, rf_updated = ts\<rparr>"

definition record_refusal :: "string \<Rightarrow> string \<Rightarrow> int \<Rightarrow> string \<Rightarrow> refusal_report \<Rightarrow> fleet_db \<Rightarrow> ident_err + fleet_db" where
  "record_refusal name ts rv kind f db =
     (if \<not> deployment_exists db (fr_deployment f) name then Inr db
      else if fr_reason f = [] \<or> \<not> node_exists db name then Inl (ErrConstraint ''refusal'')
      else sbind (insert_row (\<lambda>x. (rf_node x, rf_deployment x)) (refusal_of name ts rv kind f) (f_refusals db))
             (\<lambda>rs. Inr (db\<lparr>f_refusals := rs\<rparr>)))"

definition clear_refusals :: "string \<Rightarrow> fleet_db \<Rightarrow> fleet_db" where
  "clear_refusals name db = db\<lparr>f_refusals := delete_rows (\<lambda>r. rf_node r = name) (f_refusals db)\<rparr>"

definition record_refusals :: "string \<Rightarrow> string \<Rightarrow> node_report \<Rightarrow> fleet_db \<Rightarrow> ident_err + fleet_db" where
  "record_refusals name ts r db =
     sbind (each (record_refusal name ts (nr_rev r) KindRefused) (nr_refusals r) (clear_refusals name db))
       (each (record_refusal name ts (nr_rev r) KindOutOfPolicy) (nr_out_of_policy r))"

definition Heartbeat :: "string \<Rightarrow> node_report \<Rightarrow> int \<Rightarrow> fleet_db \<Rightarrow> ident_err + fleet_db" where
  "Heartbeat name r seen db =
     (let ts = format_ts seen in
      sbind (record_node name ts r db) (\<lambda>db1.
      sbind (each (record_deployment name ts) (nr_deployments r) db1) (\<lambda>db2.
      sbind (each (record_staging name ts) (nr_staging r) db2) (\<lambda>db3.
      record_refusals name ts r
        (foldl (\<lambda>d key. clear_restart name key d)
          (foldl (\<lambda>d model. clear_reset name model d) db3 (nr_reset_done r)) (nr_restart_done r))))))"

section \<open>The smaller observations\<close>

definition TouchToken :: "string \<Rightarrow> int \<Rightarrow> id_db \<Rightarrow> ident_err + id_db" where
  "TouchToken key now db = Touch now key db"

definition Seen :: "string \<Rightarrow> string \<Rightarrow> int \<Rightarrow> int \<Rightarrow> fleet_db \<Rightarrow> ident_err + fleet_db" where
  "Seen name agent protocol seen db =
     sbind (update_rows node_check (\<lambda>n. nd_name n = name)
       (\<lambda>n. n\<lparr>nd_seen := Some (format_ts seen), nd_agent := Some agent, nd_protocol := Some protocol\<rparr>) (f_nodes db))
       (\<lambda>ns. Inr (db\<lparr>f_nodes := ns\<rparr>))"

section \<open>Usage\<close>

record Usage =
  ug_ts :: int
  ug_user :: string
  ug_token :: string
  ug_route :: string
  ug_model :: string
  ug_deployment :: string
  ug_node :: string
  ug_request :: string
  ug_prompt :: int
  ug_completion :: int
  ug_latency :: int
  ug_status :: int
  ug_streamed :: bool
  ug_partial :: bool

definition boolInt :: "bool \<Rightarrow> int" where "boolInt b = (if b then 1 else 0)"

text \<open>\<open>Duration.Milliseconds\<close> divides towards zero.\<close>

definition Milliseconds :: "int \<Rightarrow> int" where
  "Milliseconds d = (if 0 \<le> d then d div 1000000 else - (- d div 1000000))"

definition usageID :: "string option \<Rightarrow> ident_err + string" where "usageID rnd = newID ''use_'' rnd"

text \<open>The \<open>GLOB\<close> on the timestamp column: \<open>d\<close> stands for a digit class.\<close>

definition ts_shape :: "string \<Rightarrow> bool" where
  "ts_shape s \<longleftrightarrow> list_all2 (\<lambda>p c. if p = CHR ''d'' then is_digit c else c = p) ''dddd-dd-ddTdd:dd:dd.dddZ'' s"

definition usage_of :: "string \<Rightarrow> Usage \<Rightarrow> metered_row" where
  "usage_of key u =
     \<lparr>u_ts = format_ts (ug_ts u), u_user_id = nullOr (ug_user u), u_model_id = nullOr (ug_model u),
      u_prompt = ug_prompt u, u_completion = ug_completion u, mu_id = key, mu_token = nullOr (ug_token u),
      mu_route = nullOr (ug_route u), mu_deployment = nullOr (ug_deployment u), mu_node = nullOr (ug_node u),
      mu_request = nullOr (ug_request u), mu_latency = Milliseconds (ug_latency u), mu_status = ug_status u,
      mu_streamed = boolInt (ug_streamed u), mu_partial = boolInt (ug_partial u)\<rparr>"

definition references :: "string option \<Rightarrow> string list \<Rightarrow> bool" where
  "references v keys \<longleftrightarrow> (case v of None \<Rightarrow> True | Some k \<Rightarrow> k \<in> set keys)"

definition RecordUsage :: "string option \<Rightarrow> Usage \<Rightarrow> id_db \<Rightarrow> fleet_db \<Rightarrow> ident_err + fleet_db" where
  "RecordUsage rnd u idb db =
     sbind (usageID rnd) (\<lambda>key.
     let row = usage_of key u in
     if \<not> usage_check row \<or> \<not> ts_shape (u_ts row) \<or>
        \<not> references (u_user_id row) (map ur_id (d_users idb)) \<or>
        \<not> references (mu_token row) (map tk_id (d_tokens idb))
     then Inl (ErrConstraint ''usage'')
     else sbind (insert_row mu_id row (f_usage db)) (\<lambda>us. Inr (db\<lparr>f_usage := us\<rparr>)))"

section \<open>What a heartbeat leaves alone\<close>

text \<open>The columns of a row that record a decision: the observed ones blanked.\<close>

definition decided_node :: "node_row \<Rightarrow> node_row" where
  "decided_node n = n\<lparr>nd_seen := None, nd_agent := None, nd_protocol := None, nd_arch := None, nd_os := None,
     nd_driver := None, nd_gpus := [], nd_topology := [], nd_logon := [], nd_upgrade_target := None,
     nd_upgrade_error := None\<rparr>"

definition decided_deployment :: "deployment_row \<Rightarrow> deployment_row" where
  "decided_deployment d = d\<lparr>dp_state := [], dp_health := [], dp_error := None, dp_updated := [], dp_artifact := None,
     dp_egress := None, dp_egress_reason := None, dp_egress_checked := None\<rparr>"

text \<open>Everything a heartbeat of \<open>name\<close> may not touch, as one value.\<close>

definition untouched_by :: "string \<Rightarrow> fleet_db \<Rightarrow> _" where
  "untouched_by name db =
     ((map decided_node (f_nodes db), filter (\<lambda>n. nd_name n \<noteq> name) (f_nodes db)),
      (map decided_deployment (f_deployments db), filter (\<lambda>d. dp_node d \<noteq> name) (f_deployments db)),
      (f_models db, f_gpus db, f_routes db, f_members db, f_grants db, f_usage db),
      filter (\<lambda>s. sg_node s \<noteq> name) (f_staging db), filter (\<lambda>r. rr_node r \<noteq> name) (f_resets db),
      filter (\<lambda>r. rs_node r \<noteq> name) (f_restarts db), filter (\<lambda>r. rf_node r \<noteq> name) (f_refusals db))"

lemma record_node_untouched: "record_node name ts r db = Inr db' \<Longrightarrow> untouched_by name db' = untouched_by name db"
  unfolding record_node_def
  by (auto simp: untouched_by_def observe_node_def decided_node_def
      dest: update_rows_map [where g = decided_node] update_rows_filter [where q = "\<lambda>n. nd_name n \<noteq> name"])

lemma update_deployment_untouched:
  assumes "update_deployment name key f db = Inr db'"
    and "\<And>d. decided_deployment (f d) = decided_deployment d" and "\<And>d. dp_node (f d) = dp_node d"
  shows "untouched_by name db' = untouched_by name db"
  using assms unfolding update_deployment_def
  by (auto simp: untouched_by_def dest: update_rows_map [where g = decided_deployment]
      update_rows_filter [where q = "\<lambda>d. dp_node d \<noteq> name"])

lemma record_deployment_untouched:
  "record_deployment name ts d db = Inr db' \<Longrightarrow> untouched_by name db' = untouched_by name db"
  unfolding record_deployment_def
  by (auto simp: decided_deployment_def dest!: update_deployment_untouched split: if_splits)

lemma record_staging_untouched:
  "record_staging name ts s db = Inr db' \<Longrightarrow> untouched_by name db' = untouched_by name db"
  unfolding record_staging_def
  by (auto simp: untouched_by_def staging_of_def merge_staging_def intro!: upsert_row_filter split: if_splits)

lemma record_refusal_untouched:
  "record_refusal name ts rv kind f db = Inr db' \<Longrightarrow> untouched_by name db' = untouched_by name db"
  unfolding record_refusal_def
  by (auto simp: untouched_by_def refusal_of_def insert_row_Inr split: if_splits)

lemma clear_untouched:
  "untouched_by name (clear_reset name model db) = untouched_by name db"
  "untouched_by name (clear_restart name key db) = untouched_by name db"
  "untouched_by name (clear_refusals name db) = untouched_by name db"
  by (auto simp: untouched_by_def clear_reset_def clear_restart_def clear_refusals_def intro!: delete_rows_filter)

lemma clears_untouched:
  "untouched_by name (foldl (\<lambda>d model. clear_reset name model d) db ms) = untouched_by name db"
  "untouched_by name (foldl (\<lambda>d key. clear_restart name key d) db ks) = untouched_by name db"
  by (induction ms arbitrary: db, simp_all add: clear_untouched) (induction ks arbitrary: db, simp_all add: clear_untouched)

lemma record_refusals_untouched:
  "record_refusals name ts r db = Inr db' \<Longrightarrow> untouched_by name db' = untouched_by name db"
  unfolding record_refusals_def
  by (auto simp: clear_untouched dest!: each_preserves [where g = "untouched_by name"] record_refusal_untouched)

text \<open>The instructions somebody issued, and the rows a report says nothing of.\<close>

definition instructions :: "fleet_db \<Rightarrow> restart_row list \<times> reset_row list" where
  "instructions db = (f_restarts db, f_resets db)"

definition unreported :: "node_report \<Rightarrow> fleet_db \<Rightarrow> deployment_row list \<times> staging_row list" where
  "unreported r db =
     (filter (\<lambda>d. dp_id d \<notin> dr_id ` set (nr_deployments r)) (f_deployments db),
      filter (\<lambda>s. sg_model s \<notin> sr_model ` set (nr_staging r)) (f_staging db))"

lemma update_deployment_keeps:
  assumes "update_deployment name key f db = Inr db'" and "\<And>d. dp_id (f d) = dp_id d"
  shows "instructions db' = instructions db" and "f_staging db' = f_staging db"
    and "key \<in> K \<Longrightarrow> filter (\<lambda>d. dp_id d \<notin> K) (f_deployments db') = filter (\<lambda>d. dp_id d \<notin> K) (f_deployments db)"
  using assms unfolding update_deployment_def
  by (auto simp: instructions_def dest: update_rows_filter [where q = "\<lambda>d. dp_id d \<notin> K"])

lemma record_node_keeps:
  "record_node name ts x db = Inr db' \<Longrightarrow> instructions db' = instructions db \<and> unreported r db' = unreported r db"
  unfolding record_node_def by (auto simp: instructions_def unreported_def)

lemma record_deployment_keeps:
  assumes "record_deployment name ts d db = Inr db'" and "d \<in> set (nr_deployments r)"
  shows "instructions db' = instructions db \<and> unreported r db' = unreported r db"
proof -
  let ?K = "dr_id ` set (nr_deployments r)"
  have k: "dr_id d \<in> ?K" using assms(2) by simp
  have one: "instructions b' = instructions b \<and> unreported r b' = unreported r b"
    if "update_deployment name (dr_id d) f b = Inr b'" "\<And>x. dp_id (f x) = dp_id x" for f b b'
    using update_deployment_keeps [OF that] k by (auto simp: unreported_def)
  obtain b1 b2 where b1: "update_deployment name (dr_id d)
       (\<lambda>x. x\<lparr>dp_state := dr_state d, dp_health := orDefault (dr_health d) ''unknown'',
             dp_error := nullOr (dr_error d), dp_updated := ts\<rparr>) db = Inr b1"
    and b2: "(if dr_artifact d \<noteq> [] then update_deployment name (dr_id d) (\<lambda>x. x\<lparr>dp_artifact := Some (dr_artifact d)\<rparr>) b1
            else Inr b1) = Inr b2"
    and b3: "(if dr_egress d = [] then Inr b2 else update_deployment name (dr_id d)
       (\<lambda>x. x\<lparr>dp_egress := Some (dr_egress d), dp_egress_reason := nullOr (dr_egress_reason d),
             dp_egress_checked := Some ts\<rparr>) b2) = Inr db'"
    using assms(1) unfolding record_deployment_def sbind_Inr_iff by blast
  have "instructions b1 = instructions db \<and> unreported r b1 = unreported r db" by (rule one [OF b1]) simp
  moreover have "instructions b2 = instructions b1 \<and> unreported r b2 = unreported r b1"
    using b2 one [of "\<lambda>x. x\<lparr>dp_artifact := Some (dr_artifact d)\<rparr>" b1 b2] by (auto split: if_splits)
  moreover have "instructions db' = instructions b2 \<and> unreported r db' = unreported r b2"
    using b3 one [of "\<lambda>x. x\<lparr>dp_egress := Some (dr_egress d), dp_egress_reason := nullOr (dr_egress_reason d),
             dp_egress_checked := Some ts\<rparr>" b2 db'] by (auto split: if_splits)
  ultimately show ?thesis by simp
qed

lemma record_staging_keeps:
  assumes "record_staging name ts s db = Inr db'" and "s \<in> set (nr_staging r)"
  shows "instructions db' = instructions db \<and> unreported r db' = unreported r db"
  using assms unfolding record_staging_def
  by (auto simp: instructions_def unreported_def staging_of_def merge_staging_def intro!: upsert_row_filter split: if_splits)

lemma record_refusals_keep:
  "record_refusals name ts x db = Inr db' \<Longrightarrow> instructions db' = instructions db \<and> unreported r db' = unreported r db"
proof -
  have one: "record_refusal name ts rv kind f b = Inr b' \<Longrightarrow> (instructions b', unreported r b') = (instructions b, unreported r b)" for rv kind f b b'
    by (auto simp: record_refusal_def instructions_def unreported_def split: if_splits)
  assume "record_refusals name ts x db = Inr db'"
  then obtain b where "each (record_refusal name ts (nr_rev x) KindRefused) (nr_refusals x) (clear_refusals name db) = Inr b"
    "each (record_refusal name ts (nr_rev x) KindOutOfPolicy) (nr_out_of_policy x) b = Inr db'"
    by (auto simp: record_refusals_def)
  from each_preserves [OF this(1), where g = "\<lambda>b. (instructions b, unreported r b)", OF one]
    each_preserves [OF this(2), where g = "\<lambda>b. (instructions b, unreported r b)", OF one]
  show ?thesis by (simp add: clear_refusals_def instructions_def unreported_def)
qed

lemma clears_acknowledged:
  "f_resets (foldl (\<lambda>d model. clear_reset name model d) db ms) = filter (\<lambda>x. \<not> (rr_node x = name \<and> rr_model x \<in> set ms)) (f_resets db)"
  "f_restarts (foldl (\<lambda>d model. clear_reset name model d) db ms) = f_restarts db"
  "unreported r (foldl (\<lambda>d model. clear_reset name model d) db ms) = unreported r db"
  "f_restarts (foldl (\<lambda>d key. clear_restart name key d) db ks) =
     filter (\<lambda>x. \<not> (rs_node x = name \<and> rs_deployment x \<in> set ks)) (f_restarts db)"
  "f_resets (foldl (\<lambda>d key. clear_restart name key d) db ks) = f_resets db"
  "unreported r (foldl (\<lambda>d key. clear_restart name key d) db ks) = unreported r db"
proof -
  show "f_resets (foldl (\<lambda>d model. clear_reset name model d) db ms) = filter (\<lambda>x. \<not> (rr_node x = name \<and> rr_model x \<in> set ms)) (f_resets db)"
    by (induction ms arbitrary: db) (auto simp: clear_reset_def delete_rows_def intro!: filter_cong)
  show "f_restarts (foldl (\<lambda>d model. clear_reset name model d) db ms) = f_restarts db"
    "unreported r (foldl (\<lambda>d model. clear_reset name model d) db ms) = unreported r db"
    by (induction ms arbitrary: db) (simp_all add: clear_reset_def unreported_def)
  show "f_restarts (foldl (\<lambda>d key. clear_restart name key d) db ks) =
     filter (\<lambda>x. \<not> (rs_node x = name \<and> rs_deployment x \<in> set ks)) (f_restarts db)"
    by (induction ks arbitrary: db) (auto simp: clear_restart_def delete_rows_def intro!: filter_cong)
  show "f_resets (foldl (\<lambda>d key. clear_restart name key d) db ks) = f_resets db"
    "unreported r (foldl (\<lambda>d key. clear_restart name key d) db ks) = unreported r db"
    by (induction ks arbitrary: db) (simp_all add: clear_restart_def unreported_def)
qed

text \<open>
  C34: A heartbeat changes no decision and no other node's rows: no node or deployment is created, removed or
  moved, no administrative column and nothing of another node changes, and every table a person decides
  is as it was.  Of the instructions somebody issued exactly those the node acknowledges for itself are
  gone, and a deployment or a staged model the report does not name keeps its row as it was.
\<close>

theorem heartbeat_decides_nothing:
  assumes "Heartbeat name r seen db = Inr db'"
  shows "untouched_by name db' = untouched_by name db \<and>
    f_restarts db' = filter (\<lambda>x. \<not> (rs_node x = name \<and> rs_deployment x \<in> set (nr_restart_done r))) (f_restarts db) \<and>
    f_resets db' = filter (\<lambda>x. \<not> (rr_node x = name \<and> rr_model x \<in> set (nr_reset_done r))) (f_resets db) \<and>
    filter (\<lambda>d. dp_id d \<notin> dr_id ` set (nr_deployments r)) (f_deployments db') =
      filter (\<lambda>d. dp_id d \<notin> dr_id ` set (nr_deployments r)) (f_deployments db) \<and>
    filter (\<lambda>s. sg_model s \<notin> sr_model ` set (nr_staging r)) (f_staging db') =
      filter (\<lambda>s. sg_model s \<notin> sr_model ` set (nr_staging r)) (f_staging db)"
proof -
  obtain db1 db2 db3 where d: "record_node name (format_ts seen) r db = Inr db1"
    "each (record_deployment name (format_ts seen)) (nr_deployments r) db1 = Inr db2"
    "each (record_staging name (format_ts seen)) (nr_staging r) db2 = Inr db3"
    and r: "record_refusals name (format_ts seen) r (foldl (\<lambda>d key. clear_restart name key d)
      (foldl (\<lambda>d model. clear_reset name model d) db3 (nr_reset_done r)) (nr_restart_done r)) = Inr db'"
    using assms by (auto simp: Heartbeat_def Let_def)
  then have "untouched_by name db3 = untouched_by name db"
    by (metis each_preserves [where g = "untouched_by name"] record_node_untouched
        record_deployment_untouched record_staging_untouched)
  with record_refusals_untouched [OF r] have u: "untouched_by name db' = untouched_by name db" by (simp add: clears_untouched)
  let ?same = "\<lambda>b. instructions b = instructions db \<and> unreported r b = unreported r db"
  have "?same db1" using record_node_keeps [OF d(1)] by simp
  with d(2) have "?same db2" by (rule each_invariant) (metis record_deployment_keeps)
  with d(3) have s3: "?same db3" by (rule each_invariant) (metis record_staging_keeps)
  from record_refusals_keep [OF r, of r] s3
  have "instructions db' = (filter (\<lambda>x. \<not> (rs_node x = name \<and> rs_deployment x \<in> set (nr_restart_done r))) (f_restarts db),
      filter (\<lambda>x. \<not> (rr_node x = name \<and> rr_model x \<in> set (nr_reset_done r))) (f_resets db))"
    "unreported r db' = unreported r db"
    by (simp_all add: instructions_def clears_acknowledged)
  with u show ?thesis by (simp add: instructions_def unreported_def)
qed

text \<open>A fleet of one node with one deployment, and a heartbeat that reports it failed and out of policy.\<close>

definition sample_node :: node_row where
  "sample_node = \<lparr>nd_name = ''n1'', nd_fingerprint = None, nd_state = ''approved'', nd_arch = None, nd_os = None,
     nd_driver = None, nd_gpus = ''[]'', nd_topology = ''{}'', nd_offer = ''{}'', nd_constraints = ''{}'',
     nd_reboot = ''host-managed'', nd_agent = None, nd_protocol = None, nd_seen = None, nd_approved_by = None,
     nd_approved_at = None, nd_departed_at = None, nd_created = [], nd_cert_expires = None,
     nd_upgrade_error = None, nd_upgrade_target = None, nd_logon = []\<rparr>"

definition sample_deployment :: "string \<Rightarrow> string \<Rightarrow> deployment_row" where
  "sample_deployment key node =
     \<lparr>dp_id = key, dp_model = ''m'', dp_node = node, dp_backend = ''vllm'', dp_params = ''{}'', dp_args = ''[]'',
      dp_env = ''{}'', dp_port = None, dp_image = None, dp_artifact = None, dp_state = ''ready'',
      dp_health = ''healthy'', dp_error = None, dp_created = [], dp_updated = [], dp_disabled = False,
      dp_egress = None, dp_egress_reason = None, dp_egress_checked = None\<rparr>"

definition sample_fleet :: fleet_db where
  "sample_fleet = empty_fleet\<lparr>f_nodes := [sample_node], f_deployments := [sample_deployment ''d1'' ''n1'']\<rparr>"

definition sample_report :: node_report where
  "sample_report = \<lparr>nr_agent = ''1'', nr_protocol = 1, nr_arch = ''amd64'', nr_os = ''linux'', nr_driver = [],
     nr_gpus = ''[]'', nr_topology = ''{}'', nr_logon = [],
     nr_deployments = [\<lparr>dr_id = ''d1'', dr_state = ''failed'', dr_health = [], dr_error = ''oom'', dr_egress = [],
                        dr_egress_reason = [], dr_artifact = []\<rparr>],
     nr_staging = [], nr_upgrade_target = [], nr_upgrade_error = [], nr_reset_done = [], nr_restart_done = [],
     nr_refusals = [], nr_out_of_policy = [\<lparr>fr_deployment = ''d1'', fr_reason = ''vram''\<rparr>], nr_rev = 3\<rparr>"

lemma sample_heartbeat:
  "\<exists>db'. Heartbeat ''n1'' sample_report 0 sample_fleet = Inr db' \<and> map dp_state (f_deployments db') = [''failed''] \<and>
     map rf_kind (f_refusals db') = [KindOutOfPolicy]"
  by (simp add: Heartbeat_def Let_def sample_fleet_def sample_report_def sample_node_def sample_deployment_def
      empty_fleet_def record_node_def update_rows_def node_check_def observe_node_def nullOr_def record_deployment_def
      update_deployment_def deployment_check_def orDefault_def record_refusals_def clear_refusals_def delete_rows_def
      record_refusal_def deployment_exists_def node_exists_def insert_row_def refusal_of_def)

theorem heartbeat_decides_nothing_witness:
  "\<exists>db'. Heartbeat ''n1'' sample_report 0 sample_fleet = Inr db' \<and> map dp_state (f_deployments db') = [''failed''] \<and>
     untouched_by ''n1'' db' = untouched_by ''n1'' sample_fleet"
proof -
  obtain db' where h: "Heartbeat ''n1'' sample_report 0 sample_fleet = Inr db'"
    "map dp_state (f_deployments db') = [''failed'']"
    using sample_heartbeat by (elim exE conjE)
  show ?thesis
    by (rule exI [of _ db']) (intro conjI h conjunct1 [OF heartbeat_decides_nothing [OF h(1)]])
qed

section \<open>Refusals\<close>

lemma record_refusal_rows:
  assumes "record_refusal name ts rv kind f db = Inr db'"
  shows "f_refusals db' = f_refusals db @
      (if deployment_exists db (fr_deployment f) name then [refusal_of name ts rv kind f] else [])"
    and "f_deployments db' = f_deployments db"
  using assms by (auto simp: record_refusal_def insert_row_Inr split: if_splits)

lemma deployment_exists_cong:
  "map decided_deployment (f_deployments db') = map decided_deployment (f_deployments db) \<Longrightarrow>
     deployment_exists db' key node = deployment_exists db key node"
proof -
  assume a: "map decided_deployment (f_deployments db') = map decided_deployment (f_deployments db)"
  have "deployment_exists d key node \<longleftrightarrow> (\<exists>x \<in> set (map decided_deployment (f_deployments d)). dp_id x = key \<and> dp_node x = node)" for d
    by (auto simp: deployment_exists_def decided_deployment_def)
  with a show ?thesis by (simp only:)
qed

lemma record_refusal_all:
  assumes "each (record_refusal name ts rv kind) fs db = Inr db'"
  shows "f_refusals db' = f_refusals db @
      map (refusal_of name ts rv kind) (filter (\<lambda>f. deployment_exists db (fr_deployment f) name) fs)"
    and "f_deployments db' = f_deployments db"
  using assms
proof (induction fs arbitrary: db)
  case (Cons f fs)
  {
    case 1
    then obtain db1 where d: "record_refusal name ts rv kind f db = Inr db1"
      "each (record_refusal name ts rv kind) fs db1 = Inr db'" by auto
    have "deployment_exists db1 = deployment_exists db"
      using record_refusal_rows(2) [OF d(1)] by (auto simp: deployment_exists_def fun_eq_iff)
    with Cons.IH(1) [OF d(2)] record_refusal_rows(1) [OF d(1)] show ?case by simp
  next
    case 2
    then obtain db1 where d: "record_refusal name ts rv kind f db = Inr db1"
      "each (record_refusal name ts rv kind) fs db1 = Inr db'" by auto
    with Cons.IH(2) [OF d(2)] record_refusal_rows(2) [OF d(1)] show ?case by simp
  }
qed simp_all

end
