(* ===== verification/Fleet.thy ===== *)
theory Fleet
  imports Observed
begin

text \<open>
  \<^verbatim>\<open>internal/fleet\<close>: what the control plane answers about its nodes (fleet.go), the node lifecycle
  and rolling restarts (transition.go) and the staging requests (staging.go), with the restart handler
  of \<^verbatim>\<open>internal/api/routes.go\<close>.  Stored JSON documents pass through as their text.
\<close>

section \<open>Reads\<close>

datatype fleet_err = Ident ident_err | ErrWouldDropTheModel string

fun ident :: "ident_err + 'a \<Rightarrow> fleet_err + 'a" where
  "ident (Inl e) = Inl (Ident e)"
| "ident (Inr x) = Inr x"

lemma ident_Inr [simp]: "ident r = Inr x \<longleftrightarrow> r = Inr x"
  by (cases r) auto

definition StaleAfter :: int where "StaleAfter = 60 * 1000000000"
definition ProtocolMin :: int where "ProtocolMin = 1"
definition ProtocolMax :: int where "ProtocolMax = 1"

definition ProtocolSupported :: "int \<Rightarrow> bool" where
  "ProtocolSupported v \<longleftrightarrow> v = 0 \<or> (ProtocolMin \<le> v \<and> v \<le> ProtocolMax)"

definition Stale :: "string \<Rightarrow> int \<Rightarrow> bool" where
  "Stale lastSeen now \<longleftrightarrow> lastSeen = [] \<or>
     (case parse_ts lastSeen of None \<Rightarrow> True | Some t \<Rightarrow> StaleAfter < now - t)"

record Node =
  fn_name :: string
  fn_state :: string
  fn_stale :: bool
  fn_seen :: string
  fn_agent :: string
  fn_protocol :: int
  fn_arch :: string
  fn_os :: string
  fn_driver :: string
  fn_reboot :: string
  fn_logon :: string
  fn_cert :: string
  fn_target :: string
  fn_error :: string
  fn_incompatible :: bool
  fn_approved_by :: string
  fn_approved_at :: string
  fn_gpus :: string
  fn_offer :: string
  fn_constraints :: string
  fn_topology :: string
  fn_deployments :: int
  fn_ready :: int

record Deployment =
  fd_id :: string
  fd_model :: string
  fd_backend :: string
  fd_state :: string
  fd_health :: string
  fd_port :: int
  fd_gpus :: "int list"
  fd_routes :: "string list"
  fd_error :: string
  fd_updated :: string
  fd_egress :: string
  fd_egress_reason :: string
  fd_egress_checked :: string
  fd_disabled :: bool

record Staging =
  fs_model :: string
  fs_state :: string
  fs_done :: int
  fs_total :: int
  fs_error :: string

record Refusal =
  fx_deployment :: string
  fx_rev :: int
  fx_reason :: string
  fx_kind :: string
  fx_updated :: string

record Detail =
  fg_node :: Node
  fg_deployments :: "Deployment list"
  fg_staging :: "Staging list"
  fg_refusals :: "Refusal list"

definition null_num :: "int option \<Rightarrow> int" where
  "null_num v = (case v of None \<Rightarrow> 0 | Some n \<Rightarrow> n)"

definition scanNode :: "int \<Rightarrow> node_row \<Rightarrow> Node" where
  "scanNode now n =
     \<lparr>fn_name = nd_name n, fn_state = nd_state n, fn_stale = Stale (null_text (nd_seen n)) now,
      fn_seen = null_text (nd_seen n), fn_agent = null_text (nd_agent n), fn_protocol = null_num (nd_protocol n),
      fn_arch = null_text (nd_arch n), fn_os = null_text (nd_os n), fn_driver = null_text (nd_driver n),
      fn_reboot = nd_reboot n, fn_logon = nd_logon n, fn_cert = null_text (nd_cert_expires n),
      fn_target = null_text (nd_upgrade_target n), fn_error = null_text (nd_upgrade_error n),
      fn_incompatible = (\<not> ProtocolSupported (null_num (nd_protocol n))),
      fn_approved_by = null_text (nd_approved_by n), fn_approved_at = null_text (nd_approved_at n),
      fn_gpus = nd_gpus n, fn_offer = nd_offer n, fn_constraints = nd_constraints n,
      fn_topology = nd_topology n, fn_deployments = 0, fn_ready = 0\<rparr>"

definition tally :: "fleet_db \<Rightarrow> string \<Rightarrow> int \<times> int" where
  "tally db node =
     (let ds = filter (\<lambda>d. dp_node d = node) (f_deployments db) in
      (int (length ds), int (length (filter (\<lambda>d. dp_state d = ''ready'') ds))))"

definition Nodes :: "fleet_db \<Rightarrow> int \<Rightarrow> Node list" where
  "Nodes db now = map (\<lambda>n. (scanNode now n)\<lparr>fn_deployments := fst (tally db (nd_name n)),
     fn_ready := snd (tally db (nd_name n))\<rparr>) (sort_key nd_name (f_nodes db))"

definition refusals :: "fleet_db \<Rightarrow> string \<Rightarrow> Refusal list" where
  "refusals db node = map (\<lambda>r. \<lparr>fx_deployment = rf_deployment r, fx_rev = rf_rev r, fx_reason = rf_reason r,
       fx_kind = rf_kind r, fx_updated = rf_updated r\<rparr>)
     (sort_key (\<lambda>r. (rf_kind r, rf_deployment r)) (filter (\<lambda>r. rf_node r = node) (f_refusals db)))"

definition scan_deployment :: "fleet_db \<Rightarrow> string \<Rightarrow> deployment_row \<Rightarrow> Deployment" where
  "scan_deployment db node d =
     \<lparr>fd_id = dp_id d, fd_model = dp_model d, fd_backend = dp_backend d, fd_state = dp_state d,
      fd_health = dp_health d, fd_port = null_num (dp_port d),
      fd_gpus = map gp_index (sort_key gp_index
        (filter (\<lambda>g. gp_node g = node \<and> gp_deployment g = dp_id d) (f_gpus db))),
      fd_routes = map rm_route (sort_key rm_route (filter (\<lambda>m. rm_deployment m = dp_id d) (f_members db))),
      fd_error = null_text (dp_error d), fd_updated = dp_updated d, fd_egress = null_text (dp_egress d),
      fd_egress_reason = null_text (dp_egress_reason d), fd_egress_checked = null_text (dp_egress_checked d),
      fd_disabled = dp_disabled d\<rparr>"

definition deployments :: "fleet_db \<Rightarrow> string \<Rightarrow> Deployment list" where
  "deployments db node = map (scan_deployment db node)
     (sort_key dp_id (filter (\<lambda>d. dp_node d = node) (f_deployments db)))"

definition stagings :: "fleet_db \<Rightarrow> string \<Rightarrow> Staging list" where
  "stagings db node = map (\<lambda>s. \<lparr>fs_model = sg_model s, fs_state = sg_state s, fs_done = sg_done s,
       fs_total = null_num (sg_total s), fs_error = null_text (sg_error s)\<rparr>)
     (sort_key sg_model (filter (\<lambda>s. sg_node s = node) (f_staging db)))"

definition Show :: "fleet_db \<Rightarrow> string \<Rightarrow> int \<Rightarrow> ident_err + Detail" where
  "Show db name now =
     (case find (\<lambda>n. nd_name n = name) (f_nodes db) of
        None \<Rightarrow> Inl (ErrNotFound name)
      | Some n \<Rightarrow>
          (let ds = deployments db name in
           Inr \<lparr>fg_node = (scanNode now n)\<lparr>fn_deployments := int (length ds),
                  fn_ready := int (length (filter (\<lambda>d. fd_state d = ''ready'') ds))\<rparr>,
                fg_deployments = ds, fg_staging = stagings db name, fg_refusals = refusals db name\<rparr>))"

definition EgressCompliant :: string where "EgressCompliant = ''compliant''"
definition EgressNonCompliant :: string where "EgressNonCompliant = ''non-compliant''"
definition EgressInconclusive :: string where "EgressInconclusive = ''inconclusive''"
definition EgressUnasserted :: string where "EgressUnasserted = []"

text \<open>The loop: the two counts, until a non-compliant deployment decides.\<close>

fun egress_scan :: "Deployment list \<Rightarrow> nat \<Rightarrow> nat \<Rightarrow> (nat \<times> nat) option" where
  "egress_scan [] compliant asserted = Some (compliant, asserted)"
| "egress_scan (d # ds) compliant asserted =
     (if fd_egress d = EgressNonCompliant then None
      else if fd_egress d = EgressCompliant then egress_scan ds (Suc compliant) (Suc asserted)
      else if fd_egress d = EgressInconclusive then egress_scan ds compliant (Suc asserted)
      else egress_scan ds compliant asserted)"

definition EgressState :: "Deployment list \<Rightarrow> string" where
  "EgressState ds =
     (case egress_scan ds 0 0 of
        None \<Rightarrow> EgressNonCompliant
      | Some (compliant, asserted) \<Rightarrow>
          if asserted = 0 then EgressUnasserted
          else if compliant = length ds then EgressCompliant
          else EgressInconclusive)"

record Log =
  lg_deployment :: string
  lg_node :: string
  lg_state :: string
  lg_captured :: string
  lg_lines :: string

definition DeploymentLog :: "fleet_db \<Rightarrow> string \<Rightarrow> ident_err + Log" where
  "DeploymentLog db key =
     (case find (\<lambda>d. dp_id d = key) (f_deployments db) of
        None \<Rightarrow> Inl (ErrNotFound key)
      | Some d \<Rightarrow> Inr \<lparr>lg_deployment = key, lg_node = dp_node d, lg_state = dp_state d,
                       lg_captured = dp_updated d, lg_lines = null_text (dp_error d)\<rparr>)"

section \<open>The node lifecycle\<close>

definition StateApproved :: string where "StateApproved = ''approved''"
definition StateDraining :: string where "StateDraining = ''draining''"
definition StateDeparted :: string where "StateDeparted = ''departed''"

definition Permission :: "string \<Rightarrow> string" where
  "Permission to = (if to = StateDraining then ''node.drain'' else ''node.approve'')"

definition nearestNode :: "fleet_db \<Rightarrow> string \<Rightarrow> string option" where
  "nearestNode db name = map_option nd_name (find (\<lambda>n. to_lower (nd_name n) = to_lower name) (f_nodes db))"

definition Transition :: "int \<Rightarrow> string \<Rightarrow> string \<Rightarrow> string \<Rightarrow> id_db \<Rightarrow> fleet_db \<Rightarrow> ident_err + fleet_db" where
  "Transition now name to approvedBy idb db =
     (let ts = format_ts now;
          set_columns = (if to = StateApproved then
               (\<lambda>n. n\<lparr>nd_state := to, nd_approved_by := nullOr approvedBy,
                     nd_approved_at := (if approvedBy \<noteq> [] then Some ts else None)\<rparr>)
             else if to = StateDeparted then (\<lambda>n. n\<lparr>nd_state := to, nd_departed_at := Some ts\<rparr>)
             else (\<lambda>n. n\<lparr>nd_state := to\<rparr>)) in
      if to = StateApproved \<and> node_exists db name \<and> \<not> references (nullOr approvedBy) (map ur_id (d_users idb))
      then Inl (ErrConstraint ''approved_by'')
      else sbind (update_rows node_check (\<lambda>n. nd_name n = name) set_columns (f_nodes db))
             (\<lambda>ns. Inr (db\<lparr>f_nodes := ns\<rparr>)))"

section \<open>Staging requests\<close>

definition Unstage :: string where "Unstage = ''unstage''"
definition Restage :: string where "Restage = ''restage''"

text \<open>The preview is the model, the node and whether the model is deployed there.\<close>

definition StageResetPreview :: "string \<Rightarrow> string \<Rightarrow> string \<Rightarrow> fleet_db \<Rightarrow> ident_err + string \<times> string \<times> bool" where
  "StageResetPreview verb model node db =
     (case find (\<lambda>m. md_id m = model) (f_models db) of
        None \<Rightarrow> Inl (ErrNotFound model)
      | Some m \<Rightarrow>
          (let deployed = (\<exists>d \<in> set (f_deployments db). dp_model d = model \<and> dp_node d = node);
               state = (case find (\<lambda>s. sg_model s = model \<and> sg_node s = node) (f_staging db) of
                          None \<Rightarrow> [] | Some s \<Rightarrow> sg_state s) in
           if verb = Unstage then
             (if deployed then Inl (ErrBadTransition model) else Inr (model, node, deployed))
           else if verb = Restage then
             (if md_source m \<noteq> ''remote'' then Inl (ErrBadTransition model)
              else if state \<noteq> ''corrupt'' then Inl (ErrBadTransition model)
              else Inr (model, node, deployed))
           else Inl (ErrBadName verb)))"

definition RequestStageReset :: "int \<Rightarrow> string \<Rightarrow> string \<Rightarrow> fleet_db \<Rightarrow> ident_err + fleet_db" where
  "RequestStageReset now model node db =
     (if \<not> node_exists db node \<or> \<not> model_exists db model then Inl (ErrConstraint ''stage_reset'')
      else Inr (db\<lparr>f_resets := upsert_row (\<lambda>r. (rr_node r, rr_model r)) (\<lambda>x r. x\<lparr>rr_requested := rr_requested r\<rparr>)
             \<lparr>rr_node = node, rr_model = model, rr_requested = format_ts now\<rparr> (f_resets db)\<rparr>))"

section \<open>Rolling restarts\<close>

record Replica =
  rp_id :: string
  rp_node :: string
  rp_state :: string

definition Ready :: "Replica \<Rightarrow> bool" where "Ready r \<longleftrightarrow> rp_state r = ''ready''"

definition replica_of :: "deployment_row \<Rightarrow> Replica" where
  "replica_of d = \<lparr>rp_id = dp_id d, rp_node = dp_node d, rp_state = dp_state d\<rparr>"

text \<open>The replicas a restart names and the disabled ones it skips.\<close>

definition RestartTargets :: "fleet_db \<Rightarrow> string \<Rightarrow> string \<Rightarrow> Replica list \<times> Replica list" where
  "RestartTargets db model node =
     (let ds = sort_key (\<lambda>d. (dp_node d, dp_id d))
                 (filter (\<lambda>d. dp_model d = model \<and> (node \<noteq> [] \<longrightarrow> dp_node d = node)) (f_deployments db)) in
      (map replica_of (filter (\<lambda>d. \<not> dp_disabled d) ds), map replica_of (filter dp_disabled ds)))"

definition ReadyReplicas :: "fleet_db \<Rightarrow> string \<Rightarrow> int" where
  "ReadyReplicas db model = int (length (filter
     (\<lambda>d. dp_model d = model \<and> dp_state d = ''ready'' \<and> \<not> dp_disabled d) (f_deployments db)))"

definition restart_key :: "restart_row \<Rightarrow> string \<times> string" where
  "restart_key r = (rs_node r, rs_deployment r)"

definition merge_restart :: "restart_row \<Rightarrow> restart_row \<Rightarrow> restart_row" where
  "merge_restart x r = x\<lparr>rs_requested := rs_requested r, rs_roll := rs_roll r, rs_sequence := rs_sequence r\<rparr>"

definition request_one :: "string \<Rightarrow> string \<Rightarrow> nat \<times> Replica \<Rightarrow> fleet_db \<Rightarrow> ident_err + fleet_db" where
  "request_one ts roll ir db =
     (if \<not> node_exists db (rp_node (snd ir)) \<or> \<not> (\<exists>d \<in> set (f_deployments db). dp_id d = rp_id (snd ir))
      then Inl (ErrConstraint ''deployment_restart'')
      else Inr (db\<lparr>f_restarts := upsert_row restart_key merge_restart
             \<lparr>rs_node = rp_node (snd ir), rs_deployment = rp_id (snd ir), rs_requested = ts, rs_roll = roll,
              rs_sequence = int (fst ir)\<rparr> (f_restarts db)\<rparr>))"

definition RequestRestart :: "int \<Rightarrow> string \<Rightarrow> Replica list \<Rightarrow> fleet_db \<Rightarrow> ident_err + fleet_db" where
  "RequestRestart now roll replicas db = each (request_one (format_ts now) roll) (List.enumerate 0 replicas) db"

text \<open>\<open>strconv.FormatInt(n, 36)\<close>.\<close>

definition digit36 :: "nat \<Rightarrow> char" where
  "digit36 d = (if d < 10 then char_of (48 + d) else char_of (87 + d))"

fun show36 :: "nat \<Rightarrow> string" where
  "show36 n = (if n < 36 then [digit36 n] else show36 (n div 36) @ [digit36 (n mod 36)])"

declare show36.simps [simp del]

definition RollID :: "int \<Rightarrow> string" where
  "RollID now = ''roll_'' @ (if now < 0 then CHR ''-'' # show36 (nat (- now)) else show36 (nat now))"

definition AllowRoll :: "string \<Rightarrow> int \<Rightarrow> nat \<Rightarrow> bool \<Rightarrow> fleet_err + unit" where
  "AllowRoll model ready restarting allowDowntime =
     (if allowDowntime \<or> 2 \<le> ready then Inr ()
      else if restarting = 0 then Inr ()
      else if ready = 0 then Inr ()
      else Inl (ErrWouldDropTheModel model))"

definition ReplicaIDs :: "Replica list \<Rightarrow> string list" where "ReplicaIDs rs = map rp_id rs"

definition held_back :: "restart_row list \<Rightarrow> restart_row \<Rightarrow> bool" where
  "held_back rows r \<longleftrightarrow> (\<exists>e \<in> set rows. rs_roll e = rs_roll r \<and> rs_roll e \<noteq> [] \<and> rs_sequence e < rs_sequence r)"

definition OfferedRestarts :: "string \<Rightarrow> fleet_db \<Rightarrow> string list" where
  "OfferedRestarts node db = map rs_deployment (sort_key rs_deployment
     (filter (\<lambda>r. rs_node r = node \<and> \<not> held_back (f_restarts db) r) (f_restarts db)))"

text \<open>
  The restart handler: \<open>Render\<close> gives the targets, the skipped ones and the ready count, or refuses;
  \<open>Apply\<close> derives them again and writes the roll.
\<close>

definition restart_render :: "string \<Rightarrow> string \<Rightarrow> bool \<Rightarrow> fleet_db \<Rightarrow> fleet_err + string list \<times> string list \<times> int" where
  "restart_render model node allowDowntime db =
     (let (targets, disabled) = RestartTargets db model node; ready = ReadyReplicas db model in
      if targets = [] \<and> disabled = [] then Inl (Ident (ErrNotFound model))
      else sbind (AllowRoll model ready (length targets) allowDowntime)
             (\<lambda>_. Inr (ReplicaIDs targets, ReplicaIDs disabled, ready)))"

definition restart_apply :: "string \<Rightarrow> int \<Rightarrow> string \<Rightarrow> string \<Rightarrow> bool \<Rightarrow> fleet_db \<Rightarrow> fleet_err + fleet_db \<times> string list" where
  "restart_apply role now model node allowDowntime db =
     sbind (ident (Authorize role ''model.restart'')) (\<lambda>_.
     let (targets, disabled) = RestartTargets db model node in
     sbind (AllowRoll model (ReadyReplicas db model) (length targets) allowDowntime) (\<lambda>_.
     sbind (ident (RequestRestart now (RollID now) targets db)) (\<lambda>db'.
     Inr (db', ReplicaIDs disabled))))"

section \<open>Deleting a deployment\<close>

text \<open>
  \<open>config apply --prune\<close> deletes a deployment that the configuration no longer names: its restart rows first,
  which would hold it by their foreign key, and with it what the schema lets cascade.
\<close>

definition delete_deployment :: "string \<Rightarrow> 'a fleet_db_scheme \<Rightarrow> 'a fleet_db_scheme" where
  "delete_deployment d db =
     db\<lparr>f_restarts := delete_rows (\<lambda>x. rs_deployment x = d) (f_restarts db),
        f_deployments := delete_rows (\<lambda>x. dp_id x = d) (f_deployments db),
        f_gpus := delete_rows (\<lambda>g. gp_deployment g = d) (f_gpus db),
        f_members := delete_rows (\<lambda>m. rm_deployment m = d) (f_members db),
        f_refusals := delete_rows (\<lambda>x. rf_deployment x = d) (f_refusals db)\<rparr>"

end
