(* ===== verification/Gateway.thy ===== *)
theory Gateway
  imports JsonDecode Throttle Fleet
begin

text \<open>
  \<^verbatim>\<open>internal/gateway\<close> (gateway.go, proxy.go, errors.go): one inference request from its credential to its
  usage row.  The handler is a function of the tables, the throttle and an environment: the clock readings
  it makes, what \<open>crypto/rand\<close> yields, the reads that fail, and the data plane, which answers the body it
  is sent with a sequence of writes.  Request and response bodies are strings; nothing of them is in the
  state that is returned.
\<close>

section \<open>Errors\<close>

datatype gw_err = Identity_err ident_err | BadRequest string | Throttled refusal | NoReadyMember string
  | Internal string

definition noReadyRetryAfter :: int where "noReadyRetryAfter = 60"

definition statusFor :: "gw_err \<Rightarrow> int \<times> string" where
  "statusFor e =
     (case e of
        Identity_err i \<Rightarrow>
          (case i of
             ErrBadToken \<Rightarrow> (401, ''unauthenticated'')
           | ErrTokenRevoked _ \<Rightarrow> (401, ''unauthenticated'')
           | ErrTokenExpired _ \<Rightarrow> (401, ''unauthenticated'')
           | ErrNotActive _ \<Rightarrow> (401, ''unauthenticated'')
           | ErrDenied _ _ \<Rightarrow> (403, ''forbidden'')
           | _ \<Rightarrow> (500, ''internal''))
      | BadRequest _ \<Rightarrow> (400, ''bad_request'')
      | Throttled _ \<Rightarrow> (429, ''rate_limited'')
      | NoReadyMember _ \<Rightarrow> (503, ''no_ready_deployment'')
      | Internal _ \<Rightarrow> (500, ''internal''))"

record reply =
  re_status :: int
  re_code :: string
  re_message :: string
  re_detail :: "(string \<times> goval) list option"
  re_request :: string
  re_retry :: "string option"

definition refusal_detail :: "refusal \<Rightarrow> (string \<times> goval) list" where
  "refusal_detail r =
     [(''limit'', GStr (r_limit r)), (''subject'', GStr (r_subject r)), (''limit_value'', GInt (r_value r)),
      (''used'', GInt (r_used r)), (''resets_in_seconds'', GInt (r_resets r))]"

text \<open>The text of an error (\<open>err.Error()\<close>) is the argument \<open>says\<close>.\<close>

definition fail :: "(gw_err \<Rightarrow> string) \<Rightarrow> string \<Rightarrow> gw_err \<Rightarrow> reply" where
  "fail says req e =
     (let (status, code) = statusFor e in
      \<lparr>re_status = status, re_code = code,
       re_message = if status = 500 then ''the gateway failed to handle this request'' else says e,
       re_detail = (case e of Throttled r \<Rightarrow> Some (refusal_detail r) | _ \<Rightarrow> None),
       re_request = req,
       re_retry = (case e of Throttled r \<Rightarrow> Some (retryAfter r)
                   | NoReadyMember _ \<Rightarrow> Some (show_int noReadyRetryAfter) | _ \<Rightarrow> None)\<rparr>)"

section \<open>Who may call what\<close>

record gw_state =
  g_ids :: id_db
  g_fleet :: fleet_db
  g_throttle :: throttle

definition no_actor :: Actor where
  "no_actor = \<lparr>actor_id = [], actor_method = [], actor_session = []\<rparr>"

text \<open>The recorded use of the credential is kept or, where it cannot be written, logged.\<close>

definition touched :: "string \<Rightarrow> int \<Rightarrow> id_db \<Rightarrow> id_db" where
  "touched key now db = (case TouchToken key now db of Inr db' \<Rightarrow> db' | Inl _ \<Rightarrow> db)"

definition gw_principal :: "(string \<Rightarrow> string) \<Rightarrow> int \<Rightarrow> int \<Rightarrow> string \<Rightarrow> id_db \<Rightarrow> gw_err + principal \<times> id_db" where
  "gw_principal sha now touch header db =
     (let raw = trim_space header in
      if \<not> has_prefix raw ''Bearer '' then Inl (Identity_err ErrBadToken)
      else (case ResolveToken sha db now (trim_space (trim_prefix raw ''Bearer '')) of
              Inl e \<Rightarrow> Inl (Identity_err e)
            | Inr p \<Rightarrow>
                if t_kind (p_token p) \<noteq> KindService then Inl (Identity_err ErrBadToken)
                else Inr (p\<lparr>p_role := us_role (p_user p), p_actor := no_actor\<rparr>, touched (t_id (p_token p)) touch db)))"

definition gw_authorize :: "(string \<Rightarrow> string) \<Rightarrow> int \<Rightarrow> int \<Rightarrow> string \<Rightarrow> id_db \<Rightarrow> (gw_err + principal) \<times> id_db" where
  "gw_authorize sha now touch header db =
     (case gw_principal sha now touch header db of
        Inl e \<Rightarrow> (Inl e, db)
      | Inr (p, db') \<Rightarrow>
          (case Authorize (p_role p) ''inference.use'' of
             Inl e \<Rightarrow> (Inl (Identity_err e), db') | Inr _ \<Rightarrow> (Inr p, db')))"

definition routesFor :: "fleet_db \<Rightarrow> principal \<Rightarrow> string set" where
  "routesFor db p = set (map gr_route (filter (\<lambda>g. gr_user g = us_id (p_user p)) (f_grants db)))"

definition routeHasReadyMember :: "fleet_db \<Rightarrow> string \<Rightarrow> bool" where
  "routeHasReadyMember db route =
     list_ex (\<lambda>m. rm_route m = route \<and>
       list_ex (\<lambda>d. dp_id d = rm_deployment m \<and> dp_state d = ''ready'' \<and> \<not> dp_disabled d) (f_deployments db))
     (f_members db)"

definition servedBy :: "fleet_db \<Rightarrow> string \<Rightarrow> (string \<times> string) option" where
  "servedBy db key = map_option (\<lambda>d. (dp_model d, dp_node d)) (find (\<lambda>d. dp_id d = key) (f_deployments db))"

definition caller_of :: "principal \<Rightarrow> caller" where
  "caller_of p = \<lparr>c_name = us_name (p_user p), c_id = us_id (p_user p), c_role = p_role p, c_token = t_id (p_token p)\<rparr>"

section \<open>The request body\<close>

definition maxRequestBody :: nat where "maxRequestBody = 8 * 1024 * 1024"

record inference =
  in_model :: string
  in_stream :: bool

definition no_inference :: inference where "no_inference = \<lparr>in_model = [], in_stream = False\<rparr>"

definition set_inference :: "string \<Rightarrow> ir \<Rightarrow> inference \<Rightarrow> inference decoded" where
  "set_inference f v x =
     (if f = ''model'' then (let (s, ok) = dec_string v (in_model x) in (x\<lparr>in_model := s\<rparr>, ok))
      else if f = ''stream'' then (let (b, ok) = dec_bool v (in_stream x) in (x\<lparr>in_stream := b\<rparr>, ok))
      else (x, True))"

definition read_inference :: "string \<Rightarrow> inference option" where
  "read_inference s =
     unmarshal_into (dec_struct [''model'', ''stream'', ''stream_options''] set_inference) s no_inference"

text \<open>
  \<open>injectIncludeUsage\<close>: the members of the outgoing document, sorted by name as \<open>json.Marshal\<close> writes a
  map.  Options that do not decode, for a number no double holds as for any other value than an object, are
  replaced by none; \<open>stream_options\<close> that is \<open>null\<close> leaves them a nil map, and assigning to it panics.
\<close>

datatype injected = Injected "(string \<times> ir) list" | NotAnObject | NilMap

definition set_member :: "string \<Rightarrow> ir \<Rightarrow> (string \<times> ir) list \<Rightarrow> (string \<times> ir) list" where
  "set_member k v ms = (k, v) # filter (\<lambda>m. fst m \<noteq> k) ms"

definition go_map :: "(string \<times> ir) list \<Rightarrow> (string \<times> ir) list" where
  "go_map ms = foldl (\<lambda>acc (k, v). set_member k v acc) [] ms"

definition injectIncludeUsage :: "string \<Rightarrow> injected" where
  "injectIncludeUsage body =
     (case unmarshal body of
        Some (IObj ms) \<Rightarrow>
          (let put_opts = (\<lambda>opts. Injected (sort_key fst (set_member ''stream_options''
                 (IObj (sort_key fst (set_member ''include_usage'' (IBool True) opts))) (go_map ms)))) in
           (case last_member ms ''stream_options'' of
              Some (IObj opts) \<Rightarrow> put_opts (if numbers_fit (IObj opts) then go_map opts else [])
            | Some INull \<Rightarrow> NilMap
            | _ \<Rightarrow> put_opts []))
      | Some INull \<Rightarrow> NilMap
      | _ \<Rightarrow> NotAnObject)"

section \<open>Metering\<close>

record choice =
  ch_content :: string
  ch_text :: string

record document =
  do_model :: string
  do_choices :: "choice slice"
  do_usage :: "(int \<times> int) option"

definition no_choice :: choice where "no_choice = \<lparr>ch_content = [], ch_text = []\<rparr>"
definition no_document :: document where "no_document = \<lparr>do_model = [], do_choices = ([], 0), do_usage = None\<rparr>"

definition set_delta :: "string \<Rightarrow> ir \<Rightarrow> choice \<Rightarrow> choice decoded" where
  "set_delta f v c = (let (s, ok) = dec_string v (ch_content c) in (c\<lparr>ch_content := s\<rparr>, ok))"

definition set_choice :: "string \<Rightarrow> ir \<Rightarrow> choice \<Rightarrow> choice decoded" where
  "set_choice f v c =
     (if f = ''delta'' then dec_struct [''content''] set_delta v c
      else (let (s, ok) = dec_string v (ch_text c) in (c\<lparr>ch_text := s\<rparr>, ok)))"

definition set_counts :: "string \<Rightarrow> ir \<Rightarrow> int \<times> int \<Rightarrow> (int \<times> int) decoded" where
  "set_counts f v u =
     (if f = ''prompt_tokens'' then (let (i, ok) = dec_int64 v (fst u) in ((i, snd u), ok))
      else (let (i, ok) = dec_int64 v (snd u) in ((fst u, i), ok)))"

definition set_document :: "string \<Rightarrow> ir \<Rightarrow> document \<Rightarrow> document decoded" where
  "set_document f v x =
     (if f = ''model'' then (let (s, ok) = dec_string v (do_model x) in (x\<lparr>do_model := s\<rparr>, ok))
      else if f = ''choices'' then
        (let (cs, ok) = dec_slice (dec_struct [''delta'', ''text''] set_choice) no_choice v (do_choices x) in
         (x\<lparr>do_choices := cs\<rparr>, ok))
      else (let (u, ok) = dec_pointer (dec_struct [''prompt_tokens'', ''completion_tokens''] set_counts) (0, 0) v (do_usage x) in
            (x\<lparr>do_usage := u\<rparr>, ok)))"

record meter =
  m_model :: string
  m_prompt :: int
  m_completion :: int
  m_streaming :: bool
  m_saw :: bool
  m_observed :: int

definition observe :: "string \<Rightarrow> meter \<Rightarrow> meter" where
  "observe doc m =
     (case unmarshal_into (dec_struct [''model'', ''choices'', ''usage''] set_document) doc no_document of
        None \<Rightarrow> m
      | Some b \<Rightarrow>
          (let m1 = (if do_model b \<noteq> [] then m\<lparr>m_model := do_model b\<rparr> else m);
               m2 = (if m_streaming m1
                     then m1\<lparr>m_observed := m_observed m1 +
                            int (length (filter (\<lambda>c. ch_content c \<noteq> [] \<or> ch_text c \<noteq> []) (slice_values (do_choices b))))\<rparr>
                     else m1) in
           case do_usage b of
             None \<Rightarrow> m2
           | Some (p, c) \<Rightarrow> m2\<lparr>m_saw := True, m_prompt := p, m_completion := c\<rparr>))"

record metering =
  w_meter :: meter
  w_status :: int
  w_buf :: string
  w_partial :: string

definition newline :: char where "newline = CHR 0x0A"

text \<open>One line of an event stream, without its newline.\<close>

definition scan_line :: "string \<Rightarrow> meter \<Rightarrow> meter" where
  "scan_line l m =
     (let t = trim_space l in
      if \<not> has_prefix t ''data:'' then m
      else (let payload = trim_space (trim_prefix t ''data:'') in
            if payload = [] \<or> payload = ''[DONE]'' then m else observe payload m))"

function scan_lines :: "string \<Rightarrow> meter \<Rightarrow> meter \<times> string" where
  "scan_lines s m =
     (if newline \<in> set s
      then scan_lines (drop 1 (dropWhile (\<lambda>c. c \<noteq> newline) s)) (scan_line (takeWhile (\<lambda>c. c \<noteq> newline) s) m)
      else (m, s))"
  by pat_completeness auto
termination
proof (relation "measure (\<lambda>(s, m). length s)")
  fix s :: string and m :: meter
  assume "newline \<in> set s"
  then have "s \<noteq> []" by auto
  then show "((drop 1 (dropWhile (\<lambda>c. c \<noteq> newline) s), scan_line (takeWhile (\<lambda>c. c \<noteq> newline) s) m), s, m)
      \<in> measure (\<lambda>(s, m). length s)"
    using length_dropWhile_le [of "\<lambda>c. c \<noteq> newline" s] by (cases s) auto
qed simp

declare scan_lines.simps [simp del]

definition scanChunks :: "string \<Rightarrow> metering \<Rightarrow> metering" where
  "scanChunks b w =
     (let (m, rest) = scan_lines (w_partial w @ b) (w_meter w) in w\<lparr>w_meter := m, w_partial := rest\<rparr>)"

definition WriteHeader :: "int \<Rightarrow> metering \<Rightarrow> metering" where
  "WriteHeader status w = w\<lparr>w_status := status\<rparr>"

definition Write :: "string \<Rightarrow> metering \<Rightarrow> metering" where
  "Write b w =
     (let w1 = (if w_status w = 0 then w\<lparr>w_status := 200\<rparr> else w) in
      if m_streaming (w_meter w1) then scanChunks b w1
      else if length (w_buf w1) < maxRequestBody then w1\<lparr>w_buf := w_buf w1 @ b\<rparr>
      else w1)"

definition finish :: "metering \<Rightarrow> metering" where
  "finish w = (if \<not> m_streaming (w_meter w) \<and> w_buf w \<noteq> [] then w\<lparr>w_meter := observe (w_buf w) (w_meter w)\<rparr> else w)"

section \<open>The data plane\<close>

text \<open>
  What is sent to the plane, and what \<open>ReverseProxy.ServeHTTP\<close> makes of the exchange: the header naming
  the member that served, the writes it made, and whether it panicked with \<open>ErrAbortHandler\<close>, which it does
  under a server when the body cannot be copied to its end.
\<close>

datatype sent = Verbatim string | Members "(string \<times> ir) list"
datatype wevent = Head int | Chunk string

record proxied =
  px_served :: string
  px_events :: "wevent list"
  px_aborted :: bool

definition unreachable_body :: "string \<Rightarrow> string" where
  "unreachable_body req = ''{\"error\":{\"code\":\"upstream_unavailable\",\"message\":\"the model gateway is unreachable\"'' @
     (if req = [] then [] else '',\"request_id\":\"'' @ req @ [CHR 0x22]) @ ''}}'' @ [newline]"

text \<open>The error handler of the proxy: 502, and no fallback.\<close>

definition unreachable :: "string \<Rightarrow> proxied" where
  "unreachable req = \<lparr>px_served = [], px_events = [Head 502, Chunk (unreachable_body req)], px_aborted = False\<rparr>"

fun write_event :: "wevent \<Rightarrow> metering \<Rightarrow> metering" where
  "write_event (Head status) w = WriteHeader status w"
| "write_event (Chunk b) w = Write b w"

definition play :: "wevent list \<Rightarrow> metering \<Rightarrow> metering" where
  "play es w = foldl (\<lambda>w e. write_event e w) w es"

section \<open>The handler\<close>

record gw_env =
  e_sha :: "string \<Rightarrow> string"
  e_header :: string
  e_body :: "string option"
  e_request :: string
  e_started :: int
  e_resolved :: int
  e_touch :: int
  e_admitted :: int
  e_refused :: int
  e_finished :: int
  e_released :: int
  e_rnd :: "string option"
  e_routes_err :: "string option"
  e_ready_err :: "string option"
  e_limits :: "string + limit_row list"
  e_usage_err :: "string option"
  e_served_header :: bool
  e_attribution_fails :: bool
  e_plane :: "sent \<Rightarrow> proxied option"
  e_says :: "gw_err \<Rightarrow> string"

definition failing :: "string option \<Rightarrow> 'a \<Rightarrow> gw_err + 'a" where
  "failing e x = (case e of None \<Rightarrow> Inr x | Some s \<Rightarrow> Inl (Internal s))"

datatype outcome = Refused reply | Served int | Panicked

text \<open>The refused request as it enters \<open>usage\<close>; a row that cannot be written is logged.\<close>

definition keep_usage :: "gw_env \<Rightarrow> Usage \<Rightarrow> gw_state \<Rightarrow> gw_state" where
  "keep_usage env u st =
     (case RecordUsage (e_rnd env) u (g_ids st) (g_fleet st) of
        Inr db \<Rightarrow> st\<lparr>g_fleet := db\<rparr> | Inl _ \<Rightarrow> st)"

definition recordThrottled :: "gw_env \<Rightarrow> principal \<Rightarrow> string \<Rightarrow> gw_state \<Rightarrow> gw_state" where
  "recordThrottled env p model st =
     keep_usage env \<lparr>ug_ts = e_started env, ug_user = us_id (p_user p), ug_token = t_id (p_token p),
       ug_route = model, ug_model = model, ug_deployment = [], ug_node = [], ug_request = e_request env,
       ug_prompt = 0, ug_completion = 0, ug_latency = e_refused env - e_started env, ug_status = 429,
       ug_streamed = False, ug_partial = False\<rparr> st"

definition no_metering :: "string \<Rightarrow> bool \<Rightarrow> metering" where
  "no_metering model streaming =
     \<lparr>w_meter = \<lparr>m_model = model, m_prompt = 0, m_completion = 0, m_streaming = streaming, m_saw = False, m_observed = 0\<rparr>,
      w_status = 0, w_buf = [], w_partial = []\<rparr>"

text \<open>The usage row of a proxied request: attributed to what served it, and partial where no usage was seen.\<close>

definition usage_row_of :: "gw_env \<Rightarrow> principal \<Rightarrow> inference \<Rightarrow> string \<Rightarrow> metering \<Rightarrow> fleet_db \<Rightarrow> Usage" where
  "usage_row_of env p want served w db =
     (let m = w_meter w;
          claims = e_served_header env \<and> served \<noteq> [];
          place = (if claims \<and> \<not> e_attribution_fails env then servedBy db served else None);
          partial = m_streaming m \<and> \<not> m_saw m in
      \<lparr>ug_ts = e_started env, ug_user = us_id (p_user p), ug_token = t_id (p_token p), ug_route = in_model want,
       ug_model = (case place of None \<Rightarrow> m_model m | Some (model, _) \<Rightarrow> model),
       ug_deployment = (if claims then served else []),
       ug_node = (case place of None \<Rightarrow> [] | Some (_, node) \<Rightarrow> node),
       ug_request = e_request env, ug_prompt = m_prompt m,
       ug_completion = (if partial then m_observed m else m_completion m),
       ug_latency = e_finished env - e_started env, ug_status = w_status w,
       ug_streamed = in_stream want, ug_partial = partial\<rparr>)"

definition give_back :: "gw_env \<Rightarrow> ticket option \<Rightarrow> int \<Rightarrow> gw_state \<Rightarrow> gw_state" where
  "give_back env k tokens st =
     (case k of None \<Rightarrow> st | Some k \<Rightarrow> st\<lparr>g_throttle := release k tokens (e_released env) (g_throttle st)\<rparr>)"

text \<open>From the proxied request to the deferred release.\<close>

definition proxy_and_meter :: "gw_env \<Rightarrow> principal \<Rightarrow> inference \<Rightarrow> sent \<Rightarrow> ticket option \<Rightarrow> gw_state \<Rightarrow> gw_state \<times> outcome" where
  "proxy_and_meter env p want body k st =
     (let px = (case e_plane env body of None \<Rightarrow> unreachable (e_request env) | Some px \<Rightarrow> px);
          w = play (px_events px) (no_metering (in_model want) (in_stream want)) in
      if px_aborted px
      then (give_back env k (m_prompt (w_meter w) + m_completion (w_meter w)) st, Panicked)
      else (let w' = finish w;
                u = usage_row_of env p want (px_served px) w' (g_fleet st) in
            (give_back env k (ug_prompt u + ug_completion u) (keep_usage env u st), Served (w_status w'))))"

text \<open>From the decoded request to admission: the allowlist, the readiness of the route, the throttle.\<close>

definition admit_inference :: "gw_env \<Rightarrow> principal \<Rightarrow> inference \<Rightarrow> gw_state \<Rightarrow> gw_state \<times> (gw_err + ticket option)" where
  "admit_inference env p want st =
     (case failing (e_routes_err env) (routesFor (g_fleet st) p) of
        Inl e \<Rightarrow> (st, Inl e)
      | Inr allowed \<Rightarrow>
          if in_model want \<notin> allowed then (st, Inl (Identity_err (ErrDenied (us_name (p_user p)) None)))
          else (case failing (e_ready_err env) (routeHasReadyMember (g_fleet st) (in_model want)) of
                  Inl e \<Rightarrow> (st, Inl e)
                | Inr ready \<Rightarrow>
                    if \<not> ready then (st, Inl (NoReadyMember (in_model want)))
                    else (case Server_admit (e_limits env)
                            (case e_usage_err env of None \<Rightarrow> Inr (map usage_row.truncate (f_usage (g_fleet st))) | Some e \<Rightarrow> Inl e)
                            (caller_of p) (e_admitted env) (g_throttle st) of
                            (t, Inl e) \<Rightarrow> (st\<lparr>g_throttle := t\<rparr>, Inl (Internal e))
                          | (t, Inr (Inl r)) \<Rightarrow>
                              (recordThrottled env p (in_model want) (st\<lparr>g_throttle := t\<rparr>), Inl (Throttled r))
                          | (t, Inr (Inr k)) \<Rightarrow> (st\<lparr>g_throttle := t\<rparr>, Inr k))))"

definition read_request :: "string option \<Rightarrow> gw_err + string \<times> inference" where
  "read_request body =
     (case body of
        None \<Rightarrow> Inl (BadRequest ''could not read the request body'')
      | Some b \<Rightarrow>
          (let b' = take maxRequestBody b in
           case read_inference b' of
             None \<Rightarrow> Inl (BadRequest ''the request body is not a JSON object'')
           | Some want \<Rightarrow>
               if in_model want = [] then Inl (BadRequest ''no model was named'') else Inr (b', want)))"

definition proxyInference :: "gw_env \<Rightarrow> gw_state \<Rightarrow> gw_state \<times> outcome" where
  "proxyInference env st =
     (let refuse = (\<lambda>s e. (s, Refused (fail (e_says env) (e_request env) e))) in
      case gw_authorize (e_sha env) (e_resolved env) (e_touch env) (e_header env) (g_ids st) of
        (Inl e, ids) \<Rightarrow> refuse (st\<lparr>g_ids := ids\<rparr>) e
      | (Inr p, ids) \<Rightarrow>
          (case read_request (e_body env) of
             Inl e \<Rightarrow> refuse (st\<lparr>g_ids := ids\<rparr>) e
           | Inr (body, want) \<Rightarrow>
               (case admit_inference env p want (st\<lparr>g_ids := ids\<rparr>) of
                  (st1, Inl e) \<Rightarrow> refuse st1 e
                | (st1, Inr k) \<Rightarrow>
                    if in_stream want then
                      (case injectIncludeUsage body of
                         NotAnObject \<Rightarrow> refuse st1 (BadRequest ''the request body is not a JSON object'')
                       | NilMap \<Rightarrow> (st1, Panicked)
                       | Injected ms \<Rightarrow> proxy_and_meter env p want (Members ms) k st1)
                    else proxy_and_meter env p want (Verbatim body) k st1)))"

section \<open>The model list\<close>

definition listModels :: "gw_env \<Rightarrow> gw_state \<Rightarrow> gw_state \<times> (reply + string list)" where
  "listModels env st =
     (case gw_authorize (e_sha env) (e_resolved env) (e_touch env) (e_header env) (g_ids st) of
        (Inl e, ids) \<Rightarrow> (st\<lparr>g_ids := ids\<rparr>, Inl (fail (e_says env) (e_request env) e))
      | (Inr p, ids) \<Rightarrow>
          (case failing (e_routes_err env) (routesFor (g_fleet st) p) of
             Inl e \<Rightarrow> (st\<lparr>g_ids := ids\<rparr>, Inl (fail (e_says env) (e_request env) e))
           | Inr names \<Rightarrow> (st\<lparr>g_ids := ids\<rparr>, Inr (sorted_list_of_set names))))"

end
