(* ===== verification/GatewayProps.thy ===== *)
theory GatewayProps
  imports Gateway
begin

text \<open>
  What holds of the gateway: who reaches the data plane, that concurrency slots come back, that how a
  stream is cut into writes does not matter, and the two exits on which accounting is lost.
\<close>

section \<open>Slots\<close>

lemma inflight_hold:
  "inflight_at (fst (hold_slot l t)) key =
     inflight_at t key + (if k_key (snd (hold_slot l t)) = key \<and> key \<noteq> [] then 1 else 0)"
  by (auto simp: hold_slot_def inflight_at_def concurrent_key_def)

lemma inflight_admit:
  assumes "admit l now d t = (t', Inr k)"
  shows "inflight_at t' key = inflight_at t key + (if k_key k = key \<and> key \<noteq> [] then 1 else 0)"
proof -
  define t2 where "t2 = fst (take_rpm l now (fst (check_tpm l now t)))"
  have "hold_slot l t2 = (t', k)" using assms by (simp add: admit_Inr_iff t2_def)
  then have "inflight_at t' key = inflight_at t2 key + (if k_key k = key \<and> key \<noteq> [] then 1 else 0)"
    using inflight_hold [of l t2 key] by simp
  moreover have "inflight_at t2 key = inflight_at t key" by (rule inflight_at_cong) (simp add: t2_def)
  ultimately show ?thesis by simp
qed

lemma inflight_release:
  "inflight_at (release k n c t) key =
     (if k_key k = key \<and> key \<noteq> [] then max 0 (inflight_at t key - 1) else inflight_at t key)"
  unfolding inflight_at_cong [OF release_inflight]
  by (auto simp: free_slot_def inflight_at_def Let_def)

text \<open>How many slots of \<open>key\<close> an admission took.\<close>

definition slot_of :: "string \<Rightarrow> ticket option \<Rightarrow> int" where
  "slot_of key k = (case k of None \<Rightarrow> 0 | Some k \<Rightarrow> if k_key k = key \<and> key \<noteq> [] then 1 else 0)"

lemma Server_admit_inflight:
  "Server_admit rows us p now t = (t', Inr (Inr k)) \<Longrightarrow> inflight_at t' key = inflight_at t key + slot_of key k"
  "Server_admit rows us p now t = (t', Inr (Inl r)) \<Longrightarrow> inflight_at t' key = inflight_at t key"
  "Server_admit rows us p now t = (t', Inl e) \<Longrightarrow> inflight_at t' key = inflight_at t key"
  by (auto simp: Server_admit_def slot_of_def inflight_admit dest!: admit_Inl_inflight
      intro: inflight_at_cong split: sum.splits if_splits prod.splits option.splits)

lemma keep_usage_throttle [simp]: "g_throttle (keep_usage env u st) = g_throttle st"
  by (simp add: keep_usage_def split: sum.splits)

lemma admit_inference_inflight:
  "admit_inference env p want st = (st1, Inr k) \<Longrightarrow>
     inflight_at (g_throttle st1) key = inflight_at (g_throttle st) key + slot_of key k"
  "admit_inference env p want st = (st1, Inl e) \<Longrightarrow>
     inflight_at (g_throttle st1) key = inflight_at (g_throttle st) key"
  by (auto simp: admit_inference_def recordThrottled_def dest: Server_admit_inflight [where key = key]
      split: sum.splits if_splits prod.splits)

lemma give_back_inflight:
  "inflight_at (g_throttle (give_back env k n st)) key =
     (if slot_of key k = 1 then max 0 (inflight_at (g_throttle st) key - 1) else inflight_at (g_throttle st) key)"
  by (auto simp: give_back_def slot_of_def inflight_release split: option.splits)

lemma proxy_and_meter_inflight:
  assumes "proxy_and_meter env p want body k st = (st', res)"
  shows "inflight_at (g_throttle st') key =
     (if slot_of key k = 1 then max 0 (inflight_at (g_throttle st) key - 1) else inflight_at (g_throttle st) key)"
  using assms by (auto simp: proxy_and_meter_def Let_def give_back_inflight split: if_splits)

text \<open>A body that decoded into a request that names a model is an object.\<close>

lemma read_inference_object:
  assumes "read_inference s = Some want" and "in_model want \<noteq> []"
  shows "\<exists>ms. unmarshal s = Some (IObj ms)"
  using assms by (auto simp: read_inference_def unmarshal_into_def dec_struct_def no_inference_def Let_def
      split: option.splits ir.splits prod.splits if_splits)

lemma inject_object:
  assumes "unmarshal s = Some (IObj ms)"
  shows "injectIncludeUsage s \<noteq> NotAnObject" and "injectIncludeUsage s = NilMap \<longleftrightarrow> last_member ms ''stream_options'' = Some INull"
  using assms by (auto simp: injectIncludeUsage_def Let_def split: option.splits ir.splits)

lemma slot_of_cases: "slot_of key k = 0 \<or> slot_of key k = 1"
  by (simp add: slot_of_def split: option.splits)

text \<open>
  A body that would leave \<open>injectIncludeUsage\<close> with a nil map.
\<close>

definition null_options :: "string option \<Rightarrow> bool" where
  "null_options body = (case body of None \<Rightarrow> False
     | Some b \<Rightarrow> (case unmarshal (take maxRequestBody b) of
         Some (IObj ms) \<Rightarrow> last_member ms ''stream_options'' = Some INull | _ \<Rightarrow> False))"

lemma slots_returned:
  assumes "proxyInference env st = (st', res)" and "0 \<le> inflight_at (g_throttle st) key"
    and "\<not> null_options (e_body env)"
  shows "inflight_at (g_throttle st') key = inflight_at (g_throttle st) key"
proof -
  obtain r ids where a: "gw_authorize (e_sha env) (e_resolved env) (e_touch env) (e_header env) (g_ids st) = (r, ids)"
    by fastforce
  show ?thesis
  proof (cases r)
    case (Inl e)
    with a assms(1) show ?thesis by (auto simp: proxyInference_def Let_def)
  next
    case (Inr p)
    show ?thesis
    proof (cases "read_request (e_body env)")
      case (Inl e)
      with a Inr assms(1) show ?thesis by (auto simp: proxyInference_def Let_def)
    next
      case (Inr bw)
      then obtain body b want where b: "read_request (e_body env) = Inr (b, want)" "e_body env = Some body"
        "b = take maxRequestBody body" "read_inference b = Some want" "in_model want \<noteq> []"
        by (auto simp: read_request_def Let_def split: option.splits if_splits)
      then obtain ms where ms: "unmarshal b = Some (IObj ms)" using read_inference_object by blast
      obtain st1 k where k: "admit_inference env p want (st\<lparr>g_ids := ids\<rparr>) = (st1, k)" by fastforce
      show ?thesis
      proof (cases k)
        case (Inl e)
        with a \<open>r = Inr p\<close> b(1) k assms(1) admit_inference_inflight(2) [of env p want "st\<lparr>g_ids := ids\<rparr>" st1 e key]
        show ?thesis by (auto simp: proxyInference_def Let_def)
      next
        case (Inr k')
        have n: "injectIncludeUsage b \<noteq> NotAnObject" "injectIncludeUsage b \<noteq> NilMap"
          using inject_object [OF ms] assms(3) b(2,3) ms by (auto simp: null_options_def)
        obtain bd where p: "proxy_and_meter env p want bd k' st1 = (st', res)"
          using a \<open>r = Inr p\<close> b(1) k Inr assms(1) n
          by (auto simp: proxyInference_def Let_def split: if_splits injected.splits)
        have "inflight_at (g_throttle st1) key = inflight_at (g_throttle st) key + slot_of key k'"
          using admit_inference_inflight(1) [of env p want "st\<lparr>g_ids := ids\<rparr>" st1 k' key] k Inr by simp
        with proxy_and_meter_inflight [OF p, of key] assms(2) slot_of_cases [of key k'] show ?thesis by auto
      qed
    qed
  qed
qed

section \<open>Reaching the plane\<close>

lemma gw_authorize_Inr:
  assumes "gw_authorize sha now touch header db = (Inr p, ids)"
  shows "\<exists>cred q. has_prefix (trim_space header) ''Bearer '' \<and> cred = trim_space (trim_prefix (trim_space header) ''Bearer '') \<and>
    ResolveToken sha db now cred = Inr q \<and> p_user q = p_user p \<and> p_token q = p_token p \<and>
    t_kind (p_token p) = KindService \<and> Can (us_role (p_user p)) ''inference.use''"
  using assms by (auto simp: gw_authorize_def gw_principal_def Let_def Authorize_def split: sum.splits if_splits prod.splits)

lemma admit_inference_Inr:
  assumes "admit_inference env p want st = (st1, Inr k)"
  shows "in_model want \<in> routesFor (g_fleet st) p \<and> routeHasReadyMember (g_fleet st) (in_model want)"
  using assms by (auto simp: admit_inference_def failing_def split: sum.splits if_splits prod.splits option.splits)

section \<open>Streams\<close>

lemma scan_lines_append:
  "scan_lines (s @ t) m = (case scan_lines s m of (m', r) \<Rightarrow> scan_lines (r @ t) m')"
proof (induction s m rule: scan_lines.induct)
  case (1 s m)
  show ?case
  proof (cases "newline \<in> set s")
    case True
    then have d: "dropWhile (\<lambda>c. c \<noteq> newline) (s @ t) = dropWhile (\<lambda>c. c \<noteq> newline) s @ t"
      and k: "takeWhile (\<lambda>c. c \<noteq> newline) (s @ t) = takeWhile (\<lambda>c. c \<noteq> newline) s"
      by (metis (mono_tags, lifting) dropWhile_append1, metis (mono_tags, lifting) takeWhile_append1)
    have "dropWhile (\<lambda>c. c \<noteq> newline) s \<noteq> []" using True by (simp add: dropWhile_eq_Nil_conv)
    then have d1: "drop (Suc 0) (dropWhile (\<lambda>c. c \<noteq> newline) s @ t) = drop (Suc 0) (dropWhile (\<lambda>c. c \<noteq> newline) s) @ t"
      by (cases "dropWhile (\<lambda>c. c \<noteq> newline) s") simp_all
    have "scan_lines (s @ t) m = scan_lines (drop 1 (dropWhile (\<lambda>c. c \<noteq> newline) s) @ t)
        (scan_line (takeWhile (\<lambda>c. c \<noteq> newline) s) m)"
      using True by (subst scan_lines.simps) (simp add: d k d1 del: dropWhile_append drop_append)
    then show ?thesis using 1 True by (simp add: scan_lines.simps [of s m])
  qed (simp add: scan_lines.simps [of s m])
qed

lemma observe_streaming [simp]: "m_streaming (observe doc m) = m_streaming m"
  by (simp add: observe_def Let_def split: option.splits prod.splits)

lemma scan_streaming: "scan_lines s m = (m', r) \<Longrightarrow> m_streaming m' = m_streaming m"
proof (induction s m arbitrary: m' r rule: scan_lines.induct)
  case (1 s m)
  have l: "m_streaming (scan_line x m) = m_streaming m" for x by (simp add: scan_line_def Let_def)
  show ?case using 1 l by (cases "newline \<in> set s") (auto simp: scan_lines.simps [of s m])
qed

lemma write_twice:
  assumes "m_streaming (w_meter w)"
  shows "Write b (Write a w) = Write (a @ b) w" and "m_streaming (w_meter (Write a w))"
proof -
  obtain m r where s: "scan_lines (w_partial w @ a) (w_meter w) = (m, r)" by fastforce
  have st: "m_streaming m" using scan_streaming [OF s] assms by simp
  show "m_streaming (w_meter (Write a w))" using st s assms by (simp add: Write_def scanChunks_def Let_def)
  have "scan_lines (w_partial w @ a @ b) (w_meter w) = scan_lines (r @ b) m"
    using scan_lines_append [of "w_partial w @ a" b "w_meter w"] s by simp
  then show "Write b (Write a w) = Write (a @ b) w"
    using s st assms by (auto simp: Write_def scanChunks_def Let_def split: prod.splits)
qed

lemma play_chunks:
  "m_streaming (w_meter w) \<Longrightarrow> bs \<noteq> [] \<Longrightarrow> play (map Chunk bs) w = Write (concat bs) w"
proof (induction bs arbitrary: w)
  case (Cons b bs)
  show ?case
  proof (cases bs)
    case (Cons c cs)
    have "play (map Chunk (b # bs)) w = play (map Chunk bs) (Write b w)" by (simp add: play_def)
    also have "\<dots> = Write (concat bs) (Write b w)"
      using Cons.IH [OF write_twice(2) [OF Cons.prems(1)]] Cons by simp
    finally show ?thesis using write_twice(1) [OF Cons.prems(1)] by simp
  qed (simp add: play_def)
qed simp

section \<open>A sample\<close>

text \<open>One account with a service key, one route it is granted, one deployment serving it, one slot for all.\<close>

definition gw_ids :: id_db where
  "gw_ids = \<lparr>d_users = [\<lparr>ur_id = ''usr_1'', ur_name = ''ann'', ur_email = None, ur_role = ''user'', ur_state = ''active'',
       ur_seed = None, ur_step = None, ur_enrolled = None, ur_password = None, ur_created = ''2026-02-02T03:04:05.006Z''\<rparr>],
     d_tokens = [\<lparr>tk_id = ''tok_1'', tk_user = ''usr_1'', tk_kind = ''sk'', tk_hash = ''nodary_sk_x'', tk_prefix = ''x'',
       tk_name = None, tk_expires = None, tk_revoked = None, tk_used = None, tk_unattended = False,
       tk_created = ''2026-02-02T03:04:05.006Z''\<rparr>],
     d_joins = []\<rparr>"

definition gw_fleet :: fleet_db where
  "gw_fleet = sample_fleet\<lparr>f_grants := [\<lparr>gr_user = ''usr_1'', gr_route = ''m''\<rparr>],
     f_members := [\<lparr>rm_route = ''m'', rm_deployment = ''d1'', rm_weight = 1\<rparr>]\<rparr>"

definition gw_sample :: gw_state where
  "gw_sample = \<lparr>g_ids = gw_ids, g_fleet = gw_fleet, g_throttle = newThrottle\<rparr>"

definition one_slot :: limit_row where
  "one_slot = \<lparr>lr_kind = ''global'', lr_id = [], lr_rpm = None, lr_tpm = None, lr_daily = None, lr_concurrent = Some 1\<rparr>"

definition gw_request :: "string \<Rightarrow> (sent \<Rightarrow> proxied option) \<Rightarrow> gw_env" where
  "gw_request body plane =
     \<lparr>e_sha = (\<lambda>s. s), e_header = ''Bearer nodary_sk_x'', e_body = Some body, e_request = ''req_1'', e_started = 0,
      e_resolved = 0, e_touch = 0, e_admitted = 0, e_refused = 0, e_finished = 0, e_released = 0, e_rnd = Some ''1'',
      e_routes_err = None, e_ready_err = None, e_limits = Inr [one_slot], e_usage_err = None,
      e_served_header = True, e_attribution_fails = False, e_plane = plane, e_says = (\<lambda>_. [])\<rparr>"

definition gw_ann :: principal where
  "gw_ann = \<lparr>p_user = \<lparr>us_id = ''usr_1'', us_name = ''ann'', us_email = [], us_role = ''user'', us_state = ''active'', us_totp = False,
      us_created = (case parse_ts ''2026-02-02T03:04:05.006Z'' of Some t \<Rightarrow> t)\<rparr>,
    p_token = \<lparr>t_id = ''tok_1'', t_user = ''usr_1'', t_kind = ''sk'', t_prefix = ''x'', t_name = [], t_expires = zero_time,
      t_revoked = zero_time, t_used = zero_time, t_created = (case parse_ts ''2026-02-02T03:04:05.006Z'' of Some t \<Rightarrow> t),
      t_unattended = False\<rparr>,
    p_role = ''user'', p_actor = no_actor\<rparr>"

lemma gw_sample_authorize:
  "\<exists>ids. gw_authorize (\<lambda>s. s) 0 0 ''Bearer nodary_sk_x'' gw_ids = (Inr gw_ann, ids)"
proof -
  obtain t where t: "parse_ts ''2026-02-02T03:04:05.006Z'' = Some t"
  proof -
    have "parse_ts ''2026-02-02T03:04:05.006Z'' \<noteq> None" by code_simp
    then show thesis using that by blast
  qed
  have tr: "trim_space ''Bearer nodary_sk_x'' = ''Bearer nodary_sk_x''" "trim_space ''nodary_sk_x'' = ''nodary_sk_x''"
    by code_simp+
  have k: "kindOf ''nodary_sk_x'' = Some ''sk''" by code_simp
  have c: "Can ''user'' ''inference.use''" by code_simp
  show ?thesis
    using t k c
    by (simp add: gw_authorize_def gw_principal_def tr trim_prefix_def has_prefix_def ResolveToken_def Authenticate_def
        tokenByHash_def gw_ids_def scanToken_def read_time_def read_null_time_def null_text_def Revoked_def Expired_def
        GetByID_def scan_one_def scanUser_def Active_def StateActive_def KindService_def Authorize_def gw_ann_def no_actor_def)
qed


definition null_body :: string where
  "null_body = ''{\"model\":\"m\",\"stream\":true,\"stream_options\":null}''"

lemma null_body_members:
  "unmarshal null_body = Some (IObj [(''model'', IStr ''m''), (''stream'', IBool True), (''stream_options'', INull)])"
  by (simp add: unmarshal_def null_body_def doc_eval)

lemma null_body_request:
  "read_request (Some null_body) = Inr (null_body, \<lparr>in_model = ''m'', in_stream = True\<rparr>)"
  "null_options (Some null_body)"
proof -
  have l: "take maxRequestBody null_body = null_body" by (simp add: null_body_def maxRequestBody_def)
  show "null_options (Some null_body)" by (simp add: null_options_def l null_body_members last_member_def)
  show "read_request (Some null_body) = Inr (null_body, \<lparr>in_model = ''m'', in_stream = True\<rparr>)"
    by (simp add: read_request_def l read_inference_def unmarshal_into_def null_body_members dec_struct_def field_of_def
        set_inference_def dec_string_def dec_bool_def no_inference_def)
qed

lemma gw_sample_admit:
  assumes "in_model want = ''m''"
  obtains st1 k where "admit_inference (gw_request b plane) gw_ann want (gw_sample\<lparr>g_ids := ids\<rparr>) = (st1, Inr (Some k))"
    and "k_key k = ''concurrent|global''"
proof -
  define L where "L = no_limits\<lparr>ls_concurrent := \<lparr>l_value = 1, l_subject = ''global''\<rparr>\<rparr>"
  define T where "T = fst (hold_slot L newThrottle)"
  define K where "K = snd (hold_slot L newThrottle)"
  have z: "l_value (ls_rpm L) = 0" "l_value (ls_tpm L) = 0" "l_value (ls_daily L) = 0" "ls_concurrent L = \<lparr>l_value = 1, l_subject = ''global''\<rparr>"
    by (simp_all add: L_def no_limits_def no_limit_def)
  have "limitsFor (Inr [one_slot] :: string + limit_row list) c = Inr L" for c :: caller
    by (simp add: limitsFor_def applies_def one_slot_def tighten_row_def no_limits_def no_limit_def tighten_def null_int_def
        row_subject_def L_def)
  moreover have "admit L now 0 newThrottle = (T, Inr K)" for now
    by (simp add: admit_def read_only_checks_def check_tpm_def take_rpm_def z inflight_at_def newThrottle_def T_def K_def
        split: prod.splits)
  ultimately have s: "Server_admit (Inr [one_slot] :: string + limit_row list) us c now newThrottle = (T, Inr (Inr (Some K)))" for us c now
    by (simp add: Server_admit_def limits_none_def z)
  have r: "''m'' \<in> routesFor gw_fleet gw_ann" "routeHasReadyMember gw_fleet ''m''"
    by (simp_all add: gw_fleet_def gw_ann_def routesFor_def routeHasReadyMember_def sample_fleet_def sample_deployment_def empty_fleet_def)
  show thesis
  proof (rule that)
    show "admit_inference (gw_request b plane) gw_ann want (gw_sample\<lparr>g_ids := ids\<rparr>) =
        (gw_sample\<lparr>g_ids := ids, g_throttle := T\<rparr>, Inr (Some K))"
      by (simp add: admit_inference_def failing_def gw_request_def gw_sample_def assms r s)
    show "k_key K = ''concurrent|global''" by (simp add: K_def hold_slot_def z concurrent_key_def)
  qed
qed

section \<open>Properties\<close>

text \<open>
  C37: Whatever a request is, and whether it is refused, served, broken off in the proxy or throttled, every
  concurrency counter afterwards is what it was before, unless its body gives \<open>stream_options\<close> as \<open>null\<close>.
\<close>

theorem every_exit_returns_the_slot:
  assumes "proxyInference env st = (st', res)" and "0 \<le> inflight_at (g_throttle st) key"
    and "\<not> null_options (e_body env)"
  shows "inflight_at (g_throttle st') key = inflight_at (g_throttle st) key"
  by (rule slots_returned [OF assms])

theorem every_exit_returns_the_slot_witness:
  "\<exists>st' res. proxyInference (gw_request [] (\<lambda>_. None)) gw_sample = (st', res) \<and>
     inflight_at (g_throttle st') ''concurrent|global'' = 0"
proof -
  obtain st' res where p: "proxyInference (gw_request [] (\<lambda>_. None)) gw_sample = (st', res)" by fastforce
  have z: "inflight_at (g_throttle gw_sample) key = 0" for key
    by (simp add: gw_sample_def inflight_at_def newThrottle_def)
  have "\<not> null_options (e_body (gw_request [] (\<lambda>_. None)))"
    by (simp add: gw_request_def null_options_def unmarshal_def doc_eval)
  from every_exit_returns_the_slot [OF p _ this] z p show ?thesis by auto
qed

text \<open>
  A stream request with \<open>stream_options\<close> \<open>null\<close> that is admitted panics before the release is deferred:
  the slot it was given is never given back.
\<close>

theorem null_stream_options_keep_the_slot:
  assumes "gw_authorize (e_sha env) (e_resolved env) (e_touch env) (e_header env) (g_ids st) = (Inr p, ids)"
    and "read_request (e_body env) = Inr (b, want)" and "in_stream want" and "null_options (e_body env)"
    and "admit_inference env p want (st\<lparr>g_ids := ids\<rparr>) = (st1, Inr (Some k))" and "k_key k \<noteq> []"
  shows "proxyInference env st = (st1, Panicked) \<and>
    inflight_at (g_throttle st1) (k_key k) = inflight_at (g_throttle st) (k_key k) + 1"
proof -
  from assms(2,4) obtain body ms where "e_body env = Some body" "b = take maxRequestBody body"
    "unmarshal b = Some (IObj ms)" "last_member ms ''stream_options'' = Some INull"
    by (auto simp: null_options_def read_request_def Let_def split: option.splits ir.splits if_splits)
  then have "injectIncludeUsage b = NilMap" using inject_object(2) by blast
  with assms show ?thesis
    using admit_inference_inflight(1) [OF assms(5), of "k_key k"]
    by (simp add: proxyInference_def slot_of_def)
qed

theorem null_stream_options_keep_the_slot_witness:
  "\<exists>st1. proxyInference (gw_request null_body (\<lambda>_. None)) gw_sample = (st1, Panicked) \<and>
     inflight_at (g_throttle st1) ''concurrent|global'' = 1"
proof -
  let ?env = "gw_request null_body (\<lambda>_. None)"
  obtain ids where a: "gw_authorize (e_sha ?env) (e_resolved ?env) (e_touch ?env) (e_header ?env) (g_ids gw_sample) = (Inr gw_ann, ids)"
    using gw_sample_authorize by (auto simp: gw_request_def gw_sample_def)
  have b: "read_request (e_body ?env) = Inr (null_body, \<lparr>in_model = ''m'', in_stream = True\<rparr>)" "null_options (e_body ?env)"
    by (simp_all add: gw_request_def null_body_request)
  obtain st1 k where k: "admit_inference ?env gw_ann \<lparr>in_model = ''m'', in_stream = True\<rparr> (gw_sample\<lparr>g_ids := ids\<rparr>) = (st1, Inr (Some k))"
    "k_key k = ''concurrent|global''" by (rule gw_sample_admit [of "\<lparr>in_model = ''m'', in_stream = True\<rparr>"]) simp_all
  have "inflight_at (g_throttle gw_sample) ''concurrent|global'' = 0"
    by (simp add: gw_sample_def inflight_at_def newThrottle_def)
  with null_stream_options_keep_the_slot [OF a b(1) _ b(2) k(1)] k(2) show ?thesis by simp
qed

definition allowed_inference :: "gw_env \<Rightarrow> gw_state \<Rightarrow> bool" where
  "allowed_inference env st \<longleftrightarrow>
     (\<exists>p b want. read_request (e_body env) = Inr (b, want) \<and>
        ResolveToken (e_sha env) (g_ids st) (e_resolved env)
          (trim_space (trim_prefix (trim_space (e_header env)) ''Bearer '')) = Inr p \<and>
        t_kind (p_token p) = KindService \<and> Can (us_role (p_user p)) ''inference.use'' \<and>
        (\<exists>g \<in> set (f_grants (g_fleet st)). gr_user g = us_id (p_user p) \<and> gr_route g = in_model want) \<and>
        (\<exists>m \<in> set (f_members (g_fleet st)). \<exists>d \<in> set (f_deployments (g_fleet st)).
           rm_route m = in_model want \<and> dp_id d = rm_deployment m \<and> dp_state d = ''ready'' \<and> \<not> dp_disabled d))"

lemma allowed_member:
  assumes "routeHasReadyMember db route"
  shows "\<exists>m \<in> set (f_members db). \<exists>d \<in> set (f_deployments db).
    rm_route m = route \<and> dp_id d = rm_deployment m \<and> dp_state d = ''ready'' \<and> \<not> dp_disabled d"
  using assms by (auto simp: routeHasReadyMember_def list_ex_iff)

lemma admit_inference_allowed:
  assumes "admit_inference env p want st = (st1, Inr k)"
  shows "(\<exists>g \<in> set (f_grants (g_fleet st)). gr_user g = us_id (p_user p) \<and> gr_route g = in_model want) \<and>
    (\<exists>m \<in> set (f_members (g_fleet st)). \<exists>d \<in> set (f_deployments (g_fleet st)).
       rm_route m = in_model want \<and> dp_id d = rm_deployment m \<and> dp_state d = ''ready'' \<and> \<not> dp_disabled d)"
  using admit_inference_Inr [OF assms] allowed_member by (auto simp: routesFor_def)

lemma not_refused_allowed:
  assumes "proxyInference env st = (st', res)" and "\<And>r. res \<noteq> Refused r"
  shows "allowed_inference env st"
proof -
  obtain r ids where a: "gw_authorize (e_sha env) (e_resolved env) (e_touch env) (e_header env) (g_ids st) = (r, ids)"
    by fastforce
  with assms obtain p where p: "r = Inr p" by (cases r) (auto simp: proxyInference_def Let_def)
  with a assms obtain b want where b: "read_request (e_body env) = Inr (b, want)"
    by (cases "read_request (e_body env)") (auto simp: proxyInference_def Let_def)
  obtain st1 k where k: "admit_inference env p want (st\<lparr>g_ids := ids\<rparr>) = (st1, k)" by fastforce
  with a p b assms obtain k' where k': "k = Inr k'" by (cases k) (auto simp: proxyInference_def Let_def)
  from gw_authorize_Inr [OF a [unfolded p]] obtain q where q: "ResolveToken (e_sha env) (g_ids st) (e_resolved env)
      (trim_space (trim_prefix (trim_space (e_header env)) ''Bearer '')) = Inr q" "p_user q = p_user p" "p_token q = p_token p"
    "t_kind (p_token p) = KindService" "Can (us_role (p_user p)) ''inference.use''" by blast
  have "t_kind (p_token q) = KindService" "Can (us_role (p_user q)) ''inference.use''" using q(2-5) by (simp_all only:)
  moreover have "g_fleet (st\<lparr>g_ids := ids\<rparr>) = g_fleet st" by simp
  note admit_inference_allowed [OF k [unfolded k'], unfolded this]
  ultimately show ?thesis unfolding allowed_inference_def using b q(1) unfolding q(2) [symmetric] by blast
qed

lemma admit_inference_plane [simp]:
  "admit_inference (env\<lparr>e_plane := plane\<rparr>) p want st = admit_inference env p want st"
  by (simp add: admit_inference_def recordThrottled_def keep_usage_def cong: if_cong sum.case_cong option.case_cong)

lemma proxy_never_refuses: "proxy_and_meter env p want body k st \<noteq> (st', Refused r)"
  by (auto simp: proxy_and_meter_def Let_def split: if_splits)

lemma refused_whatever_the_plane:
  assumes "proxyInference env st = (st', Refused r)"
  shows "proxyInference (env\<lparr>e_plane := plane\<rparr>) st = (st', Refused r)"
  using assms proxy_never_refuses
  by (auto simp: proxyInference_def Let_def split: sum.splits prod.splits if_splits injected.splits)

text \<open>
  C38: The data plane is reached only with a service key that authenticates, on behalf of an account whose
  role may use inference, for a route that account has a grant on and that has a member which is ready and
  not disabled.  That holds of every exit but a refusal, a stream the plane broke off included; and a refusal
  does not depend on the plane at all.
\<close>

theorem plane_is_reached_only_when_allowed:
  assumes "proxyInference env st = (st', res)"
  shows "case res of
      Refused r \<Rightarrow> \<forall>plane. proxyInference (env\<lparr>e_plane := plane\<rparr>) st = (st', Refused r)
    | Served status \<Rightarrow> allowed_inference env st
    | Panicked \<Rightarrow> allowed_inference env st"
proof -
  have "allowed_inference env st" if "\<And>r. res \<noteq> Refused r"
    by (rule not_refused_allowed [OF assms that])
  moreover have "\<forall>plane. proxyInference (env\<lparr>e_plane := plane\<rparr>) st = (st', Refused r)" if "res = Refused r" for r
    using refused_whatever_the_plane [OF assms [unfolded that]] by blast
  ultimately show ?thesis by (cases res) simp_all
qed

lemma named_body: "read_request (Some ''{\"model\":\"m\"}'') = Inr (''{\"model\":\"m\"}'', \<lparr>in_model = ''m'', in_stream = False\<rparr>)"
proof -
  have "unmarshal ''{\"model\":\"m\"}'' = Some (IObj [(''model'', IStr ''m'')])" by (simp add: unmarshal_def doc_eval)
  then show ?thesis
    by (simp add: read_request_def maxRequestBody_def read_inference_def unmarshal_into_def dec_struct_def field_of_def
        set_inference_def dec_string_def no_inference_def)
qed

theorem plane_is_reached_only_when_allowed_witness:
  "\<exists>st' n. proxyInference (gw_request ''{\"model\":\"m\"}'' (\<lambda>_. None)) gw_sample = (st', Served n) \<and>
     allowed_inference (gw_request ''{\"model\":\"m\"}'' (\<lambda>_. None)) gw_sample"
proof -
  let ?env = "gw_request ''{\"model\":\"m\"}'' (\<lambda>_. None)"
  obtain ids where a: "gw_authorize (e_sha ?env) (e_resolved ?env) (e_touch ?env) (e_header ?env) (g_ids gw_sample) = (Inr gw_ann, ids)"
    using gw_sample_authorize by (auto simp: gw_request_def gw_sample_def)
  have b: "read_request (e_body ?env) = Inr (''{\"model\":\"m\"}'', \<lparr>in_model = ''m'', in_stream = False\<rparr>)"
    by (simp add: gw_request_def named_body)
  obtain st1 k where k: "admit_inference ?env gw_ann \<lparr>in_model = ''m'', in_stream = False\<rparr> (gw_sample\<lparr>g_ids := ids\<rparr>) = (st1, Inr (Some k))"
    by (rule gw_sample_admit [of "\<lparr>in_model = ''m'', in_stream = False\<rparr>"]) simp_all
  have "\<exists>st' n. proxyInference ?env gw_sample = (st', Served n)"
    using a b k by (simp add: proxyInference_def proxy_and_meter_def unreachable_def gw_request_def Let_def)
  then obtain st' n where p: "proxyInference ?env gw_sample = (st', Served n)" by blast
  from plane_is_reached_only_when_allowed [OF p] p show ?thesis by auto
qed

text \<open>
  How the network cut a stream into writes does not matter: two sequences of writes with the same bytes
  leave the same counts, the same model and the same line still to be completed.
\<close>

theorem stream_chunking_is_irrelevant:
  assumes "m_streaming (w_meter w)" and "concat as = concat bs" and "as \<noteq> []" and "bs \<noteq> []"
  shows "play (map Chunk as) w = play (map Chunk bs) w"
  by (simp only: play_chunks [OF assms(1,3)] play_chunks [OF assms(1,4)] assms(2))

theorem stream_chunking_is_irrelevant_witness:
  "play (map Chunk [''da'', ''ta: [DO'', ''NE]'']) (no_metering ''m'' True) =
   play (map Chunk [''data: [DONE]'']) (no_metering ''m'' True)"
  by (rule stream_chunking_is_irrelevant) (simp_all add: no_metering_def)

section \<open>Broken streams\<close>

lemma observe_counts:
  "\<not> m_saw (observe doc m) \<Longrightarrow> \<not> m_saw m \<and> m_prompt (observe doc m) = m_prompt m \<and> m_completion (observe doc m) = m_completion m"
  by (auto simp: observe_def Let_def split: option.splits prod.splits if_splits)

lemma scan_counts:
  "scan_lines s m = (m', r) \<Longrightarrow> \<not> m_saw m' \<Longrightarrow> \<not> m_saw m \<and> m_prompt m' = m_prompt m \<and> m_completion m' = m_completion m"
proof (induction s m arbitrary: m' r rule: scan_lines.induct)
  case (1 s m)
  have l: "\<not> m_saw (scan_line x m) \<Longrightarrow> \<not> m_saw m \<and> m_prompt (scan_line x m) = m_prompt m \<and> m_completion (scan_line x m) = m_completion m" for x
    by (auto simp: scan_line_def Let_def dest: observe_counts split: if_splits)
  show ?case using 1 l by (cases "newline \<in> set s") (auto simp: scan_lines.simps [of s m])
qed

lemma event_counts:
  "\<not> m_saw (w_meter (write_event e w)) \<Longrightarrow> \<not> m_saw (w_meter w) \<and>
     m_prompt (w_meter (write_event e w)) = m_prompt (w_meter w) \<and> m_completion (w_meter (write_event e w)) = m_completion (w_meter w)"
  by (cases e) (auto simp: WriteHeader_def Write_def scanChunks_def Let_def dest: scan_counts split: prod.splits if_splits)

lemma play_counts:
  "\<not> m_saw (w_meter (play es w)) \<Longrightarrow> \<not> m_saw (w_meter w) \<and>
     m_prompt (w_meter (play es w)) = m_prompt (w_meter w) \<and> m_completion (w_meter (play es w)) = m_completion (w_meter w)"
proof (induction es rule: rev_induct)
  case (snoc e es)
  then show ?case using event_counts [of e "play es w"] by (simp add: play_def)
qed (simp add: play_def)

lemma play_streaming: "m_streaming (w_meter (play es w)) = m_streaming (w_meter w)"
proof (induction es rule: rev_induct)
  case (snoc e es)
  have "m_streaming (w_meter (write_event e v)) = m_streaming (w_meter v)" for v
    by (cases e) (auto simp: WriteHeader_def Write_def scanChunks_def Let_def dest: scan_streaming split: prod.splits)
  with snoc show ?case by (simp add: play_def)
qed (simp add: play_def)

text \<open>
  C39: A stream broken off before its usage chunk leaves no usage row and charges nothing to the token budget,
  because the proxy panics past the metering; the same writes followed by a clean end are charged the chunks
  that carried text.
\<close>

theorem broken_stream_is_not_metered:
  assumes "e_plane env body = Some px" and "px_aborted px" and "in_stream want"
    and "\<not> m_saw (w_meter (play (px_events px) (no_metering (in_model want) True)))"
  shows "proxy_and_meter env p want body (Some k) st =
      (st\<lparr>g_throttle := release k 0 (e_released env) (g_throttle st)\<rparr>, Panicked) \<and>
    g_throttle (fst (proxy_and_meter (env\<lparr>e_plane := \<lambda>_. Some (px\<lparr>px_aborted := False\<rparr>)\<rparr>) p want body (Some k) st)) =
      release k (m_observed (w_meter (play (px_events px) (no_metering (in_model want) True)))) (e_released env) (g_throttle st)"
proof -
  let ?w = "play (px_events px) (no_metering (in_model want) True)"
  have z: "m_prompt (w_meter ?w) = 0" "m_completion (w_meter ?w) = 0"
    using play_counts [OF assms(4)] by (simp_all add: no_metering_def)
  have s: "m_streaming (w_meter ?w)" by (simp add: play_streaming no_metering_def)
  show ?thesis
    using assms z s by (simp add: proxy_and_meter_def give_back_def finish_def usage_row_of_def Let_def keep_usage_def split: sum.splits)
qed

definition two_chunks :: proxied where
  "two_chunks = \<lparr>px_served = ''d1'',
     px_events = [Head 200, Chunk (''data: {\"choices\":[{\"text\":\"hi\"}]}'' @ [newline])], px_aborted = True\<rparr>"

lemma two_chunks_metered:
  "w_meter (play (px_events two_chunks) (no_metering ''m'' True)) =
     \<lparr>m_model = ''m'', m_prompt = 0, m_completion = 0, m_streaming = True, m_saw = False, m_observed = 1\<rparr>"
proof -
  have t: "trim_space ''data: {\"choices\":[{\"text\":\"hi\"}]}'' = ''data: {\"choices\":[{\"text\":\"hi\"}]}''"
    "trim_space '' {\"choices\":[{\"text\":\"hi\"}]}'' = ''{\"choices\":[{\"text\":\"hi\"}]}''"
    by code_simp+
  have u: "unmarshal ''{\"choices\":[{\"text\":\"hi\"}]}'' = Some (IObj [(''choices'', IArr [IObj [(''text'', IStr ''hi'')]])])"
    by (simp add: unmarshal_def doc_eval)
  have "unmarshal_into (dec_struct [''model'', ''choices'', ''usage''] set_document) ''{\"choices\":[{\"text\":\"hi\"}]}'' no_document
      = Some (no_document\<lparr>do_choices := ([no_choice\<lparr>ch_text := ''hi''\<rparr>], 1)\<rparr>)"
    by (simp add: unmarshal_into_def u dec_struct_def field_of_def set_document_def dec_slice_def set_choice_def dec_string_def
        no_document_def)
  then have o: "observe ''{\"choices\":[{\"text\":\"hi\"}]}'' (w_meter (no_metering ''m'' True)) =
      (w_meter (no_metering ''m'' True))\<lparr>m_observed := 1\<rparr>"
    by (simp add: observe_def no_document_def no_metering_def no_choice_def slice_values_def)
  have "scan_line ''data: {\"choices\":[{\"text\":\"hi\"}]}'' (w_meter (no_metering ''m'' True)) =
      (w_meter (no_metering ''m'' True))\<lparr>m_observed := 1\<rparr>"
    by (simp add: scan_line_def t has_prefix_def trim_prefix_def o)
  then show ?thesis
    by (simp add: two_chunks_def play_def WriteHeader_def Write_def scanChunks_def scan_lines.simps newline_def no_metering_def)
qed

theorem broken_stream_is_not_metered_witness:
  "snd (proxy_and_meter (gw_request [] (\<lambda>_. Some two_chunks)) gw_ann \<lparr>in_model = ''m'', in_stream = True\<rparr> (Members [])
     (Some \<lparr>k_limits = sample_limits, k_key = []\<rparr>) gw_sample) = Panicked"
  using broken_stream_is_not_metered [of "gw_request [] (\<lambda>_. Some two_chunks)" "Members []" two_chunks
      "\<lparr>in_model = ''m'', in_stream = True\<rparr>"] two_chunks_metered
  by (simp add: gw_request_def two_chunks_def)

end
