(* ===== verification/Backend.thy ===== *)
theory Backend
  imports JsonDecode AuditRecord "HOL-Library.List_Lexorder" "HOL-Library.Char_ord"
begin

text \<open>
  \<^verbatim>\<open>internal/backend\<close>: what a descriptor says of a backend (backend.go), what it refuses of a deployment
  (capability.go), the silicon it runs on (silicon.go) and derived descriptors (derive.go).  A descriptor is
  the value \<open>toml.Decode\<close> yields; its tables are association lists with distinct keys.
\<close>

section \<open>Descriptors\<close>

record build_step =
  pr_required :: bool
  pr_image :: string
  pr_command :: string
  pr_artifact :: string
  pr_gpu_arch :: bool
  pr_timeout :: int

record probe =
  pb_health :: string
  pb_ready :: string
  pb_timeout :: int

record capabilities =
  cp_tensor_parallel :: bool
  cp_expert_parallel :: bool
  cp_quantization :: "string list"
  cp_lora :: bool
  cp_cpu_offload :: bool

record derive =
  dv_from :: string
  dv_steps :: "string list"
  dv_index_url :: string
  dv_timeout :: int

record backend =
  bk_name :: string
  bk_api :: string
  bk_layout :: string
  bk_mount :: string
  bk_port :: int
  bk_image :: string
  bk_command :: string
  bk_silicon :: "string list"
  bk_capabilities :: capabilities
  bk_args :: "(string \<times> string) list"
  bk_extra :: "(string \<times> string) list"
  bk_env :: "(string \<times> string) list"
  bk_env_wsl2 :: "(string \<times> string) list"
  bk_probe :: probe
  bk_metrics :: string
  bk_prepare :: "build_step option"
  bk_inherits :: string
  bk_derive :: "derive option"

datatype backend_err = ErrInvalid string | ErrUnsupported string | ErrUnknown string

definition apis :: "string list" where "apis = [''openai'', ''triton'', ''custom'']"
definition layouts :: "string list" where "layouts = [''hf-cache'', ''single-file'', ''engine-dir'']"
definition silicon :: "string list" where "silicon = [''nvidia'', ''amd'', ''intel'']"
definition shellish :: string where
  "shellish = ''|&;<>()$`'' @ [CHR 0x5C, CHR 0x22, CHR 0x27, CHR 0x0A, CHR 0x09] @ ''*?[]{}''"

text \<open>\<open>strings.Contains\<close>.\<close>

fun contains_text :: "string \<Rightarrow> string \<Rightarrow> bool" where
  "contains_text [] p = (p = [])"
| "contains_text (c # s) p = (has_prefix (c # s) p \<or> contains_text s p)"

section \<open>validate_descriptor\<close>

text \<open>
  \<open>placeholder.FindAllString\<close>: the leftmost matches of a brace, one or more of a-z and underscore, a brace.
\<close>

definition brace_word :: "char \<Rightarrow> bool" where
  "brace_word c \<longleftrightarrow> c = CHR ''_'' \<or> (97 \<le> (of_char c :: nat) \<and> (of_char c :: nat) \<le> 122)"

fun placeholders :: "string \<Rightarrow> string list" where
  "placeholders [] = []"
| "placeholders (c # s) =
     (let w = takeWhile brace_word s in
      if c = CHR ''{'' \<and> w \<noteq> [] \<and> has_prefix (drop (length w) s) ''}''
      then ([c] @ w @ ''}'') # placeholders s
      else placeholders s)"

definition prepareVars :: "string list" where "prepareVars = [''{src}'', ''{out}'', ''{tp}'']"

definition prepare_validate :: "string \<Rightarrow> build_step option \<Rightarrow> backend_err + unit" where
  "prepare_validate layout p =
     (case p of None \<Rightarrow> Inr ()
      | Some p \<Rightarrow>
          if \<not> pr_required p then Inl (ErrInvalid ''prepare.required must be true'')
          else if trim_space (pr_image p) = [] then Inl (ErrInvalid ''prepare.image is required'')
          else if trim_space (pr_command p) = [] then Inl (ErrInvalid ''prepare.command is required'')
          else if \<not> contains_text (pr_command p) ''{src}'' then Inl (ErrInvalid ''prepare.command has no {src}'')
          else if \<not> contains_text (pr_command p) ''{out}'' then Inl (ErrInvalid ''prepare.command has no {out}'')
          else if pr_artifact p \<notin> set layouts then Inl (ErrInvalid ''prepare.artifact'')
          else if pr_artifact p \<noteq> layout then Inl (ErrInvalid ''prepare.artifact is not weights_layout'')
          else if pr_timeout p \<le> 0 then Inl (ErrInvalid ''prepare.timeout_s must be positive'')
          else if list_all (\<lambda>v. v \<in> set prepareVars) (placeholders (pr_command p)) then Inr ()
          else Inl (ErrInvalid ''prepare.command uses an unknown placeholder''))"

text \<open>The loop over \<open>silicon\<close>: each name known, and none repeated.\<close>

fun check_silicon :: "string list \<Rightarrow> string list \<Rightarrow> backend_err + unit" where
  "check_silicon seen [] = Inr ()"
| "check_silicon seen (v # vs) =
     (if v \<notin> set silicon then Inl (ErrInvalid ''silicon'')
      else if v \<in> set seen then Inl (ErrInvalid ''silicon twice'')
      else check_silicon (seen @ [v]) vs)"

definition check_tables :: "backend \<Rightarrow> backend_err + unit" where
  "check_tables b =
     (if \<not> list_all (\<lambda>(k, t). contains_text t ''{v}'') (bk_args b) then Inl (ErrInvalid ''args'')
      else if \<not> list_all (\<lambda>(k, t). contains_text t ''{v}'' \<and> map_of (bk_args b) k = None) (bk_extra b)
      then Inl (ErrInvalid ''extra'') else Inr ())"

text \<open>
  \<open>validateDerive\<close>: a derive carries a name, its parent and its recipe, and nothing else.
  \<open>digest_pinned\<close> is the regular expression, one or more characters that are neither an at sign nor
  white space, then the digest.
\<close>

definition digest_pinned :: "string \<Rightarrow> bool" where
  "digest_pinned s =
     (let repo = takeWhile (\<lambda>c. c \<noteq> CHR ''@'') s; rest = drop (length repo) s; d = drop 8 rest in
      repo \<noteq> [] \<and> list_all (\<lambda>c. \<not> (c = CHR '' '' \<or> of_char c \<in> {9, 10, 12, 13 :: nat})) repo \<and>
      has_prefix rest ''@sha256:'' \<and> length d = 64 \<and> list_all lower_hex d)"

definition derive_sets :: "backend \<Rightarrow> (string \<times> bool) list" where
  "derive_sets b =
     [(''api'', bk_api b \<noteq> []), (''weights_layout'', bk_layout b \<noteq> []), (''mount_path'', bk_mount b \<noteq> []),
      (''container_port'', bk_port b \<noteq> 0), (''image_default'', bk_image b \<noteq> []), (''command'', bk_command b \<noteq> []),
      (''silicon'', bk_silicon b \<noteq> []), (''args'', bk_args b \<noteq> []), (''extra'', bk_extra b \<noteq> []),
      (''env'', bk_env b \<noteq> []), (''env_wsl2'', bk_env_wsl2 b \<noteq> []),
      (''capabilities'', cp_tensor_parallel (bk_capabilities b) \<or> cp_expert_parallel (bk_capabilities b) \<or>
         cp_lora (bk_capabilities b) \<or> cp_cpu_offload (bk_capabilities b) \<or> cp_quantization (bk_capabilities b) \<noteq> []),
      (''probe'', pb_health (bk_probe b) \<noteq> [] \<or> pb_ready (bk_probe b) \<noteq> [] \<or> pb_timeout (bk_probe b) \<noteq> 0),
      (''metrics'', bk_metrics b \<noteq> []), (''prepare'', bk_prepare b \<noteq> None)]"

fun check_steps :: "string list \<Rightarrow> backend_err + unit" where
  "check_steps [] = Inr ()"
| "check_steps (s # ss) =
     (if trim_space s = [] then Inl (ErrInvalid ''derive.steps is empty'')
      else if contains_any s shellish then Inl (ErrInvalid ''derive.steps are an argv'')
      else check_steps ss)"

definition validate_recipe :: "derive \<Rightarrow> backend_err + unit" where
  "validate_recipe dv =
     (if trim_space (dv_from dv) = [] then Inl (ErrInvalid ''derive.from is required'')
      else if \<not> digest_pinned (dv_from dv) then Inl (ErrInvalid ''derive.from is not digest-pinned'')
      else if dv_steps dv = [] then Inl (ErrInvalid ''derive.steps is empty'')
      else if dv_timeout dv \<le> 0 then Inl (ErrInvalid ''derive.timeout_s must be positive'')
      else sbind (check_steps (dv_steps dv)) (\<lambda>_.
           let u = trim_space (dv_index_url dv) in
           if u \<noteq> [] \<and> \<not> has_prefix u ''https://'' then Inl (ErrInvalid ''derive.index_url must be https'')
           else Inr ()))"

definition validateDerive :: "backend \<Rightarrow> backend_err + unit" where
  "validateDerive b =
     (case bk_derive b of
        None \<Rightarrow> Inl (ErrInvalid ''inherits is set with no derive'')
      | Some dv \<Rightarrow>
          if bk_inherits b = bk_name b then Inl (ErrInvalid ''inherits itself'')
          else (case find snd (derive_sets b) of
                  Some (f, _) \<Rightarrow> Inl (ErrInvalid f)
                | None \<Rightarrow> validate_recipe dv))"

definition validate_descriptor :: "backend \<Rightarrow> backend_err + unit" where
  "validate_descriptor b =
     (if trim_space (bk_name b) = [] then Inl (ErrInvalid ''name is required'')
      else if bk_inherits b \<noteq> [] \<or> bk_derive b \<noteq> None then validateDerive b
      else if bk_api b \<notin> set apis then Inl (ErrInvalid ''api'')
      else if bk_layout b \<notin> set layouts then Inl (ErrInvalid ''weights_layout'')
      else if bk_mount b = [] \<and> bk_layout b \<noteq> ''engine-dir'' then Inl (ErrInvalid ''mount_path is required'')
      else if bk_port b \<le> 0 \<or> 65535 < bk_port b then Inl (ErrInvalid ''container_port'')
      else if pb_health (bk_probe b) = [] \<or> pb_ready (bk_probe b) = [] then Inl (ErrInvalid ''probe'')
      else if pb_timeout (bk_probe b) \<le> 0 then Inl (ErrInvalid ''probe.ready_timeout_s'')
      else if contains_any (bk_command b) shellish then Inl (ErrInvalid ''command'')
      else if bk_silicon b = [] then Inl (ErrInvalid ''silicon is required'')
      else if map_of (bk_args b) ''model_path'' = None \<or> map_of (bk_args b) ''model_path'' = Some []
      then Inl (ErrInvalid ''args.model_path is required'')
      else sbind (check_silicon [] (bk_silicon b)) (\<lambda>_.
           sbind (check_tables b) (\<lambda>_. prepare_validate (bk_layout b) (bk_prepare b))))"

definition Names :: "(string \<times> backend) list \<Rightarrow> string list" where
  "Names bs = sort (map fst bs)"

section \<open>Arguments\<close>

text \<open>
  A parameter as \<open>encoding/json\<close> decodes it into an \<open>any\<close>: a number is the nearest double, and one that
  overflows is an error of the whole document.
\<close>

datatype json_any = AnyNull | AnyBool bool | AnyString string | AnyNumber f64 | AnyInt int | AnyOther

definition any_of :: "ir \<Rightarrow> json_any" where
  "any_of v = (case v of
     INull \<Rightarrow> AnyNull | IBool b \<Rightarrow> AnyBool b | IStr s \<Rightarrow> AnyString s
   | INum s \<Rightarrow> (case parseFloat s of Some f \<Rightarrow> AnyNumber f | None \<Rightarrow> AnyOther)
   | _ \<Rightarrow> AnyOther)"

text \<open>The integer a double is, where it is one an \<open>int64\<close> holds.\<close>

definition integral :: "f64 \<Rightarrow> int option" where
  "integral f =
     (case f of
        Fin neg m e \<Rightarrow>
          (if e < 0 \<and> \<not> 2 ^ nat (- e) dvd m then None
           else let v = (if neg then - 1 else 1) * int (if e < 0 then m div 2 ^ nat (- e) else m * 2 ^ nat e) in
                if - (2 ^ 63) \<le> v \<and> v < 2 ^ 63 then Some v else None)
      | _ \<Rightarrow> None)"

text \<open>\<open>strconv.FormatFloat(t, 'g', -1, 64)\<close>.\<close>

definition two_digits :: "nat \<Rightarrow> string" where
  "two_digits n = (if n < 10 then ''0'' @ show_nat n else show_nat n)"

definition g_layout :: "string \<Rightarrow> int \<Rightarrow> string" where
  "g_layout digits n =
     (let x = n - 1 in
      if x < - 4 \<or> 6 \<le> x
      then (if length digits = 1 then digits else take 1 digits @ ''.'' @ drop 1 digits) @ ''e'' @
           (if x < 0 then ''-'' else ''+'') @ two_digits (nat \<bar>x\<bar>)
      else if n \<le> 0 then ''0.'' @ replicate (nat (- n)) (CHR ''0'') @ digits
      else if int (length digits) \<le> n then digits @ replicate (nat (n - int (length digits))) (CHR ''0'')
      else take (nat n) digits @ ''.'' @ drop (nat n) digits)"

definition format_g :: "f64 \<Rightarrow> string" where
  "format_g f =
     (case f of
        NaN \<Rightarrow> ''NaN''
      | Inf neg \<Rightarrow> (if neg then ''-Inf'' else ''+Inf'')
      | Fin neg m e \<Rightarrow> (if neg then ''-'' else []) @
          (case shortest m e of Some (digits, n) \<Rightarrow> g_layout digits n | None \<Rightarrow> ''0''))"

definition scalar :: "json_any \<Rightarrow> string option" where
  "scalar v = (case v of
     AnyString s \<Rightarrow> Some s
   | AnyBool b \<Rightarrow> Some (if b then ''true'' else ''false'')
   | AnyNumber f \<Rightarrow> Some (case integral f of Some i \<Rightarrow> show_int i | None \<Rightarrow> format_g f)
   | AnyInt i \<Rightarrow> Some (show_int i)
   | _ \<Rightarrow> None)"

text \<open>\<open>strings.ReplaceAll(tmpl, "{v}", v)\<close>.\<close>

fun render :: "string \<Rightarrow> string \<Rightarrow> string" where
  "render [] v = []"
| "render (c # s) v =
     (if has_prefix (c # s) ''{v}'' then v @ render (drop 2 s) v else c # render s v)"

type_synonym params = "(string \<times> json_any) list"

definition template :: "backend \<Rightarrow> string \<Rightarrow> string option" where
  "template b name = (case map_of (bk_args b) name of Some t \<Rightarrow> Some t | None \<Rightarrow> map_of (bk_extra b) name)"

text \<open>The loop of \<open>Args\<close>, over the parameters in the order of their names.\<close>

fun args_loop :: "backend \<Rightarrow> params \<Rightarrow> string list \<Rightarrow> string list \<Rightarrow> backend_err + string list \<times> string list" where
  "args_loop b [] args dropped = Inr (args, dropped)"
| "args_loop b ((name, v) # ps) args dropped =
     (if name = ''model_path'' then args_loop b ps args (dropped @ [name])
      else (case template b name of
              None \<Rightarrow> args_loop b ps args (dropped @ [name])
            | Some t \<Rightarrow>
                (case scalar v of
                   None \<Rightarrow> Inl (ErrInvalid name)
                 | Some s \<Rightarrow> args_loop b ps (args @ [render t s]) dropped)))"

definition arg_text :: "backend \<Rightarrow> string \<Rightarrow> string" where
  "arg_text b name = (case map_of (bk_args b) name of Some t \<Rightarrow> t | None \<Rightarrow> [])"

definition Args :: "backend \<Rightarrow> string \<Rightarrow> params \<Rightarrow> string list \<Rightarrow> backend_err + string list \<times> string list" where
  "Args b modelPath p extra =
     sbind (args_loop b (sort_key fst p) [render (arg_text b ''model_path'') modelPath] []) (\<lambda>(args, dropped).
     Inr (args @ extra, dropped))"

definition Consumes :: "build_step \<Rightarrow> string list" where
  "Consumes p = (if contains_text (pr_command p) ''{tp}'' then [''tensor_parallel''] else [])"

text \<open>\<open>strings.Fields\<close>, and the command of a build with its three variables substituted.\<close>

definition Fields :: "string \<Rightarrow> string list" where
  "Fields s = filter (\<lambda>w. w \<noteq> []) (split_on (CHR '' '') (map (\<lambda>c. if is_space c then CHR '' '' else c) s))"

fun replace_vars :: "(string \<times> string) list \<Rightarrow> nat \<Rightarrow> string \<Rightarrow> string" where
  "replace_vars vars n [] = []"
| "replace_vars vars (Suc n) (c # s) = replace_vars vars n s"
| "replace_vars vars 0 (c # s) =
     (case find (\<lambda>(k, v). has_prefix (c # s) k) vars of
        Some (k, v) \<Rightarrow> v @ replace_vars vars (length k - 1) s
      | None \<Rightarrow> c # replace_vars vars 0 s)"

definition Argv :: "build_step \<Rightarrow> string \<Rightarrow> string \<Rightarrow> int \<Rightarrow> backend_err + string list" where
  "Argv p src out tp =
     (if src = [] \<or> out = [] then Inl (ErrInvalid ''prepare needs a path'')
      else if contains_any src [CHR '' '', CHR 0x09, CHR 0x0A] \<or> contains_any out [CHR '' '', CHR 0x09, CHR 0x0A]
      then Inl (ErrInvalid ''the prepare path holds whitespace'')
      else Inr (Fields (replace_vars [(''{src}'', src), (''{out}'', out), (''{tp}'', show_int (max 1 tp))] 0 (pr_command p))))"

section \<open>Capabilities\<close>

text \<open>
  \<open>degree\<close>: a text is a whole number when \<open>Sscanf\<close> reads an integer from it and prints the same text.
\<close>

definition whole_number :: "string \<Rightarrow> int option" where
  "whole_number s = (case read_int s of
     Some i \<Rightarrow> if show_int i = s \<and> - (2 ^ 63) \<le> i \<and> i < 2 ^ 63 then Some i else None | None \<Rightarrow> None)"

definition degree :: "params \<Rightarrow> string \<Rightarrow> backend_err + int option" where
  "degree p name =
     (case map_of p name of
        None \<Rightarrow> Inr None
      | Some v \<Rightarrow>
          (case scalar v of
             None \<Rightarrow> Inl (ErrUnsupported name)
           | Some s \<Rightarrow>
               (case whole_number s of
                  None \<Rightarrow> Inl (ErrUnsupported name)
                | Some n \<Rightarrow> if n < 1 then Inl (ErrUnsupported name) else Inr (Some n))))"

definition check_degree :: "params \<Rightarrow> int \<Rightarrow> string \<Rightarrow> bool \<Rightarrow> backend_err + unit" where
  "check_degree p gpus name supported =
     sbind (degree p name) (\<lambda>d.
     case d of
       None \<Rightarrow> Inr ()
     | Some n \<Rightarrow>
         if n \<le> 1 then Inr ()
         else if \<not> supported then Inl (ErrUnsupported name)
         else if 0 < gpus \<and> gpus < n then Inl (ErrUnsupported name)
         else Inr ())"

definition CheckParams :: "backend \<Rightarrow> params \<Rightarrow> int \<Rightarrow> backend_err + unit" where
  "CheckParams b p gpus =
     sbind (check_degree p gpus ''tensor_parallel'' (cp_tensor_parallel (bk_capabilities b))) (\<lambda>_.
     sbind (check_degree p gpus ''expert_parallel'' (cp_expert_parallel (bk_capabilities b))) (\<lambda>_.
     case map_of p ''quantization'' of
       None \<Rightarrow> Inr ()
     | Some v \<Rightarrow>
         (case scalar v of
            None \<Rightarrow> Inl (ErrUnsupported ''quantization'')
          | Some want \<Rightarrow>
              if want \<in> set (cp_quantization (bk_capabilities b)) then Inr ()
              else Inl (ErrUnsupported ''quantization''))))"

section \<open>Silicon\<close>

definition VendorNVIDIA :: string where "VendorNVIDIA = ''nvidia''"

definition runsOn :: "string list \<Rightarrow> string \<Rightarrow> bool" where
  "runsOn declared vendor \<longleftrightarrow> (if vendor = [] then VendorNVIDIA else vendor) \<in> set declared"

definition RunsOn :: "backend \<Rightarrow> string \<Rightarrow> bool" where
  "RunsOn b vendor = runsOn (bk_silicon b) vendor"

definition recommended :: "string list" where "recommended = [''sglang'', ''vllm'', ''llama-cpp'']"

definition Offer :: "backend list \<Rightarrow> string \<Rightarrow> string list \<times> string" where
  "Offer all vendor =
     (let offer = sort (map bk_name (filter (\<lambda>r. RunsOn r vendor) all)) in
      (offer, case find (\<lambda>n. n \<in> set offer) recommended of Some n \<Rightarrow> n | None \<Rightarrow> []))"

section \<open>Derives\<close>

definition Inherit :: "backend \<Rightarrow> backend \<Rightarrow> backend_err + backend" where
  "Inherit parent derived =
     (if bk_derive derived = None then Inl (ErrInvalid (bk_name derived))
      else if bk_derive parent \<noteq> None \<or> bk_inherits parent \<noteq> [] then Inl (ErrInvalid (bk_name parent))
      else if bk_name parent \<noteq> bk_inherits derived then Inl (ErrInvalid (bk_inherits derived))
      else Inr (parent\<lparr>bk_name := bk_name derived, bk_inherits := bk_inherits derived,
                      bk_derive := bk_derive derived, bk_image := []\<rparr>))"

definition Resolve :: "(string \<times> backend) list \<Rightarrow> backend \<Rightarrow> backend_err + backend" where
  "Resolve builtins d =
     (if bk_inherits d = [] then Inr d
      else (case map_of builtins (bk_inherits d) of
              None \<Rightarrow> Inl (ErrInvalid (bk_name d)) | Some parent \<Rightarrow> Inherit parent d))"

section \<open>What Args takes and drops\<close>

text \<open>Every parameter is either rendered, in the order of the names, or named in the second list.\<close>

definition takes :: "backend \<Rightarrow> string \<Rightarrow> bool" where
  "takes b name \<longleftrightarrow> name \<noteq> ''model_path'' \<and> template b name \<noteq> None"

lemma args_loop_Inr:
  "args_loop b ps args dropped = Inr (out, left) \<Longrightarrow>
     left = dropped @ filter (\<lambda>n. \<not> takes b n) (map fst ps) \<and>
     out = args @ map (\<lambda>(n, v). render (the (template b n)) (the (scalar v))) (filter (\<lambda>(n, v). takes b n) ps) \<and>
     (\<forall>(n, v) \<in> set ps. takes b n \<longrightarrow> scalar v \<noteq> None)"
proof (induction b ps args dropped rule: args_loop.induct)
  case (2 b name v ps args dropped)
  show ?case
  proof (cases "takes b name")
    case True
    then obtain t where t: "name \<noteq> ''model_path''" "template b name = Some t" by (auto simp: takes_def)
    with 2(4) obtain s where s: "scalar v = Some s" by (auto split: option.splits)
    from 2(3) [OF t(1,2) s] 2(4) t s True show ?thesis by simp
  next
    case False
    then have n: "name = ''model_path'' \<or> template b name = None" by (auto simp: takes_def)
    show ?thesis
    proof (cases "name = ''model_path''")
      case True
      with 2(4) have "args_loop b ps args (dropped @ [name]) = Inr (out, left)" by simp
      from 2(1) [OF True this] False show ?thesis by simp
    next
      case name: False
      with n have no: "template b name = None" by blast
      with 2(4) name have "args_loop b ps args (dropped @ [name]) = Inr (out, left)" by simp
      from 2(2) [OF name no this] False show ?thesis by simp
    qed
  qed
qed simp

lemma Args_Inr:
  assumes "Args b path p extra = Inr (out, left)"
  shows "left = filter (\<lambda>n. \<not> takes b n) (map fst (sort_key fst p))"
    and "out = render (arg_text b ''model_path'') path #
      map (\<lambda>(n, v). render (the (template b n)) (the (scalar v))) (filter (\<lambda>(n, v). takes b n) (sort_key fst p)) @ extra"
    and "\<And>n v. (n, v) \<in> set p \<Longrightarrow> takes b n \<Longrightarrow> scalar v \<noteq> None"
  using assms by (auto simp: Args_def dest!: args_loop_Inr)

end
