(* ===== verification/NodeConfig.thy ===== *)
theory NodeConfig
  imports Backend
begin

text \<open>
  \<^verbatim>\<open>/etc/nodary/node.toml\<close> (\<^verbatim>\<open>internal/agent/node.go\<close>, \<^verbatim>\<open>guardrail.go\<close>): what a node offers, the limits it holds
  a placement to, and its maintenance window.  The configuration is the value \<open>toml.Decode\<close> yields, whose
  floats include the not-a-number; a window is ASCII.
\<close>

section \<open>The configuration\<close>

record node_config =
  nc_gpu_indices :: "int list option"
  nc_max_vram :: "f64 option"
  nc_max_deployments :: "int option"
  nc_backends :: "string list option"
  nc_prepare_jobs :: "bool option"
  nc_package_install :: "bool option"
  nc_reboot :: "bool option"
  nc_maintenance :: string

datatype config_err = BadIndex int | BadFraction | BadCount | BadWindow string | UnknownZone string | EmptyWindow

definition f64_scaled :: "int \<Rightarrow> f64 \<Rightarrow> int" where
  "f64_scaled k f = (case f of Fin neg m e \<Rightarrow> (if neg then - 1 else 1) * int m * 2 ^ nat (e - k) | _ \<Rightarrow> 0)"

text \<open>The comparison of two doubles, false whenever one is not a number.\<close>

definition f64_less :: "f64 \<Rightarrow> f64 \<Rightarrow> bool" where
  "f64_less a b =
     (case (a, b) of
        (Fin _ _ e, Fin _ _ e') \<Rightarrow> (let k = min e e' in f64_scaled k a < f64_scaled k b)
      | (Fin _ _ _, Inf neg) \<Rightarrow> \<not> neg
      | (Inf neg, Fin _ _ _) \<Rightarrow> neg
      | (Inf neg, Inf neg') \<Rightarrow> neg \<and> \<not> neg'
      | _ \<Rightarrow> False)"

definition f64_leq :: "f64 \<Rightarrow> f64 \<Rightarrow> bool" where
  "f64_leq a b \<longleftrightarrow> f64_less a b \<or> (a \<noteq> NaN \<and> b \<noteq> NaN \<and> \<not> f64_less b a)"

definition f64_zero :: f64 where "f64_zero = Fin False 0 0"
definition f64_one :: f64 where "f64_one = Fin False 1 0"

section \<open>The maintenance window\<close>

record window =
  wn_day :: string
  wn_from :: int
  wn_to :: int
  wn_zone :: string

definition weekdays :: "(string \<times> int) list" where
  "weekdays = [(''sun'', 0), (''mon'', 1), (''tue'', 2), (''wed'', 3), (''thu'', 4), (''fri'', 5), (''sat'', 6)]"

definition digit_int :: "char \<Rightarrow> int" where "digit_int c = int (of_char c) - 48"

definition minuteOf :: "string \<Rightarrow> string \<Rightarrow> int" where
  "minuteOf hh mm =
     (digit_int (hh ! 0) * 10 + digit_int (hh ! 1)) * 60 + (digit_int (mm ! 0) * 10 + digit_int (mm ! 1))"

text \<open>The two digits of an hour and of a minute, as \<open>maintenancePattern\<close> has them.\<close>

definition hour_text :: "string \<Rightarrow> bool" where
  "hour_text s \<longleftrightarrow> length s = 2 \<and>
     ((s ! 0 \<in> set ''01'' \<and> s ! 1 \<in> set ''0123456789'') \<or> (s ! 0 = CHR ''2'' \<and> s ! 1 \<in> set ''0123''))"

definition minute_text :: "string \<Rightarrow> bool" where
  "minute_text s \<longleftrightarrow> length s = 2 \<and> s ! 0 \<in> set ''012345'' \<and> s ! 1 \<in> set ''0123456789''"

definition upper_char :: "char \<Rightarrow> char" where
  "upper_char c = (if 97 \<le> (of_char c :: nat) \<and> (of_char c :: nat) \<le> 122 then char_of ((of_char c :: nat) - 32) else c)"

definition zone_text :: "string \<Rightarrow> bool" where
  "zone_text s \<longleftrightarrow> 2 \<le> length s \<and> length s \<le> 5 \<and>
     list_all (\<lambda>c. 97 \<le> (of_char (lower_char c) :: nat) \<and> (of_char (lower_char c) :: nat) \<le> 122) s"

text \<open>\<open>maintenancePattern.FindStringSubmatch\<close>: every group has a fixed place but the last.\<close>

definition parse_window :: "string \<Rightarrow> window option" where
  "parse_window s =
     (let day = to_lower (take 3 s); h1 = take 2 (drop 4 s); m1 = take 2 (drop 7 s);
          h2 = take 2 (drop 10 s); m2 = take 2 (drop 13 s); zone = drop 16 s in
      if day \<in> set (map fst weekdays) \<and> take 1 (drop 3 s) = '' '' \<and>
         hour_text h1 \<and> take 1 (drop 6 s) = '':'' \<and> minute_text m1 \<and> take 1 (drop 9 s) = ''-'' \<and>
         hour_text h2 \<and> take 1 (drop 12 s) = '':'' \<and> minute_text m2 \<and> take 1 (drop 15 s) = '' '' \<and> zone_text zone
      then Some \<lparr>wn_day = day, wn_from = minuteOf h1 m1, wn_to = minuteOf h2 m2, wn_zone = map upper_char zone\<rparr>
      else None)"

text \<open>
  \<open>zones\<close> stands for \<open>time.LoadLocation\<close>: for a name the host knows, the offset from UTC in seconds at an
  instant.
\<close>

type_synonym zones = "string \<Rightarrow> (int \<Rightarrow> int) option"

definition checkMaintenance :: "zones \<Rightarrow> string \<Rightarrow> config_err + unit" where
  "checkMaintenance zones s =
     (case parse_window s of
        None \<Rightarrow> Inl (BadWindow s)
      | Some w \<Rightarrow>
          if zones (wn_zone w) = None then Inl (UnknownZone (wn_zone w))
          else if wn_from w = wn_to w then Inl EmptyWindow
          else Inr ())"

definition MaintenanceOpen :: "zones \<Rightarrow> node_config \<Rightarrow> int \<Rightarrow> bool" where
  "MaintenanceOpen zones c now =
     (case parse_window (nc_maintenance c) of
        None \<Rightarrow> False
      | Some w \<Rightarrow>
          (case (zones (wn_zone w), map_of weekdays (wn_day w)) of
             (Some offset, Some day) \<Rightarrow>
               let t = now + offset now; wd = (t div 86400 + 4) mod 7; m = t mod 86400 div 60 in
               if wn_from w < wn_to w then wd = day \<and> wn_from w \<le> m \<and> m < wn_to w
               else (wd = day \<and> wn_from w \<le> m) \<or> (wd = (day + 1) mod 7 \<and> m < wn_to w)
           | _ \<Rightarrow> False))"

section \<open>Validation\<close>

fun check_indices :: "int list \<Rightarrow> int list \<Rightarrow> config_err + unit" where
  "check_indices seen [] = Inr ()"
| "check_indices seen (i # is) =
     (if i < 0 \<or> i \<in> set seen then Inl (BadIndex i) else check_indices (i # seen) is)"

definition validate_node :: "zones \<Rightarrow> node_config \<Rightarrow> config_err + unit" where
  "validate_node zones c =
     sbind (check_indices [] (case nc_gpu_indices c of None \<Rightarrow> [] | Some is \<Rightarrow> is)) (\<lambda>_.
     if (case nc_max_vram c of None \<Rightarrow> False | Some f \<Rightarrow> f64_leq f f64_zero \<or> f64_less f64_one f) then Inl BadFraction
     else if (case nc_max_deployments c of None \<Rightarrow> False | Some n \<Rightarrow> n < 0) then Inl BadCount
     else if nc_maintenance c \<noteq> [] then checkMaintenance zones (nc_maintenance c)
     else Inr ())"

section \<open>What is advertised\<close>

record gpu =
  gp_index :: int
  gp_name :: string
  gp_memory :: int
  gp_vendor :: string
  gp_render :: string

definition VendorName :: "gpu \<Rightarrow> string" where
  "VendorName g = (if gp_vendor g = [] then VendorNVIDIA else gp_vendor g)"

record node_offer =
  of_gpus :: "gpu list"
  of_max :: int
  of_backends :: "string list"

record constraints =
  cn_prepare_jobs :: bool
  cn_package_install :: bool
  cn_reboot :: bool
  cn_maintenance :: string
  cn_max_vram :: f64

definition set_or :: "'a option \<Rightarrow> 'a \<Rightarrow> 'a" where
  "set_or v d = (case v of None \<Rightarrow> d | Some x \<Rightarrow> x)"

definition Advertise :: "node_config \<Rightarrow> gpu list \<Rightarrow> string list \<Rightarrow> node_offer \<times> constraints" where
  "Advertise c present backends =
     (let offered = (case nc_gpu_indices c of None \<Rightarrow> present
                     | Some is \<Rightarrow> filter (\<lambda>g. gp_index g \<in> set is) present);
          kept = (case nc_backends c of None \<Rightarrow> backends | Some bs \<Rightarrow> filter (\<lambda>b. b \<in> set bs) backends) in
      (\<lparr>of_gpus = offered, of_max = set_or (nc_max_deployments c) (int (length offered)), of_backends = kept\<rparr>,
       \<lparr>cn_prepare_jobs = set_or (nc_prepare_jobs c) True, cn_package_install = set_or (nc_package_install c) True,
        cn_reboot = set_or (nc_reboot c) True, cn_maintenance = nc_maintenance c,
        cn_max_vram = set_or (nc_max_vram c) f64_one\<rparr>))"

section \<open>Limits\<close>

text \<open>A deployment as the document carries it; the three JSON fields are the bytes of their values.\<close>

record desired_deployment =
  dd_id :: string
  dd_model :: string
  dd_backend :: string
  dd_image :: string
  dd_gpus :: "int list"
  dd_params :: string
  dd_extra :: string
  dd_env :: string
  dd_port :: int
  dd_network :: string
  dd_state :: string

definition dec_float :: "ir \<Rightarrow> f64 \<Rightarrow> f64 decoded" where
  "dec_float v x =
     (case v of INum s \<Rightarrow> (case parseFloat s of Some f \<Rightarrow> (f, True) | None \<Rightarrow> (x, False))
      | INull \<Rightarrow> (x, True) | _ \<Rightarrow> (x, False))"

text \<open>\<open>deploymentParams\<close>, whose one field is the fraction.\<close>

definition dec_params :: "ir \<Rightarrow> f64 option \<Rightarrow> f64 option decoded" where
  "dec_params = dec_struct [''gpu_memory_fraction''] (\<lambda>_. dec_pointer dec_float f64_zero)"

datatype limit_reason = BackendNotAllowed string | OverFraction | OverCount int

definition outsideLimits :: "node_config \<Rightarrow> desired_deployment \<Rightarrow> int \<Rightarrow> limit_reason option" where
  "outsideLimits c d placed =
     (if (case nc_backends c of None \<Rightarrow> False | Some bs \<Rightarrow> dd_backend d \<notin> set bs) then Some (BackendNotAllowed (dd_backend d))
      else if (case (nc_max_vram c, unmarshal_into dec_params (dd_params d) None) of
                 (Some f, Some (Some p)) \<Rightarrow> f64_less f p | _ \<Rightarrow> False)
      then Some OverFraction
      else (case nc_max_deployments c of
              Some n \<Rightarrow> if n \<le> placed then Some (OverCount n) else None
            | None \<Rightarrow> None))"

section \<open>The window is one interval of the week\<close>

text \<open>The seconds of a week that begin at the opening, and how many of them the window lasts.\<close>

definition window_length :: "window \<Rightarrow> int" where
  "window_length w = 60 * ((wn_to w - wn_from w) mod 1440)"

definition since_opening :: "window \<Rightarrow> int \<Rightarrow> int \<Rightarrow> int" where
  "since_opening w day t = (t - ((day - 4) * 86400 + 60 * wn_from w)) mod 604800"

lemma digit_int_bounds:
  "c \<in> set ''0123456789'' \<Longrightarrow> 0 \<le> digit_int c \<and> digit_int c \<le> 9"
  "c \<in> set ''012345'' \<Longrightarrow> 0 \<le> digit_int c \<and> digit_int c \<le> 5"
  "c \<in> set ''01'' \<Longrightarrow> 0 \<le> digit_int c \<and> digit_int c \<le> 1"
  "c \<in> set ''0123'' \<Longrightarrow> 0 \<le> digit_int c \<and> digit_int c \<le> 3"
  by (auto simp: digit_int_def)

lemma minuteOf_bounds:
  assumes "hour_text h" "minute_text m" shows "0 \<le> minuteOf h m \<and> minuteOf h m < 1440"
proof -
  have "0 \<le> digit_int (h ! 0) * 10 + digit_int (h ! 1) \<and> digit_int (h ! 0) * 10 + digit_int (h ! 1) \<le> 23"
  proof (cases "h ! 0 = CHR ''2''")
    case True
    then have "digit_int (h ! 0) = 2" by (simp add: digit_int_def)
    moreover have "h ! 1 \<in> set ''0123''" using assms(1) True by (auto simp: hour_text_def)
    ultimately show ?thesis using digit_int_bounds(4) by fastforce
  next
    case False
    then have "h ! 0 \<in> set ''01''" "h ! 1 \<in> set ''0123456789''" using assms(1) unfolding hour_text_def by blast+
    from digit_int_bounds(3) [OF this(1)] digit_int_bounds(1) [OF this(2)] show ?thesis by linarith
  qed
  moreover have "m ! 0 \<in> set ''012345''" "m ! 1 \<in> set ''0123456789''" using assms(2) by (simp_all add: minute_text_def)
  then have "0 \<le> digit_int (m ! 0) * 10 + digit_int (m ! 1) \<and> digit_int (m ! 0) * 10 + digit_int (m ! 1) \<le> 59"
    using digit_int_bounds(2) [of "m ! 0"] digit_int_bounds(1) [of "m ! 1"] by linarith
  ultimately show ?thesis unfolding minuteOf_def by auto
qed

lemma parse_window_wf:
  assumes "parse_window s = Some w"
  shows "0 \<le> wn_from w \<and> wn_from w < 1440 \<and> 0 \<le> wn_to w \<and> wn_to w < 1440 \<and>
    (\<exists>day. map_of weekdays (wn_day w) = Some day \<and> 0 \<le> day \<and> day < 7)"
proof -
  have p: "to_lower (take 3 s) \<in> set (map fst weekdays)" "hour_text (take 2 (drop 4 s))" "minute_text (take 2 (drop 7 s))"
    "hour_text (take 2 (drop 10 s))" "minute_text (take 2 (drop 13 s))"
    and w: "wn_day w = to_lower (take 3 s)" "wn_from w = minuteOf (take 2 (drop 4 s)) (take 2 (drop 7 s))"
    "wn_to w = minuteOf (take 2 (drop 10 s)) (take 2 (drop 13 s))"
    using assms by (simp_all only: parse_window_def Let_def option.inject split: if_splits) auto
  have "\<exists>day. map_of weekdays d = Some day \<and> 0 \<le> day \<and> day < 7" if "d \<in> set (map fst weekdays)" for d
    using that by (auto simp: weekdays_def)
  with p(1) w minuteOf_bounds [OF p(2,3)] minuteOf_bounds [OF p(4,5)] show ?thesis by simp
qed

lemma week_cut:
  fixes q r f t d :: int
  assumes "0 \<le> r" "r < 86400" "0 \<le> f" "f < 1440" "0 \<le> t" "t < 1440" "f \<noteq> t" "0 \<le> d" "d < 7"
  defines "wd \<equiv> (q + 4) mod 7" and "m \<equiv> r div 60"
  shows "(if f < t then wd = d \<and> f \<le> m \<and> m < t else (wd = d \<and> f \<le> m) \<or> (wd = (d + 1) mod 7 \<and> m < t)) \<longleftrightarrow>
    ((q * 86400 + r) - ((d - 4) * 86400 + 60 * f)) mod 604800 < 60 * ((t - f) mod 1440)"
proof -
  define D where "D = (q + 4 - d) mod 7"
  have D: "0 \<le> D" "D < 7" by (simp_all add: D_def)
  have w: "wd = d \<longleftrightarrow> D = 0" "wd = (d + 1) mod 7 \<longleftrightarrow> D = 1"
  proof -
    have "(q + 4) mod 7 = d mod 7 \<longleftrightarrow> 7 dvd q + 4 - d" by (rule mod_eq_dvd_iff)
    moreover have "d mod 7 = d" using assms(8,9) by (rule mod_pos_pos_trivial)
    ultimately show "wd = d \<longleftrightarrow> D = 0" by (simp add: wd_def D_def mod_eq_0_iff_dvd)
    have "(q + 4) mod 7 = (d + 1) mod 7 \<longleftrightarrow> 7 dvd q + 4 - (d + 1)" by (rule mod_eq_dvd_iff)
    moreover have "(q + 4 - d) mod 7 = 1 mod 7 \<longleftrightarrow> 7 dvd q + 4 - d - 1" by (rule mod_eq_dvd_iff)
    ultimately show "wd = (d + 1) mod 7 \<longleftrightarrow> D = 1" by (simp add: wd_def D_def algebra_simps)
  qed
  have m: "f \<le> m \<longleftrightarrow> 60 * f \<le> r" "m < t \<longleftrightarrow> r < 60 * t" 
    unfolding m_def using div_mult_mod_eq [of r 60] pos_mod_bound [of 60 r] pos_mod_sign [of 60 r] by linarith+
  obtain k where k: "q + 4 - d = 7 * k + D" unfolding D_def by (metis mult_div_mod_eq)
  have e: "(q * 86400 + r) - ((d - 4) * 86400 + 60 * f) = (D * 86400 + r - 60 * f) + 604800 * k"
    using k by (simp add: algebra_simps)
  have s: "((q * 86400 + r) - ((d - 4) * 86400 + 60 * f)) mod 604800 = (D * 86400 + r - 60 * f) mod 604800"
    unfolding e by simp
  have v: "(D * 86400 + r - 60 * f) mod 604800 =
      (if D * 86400 + r - 60 * f < 0 then D * 86400 + r - 60 * f + 604800 else D * 86400 + r - 60 * f)"
  proof (cases "D * 86400 + r - 60 * f < 0")
    case True
    have "(D * 86400 + r - 60 * f) mod 604800 = (D * 86400 + r - 60 * f + 604800) mod 604800" by simp
    also have "\<dots> = D * 86400 + r - 60 * f + 604800" using True assms D by (intro mod_pos_pos_trivial) linarith+
    finally show ?thesis using True by simp
  next
    case False
    then show ?thesis using assms D by (simp add: mod_pos_pos_trivial)
  qed
  have l: "(t - f) mod 1440 = (if f < t then t - f else t - f + 1440)"
  proof (cases "f < t")
    case True
    then show ?thesis using assms(3-6) by (simp add: mod_pos_pos_trivial)
  next
    case False
    have "(t - f) mod 1440 = (t - f + 1440) mod 1440" by simp
    also have "\<dots> = t - f + 1440" using False assms(3-7) by (intro mod_pos_pos_trivial) linarith+
    finally show ?thesis using False by simp
  qed
  show ?thesis unfolding s v l w m using D assms by (cases "f < t"; cases "D = 0"; cases "D = 1") auto
qed

text \<open>
  C32: A window that \<open>checkMaintenance\<close> accepts is open for one interval of each week of its zone's clock: it opens
  at the declared day and minute and lasts the minutes to the closing one, over midnight where that is the
  earlier of the two, which is never none and always less than a day.
\<close>

theorem window_is_one_interval_a_week:
  assumes "checkMaintenance zones (nc_maintenance c) = Inr ()"
  shows "\<exists>w day offset. parse_window (nc_maintenance c) = Some w \<and> map_of weekdays (wn_day w) = Some day \<and>
    zones (wn_zone w) = Some offset \<and> 0 < window_length w \<and> window_length w < 86400 \<and>
    (\<forall>now. MaintenanceOpen zones c now \<longleftrightarrow> since_opening w day (now + offset now) < window_length w)"
proof -
  from assms obtain w offset where w: "parse_window (nc_maintenance c) = Some w" "zones (wn_zone w) = Some offset"
    "wn_from w \<noteq> wn_to w" by (auto simp: checkMaintenance_def split: option.splits if_splits)
  from parse_window_wf [OF w(1)] obtain day where b: "0 \<le> wn_from w" "wn_from w < 1440" "0 \<le> wn_to w" "wn_to w < 1440"
    and day: "map_of weekdays (wn_day w) = Some day" "0 \<le> day" "day < 7" by auto
  have "MaintenanceOpen zones c now \<longleftrightarrow> since_opening w day (now + offset now) < window_length w" for now
  proof -
    define t where "t = now + offset now"
    have "MaintenanceOpen zones c now \<longleftrightarrow>
        (let wd = (t div 86400 + 4) mod 7; m = t mod 86400 div 60 in
         if wn_from w < wn_to w then wd = day \<and> wn_from w \<le> m \<and> m < wn_to w
         else (wd = day \<and> wn_from w \<le> m) \<or> (wd = (day + 1) mod 7 \<and> m < wn_to w))"
      by (simp only: MaintenanceOpen_def w day option.case prod.case t_def Let_def)
    also have "\<dots> \<longleftrightarrow> since_opening w day t < window_length w"
      using week_cut [of "t mod 86400" "wn_from w" "wn_to w" day "t div 86400", OF _ _ b w(3) day(2,3)]
      by (simp only: Let_def since_opening_def window_length_def div_mult_mod_eq)
    finally show ?thesis by (simp only: t_def)
  qed
  moreover have "(wn_to w - wn_from w) mod 1440 \<noteq> 0"
  proof
    assume "(wn_to w - wn_from w) mod 1440 = 0"
    then have "wn_to w mod 1440 = wn_from w mod 1440" by (simp add: mod_eq_dvd_iff mod_eq_0_iff_dvd)
    with b w(3) show False by (simp add: mod_pos_pos_trivial)
  qed
  then have "0 < window_length w \<and> window_length w < 86400"
    using pos_mod_bound [of 1440 "wn_to w - wn_from w"] pos_mod_sign [of 1440 "wn_to w - wn_from w"]
    unfolding window_length_def by linarith
  ultimately show ?thesis using w(1,2) day(1) by blast
qed

definition utc :: zones where
  "utc name = (if name = ''UTC'' then Some (\<lambda>_. 0) else None)"

definition late_saturday :: node_config where
  "late_saturday =
     \<lparr>nc_gpu_indices = Some [0, 2], nc_max_vram = None, nc_max_deployments = None, nc_backends = None, nc_prepare_jobs = None,
      nc_package_install = None, nc_reboot = None, nc_maintenance = ''Sat 22:00-02:00 utc''\<rparr>"

lemma late_saturday_window: "parse_window (nc_maintenance late_saturday) =
    Some \<lparr>wn_day = ''sat'', wn_from = 1320, wn_to = 120, wn_zone = ''UTC''\<rparr>"
  by code_simp

lemma late_saturday_ok: "checkMaintenance utc (nc_maintenance late_saturday) = Inr ()"
  by (simp add: checkMaintenance_def late_saturday_window utc_def)

theorem window_is_one_interval_a_week_witness:
  "MaintenanceOpen utc late_saturday 1704589200 \<and> \<not> MaintenanceOpen utc late_saturday 1704596400"
proof -
  note p = late_saturday_window
  from window_is_one_interval_a_week [OF late_saturday_ok]
  have "\<forall>now. MaintenanceOpen utc late_saturday now \<longleftrightarrow>
      since_opening \<lparr>wn_day = ''sat'', wn_from = 1320, wn_to = 120, wn_zone = ''UTC''\<rparr> 6 now <
      window_length \<lparr>wn_day = ''sat'', wn_from = 1320, wn_to = 120, wn_zone = ''UTC''\<rparr>"
    unfolding p by (auto simp: weekdays_def utc_def)
  then show ?thesis by (simp add: since_opening_def window_length_def)
qed

section \<open>What limits do and do not hold\<close>

text \<open>
  What is advertised is part of what the driver reported and of what the file names, the GPUs it offers are
  never counted as more deployments than it allows, and an index the file withholds is not offered.
\<close>

theorem only_what_is_offered_is_advertised:
  assumes "Advertise c present backends = (o', k)"
  shows "set (of_gpus o') = {g \<in> set present. \<forall>is. nc_gpu_indices c = Some is \<longrightarrow> gp_index g \<in> set is} \<and>
    set (of_backends o') = {b \<in> set backends. \<forall>bs. nc_backends c = Some bs \<longrightarrow> b \<in> set bs} \<and>
    (distinct (map gp_index present) \<longrightarrow> distinct (map gp_index (of_gpus o'))) \<and>
    (\<forall>n. nc_max_deployments c = Some n \<longrightarrow> of_max o' = n) \<and>
    (nc_max_deployments c = None \<longrightarrow> of_max o' = int (length (of_gpus o')))"
proof -
  have g: "of_gpus o' = (case nc_gpu_indices c of None \<Rightarrow> present | Some is \<Rightarrow> filter (\<lambda>g. gp_index g \<in> set is) present)"
    and b: "of_backends o' = (case nc_backends c of None \<Rightarrow> backends | Some bs \<Rightarrow> filter (\<lambda>b. b \<in> set bs) backends)"
    and m: "of_max o' = set_or (nc_max_deployments c) (int (length (of_gpus o')))"
    using assms by (simp_all add: Advertise_def Let_def) auto
  have "set (of_gpus o') = {g \<in> set present. \<forall>is. nc_gpu_indices c = Some is \<longrightarrow> gp_index g \<in> set is}"
    unfolding g by (cases "nc_gpu_indices c") auto
  moreover have "set (of_backends o') = {b \<in> set backends. \<forall>bs. nc_backends c = Some bs \<longrightarrow> b \<in> set bs}"
    unfolding b by (cases "nc_backends c") auto
  moreover have "distinct (map gp_index present) \<longrightarrow> distinct (map gp_index (of_gpus o'))"
    unfolding g by (cases "nc_gpu_indices c") (auto simp: distinct_map_filter)
  ultimately show ?thesis using m by (simp add: set_or_def)
qed

text \<open>
  The cap on the fraction of a card's memory is not a number when the file says so: the file is valid, and no
  fraction a deployment asks for is over the cap.
\<close>

lemma f64_nan [simp]: "f64_less NaN f = False" "f64_less f NaN = False" "f64_leq NaN f = False"
  by (cases f; simp add: f64_leq_def f64_less_def)+

theorem nan_fraction_is_no_cap:
  assumes "nc_max_vram c = Some NaN" "validate_node zones (c\<lparr>nc_max_vram := None\<rparr>) = Inr ()"
  shows "validate_node zones c = Inr () \<and> outsideLimits c d placed \<noteq> Some OverFraction"
proof
  have "nc_maintenance (c\<lparr>nc_max_vram := None\<rparr>) = nc_maintenance c" by simp
  with assms(1) have "validate_node zones c = validate_node zones (c\<lparr>nc_max_vram := None\<rparr>)"
    by (simp only: validate_node_def) simp
  with assms(2) show "validate_node zones c = Inr ()" by simp
  show "outsideLimits c d placed \<noteq> Some OverFraction"
    by (simp add: outsideLimits_def assms(1) split: option.splits)
qed

theorem nan_fraction_is_no_cap_witness:
  "validate_node utc (late_saturday\<lparr>nc_max_vram := Some NaN\<rparr>) = Inr ()"
proof -
  have "checkMaintenance utc (nc_maintenance (late_saturday\<lparr>nc_max_vram := None\<rparr>)) = Inr ()"
    using late_saturday_ok by simp
  moreover have "validate_node utc (late_saturday\<lparr>nc_max_vram := None, nc_maintenance := []\<rparr>) = Inr ()" by code_simp
  ultimately have "validate_node utc (late_saturday\<lparr>nc_max_vram := None\<rparr>) = Inr ()"
    by (simp add: validate_node_def split: if_splits)
  with nan_fraction_is_no_cap [of "late_saturday\<lparr>nc_max_vram := Some NaN\<rparr>" utc] show ?thesis by simp
qed

end
