(* ===== verification/Staging.thy ===== *)
theory Staging
  imports AuditRecord "HOL-Library.List_Lexorder" "HOL-Library.Char_ord" "HOL-Library.Sublist"
begin

text \<open>
  Weights on disk (\<^verbatim>\<open>internal/agent/staging.go\<close>): where a model lives, the manifest beside it, and the
  verification that decides whether a model is staged.  Paths are those of \<open>path/filepath\<close> on Unix.
\<close>

section \<open>Paths\<close>

text \<open>The elements of a path after \<open>Clean\<close>; \<open>out\<close> is kept with its last element first.\<close>

fun clean_step :: "bool \<Rightarrow> string list \<Rightarrow> string \<Rightarrow> string list" where
  "clean_step rooted out e =
     (if e = [] \<or> e = ''.'' then out
      else if e = ''..''
      then (if out \<noteq> [] \<and> hd out \<noteq> ''..'' then tl out else if rooted then out else e # out)
      else e # out)"

definition slash :: char where "slash = CHR ''/''"

definition rooted :: "string \<Rightarrow> bool" where "rooted p \<longleftrightarrow> take 1 p = [slash]"

definition elems :: "string \<Rightarrow> string list" where
  "elems p = rev (foldl (clean_step (rooted p)) [] (split_on slash p))"

definition path_of :: "bool \<Rightarrow> string list \<Rightarrow> string" where
  "path_of r es = (if es = [] then (if r then ''/'' else ''.'') else (if r then [slash] else []) @ join [slash] es)"

definition Clean :: "string \<Rightarrow> string" where
  "Clean p = path_of (rooted p) (elems p)"

definition Join :: "string list \<Rightarrow> string" where
  "Join ps = (let qs = dropWhile (\<lambda>p. p = []) ps in if qs = [] then [] else Clean (join [slash] qs))"

fun after_common :: "string list \<Rightarrow> string list \<Rightarrow> string list \<times> string list" where
  "after_common (a # as) (b # bs) = (if a = b then after_common as bs else (a # as, b # bs))"
| "after_common as bs = (as, bs)"

text \<open>\<open>Rel\<close>: the elements that lead from the base to the target, or an error.\<close>

definition Rel :: "string \<Rightarrow> string \<Rightarrow> string list option" where
  "Rel base target =
     (if rooted base \<noteq> rooted target then None
      else (case after_common (elems base) (elems target) of (bs, ts) \<Rightarrow>
        if bs \<noteq> [] \<and> hd bs = ''..'' then None else Some (replicate (length bs) ''..'' @ ts)))"

definition within :: "string \<Rightarrow> string \<Rightarrow> bool" where
  "within dir p = (case Rel dir (Clean p) of None \<Rightarrow> False | Some es \<Rightarrow> take 1 es \<noteq> [''..''])"

section \<open>Where a model lives\<close>

definition flat_id :: "string \<Rightarrow> string" where "flat_id m = replace_char slash ''--'' m"

datatype stage_err = UnknownLayout string | BadManifest nat | NoDigest nat | NoFile nat | ListedTwice string | LineTooLong
  | ManyFiles nat | SpacedName string | Unread string

definition ModelDir :: "string \<Rightarrow> string \<Rightarrow> string \<Rightarrow> stage_err + string" where
  "ModelDir modelsDir layout m =
     (if layout = ''hf-cache'' then Inr (Join [modelsDir, ''hub'', ''models--'' @ flat_id m])
      else if layout = ''single-file'' \<or> layout = ''engine-dir'' then Inr (Join [modelsDir, flat_id m])
      else Inl (UnknownLayout layout))"

section \<open>Manifests\<close>

definition ManifestName :: string where "ManifestName = ''nodary-manifest.sha256''"

record entry =
  en_sha :: string
  en_path :: string

text \<open>One line of \<^verbatim>\<open>sha256sum\<close> output: nothing for a comment, the entry, or the error.\<close>

definition parse_line :: "nat \<Rightarrow> string \<Rightarrow> stage_err + entry option" where
  "parse_line n raw =
     (let text = trim_space raw; d = takeWhile (\<lambda>c. c \<noteq> CHR '' '') text; rest = drop (length d) text in
      if text = [] \<or> has_prefix text ''#'' then Inr None
      else if rest = [] \<or> length d \<noteq> 64 then Inl (BadManifest n)
      else if \<not> list_all lower_hex (to_lower d) then Inl (NoDigest n)
      else (let p = trim_prefix (trim_space (drop 1 rest)) ''*'' in
            if p = [] then Inl (NoFile n) else Inr (Some \<lparr>en_sha = to_lower d, en_path = p\<rparr>)))"

text \<open>The scanner's buffer holds a line of fewer than 2^20 bytes.\<close>

definition max_line :: nat where "max_line = 2 ^ 20"

fun parse_lines :: "nat \<Rightarrow> string list \<Rightarrow> entry list \<Rightarrow> stage_err + entry list" where
  "parse_lines n [] es = Inr es"
| "parse_lines n (l # ls) es =
     (if max_line \<le> length l then Inl LineTooLong
      else sbind (parse_line n l) (\<lambda>r.
           case r of
             None \<Rightarrow> parse_lines (Suc n) ls es
           | Some e \<Rightarrow> if en_path e \<in> set (map en_path es) then Inl (ListedTwice (en_path e))
                       else parse_lines (Suc n) ls (es @ [e])))"

definition ParseManifest :: "string \<Rightarrow> stage_err + entry list" where
  "ParseManifest body =
     sbind (parse_lines 1 (split_on (CHR 0x0A) body) []) (\<lambda>es. Inr (sort_key en_path es))"

section \<open>Verification\<close>

text \<open>What opening a path for reading yields.\<close>

datatype node = Missing | Unreadable | Directory | Regular string

type_synonym fs = "string \<Rightarrow> node"

datatype stage_state = Absent | InStaging | Verifying | Staged | Corrupt | Unverified

record verdict =
  vd_state :: stage_state
  vd_files :: nat
  vd_bytes :: nat

definition judged :: "stage_state \<Rightarrow> verdict" where
  "judged s = \<lparr>vd_state = s, vd_files = 0, vd_bytes = 0\<rparr>"

text \<open>\<open>H\<close> stands for the hexadecimal SHA-256.\<close>

fun verify_entries :: "(string \<Rightarrow> string) \<Rightarrow> fs \<Rightarrow> string \<Rightarrow> entry list \<Rightarrow> verdict \<Rightarrow> verdict" where
  "verify_entries H fs dir [] v = v"
| "verify_entries H fs dir (e # es) v =
     (let p = Join [dir, en_path e] in
      if \<not> within dir p then judged Corrupt
      else (case fs p of
              Missing \<Rightarrow> judged Absent
            | Unreadable \<Rightarrow> judged Corrupt
            | Directory \<Rightarrow> judged Corrupt
            | Regular b \<Rightarrow>
                if H b \<noteq> en_sha e then judged Corrupt
                else verify_entries H fs dir es (v\<lparr>vd_bytes := vd_bytes v + length b\<rparr>)))"

definition verify_manifest :: "(string \<Rightarrow> string) \<Rightarrow> fs \<Rightarrow> string \<Rightarrow> string \<Rightarrow> string \<Rightarrow> verdict" where
  "verify_manifest H fs dir sha body =
     (if sha \<noteq> [] \<and> H body \<noteq> sha then judged Corrupt
      else (case ParseManifest body of
              Inl _ \<Rightarrow> judged Corrupt
            | Inr [] \<Rightarrow> judged Corrupt
            | Inr es \<Rightarrow> verify_entries H fs dir es \<lparr>vd_state = Staged, vd_files = length es, vd_bytes = 0\<rparr>))"

definition VerifyStaged :: "(string \<Rightarrow> string) \<Rightarrow> fs \<Rightarrow> string \<Rightarrow> string \<Rightarrow> string \<Rightarrow> string \<Rightarrow> verdict" where
  "VerifyStaged H fs modelsDir layout m sha =
     (case ModelDir modelsDir layout m of
        Inl _ \<Rightarrow> judged Corrupt
      | Inr dir \<Rightarrow>
          if fs dir = Missing then judged Absent
          else (case fs (Join [dir, ManifestName]) of
                  Missing \<Rightarrow> judged Absent
                | Regular body \<Rightarrow> verify_manifest H fs dir sha body
                | _ \<Rightarrow> judged Corrupt))"

definition SingleFileName :: "fs \<Rightarrow> string \<Rightarrow> string \<Rightarrow> stage_err + string" where
  "SingleFileName fs modelsDir m =
     sbind (ModelDir modelsDir ''single-file'' m) (\<lambda>dir.
     case fs (Join [dir, ManifestName]) of
       Regular body \<Rightarrow>
         sbind (ParseManifest body) (\<lambda>es.
         if length es \<noteq> 1 then Inl (ManyFiles (length es))
         else if contains_any (en_path (hd es)) [CHR '' '', CHR 0x09, CHR 0x0A] then Inl (SpacedName (en_path (hd es)))
         else Inr (en_path (hd es)))
     | _ \<Rightarrow> Inl (Unread ManifestName))"

text \<open>
  \<open>WriteManifest\<close> on the entries of a directory that can be read, each with its kind as \<open>os.ReadDir\<close> gives
  it: the lines of its files in the order of their names, its directories and the manifest itself left out.
  A symbolic link to a directory is not a directory there and cannot be read, so it is \<open>Unreadable\<close>.
\<close>

definition manifest_names :: "(string \<times> node) list \<Rightarrow> string list" where
  "manifest_names d = sort (map fst (filter (\<lambda>(n, e). e \<noteq> Directory \<and> n \<noteq> ManifestName) d))"

definition manifest_line :: "string \<Rightarrow> string \<Rightarrow> string" where
  "manifest_line sha name = sha @ ''  '' @ name @ [CHR 0x0A]"

definition file_bytes :: "(string \<times> node) list \<Rightarrow> string \<Rightarrow> string" where
  "file_bytes d n = (case map_of d n of Some (Regular b) \<Rightarrow> b | _ \<Rightarrow> [])"

definition manifest_body :: "(string \<Rightarrow> string) \<Rightarrow> (string \<times> node) list \<Rightarrow> string" where
  "manifest_body H d = concat (map (\<lambda>n. manifest_line (H (file_bytes d n)) n) (manifest_names d))"

definition WriteManifest :: "(string \<Rightarrow> string) \<Rightarrow> (string \<times> node) list \<Rightarrow> stage_err + string \<times> nat \<times> nat \<times> string" where
  "WriteManifest H d =
     (let names = manifest_names d; body = manifest_body H d in
      if names = [] then Inl (Unread [])
      else if list_ex (\<lambda>n. map_of d n \<in> {Some Unreadable, Some Missing}) names then Inl (Unread [])
      else Inr (H body, length names, sum_list (map (\<lambda>n. length (file_bytes d n)) names), body))"

section \<open>Elements of paths\<close>

definition plain_elem :: "string \<Rightarrow> bool" where
  "plain_elem e \<longleftrightarrow> e \<noteq> [] \<and> e \<noteq> ''.'' \<and> e \<noteq> ''..'' \<and> slash \<notin> set e"

lemma plain_elemI: "slash \<notin> set e \<Longrightarrow> e \<noteq> [] \<Longrightarrow> e \<noteq> ''.'' \<Longrightarrow> e \<noteq> ''..'' \<Longrightarrow> plain_elem e"
  by (simp add: plain_elem_def)

lemma not_plain_dots [simp]: "\<not> plain_elem ''..''"
  by (simp add: plain_elem_def)

lemma split_on_none: "c \<notin> set s \<Longrightarrow> split_on c s = [s]"
  by (induction s) auto

lemma split_on_sep: "split_on c (s @ c # t) = split_on c s @ split_on c t"
proof (induction s)
  case (Cons x s)
  have "split_on c s \<noteq> []" by (cases s) (auto split: list.splits)
  then obtain y ys where "split_on c s = y # ys" by (cases "split_on c s") auto
  with Cons show ?case by simp
qed simp

lemma split_on_free: "\<forall>e \<in> set (split_on c s). c \<notin> set e"
  by (induction s) (auto split: list.splits)

lemma split_on_join:
  "es \<noteq> [] \<Longrightarrow> \<forall>e \<in> set es. c \<notin> set e \<Longrightarrow> split_on c (join [c] es) = es"
proof (induction "[c]" es rule: join.induct)
  case (3 x y ys)
  have "split_on c (join [c] (x # y # ys)) = split_on c x @ split_on c (join [c] (y # ys))"
    by (simp add: split_on_sep)
  with 3 show ?case by (simp add: split_on_none)
qed (simp_all add: split_on_none)

lemma clean_plain_elems: "list_all plain_elem es \<Longrightarrow> foldl (clean_step r) out es = rev es @ out"
  by (induction es arbitrary: out) (auto simp: plain_elem_def)

lemma elems_path_of: "list_all plain_elem es \<Longrightarrow> elems (path_of True es) = es"
proof (cases "es = []")
  case True
  then show ?thesis by (simp add: path_of_def elems_def rooted_def slash_def)
next
  case False
  assume es: "list_all plain_elem es"
  have "split_on slash (join [slash] es) = es"
    using es False by (intro split_on_join) (auto simp: list_all_iff plain_elem_def)
  then have "foldl (clean_step True) [] (split_on slash (slash # join [slash] es)) = rev es"
    using clean_plain_elems [OF es, of True "[]"] by simp
  with False show ?thesis by (simp add: path_of_def elems_def rooted_def)
qed

lemma clean_keeps_plain:
  "list_all plain_elem out \<Longrightarrow> \<forall>e \<in> set es. slash \<notin> set e \<Longrightarrow> list_all plain_elem (foldl (clean_step True) out es)"
proof (induction es arbitrary: out)
  case (Cons e es)
  have "list_all plain_elem (clean_step True out e)"
    using Cons.prems by (cases out) (auto intro: plain_elemI)
  with Cons show ?case by simp
qed simp

lemma elems_plain: "rooted p \<Longrightarrow> list_all plain_elem (elems p)"
  using clean_keeps_plain [of "[]" "split_on slash p"] split_on_free [of slash p] by (simp add: elems_def)

lemma rooted_path_of [simp]: "rooted (path_of True es)"
  by (simp add: rooted_def path_of_def slash_def)

lemma rooted_Clean [simp]: "rooted p \<Longrightarrow> rooted (Clean p)"
  by (simp add: Clean_def)

lemma elems_Clean [simp]: "rooted p \<Longrightarrow> elems (Clean p) = elems p"
  by (simp add: Clean_def elems_path_of elems_plain)

lemma Join_two:
  assumes "rooted dir"
  shows "Join [dir, p] = Clean (dir @ slash # p)" "rooted (Join [dir, p])"
    "elems (Join [dir, p]) = rev (foldl (clean_step True) (rev (elems dir)) (split_on slash p))"
proof -
  from assms have d: "dir \<noteq> []" "rooted (dir @ slash # p)" by (cases dir; simp add: rooted_def)+
  then show j: "Join [dir, p] = Clean (dir @ slash # p)" by (simp add: Join_def)
  show "rooted (Join [dir, p])" by (simp add: j d)
  show "elems (Join [dir, p]) = rev (foldl (clean_step True) (rev (elems dir)) (split_on slash p))"
    unfolding j elems_Clean [OF d(2)] using assms d(2) by (simp add: elems_def split_on_sep)
qed

lemma elems_Join_plain: "rooted dir \<Longrightarrow> plain_elem n \<Longrightarrow> elems (Join [dir, n]) = elems dir @ [n]"
  using clean_plain_elems [of "[n]" True "rev (elems dir)"] by (simp add: Join_two(3) split_on_none plain_elem_def)

lemma after_common_prefix:
  "after_common as bs = (as', bs') \<Longrightarrow> \<exists>c. as = c @ as' \<and> bs = c @ bs' \<and> (as' = [] \<or> bs' = [] \<or> hd as' \<noteq> hd bs')"
proof (induction as bs arbitrary: as' bs' rule: after_common.induct)
  case (1 a as b bs)
  show ?case
  proof (cases "a = b")
    case True
    with 1 obtain c where "as = c @ as'" "bs = c @ bs'" "as' = [] \<or> bs' = [] \<or> hd as' \<noteq> hd bs'" by auto
    with True show ?thesis by (intro exI [of _ "a # c"]) simp
  qed (use 1 in auto)
qed auto

lemma within_iff:
  assumes "rooted dir" "rooted p"
  shows "within dir p \<longleftrightarrow> prefix (elems dir) (elems p)"
proof -
  obtain as bs where ab: "after_common (elems dir) (elems p) = (as, bs)" by fastforce
  from after_common_prefix [OF ab] obtain c where c: "elems dir = c @ as" "elems p = c @ bs"
    "as = [] \<or> bs = [] \<or> hd as \<noteq> hd bs" by blast
  have pl: "list_all plain_elem as" "list_all plain_elem bs"
    using elems_plain [OF assms(1)] elems_plain [OF assms(2)] c(1,2) by simp_all
  have r: "Rel dir (Clean p) = Some (replicate (length as) ''..'' @ bs)"
    using assms ab pl(1) by (cases as) (auto simp: Rel_def plain_elem_def)
  show ?thesis
  proof (cases as)
    case Nil
    moreover have "take 1 bs \<noteq> [''..'']" using pl(2) by (cases bs) (auto simp: plain_elem_def)
    ultimately show ?thesis using r c by (simp add: within_def)
  next
    case (Cons a as')
    then have "\<not> prefix (elems dir) (elems p)" using c by (cases bs) auto
    with Cons r show ?thesis by (simp add: within_def)
  qed
qed

section \<open>What verification reads\<close>

lemma rooted_Join: "rooted p \<Longrightarrow> rooted (Join (p # ps))"
proof -
  assume r: "rooted p"
  then have "p \<noteq> []" by (cases p) (auto simp: rooted_def)
  moreover have "rooted (join [slash] (p # ps))" using r \<open>p \<noteq> []\<close> by (cases ps; cases p) (auto simp: rooted_def)
  ultimately show ?thesis by (simp add: Join_def)
qed

lemma ModelDir_rooted: "rooted modelsDir \<Longrightarrow> ModelDir modelsDir layout m = Inr dir \<Longrightarrow> rooted dir"
  by (auto simp: ModelDir_def rooted_Join split: if_splits)

lemma plain_manifest [simp]: "plain_elem ManifestName"
  by (simp add: plain_elem_def ManifestName_def slash_def)

definition below :: "string \<Rightarrow> string \<Rightarrow> bool" where
  "below dir p \<longleftrightarrow> rooted p \<and> prefix (elems dir) (elems p)"

lemma verify_entries_agree:
  assumes "rooted dir" "\<And>p. below dir p \<Longrightarrow> fs p = fs' p"
  shows "verify_entries H fs dir es v = verify_entries H fs' dir es v"
proof (induction es arbitrary: v)
  case (Cons e es)
  show ?case
  proof (cases "within dir (Join [dir, en_path e])")
    case True
    then have "below dir (Join [dir, en_path e])" using assms(1) by (simp add: below_def Join_two(2) within_iff)
    then show ?thesis using Cons assms(2) by (simp add: Let_def split: node.splits)
  qed (simp add: Let_def)
qed simp

text \<open>
  C30: The verdict depends on nothing outside the model's own directory, whatever the manifest names: two hosts
  that agree on the paths below it reach the same verdict, so an entry that climbs out of the directory is
  never read.
\<close>

theorem verification_reads_only_below_the_model:
  assumes "rooted modelsDir" "ModelDir modelsDir layout m = Inr dir"
    and "\<forall>p. below dir p \<longrightarrow> fs p = fs' p"
  shows "VerifyStaged H fs modelsDir layout m sha = VerifyStaged H fs' modelsDir layout m sha"
proof -
  have r: "rooted dir" using assms ModelDir_rooted by blast
  have "fs dir = fs' dir" using assms(3) r by (simp add: below_def)
  moreover have "fs (Join [dir, ManifestName]) = fs' (Join [dir, ManifestName])"
    using assms(3) r by (simp add: below_def Join_two(2) elems_Join_plain)
  moreover have "verify_entries H fs dir = verify_entries H fs' dir"
    using verify_entries_agree [OF r, of fs fs' H] assms(3) by blast
  then have "verify_manifest H fs dir sha = verify_manifest H fs' dir sha"
    by (intro ext) (simp only: verify_manifest_def)
  ultimately show ?thesis by (simp add: VerifyStaged_def assms(2) split: node.splits)
qed

definition demo_fs :: "string \<Rightarrow> fs" where
  "demo_fs secret p =
     (if p = ''/m/a'' then Directory
      else if p = ''/m/a/nodary-manifest.sha256'' then Regular (replicate 64 (CHR ''0'') @ ''  ../../etc/shadow'')
      else if p = ''/etc/shadow'' then Regular secret else Missing)"

theorem verification_reads_only_below_the_model_witness:
  "VerifyStaged (\<lambda>_. replicate 64 (CHR ''0'')) (demo_fs ''x'') ''/m'' ''single-file'' ''a'' [] =
   VerifyStaged (\<lambda>_. replicate 64 (CHR ''0'')) (demo_fs ''y'') ''/m'' ''single-file'' ''a'' []"
proof -
  have "rooted ''/m''" "ModelDir ''/m'' ''single-file'' ''a'' = Inr ''/m/a''" by code_simp+
  moreover have "\<not> below ''/m/a'' ''/etc/shadow''" unfolding below_def by code_simp
  then have "\<forall>p. below ''/m/a'' p \<longrightarrow> demo_fs ''x'' p = demo_fs ''y'' p" by (auto simp: demo_fs_def)
  ultimately show ?thesis by (rule verification_reads_only_below_the_model)
qed

lemma verify_entries_staged:
  "verify_entries H fs dir es v = w \<Longrightarrow> vd_state w = Staged \<Longrightarrow> vd_state v = Staged \<Longrightarrow>
   (\<forall>e \<in> set es. within dir (Join [dir, en_path e]) \<and> (\<exists>b. fs (Join [dir, en_path e]) = Regular b \<and> H b = en_sha e)) \<and>
   vd_files w = vd_files v"
proof (induction es arbitrary: v)
  case (Cons e es)
  then have wi: "within dir (Join [dir, en_path e])" by (auto simp: judged_def Let_def split: if_splits)
  with Cons.prems obtain b where b: "fs (Join [dir, en_path e]) = Regular b" "H b = en_sha e"
    by (auto simp: judged_def Let_def split: if_splits node.splits)
  have "verify_entries H fs dir es (v\<lparr>vd_bytes := vd_bytes v + length b\<rparr>) = w"
    using Cons.prems(1) wi b by (simp add: Let_def)
  from Cons.IH [OF this Cons.prems(2)] Cons.prems(3) wi b show ?case by auto
qed simp

text \<open>
  A model is reported as staged only when the manifest is the one the catalog pins and every file it lists is
  a file below the model's directory whose contents have the listed digest.
\<close>

theorem staged_means_verified:
  assumes "rooted modelsDir" "vd_state (VerifyStaged H fs modelsDir layout m sha) = Staged"
  shows "\<exists>dir body es. ModelDir modelsDir layout m = Inr dir \<and> fs (Join [dir, ManifestName]) = Regular body \<and>
    (sha \<noteq> [] \<longrightarrow> H body = sha) \<and> ParseManifest body = Inr es \<and> es \<noteq> [] \<and>
    vd_files (VerifyStaged H fs modelsDir layout m sha) = length es \<and>
    (\<forall>e \<in> set es. below dir (Join [dir, en_path e]) \<and> (\<exists>b. fs (Join [dir, en_path e]) = Regular b \<and> H b = en_sha e))"
proof -
  from assms(2) obtain dir where d: "ModelDir modelsDir layout m = Inr dir"
    by (auto simp: VerifyStaged_def judged_def split: sum.splits)
  with assms(2) obtain body where b: "fs (Join [dir, ManifestName]) = Regular body"
    and v: "VerifyStaged H fs modelsDir layout m sha = verify_manifest H fs dir sha body"
    by (auto simp: VerifyStaged_def judged_def split: if_splits node.splits)
  from assms(2) have s: "sha \<noteq> [] \<longrightarrow> H body = sha"
    unfolding v by (auto simp: verify_manifest_def judged_def split: if_splits)
  with assms(2) obtain es where es: "ParseManifest body = Inr es" "es \<noteq> []"
    and w: "verify_manifest H fs dir sha body = verify_entries H fs dir es \<lparr>vd_state = Staged, vd_files = length es, vd_bytes = 0\<rparr>"
    unfolding v by (auto simp: verify_manifest_def judged_def split: if_splits sum.splits list.splits)
  have r: "rooted dir" using assms(1) d by (rule ModelDir_rooted)
  from verify_entries_staged [OF w [symmetric]] assms(2) v
  have "\<forall>e \<in> set es. within dir (Join [dir, en_path e]) \<and> (\<exists>b. fs (Join [dir, en_path e]) = Regular b \<and> H b = en_sha e)"
    "vd_files (verify_manifest H fs dir sha body) = length es" by simp_all
  with d b s es v r show ?thesis by (auto simp: below_def within_iff Join_two(2))
qed

section \<open>What is written verifies\<close>

text \<open>
  A name the line format can carry: one element of a path, without a line end, not beginning with the mark
  of binary mode, without white space around it, and not longer than the scanner's buffer.
\<close>

definition carried :: "string \<Rightarrow> bool" where
  "carried n \<longleftrightarrow> plain_elem n \<and> trim_space n = n \<and> CHR 0x0A \<notin> set n \<and> \<not> has_prefix n ''*'' \<and> length n + 66 < max_line"

definition hex_digest :: "(string \<Rightarrow> string) \<Rightarrow> bool" where
  "hex_digest H \<longleftrightarrow> (\<forall>b. length (H b) = 64 \<and> list_all lower_hex (H b))"

lemma lower_hex_not: "lower_hex c \<Longrightarrow> c \<noteq> CHR '' '' \<and> c \<noteq> CHR ''#'' \<and> c \<noteq> CHR 0x0A \<and> \<not> is_space c \<and> lower_char c = c"
  by (auto simp: lower_hex_def is_digit_def is_space_def lower_char_def)

lemma trim_space_last:
  assumes "trim_space n = n" "n \<noteq> []" shows "\<not> is_space (hd n)" "\<not> is_space (last n)"
proof -
  define a where "a = dropWhile is_space n"
  have n: "n = rev (dropWhile is_space (rev a))" using assms(1) by (simp add: trim_space_def a_def)
  then have "length n \<le> length a" by (metis length_dropWhile_le length_rev)
  moreover have t: "takeWhile is_space n @ a = n" by (simp add: a_def)
  then have "length (takeWhile is_space n) + length a = length n" by (metis length_append)
  ultimately have "length (takeWhile is_space n) = 0" by linarith
  then have "takeWhile is_space n = []" by (simp only: length_0_conv)
  with t have "a = n" by (simp only: append_Nil)
  then show "\<not> is_space (hd n)" using assms(2) unfolding a_def by (metis dropWhile_eq_self_iff)
  have "rev n = dropWhile is_space (rev n)" using n \<open>a = n\<close> by (metis rev_rev_ident)
  then show "\<not> is_space (last n)" using assms(2) by (metis dropWhile_eq_self_iff hd_rev rev_is_Nil_conv)
qed

lemma trim_space_id: "s \<noteq> [] \<Longrightarrow> \<not> is_space (hd s) \<Longrightarrow> \<not> is_space (last s) \<Longrightarrow> trim_space s = s"
  by (simp add: trim_space_def dropWhile_eq_self_iff [THEN iffD2] hd_rev)

lemma parse_manifest_line:
  assumes "hex_digest H" "carried n"
  shows "parse_line k (H b @ ''  '' @ n) = Inr (Some \<lparr>en_sha = H b, en_path = n\<rparr>)"
proof -
  define h where "h = H b"
  have h: "length h = 64" "list_all lower_hex h" using assms(1) by (simp_all add: hex_digest_def h_def)
  then obtain c cs where c: "h = c # cs" by (cases h) auto
  have nn: "n \<noteq> []" "trim_space n = n" "\<not> has_prefix n ''*''" using assms(2) by (auto simp: carried_def plain_elem_def)
  have lh: "\<forall>x \<in> set h. x \<noteq> CHR '' '' \<and> lower_char x = x" using h(2) lower_hex_not by (auto simp: list_all_iff)
  define s where "s = h @ ''  '' @ n"
  have "\<not> is_space (hd s)" using h(2) c lower_hex_not by (simp add: s_def)
  moreover have "\<not> is_space (last s)" using trim_space_last(2) [OF nn(2,1)] nn(1) by (simp add: s_def)
  ultimately have tr: "trim_space s = s" by (intro trim_space_id) (auto simp: s_def)
  have tk: "takeWhile (\<lambda>c. c \<noteq> CHR '' '') s = h" using lh by (simp add: s_def takeWhile_append2)
  have low: "to_lower h = h" using lh by (simp add: to_lower_def map_idI)
  have ne: "s \<noteq> []" "\<not> has_prefix s ''#''" using c h(2) lower_hex_not by (auto simp: s_def has_prefix_def)
  have dr: "drop (length h) s = ''  '' @ n" by (simp add: s_def)
  have "trim_space ('' '' @ n) = n" using nn(2) by (simp add: trim_space_def is_space_def)
  then have p: "trim_prefix (trim_space (drop 1 (''  '' @ n))) ''*'' = n" using nn(3) by (simp add: trim_prefix_def)
  show ?thesis
    unfolding parse_line_def Let_def h_def [symmetric] s_def [symmetric] tr tk dr low
    using ne h nn(1) p by simp
qed

lemma parse_manifest_lines:
  assumes "hex_digest H" "\<forall>n \<in> set ns. carried n" "distinct (map en_path es @ ns)"
  shows "parse_lines k (map (\<lambda>n. H (f n) @ ''  '' @ n) ns @ [[]]) es =
    Inr (es @ map (\<lambda>n. \<lparr>en_sha = H (f n), en_path = n\<rparr>) ns)"
  using assms(2,3)
proof (induction ns arbitrary: k es)
  case Nil
  have "parse_line k [] = Inr None" by (simp add: parse_line_def)
  then show ?case by (simp add: max_line_def)
next
  case (Cons n ns)
  have "length (H (f n) @ ''  '' @ n) < max_line" using Cons.prems(1) assms(1) by (simp add: carried_def hex_digest_def)
  moreover have "n \<notin> set (map en_path es)" using Cons.prems(2) by auto
  moreover have "distinct (map en_path (es @ [\<lparr>en_sha = H (f n), en_path = n\<rparr>]) @ ns)" using Cons.prems(2) by auto
  note IH = Cons.IH [OF _ this, of "Suc k"]
  ultimately show ?case using IH Cons.prems(1) parse_manifest_line [OF assms(1), of n k "f n"] by simp
qed

lemma split_on_lines:
  "\<forall>l \<in> set ls. c \<notin> set l \<Longrightarrow> split_on c (concat (map (\<lambda>l. l @ [c]) ls)) = ls @ [[]]"
  by (induction ls) (simp_all add: split_on_sep split_on_none)

lemma ParseManifest_manifest_body:
  assumes "hex_digest H" "\<forall>n \<in> set (manifest_names d). carried n" "distinct (map fst d)"
  shows "ParseManifest (manifest_body H d) = Inr (map (\<lambda>n. \<lparr>en_sha = H (file_bytes d n), en_path = n\<rparr>) (manifest_names d))"
proof -
  define ls where "ls = map (\<lambda>n. H (file_bytes d n) @ ''  '' @ n) (manifest_names d)"
  have "manifest_body H d = concat (map (\<lambda>l. l @ [CHR 0x0A]) ls)"
    by (simp add: manifest_body_def ls_def manifest_line_def comp_def)
  moreover have "\<forall>l \<in> set ls. CHR 0x0A \<notin> set l"
    using assms(1,2) lower_hex_not by (auto simp: ls_def carried_def hex_digest_def list_all_iff)
  ultimately have "split_on (CHR 0x0A) (manifest_body H d) = ls @ [[]]" using split_on_lines by metis
  moreover have "distinct (manifest_names d)"
    using assms(3) by (auto simp: manifest_names_def distinct_map inj_on_def)
  then have "parse_lines 1 (ls @ [[]]) [] = Inr (map (\<lambda>n. \<lparr>en_sha = H (file_bytes d n), en_path = n\<rparr>) (manifest_names d))"
    using parse_manifest_lines [OF assms(1,2), of "[]" 1 "file_bytes d"] by (simp add: ls_def)
  moreover have "sort_key en_path (map (\<lambda>n. \<lparr>en_sha = H (file_bytes d n), en_path = n\<rparr>) (manifest_names d)) =
      map (\<lambda>n. \<lparr>en_sha = H (file_bytes d n), en_path = n\<rparr>) (manifest_names d)"
    by (rule sort_key_id_if_sorted) (simp add: comp_def manifest_names_def)
  ultimately show ?thesis by (simp add: ParseManifest_def)
qed

lemma verify_entries_all:
  assumes "rooted dir" "\<forall>n \<in> set ns. plain_elem n \<and> fs (Join [dir, n]) = Regular (f n)"
  shows "verify_entries H fs dir (map (\<lambda>n. \<lparr>en_sha = H (f n), en_path = n\<rparr>) ns) v =
    v\<lparr>vd_bytes := vd_bytes v + sum_list (map (\<lambda>n. length (f n)) ns)\<rparr>"
  using assms(2)
proof (induction ns arbitrary: v)
  case (Cons n ns)
  then have "within dir (Join [dir, n])" using assms(1) by (simp add: within_iff Join_two(2) elems_Join_plain)
  with Cons show ?case by (simp add: Let_def add.assoc)
qed simp

text \<open>
  C31: A directory whose manifest was written by \<^verbatim>\<open>model register\<close> and carried to a node unchanged is staged there,
  with the files and the bytes that were counted, when its names are ones the line format carries.
\<close>

theorem written_manifest_verifies:
  assumes "rooted modelsDir" "ModelDir modelsDir layout m = Inr dir" "hex_digest H"
    and "distinct (map fst d)" "\<forall>n \<in> set (manifest_names d). carried n"
    and "WriteManifest H d = Inr (sha, files, size_all, body)"
    and "fs dir = Directory" "fs (Join [dir, ManifestName]) = Regular body"
    and "\<forall>(n, e) \<in> set d. n \<noteq> ManifestName \<longrightarrow> fs (Join [dir, n]) = e"
  shows "VerifyStaged H fs modelsDir layout m sha = \<lparr>vd_state = Staged, vd_files = files, vd_bytes = size_all\<rparr>"
proof -
  define ns where "ns = manifest_names d"
  from assms(6) have w: "ns \<noteq> []" "list_all (\<lambda>n. map_of d n \<noteq> Some Unreadable \<and> map_of d n \<noteq> Some Missing) ns"
    "sha = H body" "files = length ns" "size_all = sum_list (map (\<lambda>n. length (file_bytes d n)) ns)" "body = manifest_body H d"
    by (auto simp: WriteManifest_def Let_def ns_def list_ex_iff list_all_iff split: if_splits)
  have f: "plain_elem n \<and> fs (Join [dir, n]) = Regular (file_bytes d n)" if n: "n \<in> set ns" for n
  proof -
    from n obtain e where e: "(n, e) \<in> set d" "e \<noteq> Directory" "n \<noteq> ManifestName" by (auto simp: ns_def manifest_names_def)
    with assms(4) have m: "map_of d n = Some e" by simp
    with w(2) n have "e \<noteq> Unreadable \<and> e \<noteq> Missing" by (auto simp: list_all_iff)
    with e(2) obtain b where "e = Regular b" by (cases e) auto
    moreover have "plain_elem n" using assms(5) n by (simp add: ns_def carried_def)
    moreover have "fs (Join [dir, n]) = e" using assms(9) e(1,3) by auto
    ultimately show ?thesis using m by (simp add: file_bytes_def)
  qed
  have r: "rooted dir" using assms(1,2) by (rule ModelDir_rooted)
  have es: "ParseManifest body = Inr (map (\<lambda>n. \<lparr>en_sha = H (file_bytes d n), en_path = n\<rparr>) ns)"
    unfolding w(6) ns_def using assms(3,5,4) by (rule ParseManifest_manifest_body)
  obtain n ns' where c: "ns = n # ns'" using w(1) by (cases ns) auto
  have "verify_manifest H fs dir sha body =
      verify_entries H fs dir (map (\<lambda>n. \<lparr>en_sha = H (file_bytes d n), en_path = n\<rparr>) ns)
        \<lparr>vd_state = Staged, vd_files = length ns, vd_bytes = 0\<rparr>"
    unfolding verify_manifest_def es using w(3) by (simp only: c list.map sum.case list.case length_map list.size simp_thms if_False)
  also have "\<dots> = \<lparr>vd_state = Staged, vd_files = files, vd_bytes = size_all\<rparr>"
    using verify_entries_all [OF r, of ns fs "file_bytes d" H] f w(4,5) by simp
  finally show ?thesis by (simp add: VerifyStaged_def assms(2,7,8))
qed

definition carried_dir :: "(string \<times> node) list" where
  "carried_dir = [(''w.gguf'', Regular ''weights''), (''README'', Regular ''x''), (''docs'', Directory)]"

definition toy_digest :: "string \<Rightarrow> string" where
  "toy_digest b = replicate 63 (CHR ''0'') @ (if length b = 7 then ''a'' else ''b'')"

definition carried_fs :: fs where
  "carried_fs p =
     (if p = ''/m/a'' then Directory
      else if p = ''/m/a/nodary-manifest.sha256'' then Regular (manifest_body toy_digest carried_dir)
      else if p = ''/m/a/w.gguf'' then Regular ''weights'' else if p = ''/m/a/README'' then Regular ''x''
      else if p = ''/m/a/docs'' then Directory else Missing)"

theorem written_manifest_verifies_witness:
  "VerifyStaged toy_digest carried_fs ''/m'' ''single-file'' ''a'' (toy_digest (manifest_body toy_digest carried_dir)) =
   \<lparr>vd_state = Staged, vd_files = 2, vd_bytes = 8\<rparr>"
proof -
  have n: "manifest_names carried_dir = [''README'', ''w.gguf'']" by code_simp
  have "rooted ''/m''" "ModelDir ''/m'' ''single-file'' ''a'' = Inr ''/m/a''" by code_simp+
  moreover have "hex_digest toy_digest" by (simp add: hex_digest_def toy_digest_def lower_hex_def is_digit_def list_all_iff)
  moreover have "distinct (map fst carried_dir)" by code_simp
  moreover have "\<forall>n \<in> set (manifest_names carried_dir). carried n"
    unfolding n by (simp add: carried_def max_line_def plain_elem_def slash_def has_prefix_def trim_space_def is_space_def)
  moreover have "WriteManifest toy_digest carried_dir =
      Inr (toy_digest (manifest_body toy_digest carried_dir), 2, 8, manifest_body toy_digest carried_dir)"
    unfolding WriteManifest_def n Let_def by (simp add: carried_dir_def file_bytes_def)
  moreover have "carried_fs ''/m/a'' = Directory" by (simp add: carried_fs_def)
  moreover have "Join [''/m/a'', ManifestName] = ''/m/a/nodary-manifest.sha256''" by code_simp
  then have "carried_fs (Join [''/m/a'', ManifestName]) = Regular (manifest_body toy_digest carried_dir)"
    by (simp add: carried_fs_def)
  moreover have "Join [''/m/a'', ''w.gguf''] = ''/m/a/w.gguf''" "Join [''/m/a'', ''README''] = ''/m/a/README''"
    "Join [''/m/a'', ''docs''] = ''/m/a/docs''" by code_simp+
  then have "\<forall>(n, e) \<in> set carried_dir. n \<noteq> ManifestName \<longrightarrow> carried_fs (Join [''/m/a'', n]) = e"
    by (simp add: carried_dir_def carried_fs_def)
  ultimately show ?thesis by (rule written_manifest_verifies)
qed

end
