(* ===== verification/AgentPlan.thy ===== *)
theory AgentPlan
  imports NodeConfig Staging "HOL-Library.AList"
begin

text \<open>
  \<^verbatim>\<open>internal/agent/plan.go\<close> and the plan's half of \<^verbatim>\<open>prepare.go\<close>: what the agent would do for a desired-state
  document, worked out without doing any of it.
\<close>

section \<open>Data\<close>

datatype reason =
    UnknownBackend string | NoImage | NoPort | NoGPU | NotOffered int | MixedVendors | NoRenderNode int
  | NotInCDI | SubsetOfAll | WrongSilicon string | BadEnv | EnvName string | EnvValue string | NotListed string
  | CorruptWeights | BadParams | BadExtra | NoFileName | ExtraWhitespace string | ArgsRefused backend_err
  | Dropped "string list" | NoArtifactDir | AlreadyClaimed "int list" string | OutsideLimits limit_reason | CardsGone "int list"

text \<open>Rendering a unit ends in a refusal, or in a run-time panic that ends the agent.\<close>

datatype stop = Refuse reason | Panic

record desired_staging =
  ds_model :: string
  ds_source :: string
  ds_layout :: string
  ds_sha :: string
  ds_body :: string

record desired =
  de_rev :: int
  de_node :: string
  de_deployments :: "desired_deployment list"
  de_staging :: "desired_staging list"
  de_reset :: "(string \<times> string) list"
  de_restart :: "string list"
  de_backends :: "(string \<times> string) list"

record unit_probe =
  up_health :: string
  up_ready :: string
  up_timeout :: int

record deployment_unit =
  un_deployment :: string
  un_model :: string
  un_service :: string
  un_env_path :: string
  un_env :: "(string \<times> string) list"
  un_probe :: unit_probe
  un_gpus :: "int list"
  un_port :: int

record stage =
  sg_model :: string
  sg_source :: string
  sg_dir :: string
  sg_state :: stage_state
  sg_file :: string
  sg_bytes :: nat
  sg_total :: nat

datatype build_state = BuildAbsent | Building | Prepared | BuildFailed

record prepared =
  pd_deployment :: string
  pd_model :: string
  pd_key :: string
  pd_dir :: string
  pd_state :: build_state

record prepare_request =
  rq_deployment :: string
  rq_model :: string
  rq_key :: string
  rq_image :: string
  rq_argv :: "string list"
  rq_src :: string
  rq_out :: string
  rq_marker :: string
  rq_progress :: string
  rq_request :: string
  rq_gpus :: string
  rq_timeout :: int

text \<open>
  The two collaborators of a running agent: the downloader (its status for a model, and whether it discarded
  one) and the preparer.  A preview has neither.
\<close>

record downloader =
  dl_status :: "string \<Rightarrow> string \<Rightarrow> string \<Rightarrow> string \<Rightarrow> stage_state \<times> nat \<times> nat"
  dl_reset :: "string \<Rightarrow> string \<Rightarrow> bool"

text \<open>
  \<open>po_disk\<close> is the disk as verification finds it, after the resets; \<open>po_digest\<close> the hexadecimal SHA-256;
  \<open>po_parse\<close> is \<open>backend.Parse\<close> and \<open>po_builtins\<close> the descriptors compiled in.
\<close>

record plan_options =
  po_models_dir :: string
  po_config_dir :: string
  po_present :: "gpu list"
  po_detected :: "gpu list"
  po_node :: node_config
  po_zones :: zones
  po_now :: int
  po_verify :: bool
  po_wsl2 :: bool
  po_cdi :: "string list"
  po_downloads :: "downloader option"
  po_builds :: "(prepare_request \<Rightarrow> prepared) option"
  po_disk :: fs
  po_digest :: "string \<Rightarrow> string"
  po_parse :: "string \<Rightarrow> backend_err + backend"
  po_builtins :: "(string \<times> backend) list"

record plan =
  pl_rev :: int
  pl_node :: string
  pl_units :: "deployment_unit list"
  pl_stage :: "stage list"
  pl_refused :: "(string \<times> reason) list"
  pl_reset_done :: "string list"
  pl_disabled :: "string list"
  pl_out_of_policy :: "(string \<times> reason) list"
  pl_prepare :: "prepared list"
  pl_restart :: "string list"
  pl_failed :: "(string \<times> reason) list"
  pl_maintenance_open :: bool

section \<open>Devices\<close>

definition joinIndices :: "int list \<Rightarrow> string" where
  "joinIndices is = join '','' (map show_int is)"

text \<open>The map from index to GPU that \<open>Build\<close> makes: the last of one index stays.\<close>

definition present_map :: "gpu list \<Rightarrow> int \<rightharpoonup> gpu" where
  "present_map gs = map_of (map (\<lambda>g. (gp_index g, g)) (rev gs))"

definition zero_gpu :: gpu where
  "zero_gpu = \<lparr>gp_index = 0, gp_name = [], gp_memory = 0, gp_vendor = [], gp_render = []\<rparr>"

definition gpu_at :: "gpu list \<Rightarrow> int \<Rightarrow> gpu" where
  "gpu_at gs i = (case present_map gs i of Some g \<Rightarrow> g | None \<Rightarrow> zero_gpu)"

definition cards :: "gpu list \<Rightarrow> nat" where
  "cards gs = length (remdups (map gp_index gs))"

fun device_args :: "gpu list \<Rightarrow> int list \<Rightarrow> reason + string list" where
  "device_args gs [] = Inr []"
| "device_args gs (i # is) =
     (if gp_render (gpu_at gs i) = [] then Inl (NoRenderNode i)
      else sbind (device_args gs is) (\<lambda>r. Inr ([''--device'', gp_render (gpu_at gs i)] @ r)))"

text \<open>The device of a CDI name, what follows its last equals sign.\<close>

definition cdi_device :: "string \<Rightarrow> string option" where
  "cdi_device s =
     (if CHR ''='' \<in> set s then Some (rev (takeWhile (\<lambda>c. c \<noteq> CHR ''='') (rev s))) else None)"

definition gpuFlag :: "int list \<Rightarrow> gpu list \<Rightarrow> string list \<Rightarrow> reason + string" where
  "gpuFlag assigned gs cdi =
     (let vendors = remdups (map (\<lambda>i. VendorName (gpu_at gs i)) assigned) in
      if 1 < length vendors then Inl MixedVendors
      else if VendorNVIDIA \<notin> set vendors then sbind (device_args gs assigned) (\<lambda>as. Inr (join '' '' as))
      else
        (let indexed = ''--gpus device='' @ joinIndices assigned; devices = List.map_filter cdi_device cdi in
         if cdi = [] then Inr indexed
         else if list_all (\<lambda>i. show_int i \<in> set devices) assigned then Inr indexed
         else if ''all'' \<notin> set devices then Inl NotInCDI
         else if length assigned \<noteq> cards gs then Inl SubsetOfAll
         else Inr ''--gpus all''))"

section \<open>JSON fields\<close>

text \<open>
  \<open>json.Unmarshal\<close> into a \<open>map[string]any\<close>: an error, or the map, which \<open>null\<close> leaves nil.
\<close>

definition json_map :: "(string \<times> ir) list \<Rightarrow> (string \<times> ir) list" where
  "json_map ms = map (\<lambda>k. (k, case last_member ms k of Some v \<Rightarrow> v | None \<Rightarrow> INull)) (remdups (map fst ms))"

definition decode_params :: "string \<Rightarrow> params option option" where
  "decode_params raw =
     (if raw = [] then Some (Some [])
      else (case unmarshal raw of
              None \<Rightarrow> None
            | Some v \<Rightarrow>
                (case v of
                   INull \<Rightarrow> Some None
                 | IObj ms \<Rightarrow> if numbers_fit v then Some (Some (map (\<lambda>(k, x). (k, any_of x)) (json_map ms))) else None
                 | _ \<Rightarrow> None)))"

definition decode_extra :: "string \<Rightarrow> string list option" where
  "decode_extra raw =
     (if raw = [] then Some []
      else map_option slice_values (unmarshal_into (dec_slice dec_string []) raw ([], 0)))"

definition text_member :: "ir \<Rightarrow> string option" where
  "text_member v = (case v of IStr s \<Rightarrow> Some s | INull \<Rightarrow> Some [] | _ \<Rightarrow> None)"

definition decode_env :: "string \<Rightarrow> (string \<times> string) list option" where
  "decode_env raw =
     (if raw = [] then Some []
      else (case unmarshal raw of
              Some INull \<Rightarrow> Some []
            | Some (IObj ms) \<Rightarrow>
                if list_all (\<lambda>(k, v). text_member v \<noteq> None) ms
                then Some (map (\<lambda>(k, v). (k, case text_member v of Some s \<Rightarrow> s | None \<Rightarrow> [])) (json_map ms)) else None
            | _ \<Rightarrow> None))"

definition blank :: string where "blank = [CHR '' '', CHR 0x09, CHR 0x0A]"

definition wslOnly :: "(string \<times> string) list \<Rightarrow> bool \<Rightarrow> (string \<times> string) list" where
  "wslOnly m wsl2 = (if wsl2 then m else [])"

fun env_pairs :: "(string \<times> string) list \<Rightarrow> reason + string list" where
  "env_pairs [] = Inr []"
| "env_pairs ((k, v) # kvs) =
     (if k = [] \<or> contains_any k (blank @ ''='') then Inl (EnvName k)
      else if contains_any v blank then Inl (EnvValue k)
      else sbind (env_pairs kvs) (\<lambda>r. Inr ([''-e'', k @ ''='' @ v] @ r)))"

text \<open>The deployment's own variables are looked up first, then those of the host, then the descriptor's.\<close>

definition envFlags :: "backend \<Rightarrow> bool \<Rightarrow> string \<Rightarrow> reason + string" where
  "envFlags b wsl2 raw =
     (case decode_env raw of
        None \<Rightarrow> Inl BadEnv
      | Some own \<Rightarrow>
          (let all = own @ wslOnly (bk_env_wsl2 b) wsl2 @ bk_env b;
               names = sort (remdups (map fst all)) in
           sbind (env_pairs (map (\<lambda>k. (k, case map_of all k of Some v \<Rightarrow> v | None \<Rightarrow> [])) names)) (\<lambda>as.
           Inr (join '' '' as))))"

section \<open>The build before serving\<close>

definition prepareKey :: "(string \<Rightarrow> string) \<Rightarrow> string \<Rightarrow> string \<Rightarrow> string \<Rightarrow> build_step \<Rightarrow> string list \<Rightarrow> gpu list \<Rightarrow> string" where
  "prepareKey H m sha backend_name p argv gs =
     (let sized = (\<lambda>s. show_nat (length s) @ '':'' @ s) in
      take 16 (H (concat (map sized ([m, sha, backend_name, pr_image p] @ argv)) @
                  (if pr_gpu_arch p then concat (map sized (sort (remdups (map gp_name gs)))) else []))))"

definition preparedDir :: "string \<Rightarrow> string \<Rightarrow> string" where
  "preparedDir dir key = Join [dir @ ''.prepared'', key]"

text \<open>\<open>jsonInt\<close>: only a number, never a text.\<close>

definition jsonInt :: "json_any \<Rightarrow> int option" where
  "jsonInt v = (case v of AnyNumber f \<Rightarrow> integral f | AnyInt i \<Rightarrow> Some i | _ \<Rightarrow> None)"

definition failed_build :: "prepared \<Rightarrow> prepared" where
  "failed_build p = p\<lparr>pd_state := BuildFailed\<rparr>"

definition PrepareSrcMount :: string where "PrepareSrcMount = ''/nodary/src''"
definition PrepareOutMount :: string where "PrepareOutMount = ''/nodary/out''"

definition build_degree :: "params \<Rightarrow> nat \<Rightarrow> int option" where
  "build_degree p n = (case map_of p ''tensor_parallel'' of None \<Rightarrow> Some (int n) | Some v \<Rightarrow> jsonInt v)"

definition start_build :: "plan_options \<Rightarrow> desired_deployment \<Rightarrow> build_step \<Rightarrow> string list \<Rightarrow> string \<Rightarrow> prepared \<Rightarrow> prepared" where
  "start_build opt d p argv src out =
     (case po_builds opt of
        None \<Rightarrow> out
      | Some status \<Rightarrow>
          (case gpuFlag (dd_gpus d) (po_present opt) (po_cdi opt) of
             Inl _ \<Rightarrow> failed_build out
           | Inr flag \<Rightarrow>
               status \<lparr>rq_deployment = dd_id d, rq_model = dd_model d, rq_key = pd_key out, rq_image = pr_image p,
                       rq_argv = argv, rq_src = src, rq_out = pd_dir out,
                       rq_marker = preparedDir src (pd_key out) @ ''.done.json'',
                       rq_progress = preparedDir src (pd_key out) @ ''.progress.json'',
                       rq_request = preparedDir src (pd_key out) @ ''.request.json'',
                       rq_gpus = flag, rq_timeout = pr_timeout p\<rparr>))"

definition planPrepare :: "plan_options \<Rightarrow> desired_deployment \<Rightarrow> build_step \<Rightarrow> stage option \<Rightarrow> string \<Rightarrow> prepared" where
  "planPrepare opt d p st sha =
     (let out = \<lparr>pd_deployment = dd_id d, pd_model = dd_model d, pd_key = [], pd_dir = [], pd_state = BuildAbsent\<rparr> in
      case decode_params (dd_params d) of
        None \<Rightarrow> failed_build out
      | Some ps \<Rightarrow>
          (case build_degree (case ps of None \<Rightarrow> [] | Some ps \<Rightarrow> ps) (length (dd_gpus d)) of
             None \<Rightarrow> failed_build out
           | Some tp \<Rightarrow>
               (case Argv p PrepareSrcMount PrepareOutMount tp of
                  Inl _ \<Rightarrow> failed_build out
                | Inr argv \<Rightarrow>
                    (let gs = List.map_filter (present_map (po_present opt)) (dd_gpus d);
                         key = prepareKey (po_digest opt) (dd_model d) sha (dd_backend d) p argv gs;
                         src = (case st of None \<Rightarrow> [] | Some s \<Rightarrow> sg_dir s);
                         out = out\<lparr>pd_key := key\<rparr> in
                     if src = [] then failed_build out
                     else (let out = out\<lparr>pd_dir := preparedDir src key\<rparr> in
                           if map_option sg_state st \<noteq> Some Staged then out
                           else start_build opt d p argv src out)))))"

section \<open>Staging\<close>

definition no_stage :: "desired_staging \<Rightarrow> stage_state \<Rightarrow> stage" where
  "no_stage s state = \<lparr>sg_model = ds_model s, sg_source = ds_source s, sg_dir = [], sg_state = state, sg_file = [],
                      sg_bytes = 0, sg_total = 0\<rparr>"

definition stage_verified :: "plan_options \<Rightarrow> desired_staging \<Rightarrow> verdict" where
  "stage_verified opt s =
     VerifyStaged (po_digest opt) (po_disk opt) (po_models_dir opt) (ds_layout s) (ds_model s) (ds_sha s)"

definition stage_of :: "plan_options \<Rightarrow> desired_staging \<Rightarrow> stage" where
  "stage_of opt s =
     (case ModelDir (po_models_dir opt) (ds_layout s) (ds_model s) of
        Inl _ \<Rightarrow> no_stage s Corrupt
      | Inr dir \<Rightarrow>
          (let file = (if ds_layout s = ''single-file''
                       then (case SingleFileName (po_disk opt) (po_models_dir opt) (ds_model s) of Inr f \<Rightarrow> f | Inl _ \<Rightarrow> [])
                       else []);
               st = (no_stage s Absent)\<lparr>sg_dir := dir, sg_file := file\<rparr>; v = stage_verified opt s in
           if \<not> po_verify opt then st\<lparr>sg_state := Unverified\<rparr>
           else if ds_source s = ''local'' then st\<lparr>sg_state := vd_state v, sg_bytes := vd_bytes v\<rparr>
           else (case po_downloads opt of
                   None \<Rightarrow> st
                 | Some dl \<Rightarrow>
                     if vd_state v = Staged
                     then st\<lparr>sg_state := Staged, sg_bytes := vd_bytes v, sg_total := vd_bytes v\<rparr>
                     else (case dl_status dl (ds_model s) (ds_body s) (ds_sha s) dir of
                             (state, got, size_all) \<Rightarrow>
                               st\<lparr>sg_state := state, sg_bytes := got, sg_total := size_all\<rparr>))))"

text \<open>The map from model to stage, and the list of its values in the order of the models.\<close>

definition stages :: "plan_options \<Rightarrow> desired \<Rightarrow> (string \<times> stage) list" where
  "stages opt doc =
     (let all = map (\<lambda>s. (ds_model s, stage_of opt s)) (de_staging doc); m = map_of (rev all) in
      map (\<lambda>k. (k, the (m k))) (sort (remdups (map fst all))))"

definition sha_of :: "desired \<Rightarrow> string \<Rightarrow> string" where
  "sha_of doc m = (case map_of (rev (map (\<lambda>s. (ds_model s, ds_sha s)) (de_staging doc))) m of Some x \<Rightarrow> x | None \<Rightarrow> [])"

section \<open>Descriptors\<close>

text \<open>A registered descriptor is dropped when its name is taken, when it does not parse, or under another name.\<close>

fun merge_backends :: "(string \<Rightarrow> backend_err + backend) \<Rightarrow> (string \<times> backend) list \<Rightarrow> (string \<times> string) list \<Rightarrow>
    (string \<times> backend) list \<Rightarrow> (string \<times> backend) list" where
  "merge_backends parse_d builtins [] ds = ds"
| "merge_backends parse_d builtins ((name, source_text) # bs) ds =
     merge_backends parse_d builtins bs
       (if map_of ds name \<noteq> None then ds
        else (case parse_d source_text of
                Inl _ \<Rightarrow> ds
              | Inr b \<Rightarrow>
                  if bk_name b \<noteq> name then ds
                  else (case Resolve builtins b of Inl _ \<Rightarrow> ds | Inr r \<Rightarrow> (name, r) # ds)))"

definition descriptors :: "plan_options \<Rightarrow> desired \<Rightarrow> (string \<times> backend) list" where
  "descriptors opt doc = merge_backends (po_parse opt) (po_builtins opt) (de_backends doc) (po_builtins opt)"

section \<open>One unit\<close>

definition UnitName :: "string \<Rightarrow> string" where
  "UnitName d = ''nodary-model@'' @ d @ ''.service''"

definition IsolatedNetwork :: string where "IsolatedNetwork = ''nodary-isolated''"

definition without :: "string list \<Rightarrow> string list \<Rightarrow> string list" where
  "without all some = filter (\<lambda>a. a \<notin> set some) all"

text \<open>The path the server is told: the mount, or what the layout puts below it.\<close>

definition container_path :: "backend \<Rightarrow> string \<Rightarrow> string \<Rightarrow> stop + string" where
  "container_path b m file =
     (if bk_layout b = ''hf-cache'' then Inr (Join [bk_mount b, ''hub'', ''models--'' @ flat_id m])
      else if bk_layout b = ''single-file''
      then (if file = [] then Inl (Refuse NoFileName) else Inr (Join [bk_mount b, file]))
      else Inr (bk_mount b))"

text \<open>An assignment to a map that \<open>null\<close> left nil is the panic.\<close>

definition set_param :: "bool \<Rightarrow> string \<Rightarrow> json_any \<Rightarrow> params option \<Rightarrow> stop + params option" where
  "set_param declared k v p =
     (if \<not> declared then Inr p else (case p of None \<Rightarrow> Inl Panic | Some ps \<Rightarrow> Inr (Some (AList.update k v ps))))"

definition refuse :: "(reason + 'a) \<Rightarrow> stop + 'a" where
  "refuse r = (case r of Inl e \<Rightarrow> Inl (Refuse e) | Inr x \<Rightarrow> Inr x)"

definition need :: "bool \<Rightarrow> reason \<Rightarrow> stop + unit" where
  "need ok e = (if ok then Inr () else Inl (Refuse e))"

text \<open>The checks of the assignment, in the order of the code; they yield the device argument.\<close>

definition unit_devices :: "plan_options \<Rightarrow> desired_deployment \<Rightarrow> backend \<Rightarrow> stop + string" where
  "unit_devices opt d b =
     sbind (need (dd_image d \<noteq> []) NoImage) (\<lambda>_.
     sbind (need (0 < dd_port d) NoPort) (\<lambda>_.
     sbind (need (dd_gpus d \<noteq> []) NoGPU) (\<lambda>_.
     case find (\<lambda>i. present_map (po_present opt) i = None) (dd_gpus d) of
       Some i \<Rightarrow> Inl (Refuse (NotOffered i))
     | None \<Rightarrow>
         sbind (refuse (gpuFlag (dd_gpus d) (po_present opt) (po_cdi opt))) (\<lambda>gpus.
         sbind (need (RunsOn b (VendorName (gpu_at (po_present opt) (hd (dd_gpus d))))) (WrongSilicon (dd_backend d))) (\<lambda>_.
         Inr gpus)))))"

text \<open>The command of the image and the arguments, or the parameters that reach neither the server nor a build.\<close>

definition render_args :: "backend \<Rightarrow> string \<Rightarrow> params option \<Rightarrow> string list \<Rightarrow> stop + string list" where
  "render_args b path params extra =
     (case Args b path (case params of None \<Rightarrow> [] | Some ps \<Rightarrow> ps) extra of
        Inl e \<Rightarrow> Inl (Refuse (ArgsRefused e))
      | Inr (args, dropped) \<Rightarrow>
          (let dropped = (case bk_prepare b of None \<Rightarrow> dropped | Some p \<Rightarrow> without dropped (Consumes p)) in
           if dropped \<noteq> [] then Inl (Refuse (Dropped dropped)) else Inr (Fields (bk_command b) @ args)))"

text \<open>The argument vector, from the parameters, the extra arguments and the command of the image.\<close>

definition unit_args :: "desired_deployment \<Rightarrow> backend \<Rightarrow> string \<Rightarrow> stop + string list" where
  "unit_args d b file =
     (case decode_params (dd_params d) of
        None \<Rightarrow> Inl (Refuse BadParams)
      | Some params \<Rightarrow>
          (case decode_extra (dd_extra d) of
             None \<Rightarrow> Inl (Refuse BadExtra)
           | Some extra \<Rightarrow>
               sbind (container_path b (dd_model d) file) (\<lambda>path.
               case find (\<lambda>a. contains_any a blank) extra of
                 Some a \<Rightarrow> Inl (Refuse (ExtraWhitespace a))
               | None \<Rightarrow>
                   sbind (set_param (map_of (bk_args b) ''host'' \<noteq> None) ''host'' (AnyString ''0.0.0.0'') params) (\<lambda>params.
                   sbind (set_param (map_of (bk_args b) ''port'' \<noteq> None) ''port'' (AnyInt (bk_port b)) params) (\<lambda>params.
                   render_args b path params extra)))))"

definition host_mount :: "plan_options \<Rightarrow> prepared option \<Rightarrow> stop + string" where
  "host_mount opt prep =
     (case prep of
        None \<Rightarrow> Inr (po_models_dir opt)
      | Some p \<Rightarrow> if pd_dir p = [] then Inl (Refuse NoArtifactDir) else Inr (pd_dir p))"

definition unitFor :: "plan_options \<Rightarrow> desired_deployment \<Rightarrow> (string \<times> backend) list \<Rightarrow> (string \<times> stage) list \<Rightarrow>
    prepared option \<Rightarrow> stop + deployment_unit" where
  "unitFor opt d ds sgs prep =
     (case map_of ds (dd_backend d) of
        None \<Rightarrow> Inl (Refuse (UnknownBackend (dd_backend d)))
      | Some b \<Rightarrow>
          sbind (unit_devices opt d b) (\<lambda>gpus.
          sbind (refuse (envFlags b (po_wsl2 opt) (dd_env d))) (\<lambda>env.
          case map_of sgs (dd_model d) of
            None \<Rightarrow> Inl (Refuse (NotListed (dd_model d)))
          | Some st \<Rightarrow>
              sbind (need (sg_state st \<noteq> Corrupt) CorruptWeights) (\<lambda>_.
              sbind (unit_args d b (sg_file st)) (\<lambda>args.
              sbind (host_mount opt prep) (\<lambda>mount.
              Inr \<lparr>un_deployment = dd_id d, un_model = dd_model d, un_service = UnitName (dd_id d),
                   un_env_path = Join [po_config_dir opt, ''deployments'', dd_id d @ ''.env''],
                   un_env =
                     [(''NODARY_ARGS'', join '' '' args),
                      (''NODARY_CONTAINER_PORT'', show_int (bk_port b)),
                      (''NODARY_GPUS'', gpus),
                      (''NODARY_ENV'', env),
                      (''NODARY_IMAGE'', dd_image d),
                      (''NODARY_MODELS_DIR'', mount),
                      (''NODARY_MOUNT_PATH'', bk_mount b),
                      (''NODARY_NETWORK'', if dd_network d = [] then IsolatedNetwork else dd_network d),
                      (''NODARY_PORT'', show_int (dd_port d))],
                   un_probe = \<lparr>up_health = pb_health (bk_probe b), up_ready = pb_ready (bk_probe b),
                               up_timeout = pb_timeout (bk_probe b)\<rparr>,
                   un_gpus = dd_gpus d, un_port = dd_port d\<rparr>))))))"

text \<open>\<open>Unit.Image\<close> reads the image back out of the variables.\<close>

definition Image :: "deployment_unit \<Rightarrow> string" where
  "Image u = (case find (\<lambda>(k, v). k = ''NODARY_IMAGE'') (un_env u) of Some (k, v) \<Rightarrow> v | None \<Rightarrow> [])"

definition RenderEnv :: "deployment_unit \<Rightarrow> string" where
  "RenderEnv u =
     ''# Written by nodary. Edits are overwritten on the next reconcile.'' @ [CHR 0x0A] @
     ''# Deployment '' @ un_deployment u @ '' '' @ [CHR 0xE2, CHR 0x80, CHR 0x94] @ '' dev/specs/03-agent.md '' @
     [CHR 0xC2, CHR 0xA7] @ ''6'' @ [CHR 0x0A] @
     concat (map (\<lambda>(k, v). k @ ''='' @ v @ [CHR 0x0A]) (un_env u))"

section \<open>The plan\<close>

type_synonym claims = "(int \<times> string) list"

definition missing :: "gpu list \<Rightarrow> int list \<Rightarrow> int list" where
  "missing detected assigned =
     (if detected = [] then [] else filter (\<lambda>i. i \<notin> set (map gp_index detected)) assigned)"

definition claimedBy :: "claims \<Rightarrow> int list \<Rightarrow> string" where
  "claimedBy claims want =
     (case find (\<lambda>i. map_of claims i \<noteq> None) want of Some i \<Rightarrow> the (map_of claims i) | None \<Rightarrow> [])"

definition overlap :: "claims \<Rightarrow> int list \<Rightarrow> int list" where
  "overlap claims want = filter (\<lambda>i. map_of claims i \<noteq> None) want"

definition prepare_for :: "plan_options \<Rightarrow> desired \<Rightarrow> desired_deployment \<Rightarrow> prepared option" where
  "prepare_for opt doc d =
     (case map_of (descriptors opt doc) (dd_backend d) of
        None \<Rightarrow> None
      | Some b \<Rightarrow>
          map_option (\<lambda>p. planPrepare opt d p (map_of (stages opt doc) (dd_model d)) (sha_of doc (dd_model d))) (bk_prepare b))"

definition refused_with :: "string \<Rightarrow> reason \<Rightarrow> plan \<Rightarrow> plan" where
  "refused_with dep r p = p\<lparr>pl_refused := pl_refused p @ [(dep, r)]\<rparr>"

text \<open>What \<open>Build\<close> does with one deployment; nothing where it panics.\<close>

definition place :: "plan_options \<Rightarrow> desired \<Rightarrow> desired_deployment \<Rightarrow> plan \<times> claims \<Rightarrow> (plan \<times> claims) option" where
  "place opt doc d pc =
     (case pc of (p, claims) \<Rightarrow>
      if dd_state d = ''disabled'' then Some (p\<lparr>pl_disabled := pl_disabled p @ [dd_id d]\<rparr>, claims)
      else if missing (po_detected opt) (dd_gpus d) \<noteq> []
      then Some (p\<lparr>pl_failed := pl_failed p @ [(dd_id d, CardsGone (missing (po_detected opt) (dd_gpus d)))]\<rparr>, claims)
      else (case outsideLimits (po_node opt) d (int (length (pl_units p))) of
              Some r \<Rightarrow> Some (p\<lparr>pl_out_of_policy := pl_out_of_policy p @ [(dd_id d, OutsideLimits r)]\<rparr>, claims)
            | None \<Rightarrow>
                (let prep = prepare_for opt doc d;
                     p = p\<lparr>pl_prepare := pl_prepare p @ (case prep of None \<Rightarrow> [] | Some x \<Rightarrow> [x])\<rparr> in
                 case unitFor opt d (descriptors opt doc) (stages opt doc) prep of
                   Inl Panic \<Rightarrow> None
                 | Inl (Refuse r) \<Rightarrow> Some (refused_with (dd_id d) r p, claims)
                 | Inr u \<Rightarrow>
                     (let holder = claimedBy claims (dd_gpus d) in
                      if holder \<noteq> []
                      then Some (refused_with (dd_id d) (AlreadyClaimed (overlap claims (dd_gpus d)) holder) p, claims)
                      else Some (p\<lparr>pl_units := pl_units p @ [u]\<rparr>,
                                 map (\<lambda>i. (i, dd_id d)) (dd_gpus d) @ claims)))))"

fun place_all :: "plan_options \<Rightarrow> desired \<Rightarrow> desired_deployment list \<Rightarrow> plan \<times> claims \<Rightarrow> (plan \<times> claims) option" where
  "place_all opt doc [] pc = Some pc"
| "place_all opt doc (d # ds) pc = (case place opt doc d pc of None \<Rightarrow> None | Some pc' \<Rightarrow> place_all opt doc ds pc')"

definition reset_done :: "plan_options \<Rightarrow> desired \<Rightarrow> string list" where
  "reset_done opt doc =
     (case po_downloads opt of
        None \<Rightarrow> []
      | Some dl \<Rightarrow>
          if \<not> po_verify opt then []
          else map fst (filter (\<lambda>(m, layout). case ModelDir (po_models_dir opt) layout m of
                                   Inl _ \<Rightarrow> False | Inr dir \<Rightarrow> dl_reset dl m dir) (de_reset doc)))"

definition first_plan :: "plan_options \<Rightarrow> desired \<Rightarrow> plan" where
  "first_plan opt doc =
     \<lparr>pl_rev = de_rev doc, pl_node = de_node doc, pl_units = [], pl_stage = map snd (stages opt doc), pl_refused = [],
      pl_reset_done = reset_done opt doc, pl_disabled = [], pl_out_of_policy = [], pl_prepare = [],
      pl_restart = (if po_downloads opt = None then [] else de_restart doc), pl_failed = [],
      pl_maintenance_open = MaintenanceOpen (po_zones opt) (po_node opt) (po_now opt)\<rparr>"

definition Build :: "desired \<Rightarrow> plan_options \<Rightarrow> plan option" where
  "Build doc opt = map_option fst (place_all opt doc (de_deployments doc) (first_plan opt doc, []))"

end
