(* ===== verification/UnitFile.thy ===== *)
theory UnitFile
  imports AgentPlan
begin

text \<open>
  \<^verbatim>\<open>internal/agent/unit.go\<close>: the text of the unit template, and the variables it refers to.
\<close>

definition unit_lines :: "string \<Rightarrow> string list" where
  "unit_lines configDir =
     [''# Written by nodary. Edits are overwritten; see dev/specs/03-agent.md '' @ [CHR 0xC2, CHR 0xA7] @ ''6.'',
      ''[Unit]'',
      ''Description=nodary model deployment %i'',
      ''After=containerd.service'',
      ''Requires=containerd.service'',
      [],
      ''# dev/specs/11-failure-modes.md '' @ [CHR 0xC2, CHR 0xA7] @ ''2: a crash-looping deployment is '' @ [CHR 0x22] @ ''marked'',
      ''# failed after N restarts in a window'' @ [CHR 0x22] @ ''. systemd implements exactly that, and'',
      ''# the window has to be set explicitly '' @ [CHR 0xE2, CHR 0x80, CHR 0x94] @ '' its default is 10s, which RestartSec'',
      ''# below can never fit five restarts into, so the default limit is unreachable'',
      ''# and a crash-loop restarts forever without anything ever calling it failed.'',
      ''# Five in five minutes: a transient crash costs one and recovers, and a model'',
      ''# server that cannot start burns the budget and stops, visibly.'',
      ''StartLimitIntervalSec=300'',
      ''StartLimitBurst=5'',
      [],
      ''[Service]'',
      ''Type=exec'',
      ''EnvironmentFile='' @ configDir @ ''/deployments/%i.env'',
      ''ExecStartPre=-/usr/local/bin/nerdctl rm -f nodary-%i'',
      ''ExecStart=/usr/local/bin/nerdctl run --rm --name nodary-%i '' @ [CHR 0x5C],
      ''    $NODARY_GPUS '' @ [CHR 0x5C],
      ''    $NODARY_ENV '' @ [CHR 0x5C],
      ''    --network ${NODARY_NETWORK} '' @ [CHR 0x5C],
      ''    -v ${NODARY_MODELS_DIR}:${NODARY_MOUNT_PATH}:ro '' @ [CHR 0x5C],
      ''    -p 127.0.0.1:${NODARY_PORT}:${NODARY_CONTAINER_PORT} '' @ [CHR 0x5C],
      ''    ${NODARY_IMAGE} $NODARY_ARGS'',
      ''ExecStop=/usr/local/bin/nerdctl stop --time 30 nodary-%i'',
      ''Restart=always'',
      ''RestartSec=10s'',
      [],
      ''# Defense in depth only. NOT the egress control.'',
      ''#'',
      ''# The container is parented outside this unit's cgroup '' @ [CHR 0xE2, CHR 0x80, CHR 0x94] @ '' containerd's shim'',
      ''# reparents it '' @ [CHR 0xE2, CHR 0x80, CHR 0x94] @ '' so this filter attaches to the nerdctl client and not to the'',
      ''# model. And a user-session manager is delegated cpu, memory and pids with no'',
      ''# network controller at all, so in a user unit it has nothing to attach to.'',
      ''# Both were measured; see dev/spike-fips-and-manifest.md '' @ [CHR 0xC2, CHR 0xA7] @ ''5.'',
      ''#'',
      ''# The control is the network namespace with no route off-box'',
      ''# (dev/specs/03-agent.md '' @ [CHR 0xC2, CHR 0xA7] @ ''5), asserted by 'nodary node verify-egress'.'',
      ''IPAddressDeny=any'',
      ''IPAddressAllow=localhost'',
      [],
      ''[Install]'',
      ''WantedBy=multi-user.target'']"

definition RenderUnitTemplate :: "string \<Rightarrow> string" where
  "RenderUnitTemplate configDir = concat (map (\<lambda>l. l @ [CHR 0x0A]) (unit_lines configDir))"

text \<open>
  A variable is written \<open>$NAME\<close>, split into words, or \<open>${NAME}\<close>, one argument: the names a text refers to, in
  order.
\<close>

definition name_char :: "char \<Rightarrow> bool" where
  "name_char c \<longleftrightarrow> (CHR ''A'' \<le> c \<and> c \<le> CHR ''Z'') \<or> c = CHR ''_''"

fun template_variables :: "string \<Rightarrow> string list" where
  "template_variables [] = []"
| "template_variables (c # cs) =
     (if c = CHR ''$''
      then takeWhile name_char (case cs of CHR ''{'' # r \<Rightarrow> r | _ \<Rightarrow> cs) # template_variables cs
      else template_variables cs)"

lemma template_variables_plain: "CHR ''$'' \<notin> set s \<Longrightarrow> template_variables (s @ t) = template_variables t"
  by (induction s) auto

lemma template_variables_are:
  assumes "CHR ''$'' \<notin> set configDir"
  shows "template_variables (RenderUnitTemplate configDir) =
    [''NODARY_GPUS'', ''NODARY_ENV'', ''NODARY_NETWORK'', ''NODARY_MODELS_DIR'', ''NODARY_MOUNT_PATH'', ''NODARY_PORT'',
     ''NODARY_CONTAINER_PORT'', ''NODARY_IMAGE'', ''NODARY_ARGS'']"
proof -
  define a where "a = concat (map (\<lambda>l. l @ [CHR 0x0A]) (take 18 (unit_lines []))) @ ''EnvironmentFile=''"
  define b where "b = ''/deployments/%i.env'' @ [CHR 0x0A] @ concat (map (\<lambda>l. l @ [CHR 0x0A]) (drop 19 (unit_lines [])))"
  have "unit_lines configDir = take 18 (unit_lines []) @ [''EnvironmentFile='' @ configDir @ ''/deployments/%i.env''] @ drop 19 (unit_lines [])"
    by (simp add: unit_lines_def)
  then have "RenderUnitTemplate configDir = a @ configDir @ b"
    by (simp only: RenderUnitTemplate_def) (simp add: a_def b_def)
  moreover have "CHR ''$'' \<notin> set a" unfolding a_def by code_simp
  ultimately have "template_variables (RenderUnitTemplate configDir) = template_variables b" using assms by (simp add: template_variables_plain)
  also have "template_variables b = [''NODARY_GPUS'', ''NODARY_ENV'', ''NODARY_NETWORK'', ''NODARY_MODELS_DIR'', ''NODARY_MOUNT_PATH'', ''NODARY_PORT'',
     ''NODARY_CONTAINER_PORT'', ''NODARY_IMAGE'', ''NODARY_ARGS'']" unfolding b_def by code_simp
  finally show ?thesis .
qed

end
