(* ===== verification/Derive.thy ===== *)
theory Derive
  imports Backend
begin

text \<open>
  The recipe of a derive (\<^verbatim>\<open>internal/backend/derive.go\<close>, \<^verbatim>\<open>report.go\<close>) and the rule of
  \<^verbatim>\<open>require_pinned_derives\<close> (\<^verbatim>\<open>pinned.go\<close>).
\<close>

section \<open>The bytes a recipe is hashed as\<close>

definition recipe_bytes :: "derive \<Rightarrow> string" where
  "recipe_bytes d =
     ''from'' @ [CHR 0x0A] @ dv_from d @ [CHR 0x0A] @
     ''index_url'' @ [CHR 0x0A] @ trim_space (dv_index_url d) @ [CHR 0x0A] @
     concat (map (\<lambda>s. ''step'' @ [CHR 0x0A] @ s @ [CHR 0x0A]) (dv_steps d))"

text \<open>\<open>H\<close> stands for the hexadecimal SHA-256 of the bytes.\<close>

definition RecipeSHA256 :: "(string \<Rightarrow> string) \<Rightarrow> derive \<Rightarrow> string" where
  "RecipeSHA256 H d = H (recipe_bytes d)"

record built =
  bt_recipe :: string
  bt_base :: string
  bt_stale :: bool
  bt_why :: string

definition Staleness :: "(string \<Rightarrow> string) \<Rightarrow> built option \<Rightarrow> derive option \<Rightarrow> built option" where
  "Staleness H b d =
     (case (b, d) of
        (Some b, Some d) \<Rightarrow>
          if bt_recipe b = RecipeSHA256 H d then Some b
          else Some (b\<lparr>bt_stale := True,
                       bt_why := if bt_base b \<noteq> dv_from d then ''the base image has moved to '' @ dv_from d
                                 else ''the recipe has changed since this image was built''\<rparr>)
      | _ \<Rightarrow> b)"

section \<open>Pinned steps\<close>

definition checkable :: "(string \<times> string) list" where
  "checkable =
     [(''pip'', ''==''), (''pip3'', ''==''), (''pipx'', ''==''), (''uv'', ''==''),
      (''apt-get'', ''=''), (''apt'', ''=''), (''apk'', ''='')]"

definition unverifiable :: "string list" where
  "unverifiable = [''curl'', ''wget'', ''git'', ''dnf'', ''yum'', ''microdnf'', ''conda'', ''npm'', ''gem'', ''cargo'']"

definition unpinnedFlags :: "string list" where
  "unpinnedFlags = [''-r'', ''--requirement'', ''-c'', ''--constraint'', ''-e'', ''--editable'']"

definition isSubcommand :: "string \<Rightarrow> bool" where
  "isSubcommand arg \<longleftrightarrow> arg \<in> set [''install'', ''add'', ''update'', ''upgrade'', ''reinstall'', ''pip'']"

text \<open>\<open>path.Base\<close>: the last element, without the slashes that end it.\<close>

definition path_base :: "string \<Rightarrow> string" where
  "path_base p =
     (let q = rev (dropWhile (\<lambda>c. c = CHR ''/'') (rev p)) in
      if p = [] then ''.'' else if q = [] then ''/''
      else rev (takeWhile (\<lambda>c. c \<noteq> CHR ''/'') (rev q)))"

fun pinned_args :: "string \<Rightarrow> string list \<Rightarrow> backend_err + unit" where
  "pinned_args marker [] = Inr ()"
| "pinned_args marker (arg # args) =
     (if arg \<in> set unpinnedFlags then Inl (ErrInvalid arg)
      else if has_prefix arg ''-'' then pinned_args marker args
      else if isSubcommand arg \<or> contains_text arg ''/'' then pinned_args marker args
      else if \<not> contains_text arg marker then Inl (ErrInvalid arg)
      else pinned_args marker args)"

text \<open>The installer a step runs, seen through \<^verbatim>\<open>python -m\<close>, and its arguments.\<close>

definition installer :: "string list \<Rightarrow> string \<times> string list" where
  "installer argv =
     (let cmd = path_base (hd argv) in
      if (cmd = ''python'' \<or> cmd = ''python3'') \<and> 2 < length argv \<and> argv ! 1 = ''-m''
      then (path_base (argv ! 2), drop 3 argv) else (cmd, tl argv))"

definition pinnedStep :: "string \<Rightarrow> backend_err + unit" where
  "pinnedStep step =
     (let argv = Fields step in
      if argv = [] then Inr ()
      else (case installer argv of (cmd, args) \<Rightarrow>
        if cmd \<in> set unverifiable then Inl (ErrInvalid cmd)
        else (case map_of checkable cmd of None \<Rightarrow> Inr () | Some marker \<Rightarrow> pinned_args marker args)))"

fun pinned_steps :: "string list \<Rightarrow> backend_err + unit" where
  "pinned_steps [] = Inr ()"
| "pinned_steps (s # ss) = sbind (pinnedStep s) (\<lambda>_. pinned_steps ss)"

definition Pinned :: "derive \<Rightarrow> backend_err + unit" where
  "Pinned d =
     (if trim_space (dv_index_url d) = [] then Inl (ErrInvalid ''derive.index_url is required'')
      else pinned_steps (dv_steps d))"

section \<open>When two recipes hash alike\<close>

definition one_line :: "string \<Rightarrow> bool" where "one_line s \<longleftrightarrow> CHR 0x0A \<notin> set s"

lemma line_cut:
  assumes "one_line a" "one_line b" "a @ CHR 0x0A # r = b @ CHR 0x0A # s"
  shows "a = b \<and> r = s"
  using assms by (induction a arbitrary: b) (auto simp: one_line_def Cons_eq_append_conv)

lemma steps_cut:
  "list_all one_line ss \<Longrightarrow> list_all one_line ts \<Longrightarrow>
   concat (map (\<lambda>s. ''step'' @ [CHR 0x0A] @ s @ [CHR 0x0A]) ss) =
   concat (map (\<lambda>s. ''step'' @ [CHR 0x0A] @ s @ [CHR 0x0A]) ts) \<Longrightarrow> ss = ts"
proof (induction ss arbitrary: ts)
  case Nil
  then show ?case by (cases ts) auto
next
  case (Cons s ss)
  then obtain t ts' where ts: "ts = t # ts'" by (cases ts) auto
  with Cons.prems have "s = t \<and> concat (map (\<lambda>s. ''step'' @ [CHR 0x0A] @ s @ [CHR 0x0A]) ss) =
      concat (map (\<lambda>s. ''step'' @ [CHR 0x0A] @ s @ [CHR 0x0A]) ts')"
    using line_cut [of s t] by simp
  with Cons.IH [of ts'] Cons.prems ts show ?case by simp
qed

lemma recipe_bytes_inject:
  assumes "one_line (dv_from c)" "one_line (trim_space (dv_index_url c))" "list_all one_line (dv_steps c)"
    and "one_line (dv_from d)" "one_line (trim_space (dv_index_url d))" "list_all one_line (dv_steps d)"
    and eq: "recipe_bytes c = recipe_bytes d"
  shows "dv_from c = dv_from d \<and> trim_space (dv_index_url c) = trim_space (dv_index_url d) \<and> dv_steps c = dv_steps d"
proof -
  define S where "S d = concat (map (\<lambda>s. ''step'' @ [CHR 0x0A] @ s @ [CHR 0x0A]) (dv_steps d))" for d :: derive
  have "dv_from c @ CHR 0x0A # ''index_url'' @ [CHR 0x0A] @ trim_space (dv_index_url c) @ [CHR 0x0A] @ S c =
        dv_from d @ CHR 0x0A # ''index_url'' @ [CHR 0x0A] @ trim_space (dv_index_url d) @ [CHR 0x0A] @ S d"
    using eq by (simp add: recipe_bytes_def S_def)
  from line_cut [OF assms(1,4) this] have f: "dv_from c = dv_from d"
    and u: "trim_space (dv_index_url c) @ CHR 0x0A # S c = trim_space (dv_index_url d) @ CHR 0x0A # S d" by simp_all
  from line_cut [OF assms(2,5) u] have i: "trim_space (dv_index_url c) = trim_space (dv_index_url d)"
    and s: "S c = S d" by blast+
  from steps_cut [OF assms(3,6) s [unfolded S_def]] f i show ?thesis by blast
qed

text \<open>A recipe the validation accepts has no line end in its base image or in a step.\<close>

lemma check_steps_one_line: "check_steps ss = Inr () \<Longrightarrow> list_all one_line ss"
proof (induction ss)
  case (Cons s ss)
  then have "\<not> contains_any s shellish" "check_steps ss = Inr ()" by (auto split: if_splits)
  with Cons.IH show ?case by (auto simp: contains_any_def shellish_def one_line_def)
qed simp

lemma digest_pinned_one_line:
  assumes "digest_pinned s" shows "one_line s"
proof -
  define repo where "repo = takeWhile (\<lambda>c. c \<noteq> CHR ''@'') s"
  define rest where "rest = drop (length repo) s"
  have p: "list_all (\<lambda>c. \<not> (c = CHR '' '' \<or> of_char c \<in> {9, 10, 12, 13 :: nat})) repo"
    "has_prefix rest ''@sha256:''" "list_all lower_hex (drop 8 rest)"
    using assms by (simp_all add: digest_pinned_def Let_def repo_def rest_def)
  have "CHR 0x0A \<notin> set repo"
  proof
    assume "CHR 0x0A \<in> set repo"
    from p(1) [unfolded list_all_iff, rule_format, OF this] show False by simp
  qed
  moreover have "CHR 0x0A \<notin> set (drop 8 rest)"
  proof
    assume "CHR 0x0A \<in> set (drop 8 rest)"
    from p(3) [unfolded list_all_iff, rule_format, OF this] show False by (simp add: lower_hex_def is_digit_def)
  qed
  moreover have "take 8 rest = ''@sha256:''" using p(2) by (simp add: has_prefix_def numeral_eq_Suc)
  then have "CHR 0x0A \<notin> set (take 8 rest)" by (simp only:) simp
  moreover have "s = repo @ take 8 rest @ drop 8 rest"
    unfolding rest_def repo_def append_take_drop_id by (metis append_take_drop_id takeWhile_eq_take)
  ultimately show ?thesis unfolding one_line_def by (metis Un_iff set_append)
qed

lemma validate_recipe_one_line:
  assumes "validate_recipe d = Inr ()"
  shows "one_line (dv_from d)" "list_all one_line (dv_steps d)" "dv_steps d \<noteq> []"
  using assms
  by (auto simp: validate_recipe_def sbind_Inr_iff digest_pinned_one_line check_steps_one_line split: if_splits)

section \<open>The properties\<close>

lemma sort_key_fst_perm:
  fixes p q :: "(string \<times> 'a) list"
  assumes "mset p = mset q" "distinct (map fst p)"
  shows "sort_key fst p = sort_key fst q"
  using assms by (intro sort_key_inj_key_eq) (auto simp: distinct_map inj_on_def dest: mset_eq_setD)

text \<open>
  C33: The argument vector of a deployment does not depend on the order in which Go's map yields the parameters,
  and when it is rendered every parameter is accounted for: the model path is the first element, then one
  element for each parameter the descriptor names, in the order of the names, then the extra arguments as
  they were given; the names of all the others are in the second list, so none is lost in silence.
\<close>

theorem argv_accounts_for_every_parameter:
  assumes "distinct (map fst p)" "mset p = mset q"
    and "Args b path p extra = Inr (out, left)"
  shows "Args b path q extra = Inr (out, left) \<and>
    out = render (arg_text b ''model_path'') path #
      map (\<lambda>(n, v). render (the (template b n)) (the (scalar v))) (filter (\<lambda>(n, v). takes b n) (sort_key fst q)) @ extra \<and>
    left = filter (\<lambda>n. \<not> takes b n) (sort (map fst q)) \<and>
    (\<forall>n v. (n, v) \<in> set q \<longrightarrow> takes b n \<longrightarrow> scalar v \<noteq> None)"
proof -
  have s: "sort_key fst p = sort_key fst q" using sort_key_fst_perm [OF assms(2,1)] .
  have m: "map fst (sort_key fst q) = sort (map fst q)"
    by (rule properties_for_sort [symmetric]) simp_all
  have "set p = set q" using assms(2) by (rule mset_eq_setD)
  with Args_Inr [OF assms(3)] have "\<forall>n v. (n, v) \<in> set q \<longrightarrow> takes b n \<longrightarrow> scalar v \<noteq> None" by blast
  moreover have "Args b path q extra = Inr (out, left)" using assms(3) by (simp add: Args_def s)
  ultimately show ?thesis using Args_Inr(1,2) [OF assms(3)] by (simp only: s m)
qed

definition llama_cpp :: backend where
  "llama_cpp =
     \<lparr>bk_name = ''llama-cpp'', bk_api = ''openai'', bk_layout = ''single-file'', bk_mount = ''/models'', bk_port = 8080,
      bk_image = ''ghcr.io/ggml-org/llama.cpp'', bk_command = [], bk_silicon = [''nvidia'', ''amd''],
      bk_capabilities = \<lparr>cp_tensor_parallel = False, cp_expert_parallel = False, cp_quantization = [],
                         cp_lora = False, cp_cpu_offload = True\<rparr>,
      bk_args = [(''model_path'', ''-m {v}''), (''max_context'', ''-c {v}''), (''host'', ''--host {v}'')],
      bk_extra = [(''gpu_layers'', ''-ngl {v}'')], bk_env = [], bk_env_wsl2 = [],
      bk_probe = \<lparr>pb_health = ''/health'', pb_ready = ''/health'', pb_timeout = 1800\<rparr>, bk_metrics = [],
      bk_prepare = None, bk_inherits = [], bk_derive = None\<rparr>"

theorem argv_accounts_for_every_parameter_witness:
  "Args llama_cpp ''/models/m.gguf'' [(''max_context'', AnyString ''4096''), (''dtype'', AnyString ''bf16''), (''gpu_layers'', AnyString ''33'')]
     [''--verbose''] =
   Inr ([''-m /models/m.gguf'', ''-ngl 33'', ''-c 4096'', ''--verbose''], [''dtype''])"
proof -
  have "Args llama_cpp ''/models/m.gguf'' [(''gpu_layers'', AnyString ''33''), (''dtype'', AnyString ''bf16''), (''max_context'', AnyString ''4096'')]
     [''--verbose''] = Inr ([''-m /models/m.gguf'', ''-ngl 33'', ''-c 4096'', ''--verbose''], [''dtype''])"
    by code_simp
  from argv_accounts_for_every_parameter [OF _ _ this] show ?thesis by auto
qed

text \<open>
  A validated derive is its parent in everything but the image: the argument vector, the checks of the
  parameters, the silicon and the descriptor's own checks are the parent's, and the parent's image is not
  there to be started by mistake.
\<close>

theorem derive_varies_only_the_image:
  assumes "Resolve builtins d = Inr r" "validate_descriptor d = Inr ()" "bk_derive d \<noteq> None" "bk_inherits d \<noteq> []"
  shows "\<exists>parent. map_of builtins (bk_inherits d) = Some parent \<and> bk_derive parent = None \<and>
    bk_image r = [] \<and> bk_name r = bk_name d \<and> bk_name r \<noteq> bk_name parent \<and>
    Args r = Args parent \<and> CheckParams r = CheckParams parent \<and> RunsOn r = RunsOn parent \<and>
    bk_layout r = bk_layout parent \<and> bk_mount r = bk_mount parent \<and> bk_port r = bk_port parent \<and>
    bk_env r = bk_env parent \<and> bk_prepare r = bk_prepare parent \<and> bk_probe r = bk_probe parent"
proof -
  from assms(1,4) obtain p where p: "map_of builtins (bk_inherits d) = Some p" "Inherit p d = Inr r"
    by (auto simp: Resolve_def split: option.splits)
  from p(2) have r: "r = p\<lparr>bk_name := bk_name d, bk_inherits := bk_inherits d, bk_derive := bk_derive d, bk_image := []\<rparr>"
    and n: "bk_derive p = None" "bk_name p = bk_inherits d" by (auto simp: Inherit_def split: if_splits)
  from assms(2,3) have "bk_inherits d \<noteq> bk_name d"
    by (auto simp: validate_descriptor_def validateDerive_def split: if_splits option.splits)
  moreover have "args_loop r = args_loop p"
  proof (intro ext)
    fix ps args dropped
    show "args_loop r ps args dropped = args_loop p ps args dropped"
      by (induction ps arbitrary: args dropped) (auto simp: r template_def split: option.splits)
  qed
  then have "Args r = Args p" by (intro ext) (simp add: Args_def arg_text_def r)
  moreover have "bk_capabilities r = bk_capabilities p" by (simp add: r)
  then have "CheckParams r = CheckParams p" by (intro ext) (simp only: CheckParams_def)
  moreover have "RunsOn r = RunsOn p" by (intro ext) (simp add: RunsOn_def r)
  ultimately show ?thesis using p(1) n by (intro exI [of _ p]) (simp add: r)
qed

definition llama_fips :: backend where
  "llama_fips =
     \<lparr>bk_name = ''llama-fips'', bk_api = [], bk_layout = [], bk_mount = [], bk_port = 0, bk_image = [], bk_command = [],
      bk_silicon = [], bk_capabilities = \<lparr>cp_tensor_parallel = False, cp_expert_parallel = False, cp_quantization = [],
                                           cp_lora = False, cp_cpu_offload = False\<rparr>,
      bk_args = [], bk_extra = [], bk_env = [], bk_env_wsl2 = [],
      bk_probe = \<lparr>pb_health = [], pb_ready = [], pb_timeout = 0\<rparr>, bk_metrics = [], bk_prepare = None,
      bk_inherits = ''llama-cpp'',
      bk_derive = Some \<lparr>dv_from = ''repo@sha256:'' @ replicate 64 (CHR ''a''), dv_steps = [''pip install x==1''],
                        dv_index_url = ''https://pypi.example'', dv_timeout = 600\<rparr>\<rparr>"

lemma llama_fips_valid: "validate_descriptor llama_fips = Inr ()"
  by code_simp

theorem derive_varies_only_the_image_witness:
  "\<exists>r. Resolve [(''llama-cpp'', llama_cpp)] llama_fips = Inr r \<and> bk_image r = [] \<and> bk_layout r = ''single-file''"
proof -
  obtain r where r: "Resolve [(''llama-cpp'', llama_cpp)] llama_fips = Inr r"
    by (simp add: Resolve_def Inherit_def llama_fips_def llama_cpp_def)
  have "bk_derive llama_fips \<noteq> None" "bk_inherits llama_fips \<noteq> []" by (simp_all add: llama_fips_def)
  from derive_varies_only_the_image [OF r llama_fips_valid this] r show ?thesis
    by (auto simp: llama_fips_def) (simp add: llama_cpp_def)
qed

text \<open>
  Two validated recipes whose index holds no line end are hashed from the same bytes only when they are the
  same base image, the same steps and the same index.
\<close>

theorem recipe_framing_is_injective:
  assumes "validate_recipe c = Inr ()" "validate_recipe d = Inr ()"
    and "one_line (trim_space (dv_index_url c))" "one_line (trim_space (dv_index_url d))"
    and "recipe_bytes c = recipe_bytes d"
  shows "dv_from c = dv_from d \<and> trim_space (dv_index_url c) = trim_space (dv_index_url d) \<and> dv_steps c = dv_steps d"
  using recipe_bytes_inject assms validate_recipe_one_line by blast

text \<open>
  The validation does not refuse a line end in the index, and then two recipes with different steps are hashed
  from the same bytes, whatever the hash: an image built from one is not seen as stale under the other.
\<close>

definition one_step :: derive where
  "one_step = \<lparr>dv_from = ''repo@sha256:'' @ replicate 64 (CHR ''a''), dv_steps = [''ldconfig''],
              dv_index_url = ''https://i'' @ [CHR 0x0A] @ ''step'' @ [CHR 0x0A] @ ''true'', dv_timeout = 1\<rparr>"

definition two_steps :: derive where
  "two_steps = one_step\<lparr>dv_steps := [''true'', ''ldconfig''], dv_index_url := ''https://i''\<rparr>"

theorem recipe_framing_collides:
  "validate_recipe one_step = Inr () \<and> validate_recipe two_steps = Inr () \<and> dv_steps one_step \<noteq> dv_steps two_steps \<and>
   Staleness H (Some \<lparr>bt_recipe = RecipeSHA256 H one_step, bt_base = dv_from one_step, bt_stale = False, bt_why = []\<rparr>) (Some two_steps) =
     Some \<lparr>bt_recipe = RecipeSHA256 H one_step, bt_base = dv_from one_step, bt_stale = False, bt_why = []\<rparr>"
proof -
  have "recipe_bytes one_step = recipe_bytes two_steps" by code_simp
  then have "RecipeSHA256 H one_step = RecipeSHA256 H two_steps" by (simp add: RecipeSHA256_def)
  moreover have "validate_recipe one_step = Inr ()" by code_simp
  moreover have "validate_recipe two_steps = Inr ()" by code_simp
  ultimately show ?thesis by (simp add: Staleness_def two_steps_def one_step_def)
qed

text \<open>
  A step that installs what a file names is refused when the flag and the file are two words, and passes when
  they are one, although \<^verbatim>\<open>pip\<close> reads the same file.
\<close>

theorem joined_requirement_flag_is_pinned:
  "pinnedStep ''pip install --requirement r.txt'' = Inl (ErrInvalid ''--requirement'') \<and>
   pinnedStep ''pip install --requirement=r.txt'' = Inr ()"
  by code_simp

end
