(* ===== verification/AgentPlanProps.thy ===== *)
theory AgentPlanProps
  imports UnitFile Derive
begin

text \<open>
  What a plan guarantees: one verdict for each deployment, no card in two units, nothing the node does not
  offer, and the two ways in which parameters escape the checks.
\<close>

section \<open>What unitFor guarantees\<close>

lemma refuse_Inr [simp]: "refuse r = Inr x \<longleftrightarrow> r = Inr x"
  by (cases r) (auto simp: refuse_def)

lemma need_Inr [simp]: "need b e = Inr x \<longleftrightarrow> b"
  by (simp add: need_def)

lemma unit_devices_Inr:
  assumes "unit_devices opt d b = Inr gpus"
  shows "dd_image d \<noteq> []" "0 < dd_port d" "dd_gpus d \<noteq> []"
    and "\<forall>i \<in> set (dd_gpus d). present_map (po_present opt) i \<noteq> None"
    and "gpuFlag (dd_gpus d) (po_present opt) (po_cdi opt) = Inr gpus"
    and "RunsOn b (VendorName (gpu_at (po_present opt) (hd (dd_gpus d))))"
  using assms by (auto simp: unit_devices_def sbind_Inr_iff find_None_iff split: option.splits)

lemma unitFor_Inr:
  assumes "unitFor opt d ds sgs prep = Inr u"
  obtains b st args env gpus mount where "map_of ds (dd_backend d) = Some b" "map_of sgs (dd_model d) = Some st"
    "unit_devices opt d b = Inr gpus" "envFlags b (po_wsl2 opt) (dd_env d) = Inr env" "sg_state st \<noteq> Corrupt"
    "unit_args d b (sg_file st) = Inr args" "host_mount opt prep = Inr mount"
    "un_deployment u = dd_id d" "un_gpus u = dd_gpus d" "un_model u = dd_model d" "un_service u = UnitName (dd_id d)"
    "un_env u = [(''NODARY_ARGS'', join '' '' args), (''NODARY_CONTAINER_PORT'', show_int (bk_port b)),
       (''NODARY_GPUS'', gpus), (''NODARY_ENV'', env), (''NODARY_IMAGE'', dd_image d), (''NODARY_MODELS_DIR'', mount),
       (''NODARY_MOUNT_PATH'', bk_mount b),
       (''NODARY_NETWORK'', if dd_network d = [] then IsolatedNetwork else dd_network d), (''NODARY_PORT'', show_int (dd_port d))]"
proof -
  from assms obtain b where b: "map_of ds (dd_backend d) = Some b" by (auto simp: unitFor_def split: option.splits)
  with assms obtain gpus env where g: "unit_devices opt d b = Inr gpus" "envFlags b (po_wsl2 opt) (dd_env d) = Inr env"
    by (auto simp: unitFor_def sbind_Inr_iff)
  with assms b obtain st where st: "map_of sgs (dd_model d) = Some st"
    by (auto simp: unitFor_def sbind_Inr_iff split: option.splits)
  with assms b g obtain args mount where a: "sg_state st \<noteq> Corrupt" "unit_args d b (sg_file st) = Inr args" "host_mount opt prep = Inr mount"
    by (auto simp: unitFor_def sbind_Inr_iff)
  have "un_deployment u = dd_id d" "un_gpus u = dd_gpus d" "un_model u = dd_model d" "un_service u = UnitName (dd_id d)"
    "un_env u = [(''NODARY_ARGS'', join '' '' args), (''NODARY_CONTAINER_PORT'', show_int (bk_port b)),
       (''NODARY_GPUS'', gpus), (''NODARY_ENV'', env), (''NODARY_IMAGE'', dd_image d), (''NODARY_MODELS_DIR'', mount),
       (''NODARY_MOUNT_PATH'', bk_mount b),
       (''NODARY_NETWORK'', if dd_network d = [] then IsolatedNetwork else dd_network d), (''NODARY_PORT'', show_int (dd_port d))]"
    using assms b g st a by (simp_all add: unitFor_def refuse_def need_def) (auto simp: sbind_Inr_iff)
  with b g st a that show ?thesis by blast
qed

section \<open>Plans\<close>

text \<open>
  A unit serves only what the node allows: cards the node offers, all of one vendor the backend runs on and,
  where the machine's own list is known, all on it; the backend, the image and the port.
\<close>

definition unit_ok :: "plan_options \<Rightarrow> desired \<Rightarrow> deployment_unit \<Rightarrow> bool" where
  "unit_ok opt doc u \<longleftrightarrow>
     (\<exists>d b st. d \<in> set (de_deployments doc) \<and> dd_id d = un_deployment u \<and> dd_gpus d = un_gpus u \<and>
        dd_state d \<noteq> ''disabled'' \<and> un_gpus u \<noteq> [] \<and>
        (po_detected opt \<noteq> [] \<longrightarrow> (\<forall>i \<in> set (un_gpus u). \<exists>g \<in> set (po_detected opt). gp_index g = i)) \<and>
        dd_image d \<noteq> [] \<and> 0 < dd_port d \<and>
        (\<forall>bs. nc_backends (po_node opt) = Some bs \<longrightarrow> dd_backend d \<in> set bs) \<and>
        map_of (descriptors opt doc) (dd_backend d) = Some b \<and>
        (\<exists>vendor. RunsOn b vendor \<and>
           (\<forall>i \<in> set (un_gpus u). \<exists>g \<in> set (po_present opt). gp_index g = i \<and> VendorName g = vendor)) \<and>
        map_of (stages opt doc) (un_model u) = Some st \<and> sg_state st \<noteq> Corrupt)"

definition claims_match :: "deployment_unit list \<Rightarrow> claims \<Rightarrow> bool" where
  "claims_match us claims \<longleftrightarrow>
     set (map fst claims) = (\<Union>u \<in> set us. set (un_gpus u)) \<and> (\<forall>(i, h) \<in> set claims. h \<noteq> [])"

definition plan_ok :: "plan_options \<Rightarrow> desired \<Rightarrow> plan \<Rightarrow> bool" where
  "plan_ok opt doc p \<longleftrightarrow>
     (\<forall>u \<in> set (pl_units p). unit_ok opt doc u) \<and>
     pairwise (\<lambda>i j. set (un_gpus (pl_units p ! i)) \<inter> set (un_gpus (pl_units p ! j)) = {}) {..<length (pl_units p)} \<and>
     (\<forall>n. nc_max_deployments (po_node opt) = Some n \<longrightarrow> 0 \<le> n \<longrightarrow> int (length (pl_units p)) \<le> n)"

lemma claimedBy_none:
  assumes "claimedBy claims want = []" "\<forall>(i, h) \<in> set claims. h \<noteq> []"
  shows "set want \<inter> set (map fst claims) = {}"
proof (rule ccontr)
  assume "set want \<inter> set (map fst claims) \<noteq> {}"
  then obtain i where "i \<in> set want" "map_of claims i \<noteq> None" by (auto simp: map_of_eq_None_iff)
  then have "find (\<lambda>i. map_of claims i \<noteq> None) want \<noteq> None" unfolding find_None_iff by blast
  then obtain j where j: "find (\<lambda>i. map_of claims i \<noteq> None) want = Some j" by blast
  then have "map_of claims j \<noteq> None" unfolding find_Some_iff by blast
  then obtain h where h: "map_of claims j = Some h" by blast
  with assms(2) have "h \<noteq> []" by (auto dest: map_of_SomeD)
  moreover have "claimedBy claims want = h" unfolding claimedBy_def j using h by simp
  ultimately show False using assms(1) by simp
qed

lemma claimedBy_Nil [simp]: "claimedBy [] want = []"
proof -
  have "find (\<lambda>i. map_of ([] :: claims) i \<noteq> None) want = None" by (simp add: find_None_iff)
  then show ?thesis unfolding claimedBy_def by simp
qed

lemma pairwise_snoc:
  assumes "pairwise (\<lambda>i j. R (us ! i) (us ! j)) {..<length us}" "\<forall>v \<in> set us. R v u \<and> R u v"
  shows "pairwise (\<lambda>i j. R ((us @ [u]) ! i) ((us @ [u]) ! j)) {..<length (us @ [u])}"
  using assms by (auto simp: pairwise_def nth_append less_Suc_eq)

text \<open>The list that a deployment's verdict is put in, and nothing else of the plan changes for it.\<close>

definition verdicts :: "plan \<Rightarrow> string list" where
  "verdicts p = pl_disabled p @ map fst (pl_failed p) @ map fst (pl_out_of_policy p) @ map fst (pl_refused p) @
                map un_deployment (pl_units p)"

lemma place_cases:
  assumes "place opt doc d (p, claims) = Some (p', claims')"
  shows "(pl_units p' = pl_units p \<and> claims' = claims) \<or>
    (\<exists>u prep. dd_state d \<noteq> ''disabled'' \<and> missing (po_detected opt) (dd_gpus d) = [] \<and>
       outsideLimits (po_node opt) d (int (length (pl_units p))) = None \<and>
       unitFor opt d (descriptors opt doc) (stages opt doc) prep = Inr u \<and> claimedBy claims (dd_gpus d) = [] \<and>
       pl_units p' = pl_units p @ [u] \<and> claims' = map (\<lambda>i. (i, dd_id d)) (dd_gpus d) @ claims)"
  using assms
  by (auto simp: place_def refused_with_def Let_def split: if_splits option.splits sum.splits stop.splits)

lemma place_verdict:
  assumes "place opt doc d (p, claims) = Some (p', claims')"
  shows "mset (verdicts p') = add_mset (dd_id d) (mset (verdicts p))"
proof -
  have "un_deployment u = dd_id d" if "unitFor opt d ds sgs prep = Inr u" for ds sgs prep u
    using that by (elim unitFor_Inr)
  then show ?thesis using assms
    by (auto simp: place_def refused_with_def verdicts_def Let_def split: if_splits option.splits sum.splits stop.splits)
qed

lemma outsideLimits_None:
  assumes "outsideLimits c d k = None"
  shows "nc_backends c = Some bs \<Longrightarrow> dd_backend d \<in> set bs" "nc_max_deployments c = Some n \<Longrightarrow> k < n"
  using assms by (auto simp: outsideLimits_def split: if_splits option.splits)

lemma gpu_at_present:
  assumes "present_map gs i \<noteq> None"
  shows "gpu_at gs i \<in> set gs" "gp_index (gpu_at gs i) = i"
proof -
  from assms obtain g where g: "present_map gs i = Some g" by blast
  then have "(i, g) \<in> set (map (\<lambda>g. (gp_index g, g)) (rev gs))" unfolding present_map_def by (rule map_of_SomeD)
  then show "gpu_at gs i \<in> set gs" "gp_index (gpu_at gs i) = i" using g by (auto simp: gpu_at_def)
qed

lemma gpuFlag_one_vendor:
  assumes "gpuFlag is gs cdi = Inr flag" and "i \<in> set is" and "j \<in> set is"
  shows "VendorName (gpu_at gs i) = VendorName (gpu_at gs j)"
proof -
  let ?vs = "map (\<lambda>i. VendorName (gpu_at gs i)) is"
  have l: "length (remdups ?vs) \<le> 1" using assms(1) by (auto simp: gpuFlag_def Let_def split: if_splits)
  have "VendorName (gpu_at gs i) \<in> set (remdups ?vs)" "VendorName (gpu_at gs j) \<in> set (remdups ?vs)"
    using assms(2,3) by simp_all
  with l show ?thesis by (cases "remdups ?vs"; cases "tl (remdups ?vs)") auto
qed

lemma unit_devices_vendor:
  assumes "unit_devices opt d b = Inr gpus"
  shows "\<exists>vendor. RunsOn b vendor \<and>
    (\<forall>i \<in> set (dd_gpus d). \<exists>g \<in> set (po_present opt). gp_index g = i \<and> VendorName g = vendor)"
proof (intro exI conjI ballI)
  note u = unit_devices_Inr [OF assms]
  show "RunsOn b (VendorName (gpu_at (po_present opt) (hd (dd_gpus d))))" by (rule u(6))
  fix i assume i: "i \<in> set (dd_gpus d)"
  have "VendorName (gpu_at (po_present opt) i) = VendorName (gpu_at (po_present opt) (hd (dd_gpus d)))"
    using u(3) by (intro gpuFlag_one_vendor [OF u(5) i]) simp
  with gpu_at_present [of "po_present opt" i] u(4) i
  show "\<exists>g \<in> set (po_present opt). gp_index g = i \<and> VendorName g = VendorName (gpu_at (po_present opt) (hd (dd_gpus d)))"
    by blast
qed

lemma missing_none: "missing detected is = [] \<Longrightarrow> detected \<noteq> [] \<Longrightarrow> i \<in> set is \<Longrightarrow> \<exists>g \<in> set detected. gp_index g = i"
  by (auto simp: missing_def filter_empty_conv)

lemma unit_ok_new:
  assumes "unitFor opt d (descriptors opt doc) (stages opt doc) prep = Inr u" "d \<in> set (de_deployments doc)"
    and "dd_state d \<noteq> ''disabled''" "missing (po_detected opt) (dd_gpus d) = []" "outsideLimits (po_node opt) d k = None"
  shows "unit_ok opt doc u"
proof -
  from assms(1) obtain b st gpus where u: "map_of (descriptors opt doc) (dd_backend d) = Some b"
    "map_of (stages opt doc) (dd_model d) = Some st" "unit_devices opt d b = Inr gpus" "sg_state st \<noteq> Corrupt"
    "un_deployment u = dd_id d" "un_gpus u = dd_gpus d" "un_model u = dd_model d" by (elim unitFor_Inr)
  have "po_detected opt \<noteq> [] \<longrightarrow> (\<forall>i \<in> set (dd_gpus d). \<exists>g \<in> set (po_detected opt). gp_index g = i)"
    using missing_none [OF assms(4)] by blast
  then show ?thesis
    unfolding unit_ok_def using u unit_devices_Inr(1-3) [OF u(3)] unit_devices_vendor [OF u(3)] assms(2,3)
      outsideLimits_None(1) [OF assms(5)]
    by (intro exI [of _ d] exI [of _ b] exI [of _ st] conjI) simp_all
qed

lemma place_ok:
  assumes "place opt doc d (p, claims) = Some (p', claims')" "d \<in> set (de_deployments doc)" "dd_id d \<noteq> []"
    and ok: "plan_ok opt doc p" "claims_match (pl_units p) claims"
  shows "plan_ok opt doc p' \<and> claims_match (pl_units p') claims'"
  using place_cases [OF assms(1)]
proof
  assume "pl_units p' = pl_units p \<and> claims' = claims"
  with ok show ?thesis by (simp add: plan_ok_def)
next
  assume "\<exists>u prep. dd_state d \<noteq> ''disabled'' \<and> missing (po_detected opt) (dd_gpus d) = [] \<and>
       outsideLimits (po_node opt) d (int (length (pl_units p))) = None \<and>
       unitFor opt d (descriptors opt doc) (stages opt doc) prep = Inr u \<and> claimedBy claims (dd_gpus d) = [] \<and>
       pl_units p' = pl_units p @ [u] \<and> claims' = map (\<lambda>i. (i, dd_id d)) (dd_gpus d) @ claims"
  then obtain u prep where n: "dd_state d \<noteq> ''disabled''" "missing (po_detected opt) (dd_gpus d) = []"
    "outsideLimits (po_node opt) d (int (length (pl_units p))) = None"
    and u: "unitFor opt d (descriptors opt doc) (stages opt doc) prep = Inr u" and c: "claimedBy claims (dd_gpus d) = []"
    and p': "pl_units p' = pl_units p @ [u]" "claims' = map (\<lambda>i. (i, dd_id d)) (dd_gpus d) @ claims" by blast
  have g: "un_gpus u = dd_gpus d" using u by (elim unitFor_Inr)
  have uo: "unit_ok opt doc u" using unit_ok_new [OF u assms(2) n] .
  have "set (dd_gpus d) \<inter> set (map fst claims) = {}"
    using claimedBy_none [OF c] ok(2) by (simp add: claims_match_def)
  then have dj: "\<forall>v \<in> set (pl_units p). set (un_gpus v) \<inter> set (un_gpus u) = {} \<and> set (un_gpus u) \<inter> set (un_gpus v) = {}"
    using ok(2) g by (auto simp: claims_match_def)
  have "pairwise (\<lambda>i j. set (un_gpus ((pl_units p @ [u]) ! i)) \<inter> set (un_gpus ((pl_units p @ [u]) ! j)) = {}) {..<length (pl_units p @ [u])}"
    using ok(1) dj unfolding plan_ok_def by (intro pairwise_snoc [of "\<lambda>v w. set (un_gpus v) \<inter> set (un_gpus w) = {}"]) auto
  then have "plan_ok opt doc p'"
    using ok(1) uo outsideLimits_None(2) [OF n(3)] unfolding plan_ok_def p' by fastforce
  moreover have "claims_match (pl_units p') claims'"
    using ok(2) g assms(3) by (auto simp: claims_match_def p' comp_def)
  ultimately show ?thesis ..
qed

lemma place_all_ok:
  assumes "place_all opt doc ds (p, claims) = Some (p', claims')" "set ds \<subseteq> set (de_deployments doc)" "\<forall>d \<in> set ds. dd_id d \<noteq> []"
    and "plan_ok opt doc p" "claims_match (pl_units p) claims"
  shows "plan_ok opt doc p'"
  using assms
proof (induction ds arbitrary: p claims)
  case (Cons d ds)
  then obtain q where q: "place opt doc d (p, claims) = Some q" "place_all opt doc ds q = Some (p', claims')"
    by (auto split: option.splits)
  obtain r cl where rc: "q = (r, cl)" by (cases q)
  from place_ok [OF q(1) [unfolded rc]] Cons.prems have "plan_ok opt doc r \<and> claims_match (pl_units r) cl" by simp
  with Cons.IH [of r cl] q(2) rc Cons.prems(2,3) show ?case by simp
qed simp

lemma place_all_verdicts:
  "place_all opt doc ds (p, claims) = Some (p', claims') \<Longrightarrow> mset (verdicts p') = mset (verdicts p) + mset (map dd_id ds)"
proof (induction ds arbitrary: p claims)
  case (Cons d ds)
  then obtain q where q: "place opt doc d (p, claims) = Some q" "place_all opt doc ds q = Some (p', claims')"
    by (auto split: option.splits)
  obtain r cl where rc: "q = (r, cl)" by (cases q)
  from Cons.IH [of r cl] q rc place_verdict [OF q(1) [unfolded rc]] show ?case by simp
qed simp

text \<open>
  C23: Every deployment of the document gets exactly one verdict: it is disabled, its cards are gone, the node's
  limits rule it out, it is refused with a reason, or it is a unit.
\<close>

theorem every_deployment_has_one_verdict:
  assumes "Build doc opt = Some p"
  shows "mset (verdicts p) = mset (map dd_id (de_deployments doc))"
proof -
  from assms obtain claims where "place_all opt doc (de_deployments doc) (first_plan opt doc, []) = Some (p, claims)"
    by (auto simp: Build_def)
  from place_all_verdicts [OF this] show ?thesis by (simp add: verdicts_def first_plan_def)
qed

text \<open>
  C22: The units of a plan: no two share a card; every card of a unit is one the node offers and, where the
  machine's own list is known, still on it; all cards of a unit are of one vendor, which the backend runs on;
  the backend is one the node allows, an image and a port are given, the weights are not corrupt, and there
  are no more units than the node allows.
\<close>

theorem units_share_no_card_and_keep_the_limits:
  assumes "Build doc opt = Some p" "\<forall>d \<in> set (de_deployments doc). dd_id d \<noteq> []"
  shows "(\<forall>u \<in> set (pl_units p). unit_ok opt doc u) \<and>
    (\<forall>i < length (pl_units p). \<forall>j < length (pl_units p). i \<noteq> j \<longrightarrow>
       set (un_gpus (pl_units p ! i)) \<inter> set (un_gpus (pl_units p ! j)) = {}) \<and>
    (\<forall>n. nc_max_deployments (po_node opt) = Some n \<longrightarrow> 0 \<le> n \<longrightarrow> int (length (pl_units p)) \<le> n)"
proof -
  from assms(1) obtain claims where "place_all opt doc (de_deployments doc) (first_plan opt doc, []) = Some (p, claims)"
    by (auto simp: Build_def)
  then have "plan_ok opt doc p"
    by (rule place_all_ok) (use assms(2) in \<open>simp_all add: plan_ok_def claims_match_def first_plan_def\<close>)
  then show ?thesis by (auto simp: plan_ok_def pairwise_def)
qed

section \<open>The panic\<close>

lemma set_param_Inl: "set_param declared k v p = Inl e \<longleftrightarrow> declared \<and> p = None \<and> e = Panic"
  by (auto simp: set_param_def split: option.splits)

lemma refuse_no_panic [simp]: "refuse r \<noteq> Inl Panic"
  by (cases r) (simp_all add: refuse_def)

lemma need_no_panic [simp]: "need ok e \<noteq> Inl Panic"
  by (simp add: need_def)

lemma render_args_no_panic: "render_args b path params extra \<noteq> Inl Panic"
  by (auto simp: render_args_def Let_def split: sum.splits prod.splits)

lemma unit_args_panic:
  assumes "unit_args d b file = Inl Panic"
  shows "decode_params (dd_params d) = Some None \<and> (map_of (bk_args b) ''host'' \<noteq> None \<or> map_of (bk_args b) ''port'' \<noteq> None)"
proof -
  from assms obtain params extra path where p: "decode_params (dd_params d) = Some params" "decode_extra (dd_extra d) = Some extra"
    "container_path b (dd_model d) file = Inr path"
    by (auto simp: unit_args_def sbind_Inl_iff container_path_def split: option.splits if_splits)
  with assms have "\<exists>q. set_param (map_of (bk_args b) ''host'' \<noteq> None) ''host'' (AnyString ''0.0.0.0'') params = Inl Panic \<or>
      set_param (map_of (bk_args b) ''host'' \<noteq> None) ''host'' (AnyString ''0.0.0.0'') params = Inr q \<and>
      set_param (map_of (bk_args b) ''port'' \<noteq> None) ''port'' (AnyInt (bk_port b)) q = Inl Panic"
    using render_args_no_panic by (auto simp: unit_args_def sbind_Inl_iff split: option.splits)
  then show ?thesis using p(1) by (auto simp: set_param_def split: if_splits option.splits)
qed

lemma unitFor_panic:
  assumes "unitFor opt d ds sgs prep = Inl Panic"
  shows "decode_params (dd_params d) = Some None \<and>
    (\<exists>b. map_of ds (dd_backend d) = Some b \<and> (map_of (bk_args b) ''host'' \<noteq> None \<or> map_of (bk_args b) ''port'' \<noteq> None))"
proof -
  from assms obtain b where b: "map_of ds (dd_backend d) = Some b" by (auto simp: unitFor_def split: option.splits)
  have "unit_devices opt d b \<noteq> Inl Panic"
    by (auto simp: unit_devices_def sbind_Inl_iff split: option.splits)
  with assms b have "\<exists>f. unit_args d b f = Inl Panic \<or> host_mount opt prep = Inl Panic"
    by (auto simp: unitFor_def sbind_Inl_iff split: option.splits)
  moreover have "host_mount opt prep \<noteq> Inl Panic" by (auto simp: host_mount_def split: option.splits)
  ultimately show ?thesis using b unit_args_panic by blast
qed

lemma place_all_None:
  "place_all opt doc ds pc = None \<Longrightarrow> \<exists>d \<in> set ds. \<exists>prep. unitFor opt d (descriptors opt doc) (stages opt doc) prep = Inl Panic"
proof (induction ds arbitrary: pc)
  case (Cons d ds)
  obtain p claims where pc: "pc = (p, claims)" by (cases pc)
  show ?case
  proof (cases "place opt doc d pc")
    case None
    then have "\<exists>prep. unitFor opt d (descriptors opt doc) (stages opt doc) prep = Inl Panic"
      unfolding pc by (auto simp: place_def Let_def split: if_splits option.splits sum.splits stop.splits)
    then show ?thesis by auto
  qed (use Cons in auto)
qed simp

text \<open>
  C29: Building a plan ends, with a plan, for every document but one whose parameters are the JSON \<^verbatim>\<open>null\<close> for a
  backend that is told its host or its port.
\<close>

theorem build_panics_only_on_null_parameters:
  assumes "Build doc opt = None"
  shows "\<exists>d \<in> set (de_deployments doc). unmarshal (dd_params d) = Some INull \<and>
    (\<exists>b. map_of (descriptors opt doc) (dd_backend d) = Some b \<and>
         (map_of (bk_args b) ''host'' \<noteq> None \<or> map_of (bk_args b) ''port'' \<noteq> None))"
proof -
  from assms place_all_None obtain d prep where d: "d \<in> set (de_deployments doc)"
    "unitFor opt d (descriptors opt doc) (stages opt doc) prep = Inl Panic" unfolding Build_def by blast
  have "unmarshal (dd_params d) = Some INull" if "decode_params (dd_params d) = Some None"
    using that by (auto simp: decode_params_def split: if_splits option.splits ir.splits)
  with d unitFor_panic [OF d(2)] show ?thesis by blast
qed

section \<open>A node\<close>

definition sglang :: backend where
  "sglang =
     \<lparr>bk_name = ''sglang'', bk_api = ''openai'', bk_layout = ''hf-cache'', bk_mount = ''/root/.cache/huggingface'', bk_port = 80,
      bk_image = ''lmsysorg/sglang:latest'', bk_command = ''python3 -m sglang.launch_server'', bk_silicon = [''nvidia''],
      bk_capabilities = \<lparr>cp_tensor_parallel = True, cp_expert_parallel = False, cp_quantization = [''awq'', ''gptq'', ''fp8''],
                         cp_lora = True, cp_cpu_offload = False\<rparr>,
      bk_args = [(''model_path'', ''--model-path={v}''), (''served_name'', ''--served-model-name={v}''),
                 (''tensor_parallel'', ''--tp-size={v}''), (''max_context'', ''--context-length={v}''),
                 (''quantization'', ''--quantization={v}''), (''port'', ''--port={v}''), (''host'', ''--host={v}''),
                 (''gpu_memory_fraction'', ''--mem-fraction-static={v}'')],
      bk_extra = [], bk_env = [], bk_env_wsl2 = [],
      bk_probe = \<lparr>pb_health = ''/health'', pb_ready = ''/health_generate'', pb_timeout = 1800\<rparr>, bk_metrics = ''/metrics'',
      bk_prepare = None, bk_inherits = [], bk_derive = None\<rparr>"

definition half_cap :: node_config where
  "half_cap = \<lparr>nc_gpu_indices = None, nc_max_vram = Some (Fin False 1 (- 1)), nc_max_deployments = Some 1, nc_backends = None,
     nc_prepare_jobs = None, nc_package_install = None, nc_reboot = None, nc_maintenance = []\<rparr>"

definition one_card :: plan_options where
  "one_card =
     \<lparr>po_models_dir = ''/m'', po_config_dir = ''/etc/nodary'',
      po_present = [\<lparr>gp_index = 0, gp_name = ''A100'', gp_memory = 40960, gp_vendor = [], gp_render = []\<rparr>],
      po_detected = [], po_node = half_cap, po_zones = utc, po_now = 0, po_verify = False, po_wsl2 = False, po_cdi = [],
      po_downloads = None, po_builds = None, po_disk = (\<lambda>_. Missing), po_digest = (\<lambda>_. []),
      po_parse = (\<lambda>_. Inl (ErrInvalid [])), po_builtins = [(''sglang'', sglang)]\<rparr>"

definition asks :: "string \<Rightarrow> desired_deployment" where
  "asks params =
     \<lparr>dd_id = ''a'', dd_model = ''m'', dd_backend = ''sglang'', dd_image = ''i'', dd_gpus = [0], dd_params = params, dd_extra = [],
      dd_env = [], dd_port = 90, dd_network = [], dd_state = ''ready''\<rparr>"

definition wants :: "string \<Rightarrow> desired" where
  "wants params =
     \<lparr>de_rev = 1, de_node = ''n'', de_deployments = [asks params],
      de_staging = [\<lparr>ds_model = ''m'', ds_source = ''local'', ds_layout = ''hf-cache'', ds_sha = [], ds_body = []\<rparr>],
      de_reset = [], de_restart = [], de_backends = []\<rparr>"

lemma wants_stages: "map_of (stages one_card (wants params)) ''m'' =
    Some \<lparr>sg_model = ''m'', sg_source = ''local'', sg_dir = ''/m/hub/models--m'', sg_state = Unverified, sg_file = [], sg_bytes = 0, sg_total = 0\<rparr>"
proof -
  have "ModelDir ''/m'' ''hf-cache'' ''m'' = Inr ''/m/hub/models--m''" by code_simp
  then show ?thesis by (simp add: stages_def wants_def stage_of_def no_stage_def one_card_def)
qed

lemma wants_descriptors: "map_of (descriptors one_card (wants params)) ''sglang'' = Some sglang"
  by (simp add: descriptors_def wants_def one_card_def)

lemma wants_devices: "unit_devices one_card (asks params) sglang = Inr ''--gpus device=0''"
  by code_simp

text \<open>What the one deployment becomes, from its parameters alone.\<close>

lemma place_asks:
  assumes "outsideLimits half_cap (asks raw) 0 = None"
  shows "Build (wants raw) one_card =
    (case unit_args (asks raw) sglang [] of
       Inl Panic \<Rightarrow> None
     | Inl (Refuse r) \<Rightarrow> Some (refused_with ''a'' r (first_plan one_card (wants raw)))
     | Inr args \<Rightarrow> Some ((first_plan one_card (wants raw))\<lparr>pl_units :=
         [\<lparr>un_deployment = ''a'', un_model = ''m'', un_service = ''nodary-model@a.service'',
           un_env_path = ''/etc/nodary/deployments/a.env'',
           un_env = [(''NODARY_ARGS'', join '' '' args), (''NODARY_CONTAINER_PORT'', ''80''),
             (''NODARY_GPUS'', ''--gpus device=0''), (''NODARY_ENV'', []), (''NODARY_IMAGE'', ''i''), (''NODARY_MODELS_DIR'', ''/m''),
             (''NODARY_MOUNT_PATH'', ''/root/.cache/huggingface''), (''NODARY_NETWORK'', IsolatedNetwork), (''NODARY_PORT'', ''90'')],
           un_probe = \<lparr>up_health = ''/health'', up_ready = ''/health_generate'', up_timeout = 1800\<rparr>,
           un_gpus = [0], un_port = 90\<rparr>]\<rparr>))"
proof -
  have e: "envFlags sglang False [] = Inr []" by code_simp
  have j: "Join [''/etc/nodary'', ''deployments'', ''a.env''] = ''/etc/nodary/deployments/a.env''"
    by (simp add: Join_def Clean_def elems_def path_of_def rooted_def slash_def)
  have s: "show_int 80 = ''80''" "show_int 90 = ''90''" by code_simp+
  have pr: "prepare_for one_card (wants raw) (asks raw) = None"
    using wants_descriptors [of raw] by (simp add: prepare_for_def asks_def sglang_def)
  have u: "unitFor one_card (asks raw) (descriptors one_card (wants raw)) (stages one_card (wants raw)) None =
    sbind (unit_args (asks raw) sglang []) (\<lambda>args. Inr
       \<lparr>un_deployment = ''a'', un_model = ''m'', un_service = ''nodary-model@a.service'',
           un_env_path = ''/etc/nodary/deployments/a.env'',
           un_env = [(''NODARY_ARGS'', join '' '' args), (''NODARY_CONTAINER_PORT'', ''80''),
             (''NODARY_GPUS'', ''--gpus device=0''), (''NODARY_ENV'', []), (''NODARY_IMAGE'', ''i''), (''NODARY_MODELS_DIR'', ''/m''),
             (''NODARY_MOUNT_PATH'', ''/root/.cache/huggingface''), (''NODARY_NETWORK'', IsolatedNetwork), (''NODARY_PORT'', ''90'')],
           un_probe = \<lparr>up_health = ''/health'', up_ready = ''/health_generate'', up_timeout = 1800\<rparr>,
           un_gpus = [0], un_port = 90\<rparr>)"
  proof -
    have d: "map_of (descriptors one_card (wants raw)) (dd_backend (asks raw)) = Some sglang"
      "map_of (stages one_card (wants raw)) (dd_model (asks raw)) =
        Some \<lparr>sg_model = ''m'', sg_source = ''local'', sg_dir = ''/m/hub/models--m'', sg_state = Unverified, sg_file = [], sg_bytes = 0, sg_total = 0\<rparr>"
      "refuse (envFlags sglang (po_wsl2 one_card) (dd_env (asks raw))) = Inr []"
      using wants_descriptors [of raw] wants_stages [of raw] e by (simp_all add: asks_def refuse_def one_card_def)
    have g: "dd_id (asks raw) = ''a''" "dd_model (asks raw) = ''m''" "po_config_dir one_card = ''/etc/nodary''"
      "dd_image (asks raw) = ''i''" "dd_port (asks raw) = 90" "dd_gpus (asks raw) = [0]" "dd_network (asks raw) = []"
      "bk_port sglang = 80" "bk_mount sglang = ''/root/.cache/huggingface''" "po_models_dir one_card = ''/m''"
      "bk_probe sglang = \<lparr>pb_health = ''/health'', pb_ready = ''/health_generate'', pb_timeout = 1800\<rparr>"
      by (simp_all add: asks_def one_card_def sglang_def)
    show ?thesis
      unfolding unitFor_def d option.case wants_devices sbind.simps stage.select_convs need_def host_mount_def g UnitName_def
      using j s wants_stages [of raw] by simp
  qed
  define fp where "fp = first_plan one_card (wants raw)"
  have f: "pl_units fp = []" "fp\<lparr>pl_prepare := pl_prepare fp\<rparr> = fp" by (simp_all add: fp_def first_plan_def)
  have a: "dd_state (asks raw) \<noteq> ''disabled''" "missing (po_detected one_card) (dd_gpus (asks raw)) = []"
    "outsideLimits (po_node one_card) (asks raw) 0 = None" "dd_id (asks raw) = ''a''" 
    using assms by (simp_all add: asks_def missing_def one_card_def)
  have "Build (wants raw) one_card = map_option fst (place one_card (wants raw) (asks raw) (fp, []))"
    by (simp add: Build_def wants_def [of raw] fp_def split: option.splits)
  also have "place one_card (wants raw) (asks raw) (fp, []) =
      (case unitFor one_card (asks raw) (descriptors one_card (wants raw)) (stages one_card (wants raw)) None of
         Inl Panic \<Rightarrow> None
       | Inl (Refuse r) \<Rightarrow> Some (refused_with ''a'' r fp, [])
       | Inr u \<Rightarrow> Some (fp\<lparr>pl_units := [u]\<rparr>, map (\<lambda>i. (i, ''a'')) (dd_gpus (asks raw))))"
    unfolding place_def prod.case pr f(1) a(4) list.size of_nat_0 a(3)
    using a(1,2) f by (simp split: sum.splits stop.splits)
  finally show ?thesis unfolding u fp_def [symmetric] by (simp split: sum.splits stop.splits)
qed

section \<open>Parameters that escape\<close>

lemma asks_args:
  assumes "decode_params raw = Some params"
  shows "unit_args (asks raw) sglang [] =
    sbind (set_param True ''host'' (AnyString ''0.0.0.0'') params) (\<lambda>p.
    sbind (set_param True ''port'' (AnyInt 80) p) (\<lambda>p.
    render_args sglang ''/root/.cache/huggingface/hub/models--m'' p []))"
proof -
  have "container_path sglang ''m'' [] = Inr ''/root/.cache/huggingface/hub/models--m''"
    by (simp add: container_path_def sglang_def flat_id_def replace_char_def Join_def Clean_def elems_def path_of_def rooted_def slash_def)
  moreover have "map_of (bk_args sglang) ''host'' \<noteq> None" "map_of (bk_args sglang) ''port'' \<noteq> None" "bk_port sglang = 80"
    by (simp_all add: sglang_def)
  moreover have "dd_params (asks raw) = raw" "dd_extra (asks raw) = []" "dd_model (asks raw) = ''m''" by (simp_all add: asks_def)
  ultimately show ?thesis using assms by (simp add: unit_args_def decode_extra_def)
qed

lemma null_params: "decode_params ''null'' = Some None" "unmarshal_into dec_params ''null'' None = Some None"
  by (simp_all add: decode_params_def unmarshal_into_def unmarshal_def doc_eval dec_params_def dec_struct_def)

text \<open>The parameters \<^verbatim>\<open>null\<close> end the agent.\<close>

theorem null_parameters_panic: "Build (wants ''null'') one_card = None"
proof -
  have "outsideLimits half_cap (asks ''null'') 0 = None"
    by (simp add: outsideLimits_def half_cap_def) (simp add: asks_def null_params)
  from place_asks [OF this] asks_args [OF null_params(1)] show ?thesis by (simp add: set_param_def)
qed

lemma fraction_docs:
  "unmarshal ''{\"gpu_memory_fraction\":\"0.95\"}'' = Some (IObj [(''gpu_memory_fraction'', IStr ''0.95'')])"
  "unmarshal ''{\"gpu_memory_fraction\":0.95}'' = Some (IObj [(''gpu_memory_fraction'', INum ''0.95'')])"
proof -
  have "lex_num ''0.95}'' = Some (''0.95'', ''}'')" by code_simp
  then show "unmarshal ''{\"gpu_memory_fraction\":0.95}'' = Some (IObj [(''gpu_memory_fraction'', INum ''0.95'')])"
    by (simp add: unmarshal_def doc_eval)
qed (simp add: unmarshal_def doc_eval)

lemma fraction_over: "\<exists>x. parseFloat ''0.95'' = Some x \<and> f64_less (Fin False 1 (- 1)) x"
proof -
  have "read_decimal ''0.95'' = Some (False, 95, - 2)" by code_simp
  moreover have "fst (round_ratio False 95 100) = Fin False 8556839292003942 (- 53)"
    by (simp add: round_ratio_def ratio_log2_def flog2.simps Let_def)
  ultimately show ?thesis by (simp add: parseFloat_def f64_less_def f64_scaled_def)
qed

lemma fraction_args:
  "render_args sglang ''/root/.cache/huggingface/hub/models--m''
     (Some [(''gpu_memory_fraction'', AnyString ''0.95''), (''host'', AnyString ''0.0.0.0''), (''port'', AnyInt 80)]) [] =
   Inr [''python3'', ''-m'', ''sglang.launch_server'', ''--model-path=/root/.cache/huggingface/hub/models--m'',
        ''--mem-fraction-static=0.95'', ''--host=0.0.0.0'', ''--port=80'']"
  by code_simp

definition fraction_doc :: string where "fraction_doc = ''{\"gpu_memory_fraction\":\"0.95\"}''"

definition fraction_unit :: deployment_unit where
  "fraction_unit =
     \<lparr>un_deployment = ''a'', un_model = ''m'', un_service = ''nodary-model@a.service'',
      un_env_path = ''/etc/nodary/deployments/a.env'',
      un_env = [(''NODARY_ARGS'', join '' '' [''python3'', ''-m'', ''sglang.launch_server'',
          ''--model-path=/root/.cache/huggingface/hub/models--m'', ''--mem-fraction-static=0.95'', ''--host=0.0.0.0'', ''--port=80'']),
        (''NODARY_CONTAINER_PORT'', ''80''), (''NODARY_GPUS'', ''--gpus device=0''), (''NODARY_ENV'', []), (''NODARY_IMAGE'', ''i''),
        (''NODARY_MODELS_DIR'', ''/m''), (''NODARY_MOUNT_PATH'', ''/root/.cache/huggingface''),
        (''NODARY_NETWORK'', IsolatedNetwork), (''NODARY_PORT'', ''90'')],
      un_probe = \<lparr>up_health = ''/health'', up_ready = ''/health_generate'', up_timeout = 1800\<rparr>,
      un_gpus = [0], un_port = 90\<rparr>"

lemma fraction_build:
  "Build (wants fraction_doc) one_card = Some ((first_plan one_card (wants fraction_doc))\<lparr>pl_units := [fraction_unit]\<rparr>)"
proof -
  have d: "unmarshal fraction_doc = Some (IObj [(''gpu_memory_fraction'', IStr ''0.95'')])" "fraction_doc \<noteq> []"
    using fraction_docs(1) by (simp_all add: fraction_doc_def)
  have "unmarshal_into dec_params fraction_doc None = None"
    by (simp add: unmarshal_into_def d dec_params_def dec_struct_def field_of_def dec_pointer_def dec_float_def)
  then have none: "outsideLimits half_cap (asks fraction_doc) 0 = None"
    by (simp add: outsideLimits_def half_cap_def asks_def)
  have "decode_params fraction_doc = Some (Some [(''gpu_memory_fraction'', AnyString ''0.95'')])"
    by (simp add: decode_params_def d json_map_def last_member_def any_of_def)
  from asks_args [OF this] fraction_args have
    "unit_args (asks fraction_doc) sglang [] =
      Inr [''python3'', ''-m'', ''sglang.launch_server'', ''--model-path=/root/.cache/huggingface/hub/models--m'',
        ''--mem-fraction-static=0.95'', ''--host=0.0.0.0'', ''--port=80'']"
    by (simp add: set_param_def)
  with place_asks [OF none] show ?thesis by (simp add: fraction_unit_def)
qed

text \<open>
  The cap on the fraction of a card's memory holds a number back and lets the same fraction through as a text,
  which the server is told just the same.
\<close>

theorem text_fraction_escapes_the_cap:
  "outsideLimits half_cap (asks ''{\"gpu_memory_fraction\":0.95}'') 0 = Some OverFraction \<and>
   (\<exists>p u. Build (wants ''{\"gpu_memory_fraction\":\"0.95\"}'') one_card = Some p \<and> pl_units p = [u] \<and>
      un_env u ! 0 = (''NODARY_ARGS'', ''python3 -m sglang.launch_server --model-path=/root/.cache/huggingface/hub/models--m'' @
                                       '' --mem-fraction-static=0.95 --host=0.0.0.0 --port=80''))"
proof
  obtain x where x: "parseFloat ''0.95'' = Some x" "f64_less (Fin False 1 (- 1)) x" using fraction_over by blast
  have "unmarshal_into dec_params ''{\"gpu_memory_fraction\":0.95}'' None = Some (Some x)"
    by (simp add: unmarshal_into_def fraction_docs dec_params_def dec_struct_def field_of_def dec_pointer_def dec_float_def x)
  then show "outsideLimits half_cap (asks ''{\"gpu_memory_fraction\":0.95}'') 0 = Some OverFraction"
    using x(2) by (simp add: outsideLimits_def half_cap_def asks_def)
  show "\<exists>p u. Build (wants ''{\"gpu_memory_fraction\":\"0.95\"}'') one_card = Some p \<and> pl_units p = [u] \<and>
      un_env u ! 0 = (''NODARY_ARGS'', ''python3 -m sglang.launch_server --model-path=/root/.cache/huggingface/hub/models--m'' @
                                       '' --mem-fraction-static=0.95 --host=0.0.0.0 --port=80'')"
    using fraction_build by (simp add: fraction_doc_def fraction_unit_def)
qed

lemma context_args:
  "render_args sglang ''/root/.cache/huggingface/hub/models--m''
     (Some [(''max_context'', AnyString v), (''host'', AnyString ''0.0.0.0''), (''port'', AnyInt 80)]) [] =
   Inr [''python3'', ''-m'', ''sglang.launch_server'', ''--model-path=/root/.cache/huggingface/hub/models--m'',
        ''--host=0.0.0.0'', ''--context-length='' @ v, ''--port=80'']"
  by (code_simp, simp)

text \<open>
  A text given for a parameter is under no check, whatever characters it holds, a line end too: it is put into
  the line of the environment file as it is.
\<close>

theorem text_parameter_is_unchecked:
  assumes "unmarshal raw = Some (IObj [(''max_context'', IStr v)])"
  shows "\<exists>p u. Build (wants raw) one_card = Some p \<and> pl_units p = [u] \<and>
     un_env u ! 0 = (''NODARY_ARGS'', ''python3 -m sglang.launch_server --model-path=/root/.cache/huggingface/hub/models--m'' @
                                      '' --host=0.0.0.0 --context-length='' @ v @ '' --port=80'')"
proof -
  have "field_of [''gpu_memory_fraction''] ''max_context'' = None" by code_simp
  then have none: "outsideLimits half_cap (asks raw) 0 = None"
    by (simp add: outsideLimits_def half_cap_def asks_def unmarshal_into_def assms dec_params_def dec_struct_def)
  have "raw \<noteq> []"
  proof
    assume "raw = []"
    then have "unmarshal raw = None" by (simp add: unmarshal_def doc_eval)
    with assms show False by simp
  qed
  then have "decode_params raw = Some (Some [(''max_context'', AnyString v)])"
    by (simp add: decode_params_def assms json_map_def last_member_def any_of_def)
  from asks_args [OF this] context_args have args: "unit_args (asks raw) sglang [] =
      Inr [''python3'', ''-m'', ''sglang.launch_server'', ''--model-path=/root/.cache/huggingface/hub/models--m'',
        ''--host=0.0.0.0'', ''--context-length='' @ v, ''--port=80'']"
    by (simp add: set_param_def)
  from place_asks [OF none] args show ?thesis by simp
qed

text \<open>
  A degree of parallelism given as a text is accepted when the deployment is applied, and is not a whole number
  to the build.
\<close>

lemma text_degree_is_not_built:
  "degree [(''tensor_parallel'', AnyString ''2'')] ''tensor_parallel'' = Inr (Some 2) \<and>
   build_degree [(''tensor_parallel'', AnyString ''2'')] 2 = None"
  by code_simp

text \<open>What the template relies on: each variable it names is written once, and the file is the one it reads.\<close>

definition fills_template :: "string \<Rightarrow> deployment_unit \<Rightarrow> bool" where
  "fills_template configDir u \<longleftrightarrow>
     distinct (map fst (un_env u)) \<and> set (map fst (un_env u)) = set (template_variables (RenderUnitTemplate configDir)) \<and>
     ''EnvironmentFile='' @ configDir @ ''/deployments/%i.env'' \<in> set (unit_lines configDir) \<and>
     un_env_path u = Clean (configDir @ ''/deployments/'' @ un_deployment u @ ''.env'') \<and>
     un_service u = ''nodary-model@'' @ un_deployment u @ ''.service''"

lemma unitFor_fills_template:
  assumes "unitFor opt d ds sgs prep = Inr u" "CHR ''$'' \<notin> set (po_config_dir opt)" "po_config_dir opt \<noteq> []"
  shows "fills_template (po_config_dir opt) u"
proof -
  from assms(1) have p: "un_env_path u = Join [po_config_dir opt, ''deployments'', dd_id d @ ''.env'']"
    unfolding unitFor_def by (auto simp: sbind_Inr_iff refuse_def need_def split: option.splits if_splits)
  from assms(1) obtain a b c e g h i n m where env: "un_env u = [(''NODARY_ARGS'', a), (''NODARY_CONTAINER_PORT'', b), (''NODARY_GPUS'', c),
      (''NODARY_ENV'', e), (''NODARY_IMAGE'', g), (''NODARY_MODELS_DIR'', h), (''NODARY_MOUNT_PATH'', i), (''NODARY_NETWORK'', n),
      (''NODARY_PORT'', m)]" and u: "un_deployment u = dd_id d" "un_service u = UnitName (dd_id d)" by (elim unitFor_Inr)
  have "un_env_path u = Clean (po_config_dir opt @ ''/deployments/'' @ un_deployment u @ ''.env'')"
    using assms(3) by (simp add: p u Join_def slash_def)
  moreover have "''EnvironmentFile='' @ po_config_dir opt @ ''/deployments/%i.env'' \<in> set (unit_lines (po_config_dir opt))"
    by (simp add: unit_lines_def)
  ultimately show ?thesis
    unfolding fills_template_def template_variables_are [OF assms(2)] using u by (auto simp: env UnitName_def)
qed

lemma place_all_fill_template:
  "place_all opt doc ds (p, claims) = Some (p', claims') \<Longrightarrow> CHR ''$'' \<notin> set (po_config_dir opt) \<Longrightarrow> po_config_dir opt \<noteq> [] \<Longrightarrow>
   \<forall>u \<in> set (pl_units p). fills_template (po_config_dir opt) u \<Longrightarrow> \<forall>u \<in> set (pl_units p'). fills_template (po_config_dir opt) u"
proof (induction ds arbitrary: p claims)
  case (Cons d ds)
  then obtain q where q: "place opt doc d (p, claims) = Some q" "place_all opt doc ds q = Some (p', claims')"
    by (auto split: option.splits)
  obtain r cl where rc: "q = (r, cl)" by (cases q)
  have "\<forall>u \<in> set (pl_units r). fills_template (po_config_dir opt) u"
    using place_cases [OF q(1) [unfolded rc]] Cons.prems(4) unitFor_fills_template [OF _ Cons.prems(2,3)] by auto
  with Cons.IH [of r cl] q(2) rc Cons.prems(2,3) show ?case by simp
qed simp

text \<open>
  C28: The unit template and the environment files are one contract: every variable the text of the template
  refers to is written exactly once in each unit's environment and nothing else is, and the file is the one
  the template's \<^verbatim>\<open>EnvironmentFile=\<close> line names for the instance the unit is started as.
\<close>

theorem units_fill_the_template:
  assumes "Build doc opt = Some p" "u \<in> set (pl_units p)" "CHR ''$'' \<notin> set (po_config_dir opt)" "po_config_dir opt \<noteq> []"
  shows "fills_template (po_config_dir opt) u"
proof -
  from assms(1) obtain claims where "place_all opt doc (de_deployments doc) (first_plan opt doc, []) = Some (p, claims)"
    by (auto simp: Build_def)
  from place_all_fill_template [OF this assms(3,4)] assms(2) show ?thesis by (simp add: first_plan_def)
qed

section \<open>Witnesses\<close>

theorem units_fill_the_template_witness: "fills_template ''/etc/nodary'' fraction_unit"
proof -
  have c: "po_config_dir one_card = ''/etc/nodary''" by (simp add: one_card_def)
  from units_fill_the_template [OF fraction_build, of fraction_unit] show ?thesis by (simp add: c)
qed

theorem every_deployment_has_one_verdict_witness:
  "mset (verdicts ((first_plan one_card (wants fraction_doc))\<lparr>pl_units := [fraction_unit]\<rparr>)) = {#''a''#}"
  using every_deployment_has_one_verdict [OF fraction_build] by (simp add: wants_def asks_def)

theorem units_share_no_card_and_keep_the_limits_witness:
  "unit_ok one_card (wants fraction_doc) fraction_unit"
proof -
  have "\<forall>d \<in> set (de_deployments (wants fraction_doc)). dd_id d \<noteq> []" by (simp add: wants_def asks_def)
  from units_share_no_card_and_keep_the_limits [OF fraction_build this] show ?thesis by simp
qed

theorem build_panics_only_on_null_parameters_witness:
  "\<exists>d \<in> set (de_deployments (wants ''null'')). unmarshal (dd_params d) = Some INull"
proof -
  have "outsideLimits half_cap (asks ''null'') 0 = None"
    by (simp add: outsideLimits_def half_cap_def) (simp add: asks_def null_params)
  from place_asks [OF this] asks_args [OF null_params(1)] have "Build (wants ''null'') one_card = None" by (simp add: set_param_def)
  from build_panics_only_on_null_parameters [OF this] show ?thesis by blast
qed

end
