(* ===== verification/Reconcile.thy ===== *)
theory Reconcile
  imports AgentPlan
begin

text \<open>
  \<^verbatim>\<open>internal/agent/reconcile.go\<close>: the loop that brings a host to a plan.  The host is its unit states as
  \<^verbatim>\<open>systemctl is-active\<close> prints them, its files, the egress verdicts kept since each start, and the commands
  issued so far; what a command does is a parameter.
\<close>

section \<open>The host\<close>

datatype command = DaemonReload | StartUnit string | StopUnit string | RestartUnit string | ResetFailed string

record host =
  ho_state :: "string \<Rightarrow> string"
  ho_files :: fs
  ho_asserted :: "string \<rightharpoonup> string"
  ho_log :: "command list"

text \<open>
  \<open>he_run\<close>: the unit states after a command, and whether it succeeded; \<open>he_list\<close>: the output of
  \<^verbatim>\<open>list-units --state=active\<close>; \<open>he_writes\<close>: whether a file can be written; \<open>he_image\<close>: \<open>EnsureImage\<close>;
  \<open>he_probe\<close>: the egress verdict, where the host has a binary to probe with; \<open>he_template\<close>: the text of the
  unit template for this host's configuration directory.
\<close>

record host_env =
  he_run :: "command \<Rightarrow> (string \<Rightarrow> string) \<Rightarrow> (string \<Rightarrow> string) \<times> bool"
  he_list :: "(string \<Rightarrow> string) \<Rightarrow> string option"
  he_writes :: "string \<Rightarrow> bool"
  he_image :: "(string \<Rightarrow> bool) option"
  he_probe :: "(string \<Rightarrow> (string \<Rightarrow> string) \<Rightarrow> string option) option"
  he_template :: string
  he_unit_dir :: string

definition systemctl :: "host_env \<Rightarrow> command \<Rightarrow> host \<Rightarrow> host \<times> bool" where
  "systemctl e c h =
     (case he_run e c (ho_state h) of (s, ok) \<Rightarrow> (h\<lparr>ho_state := s, ho_log := ho_log h @ [c]\<rparr>, ok))"

definition activeState :: "host \<Rightarrow> string \<Rightarrow> string" where
  "activeState h u = trim_space (ho_state h u)"

definition isActive :: "host \<Rightarrow> string \<Rightarrow> bool" where
  "isActive h u \<longleftrightarrow> activeState h u = ''active''"

definition runningInstances :: "host_env \<Rightarrow> host \<Rightarrow> string list option" where
  "runningInstances e h =
     map_option (\<lambda>out. filter (\<lambda>n. has_prefix n ''nodary-model@'')
                   (List.map_filter (\<lambda>l. case Fields l of [] \<Rightarrow> None | f # _ \<Rightarrow> Some f) (split_on (CHR 0x0A) out)))
       (he_list e (ho_state h))"

text \<open>A file is written only when it differs: an error, or whether it was written.\<close>

definition write_if_changed :: "host_env \<Rightarrow> string \<Rightarrow> string \<Rightarrow> host \<Rightarrow> host \<times> bool option" where
  "write_if_changed e path want h =
     (if ho_files h path = Regular want then (h, Some False)
      else if ho_files h path \<noteq> Missing \<and> (\<forall>b. ho_files h path \<noteq> Regular b) then (h, None)
      else if \<not> he_writes e path then (h, None)
      else (h\<lparr>ho_files := (ho_files h)(path := Regular want)\<rparr>, Some True))"

definition writeEnvFile :: "host_env \<Rightarrow> deployment_unit \<Rightarrow> host \<Rightarrow> host \<times> bool option" where
  "writeEnvFile e u = write_if_changed e (un_env_path u) (RenderEnv u)"

definition TemplateName :: string where "TemplateName = ''nodary-model@.service''"

definition EnsureUnitTemplate :: "host_env \<Rightarrow> host \<Rightarrow> host \<times> bool option" where
  "EnsureUnitTemplate e = write_if_changed e (Join [he_unit_dir e, TemplateName]) (he_template e)"

section \<open>One deployment\<close>

datatype dep_state = DepStaging | DepPreparing | DepFailed | DepStarting | DepStopped

datatype action = NoAction | WaitWeights | WaitBuild | FetchImage | RestartedChanged | RestartedAsked | Started

record unit_outcome =
  oc_deployment :: string
  oc_state :: dep_state
  oc_action :: action
  oc_egress :: "string option"

definition Inconclusive :: string where "Inconclusive = ''inconclusive''"

definition conclusive :: "string option \<Rightarrow> bool" where
  "conclusive s \<longleftrightarrow> s \<noteq> None \<and> s \<noteq> Some [] \<and> s \<noteq> Some Inconclusive"

definition ended :: "deployment_unit \<Rightarrow> dep_state \<Rightarrow> action \<Rightarrow> unit_outcome" where
  "ended u s a = \<lparr>oc_deployment = un_deployment u, oc_state = s, oc_action = a, oc_egress = None\<rparr>"

text \<open>The gates before the unit: its weights, its build, its image.\<close>

definition gate :: "host_env \<Rightarrow> (string \<rightharpoonup> stage_state) \<Rightarrow> (string \<rightharpoonup> prepared) \<Rightarrow> deployment_unit \<Rightarrow> unit_outcome option" where
  "gate e staged built u =
     (if staged (un_model u) \<noteq> Some Staged then Some (ended u DepStaging WaitWeights)
      else (case built (un_deployment u) of
              Some b \<Rightarrow>
                if pd_state b = BuildFailed then Some (ended u DepFailed NoAction)
                else if pd_state b \<noteq> Prepared then Some (ended u DepPreparing WaitBuild)
                else (case he_image e of Some f \<Rightarrow> if f (Image u) then None else Some (ended u DepPreparing FetchImage) | None \<Rightarrow> None)
            | None \<Rightarrow>
                (case he_image e of Some f \<Rightarrow> if f (Image u) then None else Some (ended u DepPreparing FetchImage) | None \<Rightarrow> None)))"

text \<open>The restart or the start; an action, or a failure with the action that was attempted.\<close>

definition start_unit :: "host_env \<Rightarrow> string \<Rightarrow> host \<Rightarrow> host \<times> (action + action)" where
  "start_unit e name h =
     (let (h1, ok1) = (if activeState h name = ''failed'' then systemctl e (ResetFailed name) h else (h, True)) in
      if \<not> ok1 then (h1, Inl NoAction)
      else (case systemctl e (StartUnit name) h1 of (h2, ok2) \<Rightarrow> (h2, if ok2 then Inr Started else Inl Started)))"

definition cycle_unit :: "host_env \<Rightarrow> string \<Rightarrow> bool \<Rightarrow> bool \<Rightarrow> host \<Rightarrow> host \<times> (action + action)" where
  "cycle_unit e name changed forced h =
     (if activeState h name = ''failed'' \<and> \<not> forced then (h, Inl NoAction)
      else if (changed \<or> forced) \<and> isActive h name
      then (let act = (if forced \<and> \<not> changed then RestartedAsked else RestartedChanged) in
            case systemctl e (RestartUnit name) h of (h1, ok) \<Rightarrow> (h1, if ok then Inr act else Inl act))
      else if \<not> isActive h name then start_unit e name h
      else (h, Inr NoAction))"

definition assert_egress :: "host_env \<Rightarrow> string \<Rightarrow> dep_state \<Rightarrow> action \<Rightarrow> host \<Rightarrow> host \<times> string option" where
  "assert_egress e dep s a h =
     (let h = (if a = NoAction then h else h\<lparr>ho_asserted := (ho_asserted h)(dep := None)\<rparr>) in
      case he_probe e of
        None \<Rightarrow> (h, None)
      | Some probe \<Rightarrow>
          if s = DepFailed \<or> s = DepStopped \<or> conclusive (ho_asserted h dep) then (h, None)
          else (let v = (case probe dep (ho_state h) of Some v \<Rightarrow> v | None \<Rightarrow> Inconclusive) in
                (h\<lparr>ho_asserted := (ho_asserted h)(dep \<mapsto> v)\<rparr>, Some v)))"

definition reconcileUnit :: "host_env \<Rightarrow> (string \<rightharpoonup> stage_state) \<Rightarrow> (string \<rightharpoonup> prepared) \<Rightarrow> bool \<Rightarrow> deployment_unit \<Rightarrow> host \<Rightarrow>
    host \<times> unit_outcome \<times> bool" where
  "reconcileUnit e staged built forced u h =
     (case gate e staged built u of
        Some out \<Rightarrow> (h, out, False)
      | None \<Rightarrow>
          (case writeEnvFile e u h of
             (h1, None) \<Rightarrow> (h1, ended u DepFailed NoAction, False)
           | (h1, Some changed) \<Rightarrow>
               (case cycle_unit e (UnitName (un_deployment u)) changed forced h1 of
                  (h2, Inl act) \<Rightarrow> (h2, ended u DepFailed act, False)
                | (h2, Inr act) \<Rightarrow>
                    (let s = (if isActive h2 (UnitName (un_deployment u)) then DepStarting else DepStopped);
                         (h3, v) = assert_egress e (un_deployment u) s act h2 in
                     (h3, (ended u s act)\<lparr>oc_egress := v\<rparr>, forced)))))"

section \<open>The loop\<close>

datatype error = TemplateError | ReloadError | ListError | StopError string

record report =
  rp_rev :: int
  rp_units :: "unit_outcome list"
  rp_stopped :: "string list"
  rp_stage :: "(string \<times> stage_state) list"
  rp_refused :: "(string \<times> reason) list"
  rp_out_of_policy :: "(string \<times> reason) list"
  rp_errors :: "error list"
  rp_restart_done :: "string list"

definition last_of :: "('b \<Rightarrow> 'a) \<Rightarrow> ('b \<Rightarrow> 'c) \<Rightarrow> 'b list \<Rightarrow> 'a \<rightharpoonup> 'c" where
  "last_of k v xs = map_of (rev (map (\<lambda>x. (k x, v x)) xs))"

definition staged_of :: "plan \<Rightarrow> string \<rightharpoonup> stage_state" where
  "staged_of p = last_of sg_model sg_state (pl_stage p)"

definition built_of :: "plan \<Rightarrow> string \<rightharpoonup> prepared" where
  "built_of p = last_of pd_deployment (\<lambda>b. b) (pl_prepare p)"

fun reconcile_units :: "host_env \<Rightarrow> plan \<Rightarrow> deployment_unit list \<Rightarrow> host \<times> report \<Rightarrow> host \<times> report" where
  "reconcile_units e p [] hr = hr"
| "reconcile_units e p (u # us) hr =
     (case hr of (h, r) \<Rightarrow>
      case reconcileUnit e (staged_of p) (built_of p)
             (un_deployment u \<in> set (pl_restart p)) u h of
        (h', out, restarted) \<Rightarrow>
          reconcile_units e p us
            (h', r\<lparr>rp_units := rp_units r @ [out],
                   rp_restart_done := rp_restart_done r @ (if restarted then [un_deployment u] else [])\<rparr>))"

text \<open>A deployment out of policy is refused when it does not run, and otherwise kept until the window opens.\<close>

fun judge_policy :: "plan \<Rightarrow> host \<Rightarrow> (string \<times> reason) list \<Rightarrow> report \<times> string list \<Rightarrow> report \<times> string list" where
  "judge_policy p h [] rw = rw"
| "judge_policy p h (v # vs) rw =
     (case rw of (r, wanted) \<Rightarrow>
      if \<not> isActive h (UnitName (fst v)) then judge_policy p h vs (r\<lparr>rp_refused := rp_refused r @ [v]\<rparr>, wanted)
      else judge_policy p h vs (r\<lparr>rp_out_of_policy := rp_out_of_policy r @ [v]\<rparr>,
                                if pl_maintenance_open p then wanted else UnitName (fst v) # wanted))"

fun stop_all :: "host_env \<Rightarrow> string list \<Rightarrow> string list \<Rightarrow> host \<times> report \<Rightarrow> host \<times> report" where
  "stop_all e wanted [] hr = hr"
| "stop_all e wanted (n # ns) hr =
     (if n \<in> set wanted then stop_all e wanted ns hr
      else (case hr of (h, r) \<Rightarrow>
            case systemctl e (StopUnit n) h of (h', ok) \<Rightarrow>
              stop_all e wanted ns
                (h', if ok then r\<lparr>rp_stopped := rp_stopped r @ [n]\<rparr> else r\<lparr>rp_errors := rp_errors r @ [StopError n]\<rparr>)))"

definition first_report :: "plan \<Rightarrow> report" where
  "first_report p =
     \<lparr>rp_rev = pl_rev p, rp_units = [], rp_stopped = [], rp_stage = map (\<lambda>s. (sg_model s, sg_state s)) (pl_stage p),
      rp_refused = pl_refused p, rp_out_of_policy = [], rp_errors = [], rp_restart_done = []\<rparr>"

text \<open>The template, and the reload that makes a new one known; an error ends the iteration.\<close>

definition ensure_template :: "host_env \<Rightarrow> host \<Rightarrow> host \<times> error option" where
  "ensure_template e h =
     (case EnsureUnitTemplate e h of
        (h1, None) \<Rightarrow> (h1, Some TemplateError)
      | (h1, Some changed) \<Rightarrow>
          if \<not> changed then (h1, None)
          else (case systemctl e DaemonReload h1 of (h2, ok) \<Rightarrow> (h2, if ok then None else Some ReloadError)))"

definition Reconcile :: "host_env \<Rightarrow> plan \<Rightarrow> host \<Rightarrow> host \<times> report" where
  "Reconcile e p h =
     (case ensure_template e h of
        (h1, Some err) \<Rightarrow> (h1, (first_report p)\<lparr>rp_errors := [err]\<rparr>)
      | (h1, None) \<Rightarrow>
          (case reconcile_units e p (pl_units p) (h1, first_report p) of (h2, r2) \<Rightarrow>
           case judge_policy p h2 (pl_out_of_policy p) (r2, map (\<lambda>u. UnitName (un_deployment u)) (pl_units p)) of (r3, wanted) \<Rightarrow>
             (case runningInstances e h2 of
                None \<Rightarrow> (h2, r3\<lparr>rp_errors := rp_errors r3 @ [ListError]\<rparr>)
              | Some running \<Rightarrow>
                  (case stop_all e wanted running (h2, r3) of (h4, r4) \<Rightarrow> (h4, r4\<lparr>rp_stopped := sort (rp_stopped r4)\<rparr>)))))"

end
