(* ===== verification/ReconcileProps.thy ===== *)
theory ReconcileProps
  imports Reconcile
begin

text \<open>
  What the loop does to a host: which commands it may issue, that a node left alone is left alone, and that it
  reaches the plan.
\<close>

section \<open>The commands\<close>

definition issued :: "host \<Rightarrow> host \<Rightarrow> command set \<Rightarrow> bool" where
  "issued h h' C \<longleftrightarrow> (\<exists>cs. ho_log h' = ho_log h @ cs \<and> set cs \<subseteq> C)"

lemma issued_refl [simp]: "issued h h C"
  by (simp add: issued_def)

lemma issued_trans: "issued h h1 C \<Longrightarrow> issued h1 h2 D \<Longrightarrow> issued h h2 (C \<union> D)"
  unfolding issued_def by (elim exE conjE) (auto intro!: exI [of _ "_ @ _"])

lemma issued_mono: "issued h h' C \<Longrightarrow> C \<subseteq> D \<Longrightarrow> issued h h' D"
  unfolding issued_def by blast

lemma issued_systemctl: "systemctl e c h = (h', ok) \<Longrightarrow> issued h h' {c}"
  by (auto simp: systemctl_def issued_def split: prod.splits)

lemma systemctl_files: "systemctl e c h = (h', ok) \<Longrightarrow> ho_files h' = ho_files h \<and> ho_asserted h' = ho_asserted h"
  by (auto simp: systemctl_def split: prod.splits)

lemma write_if_changed_log: "write_if_changed e p w h = (h', r) \<Longrightarrow> ho_log h' = ho_log h \<and> ho_state h' = ho_state h"
  by (auto simp: write_if_changed_def split: if_splits)

definition unit_commands :: "string \<Rightarrow> command set" where
  "unit_commands n = {StartUnit n, RestartUnit n, ResetFailed n}"

lemma start_unit_issued: "start_unit e n h = (h', r) \<Longrightarrow> issued h h' (unit_commands n)"
proof -
  assume s: "start_unit e n h = (h', r)"
  obtain h1 ok1 where 1: "(if activeState h n = ''failed'' then systemctl e (ResetFailed n) h else (h, True)) = (h1, ok1)" by fastforce
  then have i1: "issued h h1 {ResetFailed n}" using issued_systemctl by (auto split: if_splits)
  show ?thesis
  proof (cases ok1)
    case True
    obtain h2 ok2 where 2: "systemctl e (StartUnit n) h1 = (h2, ok2)" by fastforce
    with s 1 True have "h' = h2" by (simp add: start_unit_def)
    with issued_trans [OF i1 issued_systemctl [OF 2]] show ?thesis by (auto simp: unit_commands_def intro: issued_mono)
  next
    case False
    with s 1 have "h' = h1" by (simp add: start_unit_def)
    with i1 show ?thesis by (auto simp: unit_commands_def intro: issued_mono)
  qed
qed

lemma cycle_unit_issued: "cycle_unit e n changed forced h = (h', r) \<Longrightarrow> issued h h' (unit_commands n)"
  using start_unit_issued issued_systemctl [of e "RestartUnit n" h]
  by (auto simp: cycle_unit_def unit_commands_def Let_def split: if_splits prod.splits intro: issued_mono)

lemma assert_egress_log:
  "assert_egress e dep s a h = (h', v) \<Longrightarrow> ho_log h' = ho_log h \<and> ho_state h' = ho_state h \<and> ho_files h' = ho_files h"
  by (auto simp: assert_egress_def Let_def split: if_splits option.splits)

lemma reconcileUnit_gated: "gate e staged built u = Some out \<Longrightarrow> reconcileUnit e staged built forced u h = (h, out, False)"
  by (simp add: reconcileUnit_def)

lemma reconcileUnit_issued:
  assumes "reconcileUnit e staged built forced u h = (h', out, b)"
  shows "issued h h' (if gate e staged built u = None then unit_commands (UnitName (un_deployment u)) else {})"
proof (cases "gate e staged built u")
  case None
  obtain h1 w where w: "writeEnvFile e u h = (h1, w)" by fastforce
  then have l1: "ho_log h1 = ho_log h" unfolding writeEnvFile_def by (blast dest: write_if_changed_log)
  show ?thesis
  proof (cases w)
    case None
    with assms w \<open>gate e staged built u = None\<close> have "h' = h1" by (simp add: reconcileUnit_def)
    with l1 show ?thesis by (simp add: issued_def)
  next
    case (Some changed)
    obtain h2 r where c: "cycle_unit e (UnitName (un_deployment u)) changed forced h1 = (h2, r)" by fastforce
    have "ho_log h' = ho_log h2"
    proof (cases r)
      case (Inr act)
      let ?s = "if isActive h2 (UnitName (un_deployment u)) then DepStarting else DepStopped"
      obtain h3 v where a: "assert_egress e (un_deployment u) ?s act h2 = (h3, v)" by fastforce
      with assms w Some c Inr \<open>gate e staged built u = None\<close> have "h' = h3" by (simp add: reconcileUnit_def Let_def)
      with assert_egress_log [OF a] show ?thesis by simp
    qed (use assms w Some c \<open>gate e staged built u = None\<close> in \<open>simp add: reconcileUnit_def\<close>)
    with cycle_unit_issued [OF c] l1 \<open>gate e staged built u = None\<close> show ?thesis by (simp add: issued_def)
  qed
qed (use assms in \<open>simp add: reconcileUnit_gated\<close>)

text \<open>
  What the gates let through: the weights are staged, a build that is asked for is done, and the image is
  there on a host that has to fetch it.
\<close>

definition ready_unit :: "host_env \<Rightarrow> plan \<Rightarrow> deployment_unit \<Rightarrow> bool" where
  "ready_unit e p u \<longleftrightarrow> staged_of p (un_model u) = Some Staged \<and>
     (\<forall>b. built_of p (un_deployment u) = Some b \<longrightarrow> pd_state b = Prepared) \<and>
     (\<forall>f. he_image e = Some f \<longrightarrow> f (Image u))"

lemma gate_ready: "gate e (staged_of p) (built_of p) u = None \<longleftrightarrow> ready_unit e p u"
  by (auto simp: gate_def ready_unit_def split: option.splits)

lemma last_of_SomeD: "last_of k v xs x = Some y \<Longrightarrow> \<exists>a \<in> set xs. k a = x \<and> v a = y"
  by (auto simp: last_of_def dest!: map_of_SomeD)

lemma last_of_None: "last_of k v xs x = None \<longleftrightarrow> x \<notin> k ` set xs"
  by (simp add: last_of_def map_of_eq_None_iff image_image comp_def)

text \<open>The same of the entries of the plan.\<close>

definition weights_and_build :: "plan \<Rightarrow> deployment_unit \<Rightarrow> bool" where
  "weights_and_build p u \<longleftrightarrow>
     (\<exists>s \<in> set (pl_stage p). sg_model s = un_model u \<and> sg_state s = Staged) \<and>
     ((\<forall>b \<in> set (pl_prepare p). pd_deployment b \<noteq> un_deployment u) \<or>
      (\<exists>b \<in> set (pl_prepare p). pd_deployment b = un_deployment u \<and> pd_state b = Prepared))"

lemma ready_weights_and_build:
  assumes "ready_unit e p u"
  shows "weights_and_build p u"
proof -
  from assms have "staged_of p (un_model u) = Some Staged" by (simp add: ready_unit_def)
  then have w: "\<exists>s \<in> set (pl_stage p). sg_model s = un_model u \<and> sg_state s = Staged"
    unfolding staged_of_def by (rule last_of_SomeD)
  show ?thesis
  proof (cases "built_of p (un_deployment u)")
    case None
    then have "un_deployment u \<notin> pd_deployment ` set (pl_prepare p)" unfolding built_of_def last_of_None .
    then have "\<forall>b \<in> set (pl_prepare p). pd_deployment b \<noteq> un_deployment u" by force
    with w show ?thesis unfolding weights_and_build_def by blast
  next
    case (Some b)
    with assms have "pd_state b = Prepared" by (simp add: ready_unit_def)
    moreover from Some have "b \<in> set (pl_prepare p)" "pd_deployment b = un_deployment u"
      unfolding built_of_def by (auto dest: last_of_SomeD)
    ultimately show ?thesis using w unfolding weights_and_build_def by blast
  qed
qed

text \<open>The commands a plan's units may get.\<close>

definition open_commands :: "host_env \<Rightarrow> plan \<Rightarrow> command set" where
  "open_commands e p =
     (\<Union>u \<in> {u \<in> set (pl_units p). gate e (staged_of p) (built_of p) u = None}.
        unit_commands (UnitName (un_deployment u)))"

lemma open_commands_ready:
  assumes "c \<in> open_commands e p"
  shows "\<exists>u \<in> set (pl_units p). weights_and_build p u \<and> (\<forall>f. he_image e = Some f \<longrightarrow> f (Image u)) \<and>
    c \<in> {StartUnit (UnitName (un_deployment u)), RestartUnit (UnitName (un_deployment u)), ResetFailed (UnitName (un_deployment u))}"
proof -
  from assms obtain u where u: "u \<in> set (pl_units p)" "ready_unit e p u" "c \<in> unit_commands (UnitName (un_deployment u))"
    by (auto simp: open_commands_def gate_ready)
  from ready_weights_and_build [OF u(2)] u show ?thesis unfolding unit_commands_def ready_unit_def by blast
qed

lemma reconcile_units_issued:
  "reconcile_units e p us (h, r) = (h', r') \<Longrightarrow> set us \<subseteq> set (pl_units p) \<Longrightarrow> issued h h' (open_commands e p)"
proof (induction us arbitrary: h r)
  case (Cons u us)
  obtain h1 out b where 1: "reconcileUnit e (staged_of p) (built_of p)
             (un_deployment u \<in> set (pl_restart p)) u h = (h1, out, b)" by (metis prod_cases3)
  have "issued h h1 (open_commands e p)"
    using reconcileUnit_issued [OF 1] Cons.prems(2)
    by (auto simp: open_commands_def split: if_splits intro: issued_mono)
  moreover have "issued h1 h' (open_commands e p)"
    using Cons.prems 1 by (auto intro!: Cons.IH)
  ultimately show ?case using issued_trans by fastforce
qed simp

lemma stop_all_issued:
  "stop_all e wanted ns (h, r) = (h', r') \<Longrightarrow> issued h h' {StopUnit n | n. n \<in> set ns \<and> n \<notin> set wanted}"
proof (induction ns arbitrary: h r)
  case (Cons n ns)
  show ?case
  proof (cases "n \<in> set wanted")
    case True
    with Cons.prems have "stop_all e wanted ns (h, r) = (h', r')" by simp
    from Cons.IH [OF this] show ?thesis by (rule issued_mono) auto
  next
    case False
    obtain h1 ok where 1: "systemctl e (StopUnit n) h = (h1, ok)" by fastforce
    with Cons.prems False obtain q where "stop_all e wanted ns (h1, q) = (h', r')" by auto
    from issued_trans [OF issued_systemctl [OF 1] Cons.IH [OF this]] False show ?thesis by (auto intro: issued_mono)
  qed
qed simp

lemma judge_policy_wanted:
  "judge_policy p h vs (r, w) = (r', w') \<Longrightarrow>
   set w' = set w \<union> (if pl_maintenance_open p then {} else {UnitName (fst v) | v. v \<in> set vs \<and> isActive h (UnitName (fst v))})"
proof (induction vs arbitrary: r w)
  case (Cons v vs)
  obtain i y where v: "v = (i, y)" by (cases v)
  show ?case
  proof (cases "isActive h (UnitName (fst v))")
    case True
    with Cons.prems obtain q where "judge_policy p h vs (q, if pl_maintenance_open p then w else UnitName (fst v) # w) = (r', w')" by auto
    from Cons.IH [OF this] True show ?thesis by (auto simp: v)
  next
    case False
    with Cons.prems obtain q where "judge_policy p h vs (q, w) = (r', w')" by auto
    from Cons.IH [OF this] False show ?thesis by (auto simp: v)
  qed
qed simp

lemma ensure_template_issued:
  "ensure_template e h = (h', r) \<Longrightarrow> issued h h' {DaemonReload} \<and> (ho_log h' = ho_log h \<longrightarrow> ho_state h' = ho_state h)"
proof -
  assume t: "ensure_template e h = (h', r)"
  obtain h1 c where 1: "EnsureUnitTemplate e h = (h1, c)" by fastforce
  then have l: "ho_log h1 = ho_log h" "ho_state h1 = ho_state h"
    unfolding EnsureUnitTemplate_def by (blast dest: write_if_changed_log)+
  show ?thesis
  proof (cases "c = Some True")
    case True
    obtain h2 ok where 2: "systemctl e DaemonReload h1 = (h2, ok)" by fastforce
    with t 1 True have "h' = h2" by (simp add: ensure_template_def)
    moreover have "ho_log h2 = ho_log h1 @ [DaemonReload]" using 2 by (auto simp: systemctl_def split: prod.splits)
    ultimately show ?thesis using l by (simp add: issued_def)
  next
    case False
    with t 1 have "h' = h1" by (auto simp: ensure_template_def split: option.splits if_splits)
    with l show ?thesis by (simp add: issued_def)
  qed
qed

lemma runningInstances_prefix: "runningInstances e h = Some ns \<Longrightarrow> n \<in> set ns \<Longrightarrow> has_prefix n ''nodary-model@''"
  by (auto simp: runningInstances_def)

text \<open>\<^verbatim>\<open>list-units --state=active\<close> lists only what is active.\<close>

definition lists_active :: "host_env \<Rightarrow> bool" where
  "lists_active e \<longleftrightarrow> (\<forall>h ns n. runningInstances e h = Some ns \<longrightarrow> n \<in> set ns \<longrightarrow> isActive h n)"

lemma iteration_issues:
  assumes "Reconcile e p h = (h', r)" "lists_active e"
  shows "issued h h' ({DaemonReload} \<union> open_commands e p \<union>
    {StopUnit n | n. has_prefix n ''nodary-model@'' \<and> n \<notin> (\<lambda>u. UnitName (un_deployment u)) ` set (pl_units p) \<and>
       (pl_maintenance_open p \<or> n \<notin> (\<lambda>v. UnitName (fst v)) ` set (pl_out_of_policy p))})"
proof -
  let ?S = "{StopUnit n | n. has_prefix n ''nodary-model@'' \<and> n \<notin> (\<lambda>u. UnitName (un_deployment u)) ` set (pl_units p) \<and>
       (pl_maintenance_open p \<or> n \<notin> (\<lambda>v. UnitName (fst v)) ` set (pl_out_of_policy p))}"
  obtain h1 t where 1: "ensure_template e h = (h1, t)" by fastforce
  then have i1: "issued h h1 {DaemonReload}" using ensure_template_issued by blast
  show ?thesis
  proof (cases t)
    case (Some err)
    with assms(1) 1 have "h' = h1" by (simp add: Reconcile_def)
    with i1 show ?thesis by (auto intro: issued_mono)
  next
    case None
    obtain h2 r2 where 2: "reconcile_units e p (pl_units p) (h1, first_report p) = (h2, r2)" by fastforce
    have i2: "issued h1 h2 (open_commands e p)" using reconcile_units_issued [OF 2] by simp
    obtain r3 w where 3: "judge_policy p h2 (pl_out_of_policy p) (r2, map (\<lambda>u. UnitName (un_deployment u)) (pl_units p)) = (r3, w)"
      by fastforce
    have i12: "issued h h2 ({DaemonReload} \<union> open_commands e p)" using issued_trans [OF i1 i2] .
    show ?thesis
    proof (cases "runningInstances e h2")
      case no: None
      with assms(1) 1 None 2 3 have "h' = h2" by (simp add: Reconcile_def)
      with i12 show ?thesis by (auto intro: issued_mono)
    next
      case ns: (Some ns)
      obtain h4 r4 where 4: "stop_all e w ns (h2, r3) = (h4, r4)" by fastforce
      with assms(1) 1 None 2 3 ns have "h' = h4" by (simp add: Reconcile_def)
      have "StopUnit n \<in> ?S" if n: "n \<in> set ns" "n \<notin> set w" for n
      proof -
        have "isActive h2 n" using assms(2) ns n(1) unfolding lists_active_def by blast
        then have "pl_maintenance_open p \<or> n \<notin> (\<lambda>v. UnitName (fst v)) ` set (pl_out_of_policy p)"
          using judge_policy_wanted [OF 3] n(2) by (auto split: if_splits)
        then show ?thesis using judge_policy_wanted [OF 3] n runningInstances_prefix [OF ns n(1)] by auto
      qed
      then have "{StopUnit n | n. n \<in> set ns \<and> n \<notin> set w} \<subseteq> ?S" by blast
      with stop_all_issued [OF 4] have "issued h2 h4 ?S" by (rule issued_mono)
      from issued_trans [OF i12 this] \<open>h' = h4\<close> show ?thesis by simp
    qed
  qed
qed

text \<open>
  C24: Whatever the commands do, every command an iteration issues is the reload, the start, restart or reset of
  a unit of the plan whose weights the plan has as staged, whose build, if it has one, is prepared and whose
  image could be fetched, or the stop of an instance of nodary's own template that the plan does not name; and
  while the maintenance window is closed no deployment that is merely out of policy is stopped.
\<close>

theorem iteration_stops_only_what_is_unwanted:
  assumes "Reconcile e p h = (h', r)" "lists_active e"
  shows "\<exists>cs. ho_log h' = ho_log h @ cs \<and> (\<forall>c \<in> set cs. c = DaemonReload \<or>
     (\<exists>u \<in> set (pl_units p). weights_and_build p u \<and> (\<forall>f. he_image e = Some f \<longrightarrow> f (Image u)) \<and>
        c \<in> {StartUnit (UnitName (un_deployment u)), RestartUnit (UnitName (un_deployment u)), ResetFailed (UnitName (un_deployment u))}) \<or>
     (\<exists>n. c = StopUnit n \<and> has_prefix n ''nodary-model@'' \<and> (\<forall>u \<in> set (pl_units p). n \<noteq> UnitName (un_deployment u)) \<and>
        (pl_maintenance_open p \<or> (\<forall>v \<in> set (pl_out_of_policy p). n \<noteq> UnitName (fst v)))))"
proof -
  from iteration_issues [OF assms] obtain cs where l: "ho_log h' = ho_log h @ cs"
    and c: "set cs \<subseteq> {DaemonReload} \<union> open_commands e p \<union>
      {StopUnit n | n. has_prefix n ''nodary-model@'' \<and> n \<notin> (\<lambda>u. UnitName (un_deployment u)) ` set (pl_units p) \<and>
         (pl_maintenance_open p \<or> n \<notin> (\<lambda>v. UnitName (fst v)) ` set (pl_out_of_policy p))}"
    unfolding issued_def by blast
  show ?thesis
  proof (intro exI [of _ cs] conjI l ballI)
    fix x assume "x \<in> set cs"
    with c consider "x = DaemonReload" | "x \<in> open_commands e p"
      | n where "x = StopUnit n" "has_prefix n ''nodary-model@''" "n \<notin> (\<lambda>u. UnitName (un_deployment u)) ` set (pl_units p)"
          "pl_maintenance_open p \<or> n \<notin> (\<lambda>v. UnitName (fst v)) ` set (pl_out_of_policy p)" by blast
    then show "x = DaemonReload \<or>
     (\<exists>u \<in> set (pl_units p). weights_and_build p u \<and> (\<forall>f. he_image e = Some f \<longrightarrow> f (Image u)) \<and>
        x \<in> {StartUnit (UnitName (un_deployment u)), RestartUnit (UnitName (un_deployment u)), ResetFailed (UnitName (un_deployment u))}) \<or>
     (\<exists>n. x = StopUnit n \<and> has_prefix n ''nodary-model@'' \<and> (\<forall>u \<in> set (pl_units p). n \<noteq> UnitName (un_deployment u)) \<and>
        (pl_maintenance_open p \<or> (\<forall>v \<in> set (pl_out_of_policy p). n \<noteq> UnitName (fst v))))"
    proof cases
      case 2
      from open_commands_ready [OF 2] show ?thesis by blast
    qed blast+
  qed
qed

section \<open>A converged node is left alone\<close>

text \<open>The unit is up with the file it should have, nobody asked for a restart, and its verdict is kept.\<close>

definition settled :: "host_env \<Rightarrow> plan \<Rightarrow> host \<Rightarrow> deployment_unit \<Rightarrow> bool" where
  "settled e p h u \<longleftrightarrow>
     gate e (staged_of p) (built_of p) u = None \<and>
     ho_files h (un_env_path u) = Regular (RenderEnv u) \<and> isActive h (UnitName (un_deployment u)) \<and>
     un_deployment u \<notin> set (pl_restart p) \<and> (he_probe e = None \<or> conclusive (ho_asserted h (un_deployment u)))"

definition converged :: "host_env \<Rightarrow> plan \<Rightarrow> host \<Rightarrow> bool" where
  "converged e p h \<longleftrightarrow>
     ho_files h (Join [he_unit_dir e, TemplateName]) = Regular (he_template e) \<and>
     (\<forall>u \<in> set (pl_units p). settled e p h u) \<and> pl_out_of_policy p = [] \<and>
     (\<exists>ns. runningInstances e h = Some ns \<and> set ns \<subseteq> (\<lambda>u. UnitName (un_deployment u)) ` set (pl_units p))"

lemma settled_unit:
  assumes "settled e p h u"
  shows "reconcileUnit e (staged_of p) (built_of p)
      (un_deployment u \<in> set (pl_restart p)) u h = (h, ended u DepStarting NoAction, False)"
proof -
  have w: "writeEnvFile e u h = (h, Some False)" using assms by (simp add: settled_def writeEnvFile_def write_if_changed_def)
  have "activeState h (UnitName (un_deployment u)) \<noteq> ''failed''" using assms by (simp add: settled_def isActive_def)
  then have c: "cycle_unit e (UnitName (un_deployment u)) False False h = (h, Inr NoAction)"
    using assms by (simp add: cycle_unit_def settled_def)
  have "assert_egress e (un_deployment u) DepStarting NoAction h = (h, None)"
    using assms by (auto simp: assert_egress_def settled_def split: option.splits)
  with assms w c show ?thesis by (simp add: reconcileUnit_def settled_def ended_def)
qed

lemma settled_units:
  "\<forall>u \<in> set us. settled e p h u \<Longrightarrow>
   reconcile_units e p us (h, r) = (h, r\<lparr>rp_units := rp_units r @ map (\<lambda>u. ended u DepStarting NoAction) us\<rparr>)"
  by (induction us arbitrary: r) (simp_all add: settled_unit)

lemma stop_none: "set ns \<subseteq> set wanted \<Longrightarrow> stop_all e wanted ns hr = hr"
  by (induction ns) auto

text \<open>
  C26: Reconciling a converged node issues no command, writes no file and reports every unit as up, with no error:
  a serving model is never restarted for nothing.
\<close>

theorem converged_node_is_left_alone:
  assumes "converged e p h"
  shows "\<exists>r. Reconcile e p h = (h, r) \<and> rp_errors r = [] \<and> rp_stopped r = [] \<and> rp_restart_done r = [] \<and>
    rp_units r = map (\<lambda>u. ended u DepStarting NoAction) (pl_units p)"
proof -
  from assms obtain ns where c: "ho_files h (Join [he_unit_dir e, TemplateName]) = Regular (he_template e)"
    "\<forall>u \<in> set (pl_units p). settled e p h u" "pl_out_of_policy p = []"
    "runningInstances e h = Some ns" "set ns \<subseteq> set (map (\<lambda>u. UnitName (un_deployment u)) (pl_units p))"
    by (auto simp: converged_def)
  have "ensure_template e h = (h, None)"
    using c(1) by (simp add: ensure_template_def EnsureUnitTemplate_def write_if_changed_def)
  with c(3,4) settled_units [OF c(2)] stop_none [OF c(5)] show ?thesis
    by (simp add: Reconcile_def first_report_def)
qed

section \<open>A restart that failed\<close>

text \<open>
  C27: The environment file is written before the restart.  When the restart fails and the unit goes on running, the
  next iteration finds the file as it should be and the unit active: it does nothing, reports the deployment as
  up, and so does every iteration after it, while the unit still runs the old configuration.
\<close>

theorem failed_restart_is_not_retried:
  assumes "gate e staged built u = None" "ho_files h (un_env_path u) = Regular old_text" "old_text \<noteq> RenderEnv u" "he_writes e (un_env_path u)"
    and "isActive h (UnitName (un_deployment u))" "he_run e (RestartUnit (UnitName (un_deployment u))) (ho_state h) = (ho_state h, False)"
    and "he_probe e = None"
  shows "\<exists>h1. reconcileUnit e staged built False u h = (h1, ended u DepFailed RestartedChanged, False) \<and>
    ho_log h1 = ho_log h @ [RestartUnit (UnitName (un_deployment u))] \<and>
    reconcileUnit e staged built False u h1 = (h1, ended u DepStarting NoAction, False)"
proof -
  let ?n = "UnitName (un_deployment u)"
  define h0 where "h0 = h\<lparr>ho_files := (ho_files h)(un_env_path u := Regular (RenderEnv u))\<rparr>"
  define h1 where "h1 = h0\<lparr>ho_state := ho_state h, ho_log := ho_log h @ [RestartUnit ?n]\<rparr>"
  have w: "writeEnvFile e u h = (h0, Some True)"
    using assms(2-4) by (simp add: writeEnvFile_def write_if_changed_def h0_def)
  have nf: "activeState h ?n \<noteq> ''failed''" using assms(5) by (simp add: isActive_def)
  have a: "activeState h0 = activeState h" "isActive h0 = isActive h" "activeState h1 = activeState h" "isActive h1 = isActive h"
    by (intro ext; simp add: activeState_def isActive_def h0_def h1_def)+
  have s: "systemctl e (RestartUnit ?n) h0 = (h1, False)" using assms(6) by (simp add: systemctl_def h0_def h1_def)
  have "cycle_unit e ?n True False h0 = (h1, Inl RestartedChanged)"
    using nf assms(5) s by (simp add: cycle_unit_def a)
  then have first: "reconcileUnit e staged built False u h = (h1, ended u DepFailed RestartedChanged, False)"
    using assms(1) w by (simp add: reconcileUnit_def)
  have "writeEnvFile e u h1 = (h1, Some False)" by (simp add: writeEnvFile_def write_if_changed_def h1_def h0_def)
  moreover have "cycle_unit e ?n False False h1 = (h1, Inr NoAction)" using nf assms(5) by (simp add: cycle_unit_def a)
  moreover have "assert_egress e (un_deployment u) DepStarting NoAction h1 = (h1, None)"
    using assms(7) by (simp add: assert_egress_def)
  ultimately have "reconcileUnit e staged built False u h1 = (h1, ended u DepStarting NoAction, False)"
    using assms(1,5) by (simp add: reconcileUnit_def a ended_def)
  with first show ?thesis by (intro exI [of _ h1]) (simp add: h1_def)
qed

section \<open>Reaching the plan\<close>

text \<open>
  \<^verbatim>\<open>systemctl\<close> as it is documented: a start or a restart leaves the unit active, a stop or a reset inactive, a
  reload nothing changed; and the listing names the active units among those the manager knows.
\<close>

definition systemd_works :: "host_env \<Rightarrow> string set \<Rightarrow> bool" where
  "systemd_works e U \<longleftrightarrow>
     (\<forall>n s. he_run e (StartUnit n) s = (s(n := ''active''), True) \<and> he_run e (RestartUnit n) s = (s(n := ''active''), True) \<and>
            he_run e (StopUnit n) s = (s(n := ''inactive''), True) \<and> he_run e (ResetFailed n) s = (s(n := ''inactive''), True) \<and>
            he_run e DaemonReload s = (s, True)) \<and>
     (\<forall>h. \<exists>ns. runningInstances e h = Some ns \<and> set ns = {n \<in> U. isActive h n \<and> has_prefix n ''nodary-model@''}) \<and>
     (\<forall>p. he_writes e p)"

definition writable_place :: "host \<Rightarrow> string \<Rightarrow> bool" where
  "writable_place h p \<longleftrightarrow> ho_files h p = Missing \<or> (\<exists>b. ho_files h p = Regular b)"

lemma trim_words [simp]: "trim_space ''active'' = ''active''" "trim_space ''inactive'' = ''inactive''"
  by (simp_all add: trim_space_def is_space_def)

lemma UnitName_inject [simp]: "UnitName a = UnitName b \<longleftrightarrow> a = b"
  by (simp add: UnitName_def)

lemma write_works:
  assumes "\<forall>p. he_writes e p" "writable_place h p"
  shows "\<exists>c. write_if_changed e p w h = (h\<lparr>ho_files := (ho_files h)(p := Regular w)\<rparr>, Some c)"
  using assms by (auto simp: write_if_changed_def writable_place_def fun_upd_idem)

lemma cycle_works:
  assumes "systemd_works e U" "forced \<or> activeState h n \<noteq> ''failed''"
  shows "\<exists>act h'. cycle_unit e n changed forced h = (h', Inr act) \<and> ho_files h' = ho_files h \<and> ho_asserted h' = ho_asserted h \<and>
    isActive h' n \<and> (\<forall>m. m \<noteq> n \<longrightarrow> ho_state h' m = ho_state h m)"
proof -
  have "he_run e (StartUnit n) s = (s(n := ''active''), True)" "he_run e (RestartUnit n) s = (s(n := ''active''), True)"
    "he_run e (ResetFailed n) s = (s(n := ''inactive''), True)" for s using assms(1) by (simp_all add: systemd_works_def)
  with assms(2) show ?thesis
    by (auto simp: cycle_unit_def start_unit_def systemctl_def isActive_def activeState_def)
qed

lemma assert_egress_verdict:
  assumes "assert_egress e dep DepStarting a h = (h', v)"
  shows "he_probe e \<noteq> None \<Longrightarrow> ho_asserted h' dep \<noteq> None" "d \<noteq> dep \<Longrightarrow> ho_asserted h' d = ho_asserted h d"
  using assms by (auto simp: assert_egress_def conclusive_def Let_def split: if_splits option.splits) metis+

text \<open>What the units \<open>us\<close> are after their turn: up, from their own file, and judged where there is a probe.\<close>

definition made :: "host_env \<Rightarrow> deployment_unit list \<Rightarrow> host \<Rightarrow> host \<Rightarrow> bool" where
  "made e us h h' \<longleftrightarrow>
     (\<forall>u \<in> set us. ho_files h' (un_env_path u) = Regular (RenderEnv u) \<and> isActive h' (UnitName (un_deployment u)) \<and>
        (he_probe e \<noteq> None \<longrightarrow> ho_asserted h' (un_deployment u) \<noteq> None)) \<and>
     (\<forall>p. p \<notin> un_env_path ` set us \<longrightarrow> ho_files h' p = ho_files h p) \<and>
     (\<forall>d. d \<notin> un_deployment ` set us \<longrightarrow> ho_state h' (UnitName d) = ho_state h (UnitName d) \<and> ho_asserted h' d = ho_asserted h d)"

lemma reconcileUnit_works:
  assumes "systemd_works e U" "gate e staged built u = None"
    and "writable_place h (un_env_path u)" "forced \<or> activeState h (UnitName (un_deployment u)) \<noteq> ''failed''"
  shows "\<exists>h' out. reconcileUnit e staged built forced u h = (h', out, forced) \<and> made e [u] h h'"
proof -
  let ?n = "UnitName (un_deployment u)"
  define h1 where "h1 = h\<lparr>ho_files := (ho_files h)(un_env_path u := Regular (RenderEnv u))\<rparr>"
  obtain c where w: "writeEnvFile e u h = (h1, Some c)"
    using write_works [of e h "un_env_path u" "RenderEnv u"] assms(1,3) by (auto simp: writeEnvFile_def systemd_works_def h1_def)
  have "forced \<or> activeState h1 ?n \<noteq> ''failed''" using assms(4) by (simp add: activeState_def h1_def)
  from cycle_works [OF assms(1) this, of c] obtain act h2 where c: "cycle_unit e ?n c forced h1 = (h2, Inr act)"
    "ho_files h2 = ho_files h1" "ho_asserted h2 = ho_asserted h1" "isActive h2 ?n" "\<forall>m. m \<noteq> ?n \<longrightarrow> ho_state h2 m = ho_state h1 m" by blast
  obtain h3 v where a: "assert_egress e (un_deployment u) DepStarting act h2 = (h3, v)" by fastforce
  have "ho_state h3 = ho_state h2" "ho_files h3 = ho_files h2" using assert_egress_log [OF a] by simp_all
  then have "made e [u] h h3"
    using c(2-5) assert_egress_verdict [OF a] by (simp add: made_def h1_def isActive_def activeState_def)
  moreover have "\<exists>out. reconcileUnit e staged built forced u h = (h3, out, forced)"
    using assms(2) w c(1,4) a by (simp add: reconcileUnit_def)
  ultimately show ?thesis by blast
qed

definition may_write :: "plan \<Rightarrow> host \<Rightarrow> deployment_unit \<Rightarrow> bool" where
  "may_write p h u \<longleftrightarrow> writable_place h (un_env_path u) \<and>
     (un_deployment u \<in> set (pl_restart p) \<or> activeState h (UnitName (un_deployment u)) \<noteq> ''failed'')"

lemma made_Nil [simp]: "made e [] h h"
  by (simp add: made_def)

lemma made_Cons:
  assumes "made e [u] h h1" "made e us h1 h'" "un_env_path u \<notin> un_env_path ` set us" "un_deployment u \<notin> un_deployment ` set us"
  shows "made e (u # us) h h'"
  using assms by (auto simp: made_def isActive_def activeState_def)

lemma made_may_write:
  assumes "made e [u] h h1" "may_write p h v" "un_env_path v \<noteq> un_env_path u" "un_deployment v \<noteq> un_deployment u"
  shows "may_write p h1 v"
  using assms by (simp add: made_def may_write_def writable_place_def activeState_def)

abbreviation ready_units :: "host_env \<Rightarrow> plan \<Rightarrow> deployment_unit list \<Rightarrow> deployment_unit list" where
  "ready_units e p us \<equiv> filter (ready_unit e p) us"

lemma reconcile_units_works:
  assumes "systemd_works e U"
  shows "\<forall>u \<in> set (ready_units e p us). may_write p h u \<Longrightarrow>
    distinct (map un_deployment us) \<Longrightarrow> distinct (map un_env_path us) \<Longrightarrow>
    \<exists>h' r'. reconcile_units e p us (h, r) = (h', r') \<and> made e (ready_units e p us) h h' \<and>
      rp_errors r' = rp_errors r \<and> rp_stopped r' = rp_stopped r \<and>
      rp_restart_done r' = rp_restart_done r @ map un_deployment (filter (\<lambda>u. un_deployment u \<in> set (pl_restart p)) (ready_units e p us))"
proof (induction us arbitrary: h r)
  case Nil
  then show ?case by simp
next
  case (Cons u us)
  let ?f = "un_deployment u \<in> set (pl_restart p)"
  have other: "un_env_path v \<noteq> un_env_path u \<and> un_deployment v \<noteq> un_deployment u" if v: "v \<in> set us" for v
    using Cons.prems(2,3) imageI [OF v, of un_env_path] imageI [OF v, of un_deployment] by auto
  show ?case
  proof (cases "ready_unit e p u")
    case True
    then have g: "gate e (staged_of p) (built_of p) u = None" by (simp add: gate_ready)
    have m: "writable_place h (un_env_path u)" "?f \<or> activeState h (UnitName (un_deployment u)) \<noteq> ''failed''"
      using Cons.prems(1) True by (simp_all add: may_write_def)
    from reconcileUnit_works [OF assms g m] obtain h1 out
      where 1: "reconcileUnit e (staged_of p) (built_of p) ?f u h = (h1, out, ?f)" and md: "made e [u] h h1" by blast
    have "\<forall>v \<in> set (ready_units e p us). may_write p h1 v"
      using Cons.prems(1) other by (auto intro: made_may_write [OF md])
    with Cons.prems Cons.IH [of h1 "r\<lparr>rp_units := rp_units r @ [out], rp_restart_done := rp_restart_done r @ (if ?f then [un_deployment u] else [])\<rparr>"]
    obtain h' r' where 2: "reconcile_units e p us (h1, r\<lparr>rp_units := rp_units r @ [out],
        rp_restart_done := rp_restart_done r @ (if ?f then [un_deployment u] else [])\<rparr>) = (h', r')"
      "made e (ready_units e p us) h1 h'" "rp_errors r' = rp_errors r" "rp_stopped r' = rp_stopped r"
      "rp_restart_done r' = (rp_restart_done r @ (if ?f then [un_deployment u] else [])) @
         map un_deployment (filter (\<lambda>u. un_deployment u \<in> set (pl_restart p)) (ready_units e p us))" by auto
    have "made e (u # ready_units e p us) h h'"
      by (rule made_Cons [OF md 2(2)]) (use Cons.prems(2,3) in auto)
    with 1 2 True show ?thesis by auto
  next
    case False
    then obtain out where "gate e (staged_of p) (built_of p) u = Some out" using gate_ready [of e p u] by auto
    then have "reconcileUnit e (staged_of p) (built_of p) ?f u h = (h, out, False)" by (rule reconcileUnit_gated)
    with Cons.prems False Cons.IH [of h "r\<lparr>rp_units := rp_units r @ [out], rp_restart_done := rp_restart_done r @ []\<rparr>"]
    show ?thesis by auto
  qed
qed

lemma judge_policy_report:
  "judge_policy p h vs (r, w) = (r', w') \<Longrightarrow>
   rp_errors r' = rp_errors r \<and> rp_stopped r' = rp_stopped r \<and> rp_restart_done r' = rp_restart_done r"
  by (induction vs arbitrary: r w) (fastforce split: if_splits)+

lemma stop_all_works:
  assumes "systemd_works e U"
  shows "stop_all e wanted ns (h, r) = (h', r') \<Longrightarrow>
    ho_files h' = ho_files h \<and> ho_asserted h' = ho_asserted h \<and> rp_errors r' = rp_errors r \<and> rp_restart_done r' = rp_restart_done r \<and>
    ho_state h' = (\<lambda>n. if n \<in> set ns - set wanted then ''inactive'' else ho_state h n)"
proof (induction ns arbitrary: h r)
  case (Cons n ns)
  show ?case
  proof (cases "n \<in> set wanted")
    case True
    with Cons.prems have "stop_all e wanted ns (h, r) = (h', r')" by simp
    from Cons.IH [OF this] True show ?thesis by auto
  next
    case False
    have "systemctl e (StopUnit n) h = (h\<lparr>ho_state := (ho_state h)(n := ''inactive''), ho_log := ho_log h @ [StopUnit n]\<rparr>, True)"
      using assms by (simp add: systemctl_def systemd_works_def)
    with Cons.prems False have "stop_all e wanted ns (h\<lparr>ho_state := (ho_state h)(n := ''inactive''), ho_log := ho_log h @ [StopUnit n]\<rparr>,
        r\<lparr>rp_stopped := rp_stopped r @ [n]\<rparr>) = (h', r')" by simp
    from Cons.IH [OF this] False show ?thesis by auto
  qed
qed auto

text \<open>
  C25: Where \<^verbatim>\<open>systemctl\<close> does what it is documented to do, one iteration brings a host to the plan.  Every unit
  whose weights, build and image are there runs from the file it should have, with an egress verdict on a host
  that probes; a restart that was asked for is acknowledged; nothing failed; and of nodary's own instances only
  those the plan names and, while the window is closed, deployments out of policy are active.  The node is
  converged as soon as nothing waits for weights or a build, no restart was asked for, nothing is out of policy
  and the verdicts, where there is a probe, are conclusive.  A unit systemd gave up on must be asked to restart.
\<close>

theorem iteration_reaches_the_plan:
  assumes "systemd_works e U"
    and "\<forall>u \<in> set (pl_units p). ready_unit e p u \<longrightarrow> may_write p h u"
    and "\<forall>u \<in> set (pl_units p). un_env_path u \<noteq> Join [he_unit_dir e, TemplateName]"
    and "distinct (map un_deployment (pl_units p))" "distinct (map un_env_path (pl_units p))"
    and "writable_place h (Join [he_unit_dir e, TemplateName])"
  shows "\<exists>h' r. Reconcile e p h = (h', r) \<and> rp_errors r = [] \<and>
    ho_files h' (Join [he_unit_dir e, TemplateName]) = Regular (he_template e) \<and>
    (\<forall>u \<in> set (pl_units p). ready_unit e p u \<longrightarrow>
       ho_files h' (un_env_path u) = Regular (RenderEnv u) \<and> isActive h' (UnitName (un_deployment u)) \<and>
       (he_probe e \<noteq> None \<longrightarrow> ho_asserted h' (un_deployment u) \<noteq> None) \<and>
       (un_deployment u \<in> set (pl_restart p) \<longrightarrow> un_deployment u \<in> set (rp_restart_done r))) \<and>
    (\<forall>n \<in> U. has_prefix n ''nodary-model@'' \<longrightarrow> isActive h' n \<longrightarrow>
       n \<in> (\<lambda>u. UnitName (un_deployment u)) ` set (pl_units p) \<or>
       (\<not> pl_maintenance_open p \<and> n \<in> (\<lambda>v. UnitName (fst v)) ` set (pl_out_of_policy p))) \<and>
    ((\<forall>u \<in> set (pl_units p). ready_unit e p u \<and> un_deployment u \<notin> set (pl_restart p) \<and>
        (he_probe e = None \<or> conclusive (ho_asserted h' (un_deployment u)))) \<and> pl_out_of_policy p = [] \<longrightarrow>
     converged e p h')"
proof -
  let ?t = "Join [he_unit_dir e, TemplateName]" and ?names = "map (\<lambda>u. UnitName (un_deployment u)) (pl_units p)"
  let ?r = "first_report p" and ?us = "ready_units e p (pl_units p)"
  define h0 where "h0 = h\<lparr>ho_files := (ho_files h)(?t := Regular (he_template e))\<rparr>"
  obtain c where c: "EnsureUnitTemplate e h = (h0, Some c)"
    using write_works [of e h ?t "he_template e"] assms(1,6) by (auto simp: EnsureUnitTemplate_def systemd_works_def h0_def)
  obtain h1 where 1: "ensure_template e h = (h1, None)" "ho_files h1 = ho_files h0" "ho_state h1 = ho_state h"
    using c assms(1) by (cases c) (auto simp: ensure_template_def systemctl_def systemd_works_def h0_def)
  have pre: "\<forall>u \<in> set ?us. may_write p h1 u"
    using assms(2,3) 1(2,3) by (auto simp: may_write_def writable_place_def activeState_def h0_def)
  from reconcile_units_works [OF assms(1) pre assms(4,5), of ?r] obtain h2 r2
    where 2: "reconcile_units e p (pl_units p) (h1, ?r) = (h2, r2)" "made e ?us h1 h2" "rp_errors r2 = []"
      "rp_restart_done r2 = map un_deployment (filter (\<lambda>u. un_deployment u \<in> set (pl_restart p)) ?us)"
    by (auto simp: first_report_def)
  obtain r3 w where 3: "judge_policy p h2 (pl_out_of_policy p) (r2, ?names) = (r3, w)" by fastforce
  note jw = judge_policy_wanted [OF 3] and jr = judge_policy_report [OF 3]
  from assms(1) obtain ns where ns: "runningInstances e h2 = Some ns" "set ns = {n \<in> U. isActive h2 n \<and> has_prefix n ''nodary-model@''}"
    unfolding systemd_works_def by blast
  obtain h4 r4 where 4: "stop_all e w ns (h2, r3) = (h4, r4)" by fastforce
  from stop_all_works [OF assms(1) 4] have f: "ho_files h4 = ho_files h2" "ho_asserted h4 = ho_asserted h2" "rp_errors r4 = []"
      "rp_restart_done r4 = rp_restart_done r2"
    and st: "ho_state h4 = (\<lambda>n. if n \<in> set ns - set w then ''inactive'' else ho_state h2 n)" using 2(3) jr by simp_all
  have R: "Reconcile e p h = (h4, r4\<lparr>rp_stopped := sort (rp_stopped r4)\<rparr>)"
    using 1(1) 2(1) 3 ns(1) 4 by (simp add: Reconcile_def)
  have units: "ho_files h4 (un_env_path u) = Regular (RenderEnv u) \<and> isActive h4 (UnitName (un_deployment u)) \<and>
       (he_probe e \<noteq> None \<longrightarrow> ho_asserted h4 (un_deployment u) \<noteq> None) \<and>
       (un_deployment u \<in> set (pl_restart p) \<longrightarrow> un_deployment u \<in> set (rp_restart_done r4))"
    if u: "u \<in> set (pl_units p)" "ready_unit e p u" for u
  proof -
    have "UnitName (un_deployment u) \<in> set w" using jw u(1) by auto
    then have "ho_state h4 (UnitName (un_deployment u)) = ho_state h2 (UnitName (un_deployment u))" using st by simp
    then show ?thesis using 2(2,4) u f by (auto simp: made_def isActive_def activeState_def)
  qed
  have "?t \<notin> un_env_path ` set ?us" using assms(3) by auto
  then have t: "ho_files h4 ?t = Regular (he_template e)" using f(1) 2(2) 1(2) by (simp add: made_def h0_def)
  have act: "n \<in> set ?names \<or> (\<not> pl_maintenance_open p \<and> n \<in> (\<lambda>v. UnitName (fst v)) ` set (pl_out_of_policy p))"
    if n: "n \<in> U" "has_prefix n ''nodary-model@''" "isActive h4 n" for n
  proof -
    have "n \<in> set w"
    proof (rule ccontr)
      assume w: "n \<notin> set w"
      have "isActive h2 n" using n(3) st by (auto simp: isActive_def activeState_def split: if_splits)
      with n(1,2) ns(2) w have "ho_state h4 n = ''inactive''" unfolding st by simp
      with n(3) show False by (simp add: isActive_def activeState_def)
    qed
    then consider "n \<in> set ?names" | "\<not> pl_maintenance_open p" "n \<in> {UnitName (fst v) | v. v \<in> set (pl_out_of_policy p) \<and> isActive h2 (UnitName (fst v))}"
      unfolding jw by (cases "pl_maintenance_open p") auto
    then show ?thesis by cases (simp, blast)
  qed
  have conv: "converged e p h4" if q: "\<forall>u \<in> set (pl_units p). ready_unit e p u \<and> un_deployment u \<notin> set (pl_restart p) \<and>
        (he_probe e = None \<or> conclusive (ho_asserted h4 (un_deployment u)))" "pl_out_of_policy p = []"
  proof -
    have "\<forall>u \<in> set (pl_units p). settled e p h4 u" using q(1) units by (simp add: settled_def gate_ready)
    moreover from assms(1) obtain ns' where ns': "runningInstances e h4 = Some ns'"
      "set ns' = {n \<in> U. isActive h4 n \<and> has_prefix n ''nodary-model@''}" unfolding systemd_works_def by blast
    moreover have "set ns' \<subseteq> set ?names" using act q(2) ns'(2) by auto
    ultimately show ?thesis using t q(2) by (simp add: converged_def)
  qed
  show ?thesis
    by (rule exI [of _ h4], rule exI [of _ "r4\<lparr>rp_stopped := sort (rp_stopped r4)\<rparr>"])
      (use R f(3) t units act conv in \<open>simp add: image_image\<close>)
qed

section \<open>Witnesses\<close>

definition one_unit :: deployment_unit where
  "one_unit =
     \<lparr>un_deployment = ''a'', un_model = ''m'', un_service = UnitName ''a'', un_env_path = ''/e/a.env'', un_env = [(''K'', ''v'')],
      un_probe = \<lparr>up_health = [], up_ready = [], up_timeout = 1\<rparr>, un_gpus = [0], un_port = 1\<rparr>"

definition one_plan :: plan where
  "one_plan =
     \<lparr>pl_rev = 1, pl_node = ''n'', pl_units = [one_unit],
      pl_stage = [\<lparr>sg_model = ''m'', sg_source = ''local'', sg_dir = ''/m'', sg_state = Staged, sg_file = [], sg_bytes = 1, sg_total = 1\<rparr>],
      pl_refused = [], pl_reset_done = [], pl_disabled = [], pl_out_of_policy = [], pl_prepare = [], pl_restart = [], pl_failed = [],
      pl_maintenance_open = False\<rparr>"

text \<open>A manager that knows two instances, the unit of the plan and one it does not name.\<close>

definition two_names :: "string list" where "two_names = [UnitName ''a'', UnitName ''b'']"

definition two_units :: host_env where
  "two_units =
     \<lparr>he_run = (\<lambda>c s. case c of StartUnit n \<Rightarrow> (s(n := ''active''), True) | RestartUnit n \<Rightarrow> (s(n := ''active''), True)
                | StopUnit n \<Rightarrow> (s(n := ''inactive''), True) | ResetFailed n \<Rightarrow> (s(n := ''inactive''), True) | DaemonReload \<Rightarrow> (s, True)),
      he_list = (\<lambda>s. Some (join [CHR 0x0A] (filter (\<lambda>n. trim_space (s n) = ''active'') two_names))),
      he_writes = (\<lambda>_. True), he_image = None, he_probe = None, he_template = ''T'', he_unit_dir = ''/u''\<rparr>"

definition stale_host :: host where
  "stale_host = \<lparr>ho_state = (\<lambda>n. if n = UnitName ''b'' then ''active'' else ''inactive''), ho_files = (\<lambda>_. Missing),
     ho_asserted = (\<lambda>_. None), ho_log = []\<rparr>"

lemma two_units_list: "runningInstances two_units h = Some (filter (isActive h) two_names)"
proof -
  have "Fields (UnitName ''a'') = [UnitName ''a'']" "Fields (UnitName ''b'') = [UnitName ''b'']" "Fields [] = []" by code_simp+
  moreover have "has_prefix (UnitName ''a'') ''nodary-model@''" "has_prefix (UnitName ''b'') ''nodary-model@''" by code_simp+
  moreover have "split_on (CHR 0x0A) (join [CHR 0x0A] ns) = (if ns = [] then [[]] else ns)" if "set ns \<subseteq> set two_names" for ns
  proof -
    have "CHR 0x0A \<notin> set (UnitName ''a'')" "CHR 0x0A \<notin> set (UnitName ''b'')" by (simp_all add: UnitName_def)
    with that have "\<forall>n \<in> set ns. CHR 0x0A \<notin> set n" by (auto simp: two_names_def)
    then show ?thesis by (auto simp: split_on_join)
  qed
  ultimately show ?thesis
    by (simp add: runningInstances_def two_units_def isActive_def activeState_def two_names_def List.map_filter_def)
qed

lemma two_units_work: "systemd_works two_units (set two_names)"
proof -
  have "has_prefix (UnitName ''a'') ''nodary-model@''" "has_prefix (UnitName ''b'') ''nodary-model@''" by code_simp+
  then have "set (filter (isActive h) two_names) = {n \<in> set two_names. isActive h n \<and> has_prefix n ''nodary-model@''}" for h
    by (auto simp: two_names_def)
  then show ?thesis unfolding systemd_works_def two_units_list by (simp add: two_units_def)
qed

lemma one_unit_gate: "gate two_units (staged_of one_plan) (built_of one_plan) one_unit = None"
  by (simp add: gate_def staged_of_def built_of_def one_plan_def last_of_def one_unit_def two_units_def)

text \<open>A host with a probe that cannot tell: the plan is reached, and the verdict stays open.\<close>

definition probing :: host_env where
  "probing = two_units\<lparr>he_probe := Some (\<lambda>dep s. None)\<rparr>"

lemma probing_work: "systemd_works probing (set two_names)"
proof -
  have "runningInstances probing h = runningInstances two_units h" for h
    by (simp add: runningInstances_def probing_def)
  with two_units_work show ?thesis by (simp add: systemd_works_def probing_def)
qed

theorem iteration_reaches_the_plan_witness:
  "\<exists>h' r. Reconcile probing one_plan stale_host = (h', r) \<and> rp_errors r = [] \<and>
     isActive h' (UnitName ''a'') \<and> ho_files h' ''/e/a.env'' = Regular (RenderEnv one_unit) \<and> ho_asserted h' ''a'' \<noteq> None"
proof -
  have t: "Join [he_unit_dir probing, TemplateName] = ''/u/nodary-model@.service''"
    by (simp add: probing_def two_units_def TemplateName_def Join_def Clean_def elems_def path_of_def rooted_def slash_def)
  have u: "pl_units one_plan = [one_unit]" "pl_restart one_plan = []" "un_deployment one_unit = ''a''" "un_env_path one_unit = ''/e/a.env''"
    by (simp_all add: one_plan_def one_unit_def)
  have w: "may_write one_plan stale_host one_unit"
    by (simp add: may_write_def one_unit_def writable_place_def stale_host_def activeState_def)
  have "ready_unit probing one_plan one_unit"
    by (simp add: ready_unit_def staged_of_def built_of_def one_plan_def last_of_def one_unit_def probing_def two_units_def)
  moreover have "writable_place stale_host (Join [he_unit_dir probing, TemplateName])"
    by (simp add: writable_place_def stale_host_def)
  moreover have "he_probe probing \<noteq> None" by (simp add: probing_def)
  ultimately show ?thesis
    using iteration_reaches_the_plan [OF probing_work, of one_plan stale_host] w unfolding t by (auto simp: u)
qed

definition settled_host :: host where
  "settled_host = \<lparr>ho_state = (\<lambda>n. if n = UnitName ''a'' then ''active'' else ''inactive''),
     ho_files = (\<lambda>p. if p = ''/e/a.env'' then Regular (RenderEnv one_unit) else Regular ''T''), ho_asserted = (\<lambda>_. None), ho_log = []\<rparr>"

theorem converged_node_is_left_alone_witness:
  "\<exists>r. Reconcile two_units one_plan settled_host = (settled_host, r) \<and> rp_errors r = []"
proof -
  have "Join [he_unit_dir two_units, TemplateName] \<noteq> ''/e/a.env''"
    by (simp add: two_units_def TemplateName_def Join_def Clean_def elems_def path_of_def rooted_def slash_def)
  moreover have "settled two_units one_plan settled_host one_unit"
    using one_unit_gate by (simp add: settled_def) (simp add: settled_host_def one_unit_def isActive_def activeState_def two_units_def one_plan_def)
  ultimately have "converged two_units one_plan settled_host"
    by (simp add: converged_def two_units_list)
       (simp add: one_plan_def settled_host_def two_units_def two_names_def isActive_def activeState_def one_unit_def)
  from converged_node_is_left_alone [OF this] show ?thesis by blast
qed

theorem iteration_stops_only_what_is_unwanted_witness:
  "\<exists>h' r cs. Reconcile two_units one_plan stale_host = (h', r) \<and> ho_log h' = cs \<and> (\<forall>c \<in> set cs. c \<noteq> StopUnit (UnitName ''a''))"
proof -
  obtain h' r where R: "Reconcile two_units one_plan stale_host = (h', r)" by fastforce
  have l: "lists_active two_units" by (simp add: lists_active_def two_units_list)
  have u: "one_unit \<in> set (pl_units one_plan)" "un_deployment one_unit = ''a''" "ho_log stale_host = []"
    by (simp_all add: one_plan_def one_unit_def stale_host_def)
  from iteration_stops_only_what_is_unwanted [OF R l] obtain cs where c: "ho_log h' = ho_log stale_host @ cs"
    "\<And>c. c \<in> set cs \<Longrightarrow> c = DaemonReload \<or>
     (\<exists>u \<in> set (pl_units one_plan). weights_and_build one_plan u \<and> (\<forall>f. he_image two_units = Some f \<longrightarrow> f (Image u)) \<and>
        c \<in> {StartUnit (UnitName (un_deployment u)), RestartUnit (UnitName (un_deployment u)), ResetFailed (UnitName (un_deployment u))}) \<or>
     (\<exists>n. c = StopUnit n \<and> has_prefix n ''nodary-model@'' \<and> (\<forall>u \<in> set (pl_units one_plan). n \<noteq> UnitName (un_deployment u)) \<and>
        (pl_maintenance_open one_plan \<or> (\<forall>v \<in> set (pl_out_of_policy one_plan). n \<noteq> UnitName (fst v))))" by blast
  have "StopUnit (UnitName ''a'') \<notin> set cs"
  proof
    assume "StopUnit (UnitName ''a'') \<in> set cs"
    from c(2) [OF this] have "\<forall>u \<in> set (pl_units one_plan). UnitName ''a'' \<noteq> UnitName (un_deployment u)" by simp
    with u(1,2) show False by force
  qed
  with R c(1) u(3) show ?thesis by (metis append_Nil)
qed

theorem failed_restart_is_not_retried_witness:
  "\<exists>e h h1. reconcileUnit e (\<lambda>_. Some Staged) (\<lambda>_. None) False one_unit h = (h1, ended one_unit DepFailed RestartedChanged, False) \<and>
     reconcileUnit e (\<lambda>_. Some Staged) (\<lambda>_. None) False one_unit h1 = (h1, ended one_unit DepStarting NoAction, False)"
proof -
  define e where "e = two_units\<lparr>he_run := \<lambda>c s. (s, False)\<rparr>"
  define h where "h = settled_host\<lparr>ho_files := \<lambda>_. Regular ''x''\<rparr>"
  have "gate e (\<lambda>_. Some Staged) (\<lambda>_. None) one_unit = None" by (simp add: gate_def e_def two_units_def)
  moreover have "ho_files h (un_env_path one_unit) = Regular ''x''" "''x'' \<noteq> RenderEnv one_unit" "he_writes e (un_env_path one_unit)"
    "isActive h (UnitName (un_deployment one_unit))"
    "he_run e (RestartUnit (UnitName (un_deployment one_unit))) (ho_state h) = (ho_state h, False)" "he_probe e = None"
    by (simp_all add: h_def e_def two_units_def RenderEnv_def isActive_def activeState_def settled_host_def one_unit_def)
  ultimately show ?thesis using failed_restart_is_not_retried by blast
qed

end
