(* ===== verification/AuditCompare.thy ===== *)
theory AuditCompare
  imports AuditVerify
begin

text \<open>
  The comparison of \<^verbatim>\<open>internal/audit/verify.go\<close>: \<open>bySequence\<close>, which puts a mirror's records in
  sequence order within the reorder window, and \<open>Compare\<close>, which walks the database and the mirror
  together.
\<close>

section \<open>bySequence\<close>

fun fill_seq :: "nat \<Rightarrow> pending \<Rightarrow> source \<Rightarrow> string + pending \<times> source" where
  "fill_seq w p [] = Inr (p, [])"
| "fill_seq w p (x # src) =
     (if \<not> length p < w then Inr (p, x # src)
      else (case x of
              Inl e \<Rightarrow> Inl e
            | Inr r \<Rightarrow>
                (case map_of p (rSeq r) of
                   Some h \<Rightarrow> if rHash h = rHash r then fill_seq w p src else fill_seq w (put (rSeq r) r p) src
                 | None \<Rightarrow> fill_seq w (put (rSeq r) r p) src)))"

lemma length_put: "length (put k v p) \<le> length p + 1"
  by (induction k v p rule: put.induct) auto

lemma fill_seq_measure:
  "fill_seq w p src = Inr (p', src') \<Longrightarrow> length p' + length src' \<le> length p + length src"
proof (induction w p src rule: fill_seq.induct)
  case (2 w p x src)
  show ?case
  proof (cases "length p < w \<and> (\<exists>r. x = Inr r)")
    case True
    then obtain r where x: "x = Inr r" and lp: "length p < w" by blast
    have l: "length (put (rSeq r) r p) \<le> length p + 1" by (rule length_put)
    show ?thesis
    proof (cases "map_of p (rSeq r)")
      case None
      with 2 x lp have "length p' + length src' \<le> length (put (rSeq r) r p) + length src" by simp
      with l show ?thesis by simp
    next
      case (Some h)
      show ?thesis
      proof (cases "rHash h = rHash r")
        case True
        with 2 x lp Some have "length p' + length src' \<le> length p + length src" by simp
        then show ?thesis by simp
      next
        case False
        with 2 x lp Some have "length p' + length src' \<le> length (put (rSeq r) r p) + length src" by simp
        with l show ?thesis by simp
      qed
    qed
  qed (use 2 in \<open>auto split: if_splits sum.splits\<close>)
qed simp

text \<open>An error met while reading ahead ends the sequence: what is still held is not yielded.\<close>

function bySequence :: "nat \<Rightarrow> pending \<Rightarrow> source \<Rightarrow> source" where
  "bySequence w p src =
     (case fill_seq w p src of
        Inl e \<Rightarrow> [Inl e]
      | Inr (p', src') \<Rightarrow>
          if p' = [] then []
          else (case map_of p' (lowest p') of
                  None \<Rightarrow> []
                | Some r \<Rightarrow> Inr r # bySequence w (del (lowest p') p') src'))"
  by pat_completeness auto
termination
proof (relation "measure (\<lambda>(w, p, src). length p + length src)", goal_cases)
  case 1
  then show ?case by simp
next
  case (2 w p src x p' src' r)
  then show ?case using fill_seq_measure [of w p src p' src'] length_del [of p' "lowest p'" r] by simp
qed

declare bySequence.simps [simp del]

section \<open>Compare\<close>

datatype cmp_err = ReadFailed string | InstallMismatch string string

text \<open>
  \<open>nextFile\<close>: the next record of the file past \<open>lastFile\<close>, or the end; a record of another
  installation than the database's unwinds the walk.
\<close>

fun nextFile :: "string \<Rightarrow> int \<Rightarrow> source \<Rightarrow> cmp_err + (int \<times> string) option \<times> source" where
  "nextFile dbInstall lastFile [] = Inr (None, [])"
| "nextFile dbInstall lastFile (Inl e # src) = Inl (ReadFailed e)"
| "nextFile dbInstall lastFile (Inr r # src) =
     (if dbInstall \<noteq> [] \<and> rInstall r \<noteq> dbInstall then Inl (InstallMismatch dbInstall (rInstall r))
      else if rSeq r \<le> lastFile then nextFile dbInstall lastFile src
      else Inr (Some (rSeq r, rHash r), src))"

lemma nextFile_shorter:
  "nextFile i l src = Inr (cur, src') \<Longrightarrow> length src' \<le> length src \<and> (cur \<noteq> None \<longrightarrow> length src' < length src)"
  by (induction i l src rule: nextFile.induct) (auto split: if_splits)

definition empty_cmp :: Comparison where
  "empty_cmp = \<lparr>cInstalls = None, cDiverged = 0, cBehind = 0, cAhead = 0\<rparr>"

text \<open>
  The walk.  \<open>db\<close> is the database's current row and those after it, \<open>dbInstall\<close> the installation of
  the row read last, \<open>cur\<close> the file's current record.
\<close>

function walk :: "Comparison \<Rightarrow> string \<Rightarrow> Record list \<Rightarrow> (int \<times> string) option \<Rightarrow> source \<Rightarrow> cmp_err + Comparison" where
  "walk cmp dbInstall db cur src =
     (case (db, cur) of
        (d # ds, Some (fs, fh)) \<Rightarrow>
          (let next_install = (if ds = [] then dbInstall else rInstall (hd ds)) in
           if rSeq d < fs then walk (cmp\<lparr>cBehind := cBehind cmp + 1\<rparr>) next_install ds cur src
           else if fs < rSeq d then
             (case nextFile dbInstall fs src of
                Inl e \<Rightarrow> Inl e
              | Inr (cur', src') \<Rightarrow> walk (cmp\<lparr>cAhead := cAhead cmp + 1\<rparr>) dbInstall db cur' src')
           else
             (case nextFile next_install fs src of
                Inl e \<Rightarrow> Inl e
              | Inr (cur', src') \<Rightarrow>
                  walk (if rHash d \<noteq> fh \<and> cDiverged cmp = 0 then cmp\<lparr>cDiverged := rSeq d\<rparr> else cmp)
                    next_install ds cur' src'))
      | (d # ds, None) \<Rightarrow>
          walk (cmp\<lparr>cBehind := cBehind cmp + 1\<rparr>) (if ds = [] then dbInstall else rInstall (hd ds)) ds None src
      | ([], Some (fs, fh)) \<Rightarrow>
          (case nextFile dbInstall fs src of
             Inl e \<Rightarrow> Inl e
           | Inr (cur', src') \<Rightarrow> walk (cmp\<lparr>cAhead := cAhead cmp + 1\<rparr>) dbInstall [] cur' src')
      | ([], None) \<Rightarrow> Inr cmp)"
  by pat_completeness auto
termination
  by (relation "measure (\<lambda>(cmp, i, db, cur, src). 2 * length db + 2 * length src + (if cur = None then 0 else 1))")
    (auto dest!: nextFile_shorter split: if_splits)

declare walk.simps [simp del]

text \<open>\<open>mismatchOrError\<close>: a mismatch is an outcome, any other error is an error.\<close>

definition mismatchOrError :: "cmp_err \<Rightarrow> string + Comparison" where
  "mismatchOrError e =
     (case e of ReadFailed s \<Rightarrow> Inl s | InstallMismatch d f \<Rightarrow> Inr (empty_cmp\<lparr>cInstalls := Some (d, f)\<rparr>))"

definition Compare :: "Record list \<Rightarrow> source \<Rightarrow> string + Comparison" where
  "Compare db records =
     (let file = bySequence reorderWindow [] records;
          dbInstall = (if db = [] then [] else rInstall (hd db)) in
      case nextFile dbInstall 0 file of
        Inl e \<Rightarrow> mismatchOrError e
      | Inr (cur, src) \<Rightarrow>
          (case walk empty_cmp dbInstall db cur src of
             Inl e \<Rightarrow> mismatchOrError e
           | Inr cmp \<Rightarrow> Inr cmp))"

section \<open>A mirror in any order the window allows\<close>

lemma put_fresh: "map_of p k = None \<Longrightarrow> put k v p = p @ [(k, v)]"
  by (induction p) (auto split: if_splits)

lemma put_keyed: "keyed p \<Longrightarrow> map_of p (rSeq r) = None \<Longrightarrow> keyed (put (rSeq r) r p)"
  by (auto simp: put_fresh keyed_def map_of_eq_None_iff)

lemma fill_seq_fresh:
  assumes "keyed p" and "distinct (map rSeq xs)" and "\<forall>x \<in> set xs. map_of p (rSeq x) = None"
  obtains p' where "fill_seq w p (map Inr xs) = Inr (p', map Inr (drop (w - length p) xs))"
    "keyed p'" "held p' = held p \<union> set (take (w - length p) xs)"
    "length p' = length p + min (w - length p) (length xs)"
proof -
  have "\<exists>p'. fill_seq w p (map Inr xs) = Inr (p', map Inr (drop (w - length p) xs)) \<and>
    keyed p' \<and> held p' = held p \<union> set (take (w - length p) xs) \<and>
    length p' = length p + min (w - length p) (length xs)"
    using assms
  proof (induction xs arbitrary: p)
    case Nil
    then show ?case by simp
  next
    case (Cons x xs)
    show ?case
    proof (cases "length p < w")
      case False
      with Cons.prems show ?thesis by simp
    next
      case True
      from Cons.prems have n: "map_of p (rSeq x) = None" by simp
      let ?p = "put (rSeq x) x p"
      have fresh: "\<forall>y \<in> set xs. map_of ?p (rSeq y) = None" using Cons.prems by (force simp: image_iff)
      from True obtain m where m: "w - length p = Suc m" "w - length ?p = m"
        by (metis Suc_diff_Suc diff_Suc_Suc length_append_singleton put_fresh [OF n])
      from Cons.IH [OF put_keyed [OF Cons.prems(1) n] _ fresh] Cons.prems m obtain p' where
        "fill_seq w ?p (map Inr xs) = Inr (p', map Inr (drop m xs))"
        "keyed p'" "held p' = held ?p \<union> set (take m xs)"
        "length p' = length ?p + min m (length xs)" by auto
      with True n m show ?thesis by (auto simp: held_def put_fresh [OF n])
    qed
  qed
  then show thesis using that by blast
qed

text \<open>The records of a permutation that are still to come are new and late.\<close>

lemma window_rest:
  assumes rs: "linked sha a rs" and ar: "arrives w rs xs" and "i < length rs"
    and y: "y \<in> set (drop (i + w) xs)"
  shows "rSeq (rs ! i) < rSeq y"
proof -
  have perm: "mset xs = mset rs" using ar by (simp add: arrives_def)
  have dx: "distinct xs"
    using linked_distinct [OF rs] perm by (metis distinct_map mset_eq_imp_distinct_iff)
  have "y \<in> set rs" using y perm by (metis in_set_dropD set_mset_mset)
  then obtain k where k: "k < length rs" "y = rs ! k" by (auto simp: in_set_conv_nth)
  have "\<not> k \<le> i"
  proof
    assume "k \<le> i"
    with k ar have "y \<in> set (take (k + w) xs)" by (simp add: arrives_def)
    then have "y \<in> set (take (i + w) xs)"
      using \<open>k \<le> i\<close> set_take_subset_set_take [of "k + w" "i + w" xs] by auto
    moreover have "distinct (take (i + w) xs @ drop (i + w) xs)" using dx by simp
    ultimately show False using y unfolding distinct_append by auto
  qed
  with k linked_nth [OF rs] assms(3) show ?thesis by simp
qed

lemma bySequence_from:
  assumes rs: "linked sha a rs" "0 \<le> fst a" and ar: "arrives w rs xs" and w: "0 < w"
    and "i \<le> length rs" and "keyed p" and "m = (if i = 0 then 0 else i - 1 + w)"
    and "held p = set (take m xs) - set (take i rs)" and "length p + i = min m (length rs)"
  shows "bySequence w p (map Inr (drop m xs)) = map Inr (drop i rs)"
  using assms(5-9)
proof (induction "length rs - i" arbitrary: i m p)
  case 0
  have len: "length xs = length rs" using ar by (metis arrives_def size_mset)
  from 0 have i: "i = length rs" by simp
  have "length p + i \<le> length rs" unfolding 0(6) by simp
  then have p: "p = []" using i by simp
  have "length xs \<le> m" using 0(4) len i w by (cases "length rs") simp_all
  then have d: "drop m xs = []" by simp
  show ?case unfolding p d i by (subst bySequence.simps) simp
next
  case (Suc d)
  from Suc.hyps(2) have il: "i < length rs" by simp
  define r where "r = rs ! i"
  have perm: "mset xs = mset rs" using ar by (simp add: arrives_def)
  have len: "length xs = length rs" using perm by (metis size_mset)
  have dx: "distinct (map rSeq xs)"
    using linked_distinct [OF rs(1)] perm by (metis mset_eq_imp_distinct_iff mset_map)
  have dr: "distinct rs" using linked_distinct [OF rs(1)] by (simp add: distinct_map)
  have fresh: "\<forall>y \<in> set (drop m xs). map_of p (rSeq y) = None"
  proof (rule ccontr)
    assume "\<not> ?thesis"
    then obtain y z where y: "y \<in> set (drop m xs)" "map_of p (rSeq y) = Some z" by auto
    from keyed_map_of [OF Suc.prems(2) y(2)] have "rSeq z = rSeq y" "z \<in> held p"
      by (force simp: held_def)+
    with Suc.prems(4) have z: "rSeq z = rSeq y" "z \<in> set (take m xs)" by simp_all
    have "distinct (map rSeq (take m xs @ drop m xs))" using dx by simp
    then have "rSeq ` set (take m xs) \<inter> rSeq ` set (drop m xs) = {}"
      unfolding map_append distinct_append by simp
    with y(1) z show False by force
  qed
  have dys: "distinct (map rSeq (drop m xs))" using dx by (simp add: drop_map [symmetric])
  from fill_seq_fresh [OF Suc.prems(2) dys fresh, of w] obtain p' where
    p': "fill_seq w p (map Inr (drop m xs)) = Inr (p', map Inr (drop (w - length p) (drop m xs)))"
    "keyed p'" "held p' = held p \<union> set (take (w - length p) (drop m xs))"
    "length p' = length p + min (w - length p) (length (drop m xs))" by blast
  have rest: "drop (w - length p) (drop m xs) = drop (i + w) xs" and
    tk: "take m xs @ take (w - length p) (drop m xs) = take (i + w) xs"
  proof -
    have "w - length p + m = i + w \<or> length xs \<le> m \<and> length xs \<le> i + w"
    proof (cases "i = 0")
      case True
      with Suc.prems(3,5) show ?thesis by simp
    next
      case False
      with Suc.prems(3,5) len w show ?thesis by (cases "m \<le> length rs") (simp_all, linarith+)
    qed
    then show "drop (w - length p) (drop m xs) = drop (i + w) xs"
      "take m xs @ take (w - length p) (drop m xs) = take (i + w) xs"
      by (auto simp: take_add [symmetric] add.commute)
  qed
  have new: "set (take (w - length p) (drop m xs)) \<inter> set (take i rs) = {}"
  proof (cases i)
    case (Suc j)
    show ?thesis
    proof (rule ccontr)
      assume "\<not> ?thesis"
      then obtain y where y: "y \<in> set (drop m xs)" "y \<in> set (take i rs)" by (auto dest: in_set_takeD)
      from y(2) obtain k where k: "k < i" "y = rs ! k" using il by (auto simp: in_set_conv_nth)
      have "rSeq (rs ! j) < rSeq y"
        using window_rest [OF rs(1) ar, of j y] y(1) Suc il Suc.prems(3) by simp
      with k linked_nth [OF rs(1)] il Suc show False by simp
    qed
  qed simp
  have "set (take (i + w) xs) = set (take m xs) \<union> set (take (w - length p) (drop m xs))"
    using tk by (metis set_append)
  then have h': "held p' = set (take (i + w) xs) - set (take i rs)"
    using p'(3) Suc.prems(4) new by auto
  have rp: "r \<in> held p'" using h' ar il nth_notin_take [OF dr il] by (auto simp: arrives_def r_def)
  have m': "map_of p' (rSeq r) = Some r" by (rule keyed_held_map_of [OF p'(2) rp])
  have low: "lowest p' = rSeq r"
  proof (rule lowest_is)
    show "\<forall>k \<in> set (map fst p'). rSeq r \<le> k"
    proof
      fix k assume "k \<in> set (map fst p')"
      then obtain x where x: "(k, x) \<in> set p'" by auto
      then have "x \<in> held p'" "rSeq x = k" using p'(2) by (force simp: held_def keyed_def)+
      moreover from this have "x \<in> set rs" "x \<notin> set (take i rs)"
        using h' perm by (metis DiffD1 in_set_takeD set_mset_mset, metis DiffD2)
      ultimately obtain j where "j < length rs" "x = rs ! j" "i \<le> j" "rSeq x = k"
        by (metis in_set_conv_nth linorder_not_less nth_take in_set_conv_nth length_take min_less_iff_conj)
      then show "rSeq r \<le> k" using linked_nth [OF rs(1)] il by (auto simp: r_def)
    qed
    show "rSeq r \<in> set (map fst p')" using map_of_SomeD [OF m'] by force
    show "0 < rSeq r" using linked_nth [OF rs(1) il] rs(2) by (simp add: r_def)
  qed
  have step: "bySequence w p (map Inr (drop m xs)) = Inr r # bySequence w (del (rSeq r) p') (map Inr (drop (i + w) xs))"
    using p'(1) m' low rest by (subst bySequence.simps) auto
  have hq: "held p' = insert r (held (del (rSeq r) p'))" by (rule held_del [OF p'(2) m'])
  have nq: "r \<notin> held (del (rSeq r) p')" using p'(2) by (auto simp: held_def del_def keyed_def)
  have ti: "set (take (Suc i) rs) = insert r (set (take i rs))" using il by (simp add: take_Suc_conv_app_nth r_def)
  have "held (del (rSeq r) p') = set (take (i + w) xs) - set (take (Suc i) rs)" using hq nq h' ti by auto
  moreover have "length (del (rSeq r) p') + Suc i = min (i + w) (length rs)"
    using keyed_length_del [OF p'(2) m'] p'(4) Suc.prems(3,5) len il w m'
    by (cases p') (auto simp: min_def split: if_splits)
  ultimately have "bySequence w (del (rSeq r) p') (map Inr (drop (i + w) xs)) = map Inr (drop (Suc i) rs)"
    using Suc.hyps(1) [of "Suc i" "del (rSeq r) p'" "i + w"] Suc.hyps(2) il keyed_del [OF p'(2)] by simp
  with step il show ?case by (simp add: r_def Cons_nth_drop_Suc [symmetric])
qed

lemma bySequence_sorts:
  assumes "linked sha a rs" and "0 \<le> fst a" and "arrives reorderWindow rs xs"
  shows "bySequence reorderWindow [] (map Inr xs) = map Inr rs"
  using bySequence_from [OF assms window_pos, of 0 "[]" 0] by (simp add: held_def)

section \<open>Comparing a database with a mirror that trails it\<close>

lemma nextFile_head:
  assumes "linked sha (n, h) rs" and "\<forall>r \<in> set rs. rInstall r = inst"
  shows "nextFile inst n (map Inr rs) =
    Inr (if rs = [] then (None, []) else (Some (rSeq (hd rs), rHash (hd rs)), map Inr (tl rs)))"
  using assms by (cases rs) auto

lemma walk_behind: "walk cmp inst db None src = Inr (cmp\<lparr>cBehind := cBehind cmp + int (length db)\<rparr>)"
  by (induction db arbitrary: cmp inst) (simp_all add: walk.simps add.assoc)

text \<open>Walking a chain together with a prefix of it meets every record of the prefix once.\<close>

lemma walk_prefix:
  assumes "linked sha (n, h) (rs @ late)" and "\<forall>r \<in> set (rs @ late). rInstall r = inst"
    and "nextFile inst n (map Inr rs) = Inr (cur, src)"
  shows "walk cmp inst (rs @ late) cur src = Inr (cmp\<lparr>cBehind := cBehind cmp + int (length late)\<rparr>)"
  using assms
proof (induction rs arbitrary: n h cur src)
  case Nil
  then show ?case by (simp add: walk_behind)
next
  case (Cons r rs)
  from Cons.prems have n: "n < rSeq r" and l: "linked sha (rSeq r, rHash r) (rs @ late)"
    and i: "rInstall r = inst" "\<forall>x \<in> set (rs @ late). rInstall x = inst" by auto
  from Cons.prems(3) n i have c: "cur = Some (rSeq r, rHash r)" "src = map Inr rs" by auto
  from l have "linked sha (rSeq r, rHash r) rs" by (simp add: linked_append)
  from nextFile_head [OF this, of inst] i(2) obtain cur' src' where
    nf: "nextFile inst (rSeq r) (map Inr rs) = Inr (cur', src')" by (cases "rs = []") auto
  have ni: "(if rs @ late = [] then inst else rInstall (hd (rs @ late))) = inst"
    using i(2) by (cases "rs @ late") auto
  have "walk cmp inst ((r # rs) @ late) cur src = walk cmp inst (rs @ late) cur' src'"
    using nf ni by (subst walk.simps) (simp add: c Let_def)
  with Cons.IH [OF l i(2) nf] show ?case by simp
qed

lemma Compare_prefix:
  assumes "linked sha (0, h) (rs @ late)" and "\<forall>r \<in> set (rs @ late). rInstall r = inst"
    and "arrives reorderWindow rs xs"
  shows "Compare (rs @ late) (map Inr xs) = Inr (empty_cmp\<lparr>cBehind := int (length late)\<rparr>)"
proof -
  have l: "linked sha (0, h) rs" using assms(1) by (simp add: linked_append)
  have s: "bySequence reorderWindow [] (map Inr xs) = map Inr rs"
    by (rule bySequence_sorts [OF l _ assms(3)]) simp
  have e: "cBehind empty_cmp = 0" by (simp add: empty_cmp_def)
  show ?thesis
  proof (cases "rs @ late = []")
    case True
    then show ?thesis using s by (simp add: Compare_def Let_def walk.simps empty_cmp_def)
  next
    case False
    then have i: "rInstall (hd (rs @ late)) = inst" using assms(2) by (metis hd_in_set)
    from nextFile_head [OF l, of inst] assms(2) obtain cur src where
      nf: "nextFile inst 0 (map Inr rs) = Inr (cur, src)" by (cases "rs = []") auto
    from walk_prefix [OF assms(1,2) nf, of empty_cmp] False s i nf show ?thesis
      using e by (auto simp: Compare_def Let_def)
  qed
qed

text \<open>
  a mirror that trails its database is no discrepancy: whatever order its records were
  delivered in within the reorder window, the comparison reports only how many records it lacks.
\<close>

theorem trailing_mirror_agrees:
  assumes "linked sha (0, h) (rs @ late)" and "\<forall>r \<in> set (rs @ late). rInstall r = inst"
    and "arrives reorderWindow rs xs"
  shows "Compare (rs @ late) (map Inr xs) =
    Inr \<lparr>cInstalls = None, cDiverged = 0, cBehind = int (length late), cAhead = 0\<rparr>"
  using Compare_prefix [OF assms] by (simp add: empty_cmp_def)

theorem trailing_mirror_agrees_witness:
  "Compare [sample_r1, sample_r2] [Inr sample_r1] = Inr \<lparr>cInstalls = None, cDiverged = 0, cBehind = 1, cAhead = 0\<rparr>"
proof -
  have l: "linked sample_sha (0, GenesisPrevHash) ([sample_r1] @ [sample_r2])" using sample_linked by simp
  have i: "\<forall>r \<in> set ([sample_r1] @ [sample_r2]). rInstall r = ''ins_0''" by (simp add: sample_fields)
  from trailing_mirror_agrees [OF l i arrives_self [OF window_pos]] show ?thesis by simp
qed

end
