(* ===== verification/IdentityProps.thy ===== *)
theory IdentityProps
  imports Identity
begin

text \<open>
  What the identity tables keep under every mutation of \<open>Identity\<close>: an invariant, states that only
  advance, credentials that stay withdrawn, and join tokens that are spent exactly.
\<close>

section \<open>Roles\<close>

lemma rank_zero: "rank r = 0 \<longleftrightarrow> \<not> role_Valid r"
proof -
  have "index_of r xs = None \<longleftrightarrow> r \<notin> set xs" for xs by (induction xs) auto
  from this [of Roles] show ?thesis by (auto simp: rank_def role_Valid_def split: option.split)
qed

lemma minimumRole_rank: "minimumRole p = Some m \<Longrightarrow> 0 < rank m"
proof -
  assume "minimumRole p = Some m"
  then have "m \<in> set Roles"
    by (auto simp: minimumRole_def Roles_def split: if_splits dest!: map_of_SomeD)
  then show ?thesis using rank_zero [of m] by (auto simp: role_Valid_def)
qed

text \<open>
  Roles are cumulative and permissions fail closed.  A role may do all a role of lower rank may, an
  unknown role may do nothing, a permission that is not in the table is held by nobody, an
  administrator included, and every permission in the table is held by an administrator.
\<close>

theorem roles_are_cumulative:
  "(Can r p \<and> rank r \<le> rank r' \<longrightarrow> Can r' p) \<and> (\<not> role_Valid r \<longrightarrow> \<not> Can r p) \<and>
   (minimumRole p = None \<longrightarrow> \<not> Can r p) \<and> (minimumRole p \<noteq> None \<longrightarrow> Can RoleAdmin p)"
proof (intro conjI impI)
  show "Can r' p" if "Can r p \<and> rank r \<le> rank r'" using that by (auto simp: Can_def split: option.splits)
  show "\<not> Can r p" if "\<not> role_Valid r"
    using that rank_zero [of r] minimumRole_rank [of p] by (auto simp: Can_def split: option.splits)
  show "\<not> Can r p" if "minimumRole p = None" using that by (simp add: Can_def)
  show "Can RoleAdmin p" if "minimumRole p \<noteq> None"
  proof -
    have "rank m \<le> rank RoleAdmin" for m
    proof -
      have i: "index_of m Roles = Some i \<Longrightarrow> i < length Roles" for i
      proof -
        have "index_of m xs = Some i \<Longrightarrow> i < length xs" for xs i by (induction xs arbitrary: i) (auto split: if_splits)
        then show "index_of m Roles = Some i \<Longrightarrow> i < length Roles" .
      qed
      have "rank RoleAdmin = 4" by code_simp
      moreover have "length Roles = 4" by code_simp
      ultimately show ?thesis using i by (auto simp: rank_def split: option.split)
    qed
    then show ?thesis using that by (auto simp: Can_def split: option.split)
  qed
qed

theorem roles_are_cumulative_witness:
  "Can RoleOperator ''inference.use'' \<and> \<not> Can ''root'' ''state.read'' \<and> \<not> Can RoleAdmin ''nothing'' \<and>
   Can RoleAdmin ''policy.apply''"
proof -
  have c: "Can RoleUser ''inference.use'' \<and> rank RoleUser \<le> rank RoleOperator" by code_simp
  have v: "\<not> role_Valid ''root''" by code_simp
  have n: "minimumRole ''nothing'' = None" by code_simp
  have s: "minimumRole ''policy.apply'' \<noteq> None" by code_simp
  show ?thesis
    using roles_are_cumulative [of RoleUser "''inference.use''" RoleOperator]
      roles_are_cumulative [of "''root''" "''state.read''" "''root''"]
      roles_are_cumulative [of RoleAdmin "''nothing''" RoleAdmin]
      roles_are_cumulative [of RoleAdmin "''policy.apply''" RoleAdmin] c v n s by blast
qed

lemma find_in: "find P xs = Some x \<Longrightarrow> x \<in> set xs \<and> P x"
  by (auto simp: find_Some_iff)

section \<open>The invariant\<close>

definition live :: "user_row list \<Rightarrow> user_row list" where
  "live us = filter (\<lambda>r. ur_state r \<noteq> StateDeleted) us"

definition id_db_ok :: "id_db \<Rightarrow> bool" where
  "id_db_ok db \<longleftrightarrow>
     distinct (map ur_id (d_users db)) \<and> distinct (map ur_name (live (d_users db))) \<and>
     (\<forall>r \<in> set (d_users db). user_row_ok r) \<and>
     distinct (map tk_id (d_tokens db)) \<and> distinct (map tk_hash (d_tokens db)) \<and>
     (\<forall>t \<in> set (d_tokens db). \<exists>u \<in> set (d_users db). ur_id u = tk_user t) \<and>
     distinct (map jn_hash (d_joins db)) \<and> (\<forall>j \<in> set (d_joins db). 0 \<le> jn_uses j)"

text \<open>A later state of the tables: rows stay, states advance, withdrawals stay.\<close>

definition state_rank :: "string \<Rightarrow> nat" where
  "state_rank s = (if s = StateActive then 0 else if s = StateDeleted then 2 else 1)"

definition user_later :: "user_row \<Rightarrow> user_row \<Rightarrow> bool" where
  "user_later r r' \<longleftrightarrow> ur_id r' = ur_id r \<and> ur_name r' = ur_name r \<and> ur_role r' = ur_role r \<and>
     ur_created r' = ur_created r \<and> state_rank (ur_state r) \<le> state_rank (ur_state r')"

definition token_later :: "token_row \<Rightarrow> token_row \<Rightarrow> bool" where
  "token_later t t' \<longleftrightarrow> tk_id t' = tk_id t \<and> tk_hash t' = tk_hash t \<and> tk_user t' = tk_user t \<and> tk_kind t' = tk_kind t \<and>
     tk_expires t' = tk_expires t \<and> (tk_revoked t = None \<or> tk_revoked t' = tk_revoked t)"

definition join_later :: "join_row \<Rightarrow> join_row \<Rightarrow> bool" where
  "join_later j j' \<longleftrightarrow> jn_hash j' = jn_hash j \<and> jn_expires j' = jn_expires j \<and> jn_uses j' \<le> jn_uses j"

definition rows_later :: "('a \<Rightarrow> 'a \<Rightarrow> bool) \<Rightarrow> 'a list \<Rightarrow> 'a list \<Rightarrow> bool" where
  "rows_later R xs ys \<longleftrightarrow> length xs \<le> length ys \<and> list_all2 R xs (take (length xs) ys)"

definition db_later :: "id_db \<Rightarrow> id_db \<Rightarrow> bool" where
  "db_later db db' \<longleftrightarrow> rows_later user_later (d_users db) (d_users db') \<and>
     rows_later token_later (d_tokens db) (d_tokens db') \<and> rows_later join_later (d_joins db) (d_joins db')"

lemma rows_later_map: "(\<And>x. x \<in> set xs \<Longrightarrow> R x (f x)) \<Longrightarrow> rows_later R xs (map f xs)"
  by (auto simp: rows_later_def list_all2_conv_all_nth)

lemma rows_later_append: "(\<And>x. R x x) \<Longrightarrow> rows_later R xs (xs @ ys)"
  by (simp add: rows_later_def list_all2_refl)

lemma rows_later_refl: "(\<And>x. R x x) \<Longrightarrow> rows_later R xs xs"
  by (simp add: rows_later_def list_all2_refl)

lemma rows_later_trans:
  assumes "rows_later R xs ys" and "rows_later R ys zs" and "\<And>x y z. R x y \<Longrightarrow> R y z \<Longrightarrow> R x z"
  shows "rows_later R xs zs"
  using assms by (fastforce simp: rows_later_def list_all2_conv_all_nth)

lemma rows_later_in:
  assumes "rows_later R xs ys" and "x \<in> set xs"
  shows "\<exists>y \<in> set ys. R x y"
proof -
  from assms(2) obtain i where i: "i < length xs" "x = xs ! i" by (auto simp: in_set_conv_nth)
  with assms(1) have "R x (ys ! i)" "ys ! i \<in> set ys" by (auto simp: rows_later_def list_all2_conv_all_nth)
  then show ?thesis by blast
qed

lemma later_refl [simp]: "user_later r r" "token_later t t" "join_later j j"
  by (simp_all add: user_later_def token_later_def join_later_def)

lemma later_trans:
  "user_later r r' \<Longrightarrow> user_later r' r'' \<Longrightarrow> user_later r r''"
  "token_later t t' \<Longrightarrow> token_later t' t'' \<Longrightarrow> token_later t t''"
  "join_later j j' \<Longrightarrow> join_later j' j'' \<Longrightarrow> join_later j j''"
  by (auto simp: user_later_def token_later_def join_later_def)

lemma later_deleted: "user_later r r' \<Longrightarrow> ur_state r = StateDeleted \<Longrightarrow> ur_state r' = StateDeleted"
  by (simp add: user_later_def state_rank_def StateActive_def StateDeleted_def split: if_splits)

lemma db_later_refl [simp]: "db_later db db"
  by (simp add: db_later_def rows_later_refl)

lemma db_later_trans: "db_later a b \<Longrightarrow> db_later b c \<Longrightarrow> db_later a c"
  by (auto simp: db_later_def intro: rows_later_trans later_trans)

text \<open>What the writes of the tables do.\<close>

lemma insert_user_ok:
  "id_db_ok db \<Longrightarrow> insert_user r db = Inr db' \<Longrightarrow> id_db_ok db' \<and> db_later db db'"
  by (auto simp: insert_user_def id_db_ok_def db_later_def live_def rows_later_append rows_later_refl image_iff
      split: if_splits) (metis+)?

lemma insert_token_ok:
  "id_db_ok db \<Longrightarrow> insert_token r db = Inr db' \<Longrightarrow> id_db_ok db' \<and> db_later db db'"
  by (auto simp: insert_token_def id_db_ok_def db_later_def rows_later_append rows_later_refl image_iff
      split: if_splits) (metis+)?

lemma insert_join_ok:
  "id_db_ok db \<Longrightarrow> insert_join r db = Inr db' \<Longrightarrow> id_db_ok db' \<and> db_later db db'"
  by (auto simp: insert_join_def id_db_ok_def db_later_def rows_later_append rows_later_refl image_iff
      split: if_splits) (metis+)?

lemma map_tokens_ok:
  assumes "id_db_ok db" and "\<And>t. t \<in> set (d_tokens db) \<Longrightarrow> token_later t (f t)"
  shows "id_db_ok (db\<lparr>d_tokens := map f (d_tokens db)\<rparr>)" and "db_later db (db\<lparr>d_tokens := map f (d_tokens db)\<rparr>)"
proof -
  have same: "map (tk_id \<circ> f) (d_tokens db) = map tk_id (d_tokens db)"
    "map (tk_hash \<circ> f) (d_tokens db) = map tk_hash (d_tokens db)"
    "\<forall>t \<in> set (d_tokens db). tk_user (f t) = tk_user t"
    using assms(2) by (auto simp: token_later_def)
  then show "id_db_ok (db\<lparr>d_tokens := map f (d_tokens db)\<rparr>)"
    using assms(1) by (simp add: id_db_ok_def del: map_eq_conv)
  show "db_later db (db\<lparr>d_tokens := map f (d_tokens db)\<rparr>)"
    using assms(2) by (simp add: db_later_def rows_later_refl rows_later_map)
qed

lemma spend_join_ok:
  assumes "id_db_ok db"
  shows "id_db_ok (spend_join h now db)" and "db_later db (spend_join h now db)"
proof -
  have "map (jn_hash \<circ> (\<lambda>r. if spendable h now r then r\<lparr>jn_uses := jn_uses r - 1\<rparr> else r)) (d_joins db) =
      map jn_hash (d_joins db)" by auto
  then show "id_db_ok (spend_join h now db)"
    using assms unfolding spend_join_def id_db_ok_def by (auto simp del: map_eq_conv) (auto simp: spendable_def)
  show "db_later db (spend_join h now db)"
    by (auto simp: spend_join_def db_later_def rows_later_refl join_later_def intro!: rows_later_map)
qed

lemma distinct_live_map:
  assumes "distinct (map ur_name (live us))"
    and "\<And>r. r \<in> set us \<Longrightarrow> ur_name (f r) = ur_name r \<and> (ur_state r = StateDeleted \<longrightarrow> ur_state (f r) = StateDeleted)"
  shows "distinct (map ur_name (live (map f us)))"
  using assms
proof (induction us)
  case (Cons r us)
  have "ur_name ` set (live (map f us)) \<subseteq> ur_name ` set (live us)"
    using Cons.prems(2) by (fastforce simp: live_def)
  with Cons show ?case by (auto simp: live_def split: if_splits)
qed (simp add: live_def)

lemma update_user_ok:
  assumes ok: "id_db_ok db" and up: "update_user key f db = Inr db'"
    and f: "\<And>r. r \<in> set (d_users db) \<Longrightarrow> ur_id r = key \<Longrightarrow> user_later r (f r)"
  shows "id_db_ok db' \<and> db_later db db'"
proof -
  let ?g = "\<lambda>r. if ur_id r = key then f r else r"
  have g: "user_later r (?g r)" if "r \<in> set (d_users db)" for r using f that by simp
  have db': "db' = db\<lparr>d_users := map ?g (d_users db)\<rparr>"
    and rows: "\<forall>r \<in> set (map ?g (d_users db)). ur_id r = key \<longrightarrow> user_row_ok r"
    using up by (auto simp: update_user_def Let_def split: if_splits)
  have ids: "map (ur_id \<circ> ?g) (d_users db) = map ur_id (d_users db)"
    using g by (auto simp: user_later_def)
  have all: "\<forall>r \<in> set (map ?g (d_users db)). user_row_ok r"
    using rows ok f by (auto simp: id_db_ok_def user_later_def)
  have names: "distinct (map ur_name (live (map ?g (d_users db))))"
  proof (rule distinct_live_map)
    show "distinct (map ur_name (live (d_users db)))" using ok by (simp add: id_db_ok_def)
    fix r assume "r \<in> set (d_users db)"
    from g [OF this] later_deleted [OF g [OF this]]
    show "ur_name (?g r) = ur_name r \<and> (ur_state r = StateDeleted \<longrightarrow> ur_state (?g r) = StateDeleted)"
      by (simp add: user_later_def)
  qed
  have "\<forall>t \<in> set (d_tokens db). \<exists>u \<in> set (map ?g (d_users db)). ur_id u = tk_user t"
    using ok ids by (metis (no_types, lifting) id_db_ok_def image_iff list.set_map map_map)
  then have "id_db_ok db'" using ok ids all names unfolding db' by (simp add: id_db_ok_def del: map_eq_conv)
  moreover have "db_later db db'"
    unfolding db' using g by (simp add: db_later_def rows_later_refl rows_later_map)
  ultimately show ?thesis ..
qed

section \<open>Every mutation keeps the invariant\<close>

lemma best_row_in: "best_row rs = Some r \<Longrightarrow> r \<in> set rs"
  by (induction rs arbitrary: r) (auto split: option.splits if_splits)

lemma Get_row:
  assumes "Get db name = Inr u"
  obtains r where "r \<in> set (d_users db)" "ur_name r = name" "scanUser r = Inr u"
    "us_id u = ur_id r" "us_state u = ur_state r" "us_name u = name"
proof -
  from assms obtain r where b: "best_row (filter (\<lambda>r. ur_name r = name) (d_users db)) = Some r" "scanUser r = Inr u"
    by (cases "best_row (filter (\<lambda>r. ur_name r = name) (d_users db))") (simp_all add: Get_def scan_one_def)
  have "r \<in> set (d_users db) \<and> ur_name r = name" using best_row_in [OF b(1)] by simp
  moreover have "us_id u = ur_id r \<and> us_state u = ur_state r \<and> us_name u = ur_name r" using b(2) by (auto simp: scanUser_def)
  ultimately show thesis using that b(2) by auto
qed

lemma same_id: "id_db_ok db \<Longrightarrow> r \<in> set (d_users db) \<Longrightarrow> r' \<in> set (d_users db) \<Longrightarrow> ur_id r = ur_id r' \<Longrightarrow> r = r'"
  by (auto simp: id_db_ok_def distinct_map dest: inj_onD)

lemma prepare_row:
  assumes "prepare by name to db = Inr u" and "id_db_ok db"
  shows "to \<in> set (transitions (us_state u))"
    and "r \<in> set (d_users db) \<Longrightarrow> ur_id r = us_id u \<Longrightarrow> ur_state r = us_state u"
proof -
  have g: "Get db name = Inr u" and t: "to \<in> set (transitions (us_state u))"
    using assms(1) by (auto simp: prepare_def split: if_splits)
  show "to \<in> set (transitions (us_state u))" by (fact t)
  show "ur_state r = us_state u" if "r \<in> set (d_users db)" "ur_id r = us_id u"
    using g that same_id [OF assms(2)] by (metis Get_row)
qed

lemma transitions_rank: "to \<in> set (transitions s) \<Longrightarrow> state_rank s \<le> state_rank to"
  by (auto simp: transitions_def state_rank_def StateActive_def StateSuspended_def StateDeleted_def split: if_splits)

lemma writeState_ok:
  assumes "writeState u to db = Inr (db', d)" and "id_db_ok db" and "to \<in> set (transitions (us_state u))"
    and "\<And>r. r \<in> set (d_users db) \<Longrightarrow> ur_id r = us_id u \<Longrightarrow> ur_state r = us_state u"
  shows "id_db_ok db' \<and> db_later db db'"
proof -
  have up: "update_user (us_id u) (\<lambda>r. r\<lparr>ur_state := to\<rparr>) db = Inr db'"
    using assms(1) by (auto simp: writeState_def)
  show ?thesis
    by (rule update_user_ok [OF assms(2) up])
      (use assms(3,4) transitions_rank in \<open>auto simp: user_later_def\<close>)
qed

lemma Suspend_ok:
  assumes "Suspend by name db = Inr (u, db', d)" and "id_db_ok db"
  shows "id_db_ok db' \<and> db_later db db'"
proof -
  from assms(1) have p: "prepare by name StateSuspended db = Inr u" "writeState u StateSuspended db = Inr (db', d)"
    by (auto simp: Suspend_def)
  from writeState_ok [OF p(2) assms(2) prepare_row(1) [OF p(1) assms(2)] prepare_row(2) [OF p(1) assms(2)]]
  show ?thesis .
qed

lemma token_later_revoke: "tk_revoked t = None \<Longrightarrow> token_later t (t\<lparr>tk_revoked := x\<rparr>)"
  by (simp add: token_later_def)

lemma revoke_all_ok:
  "id_db_ok db \<Longrightarrow> id_db_ok (revoke_all now user db) \<and> db_later db (revoke_all now user db)"
  unfolding revoke_all_def by (intro conjI map_tokens_ok) (auto intro: token_later_revoke)

lemma Delete_parts:
  assumes "Delete by now name db = Inr (u, db', d)"
  obtains u0 db1 d1 where "prepare by name StateDeleted db = Inr u0" "update_user (us_id u0) scrub_seed db = Inr db1"
    "writeState (u0\<lparr>us_totp := False\<rparr>) StateDeleted (revoke_all now (us_id u0) db1) = Inr (db', d1)"
    "u = u0\<lparr>us_totp := False\<rparr>"
  using assms by (auto simp: Delete_def Let_def)

lemma Delete_ok:
  assumes "Delete by now name db = Inr (u, db', d)" and "id_db_ok db"
  shows "id_db_ok db' \<and> db_later db db'"
proof -
  from assms(1) obtain u0 db1 d1 where p: "prepare by name StateDeleted db = Inr u0"
    "update_user (us_id u0) scrub_seed db = Inr db1"
    "writeState (u0\<lparr>us_totp := False\<rparr>) StateDeleted (revoke_all now (us_id u0) db1) = Inr (db', d1)"
    by (rule Delete_parts)
  note row = prepare_row [OF p(1) assms(2)]
  have 1: "id_db_ok db1 \<and> db_later db db1"
    by (rule update_user_ok [OF assms(2) p(2)]) (simp add: user_later_def scrub_seed_def)
  have 2: "id_db_ok (revoke_all now (us_id u0) db1) \<and> db_later db1 (revoke_all now (us_id u0) db1)"
    using 1 by (simp add: revoke_all_ok)
  have users: "d_users db1 = map (\<lambda>r. if ur_id r = us_id u0 then scrub_seed r else r) (d_users db)"
    using p(2) by (auto simp: update_user_def Let_def split: if_splits)
  have "ur_state r = us_state u0" if "r \<in> set (d_users (revoke_all now (us_id u0) db1))" "ur_id r = us_id u0" for r
    using that row(2) by (auto simp: revoke_all_def users scrub_seed_def split: if_splits)
  then have "id_db_ok db' \<and> db_later (revoke_all now (us_id u0) db1) db'"
    using 2 row(1) by (intro writeState_ok [OF p(3)]) auto
  with 1 2 show ?thesis by (blast intro: db_later_trans)
qed

lemma Add_ok:
  assumes "Add rnd by now name email role db = Inr (u, db', d)" and "id_db_ok db"
  shows "id_db_ok db' \<and> db_later db db'"
proof -
  from assms(1) obtain r where "insert_user r db = Inr db'"
    by (auto simp: Add_def Let_def split: if_splits sum.splits ident_err.splits)
  from insert_user_ok [OF assms(2) this] show ?thesis .
qed

lemma MintToken_ok:
  assumes "MintToken sha secret rnd by now user kind name expires un db = Inr (x, db', d)" and "id_db_ok db"
  shows "id_db_ok db' \<and> db_later db db'"
proof -
  from assms(1) obtain r where "insert_token r db = Inr db'"
    by (auto simp: MintToken_def Let_def split: if_splits)
  from insert_token_ok [OF assms(2) this] show ?thesis .
qed

lemma Touch_ok:
  assumes "Touch now key db = Inr db'" and "id_db_ok db"
  shows "id_db_ok db' \<and> db_later db db'"
proof -
  let ?f = "\<lambda>t. if tk_id t = key then t\<lparr>tk_used := Some (formatTime (truncateTime now))\<rparr> else t"
  have "db' = db\<lparr>d_tokens := map ?f (d_tokens db)\<rparr>" using assms(1) by (auto simp: Touch_def split: if_splits)
  then show ?thesis using assms(2) by (auto simp: token_later_def intro!: map_tokens_ok)
qed

lemma token_by_id: "id_db_ok db \<Longrightarrow> x \<in> set (d_tokens db) \<Longrightarrow> y \<in> set (d_tokens db) \<Longrightarrow> tk_id x = tk_id y \<Longrightarrow> x = y"
  by (auto simp: id_db_ok_def distinct_map dest: inj_onD)

lemma token_by_hash: "id_db_ok db \<Longrightarrow> x \<in> set (d_tokens db) \<Longrightarrow> y \<in> set (d_tokens db) \<Longrightarrow> tk_hash x = tk_hash y \<Longrightarrow> x = y"
  by (auto simp: id_db_ok_def distinct_map dest: inj_onD)

lemma scanToken_fields:
  "scanToken r = Inr t \<Longrightarrow> t_id t = tk_id r \<and> t_user t = tk_user r \<and> t_kind t = tk_kind r \<and> t_prefix t = tk_prefix r \<and>
     read_null_time (tk_revoked r) = Inr (t_revoked t) \<and> read_null_time (tk_expires r) = Inr (t_expires t)"
  by (auto simp: scanToken_def)

definition revoked_readable :: "id_db \<Rightarrow> bool" where
  "revoked_readable db \<longleftrightarrow> (\<forall>t \<in> set (d_tokens db). tk_revoked t = None \<or>
     (\<exists>s. tk_revoked t = Some s \<and> read_time s \<noteq> Inr zero_time))"

lemma RevokeToken_parts:
  assumes "RevokeToken by now key db = Inr (t, db', d)"
  obtains r t0 where "find (\<lambda>t. tk_id t = key) (d_tokens db) = Some r" "scanToken r = Inr t0" "\<not> Revoked t0"
    "db' = db\<lparr>d_tokens := map (\<lambda>r. if tk_id r = key then r\<lparr>tk_revoked := Some (formatTime (truncateTime now))\<rparr> else r)
       (d_tokens db)\<rparr>"
proof -
  from assms obtain t0 where t0: "TokenByID db key = Inr t0" "\<not> Revoked t0"
    "db' = db\<lparr>d_tokens := map (\<lambda>r. if tk_id r = t_id t0 then r\<lparr>tk_revoked := Some (formatTime (truncateTime now))\<rparr> else r)
       (d_tokens db)\<rparr>"
    by (auto simp: RevokeToken_def Let_def split: if_splits)
  from t0(1) obtain r where r: "find (\<lambda>t. tk_id t = key) (d_tokens db) = Some r" "scanToken r = Inr t0"
    by (auto simp: TokenByID_def split: option.splits)
  then have "t_id t0 = key" using scanToken_fields [OF r(2)] by (auto simp: find_Some_iff)
  with that r t0 show thesis by blast
qed

lemma RevokeToken_ok:
  assumes "RevokeToken by now key db = Inr (t, db', d)" and "id_db_ok db" and "revoked_readable db"
  shows "id_db_ok db' \<and> db_later db db'"
proof -
  obtain r t0 where p: "find (\<lambda>t. tk_id t = key) (d_tokens db) = Some r" "scanToken r = Inr t0" "\<not> Revoked t0"
    "db' = db\<lparr>d_tokens := map (\<lambda>r. if tk_id r = key then r\<lparr>tk_revoked := Some (formatTime (truncateTime now))\<rparr> else r)
       (d_tokens db)\<rparr>"
    by (rule RevokeToken_parts [OF assms(1)])
  have r: "r \<in> set (d_tokens db)" "tk_id r = key" using p(1) by (auto simp: find_Some_iff)
  have "tk_revoked r = None"
    using scanToken_fields [OF p(2)] p(3) assms(3) r(1)
    by (auto simp: revoked_readable_def Revoked_def read_null_time_def)
  then have "token_later x (if tk_id x = key then x\<lparr>tk_revoked := Some (formatTime (truncateTime now))\<rparr> else x)"
    if "x \<in> set (d_tokens db)" for x
    using token_by_id [OF assms(2) that r(1)] r(2) by (auto intro: token_later_revoke)
  from map_tokens_ok [OF assms(2) this] show ?thesis unfolding p(4) by simp
qed

lemma MintJoinToken_ok:
  assumes "MintJoinToken sha secret rnd by now creator uses expires db = Inr (x, db', d)" and "id_db_ok db"
  shows "id_db_ok db' \<and> db_later db db'"
proof -
  from assms(1) obtain r where "insert_join r db = Inr db'"
    by (auto simp: MintJoinToken_def Let_def split: if_splits)
  from insert_join_ok [OF assms(2) this] show ?thesis .
qed

lemma RedeemJoinToken_ok:
  assumes "RedeemJoinToken sha now plaintext db = Inr (x, db', d)" and "id_db_ok db"
  shows "id_db_ok db' \<and> db_later db db'"
proof -
  from assms(1) have "db' = spend_join (sha plaintext) now db"
    by (auto simp: RedeemJoinToken_def Let_def split: if_splits option.splits)
  with spend_join_ok [OF assms(2)] show ?thesis by simp
qed

section \<open>Histories\<close>

text \<open>One committed mutation of the identity tables.\<close>

inductive id_step :: "(string \<Rightarrow> string) \<Rightarrow> id_db \<Rightarrow> id_db \<Rightarrow> bool" for sha where
  add: "Add rnd by now name email role db = Inr (u, db', d) \<Longrightarrow> id_step sha db db'"
| suspend: "Suspend by name db = Inr (u, db', d) \<Longrightarrow> id_step sha db db'"
| delete: "Delete by now name db = Inr (u, db', d) \<Longrightarrow> id_step sha db db'"
| mint: "MintToken sha secret rnd by now user kind name expires un db = Inr (x, db', d) \<Longrightarrow> id_step sha db db'"
| touch: "Touch now key db = Inr db' \<Longrightarrow> id_step sha db db'"
| revoke: "RevokeToken by now key db = Inr (t, db', d) \<Longrightarrow> revoked_readable db \<Longrightarrow> id_step sha db db'"
| mint_join: "MintJoinToken sha secret rnd by now creator uses expires db = Inr (j, db', d) \<Longrightarrow> id_step sha db db'"
| redeem: "RedeemJoinToken sha now plaintext db = Inr (j', db', d) \<Longrightarrow> id_step sha db db'"

lemma id_step_ok: "id_step sha db db' \<Longrightarrow> id_db_ok db \<Longrightarrow> id_db_ok db' \<and> db_later db db'"
  by (induction rule: id_step.induct)
    (blast dest: Add_ok Suspend_ok Delete_ok MintToken_ok Touch_ok RevokeToken_ok MintJoinToken_ok RedeemJoinToken_ok)+

lemma id_steps_ok:
  "(id_step sha)\<^sup>*\<^sup>* db db' \<Longrightarrow> id_db_ok db \<Longrightarrow> id_db_ok db' \<and> db_later db db'"
  by (induction rule: rtranclp_induct) (auto dest: id_step_ok intro: db_later_trans)

text \<open>A credential whose row is marked withdrawn, or whose account may not sign in.\<close>

definition withdrawn :: "(string \<Rightarrow> string) \<Rightarrow> string \<Rightarrow> id_db \<Rightarrow> bool" where
  "withdrawn sha presented db \<longleftrightarrow>
     (\<exists>t \<in> set (d_tokens db). tk_hash t = sha presented \<and>
        ((\<exists>s. tk_revoked t = Some s \<and> read_time s \<noteq> Inr zero_time) \<or>
         (\<exists>u \<in> set (d_users db). ur_id u = tk_user t \<and> ur_state u \<noteq> StateActive)))"

lemma state_rank_active: "state_rank s = 0 \<longleftrightarrow> s = StateActive"
  by (simp add: state_rank_def)

lemma withdrawn_later:
  assumes "withdrawn sha presented db" and "db_later db db'"
  shows "withdrawn sha presented db'"
proof -
  obtain t where t: "t \<in> set (d_tokens db)" "tk_hash t = sha presented"
    "(\<exists>s. tk_revoked t = Some s \<and> read_time s \<noteq> Inr zero_time) \<or>
     (\<exists>u \<in> set (d_users db). ur_id u = tk_user t \<and> ur_state u \<noteq> StateActive)"
    using assms(1) by (auto simp: withdrawn_def)
  obtain t' where t': "t' \<in> set (d_tokens db')" "token_later t t'"
    using rows_later_in [OF _ t(1)] assms(2) by (auto simp: db_later_def)
  have "\<exists>u' \<in> set (d_users db'). ur_id u' = tk_user t \<and> ur_state u' \<noteq> StateActive"
    if u: "u \<in> set (d_users db)" "ur_id u = tk_user t" "ur_state u \<noteq> StateActive" for u
  proof -
    obtain u' where "u' \<in> set (d_users db')" "user_later u u'"
      using rows_later_in [OF _ u(1)] assms(2) by (auto simp: db_later_def)
    then show ?thesis using u(2,3) state_rank_active [of "ur_state u"] state_rank_active [of "ur_state u'"]
      by (auto simp: user_later_def)
  qed
  then show ?thesis using t t' unfolding withdrawn_def token_later_def by (metis option.distinct(1))
qed

lemma Authenticate_Inr:
  assumes "Authenticate sha db now presented = Inr (u, t)"
  obtains r where "r \<in> set (d_tokens db)" "tk_hash r = sha presented" "scanToken r = Inr t" "\<not> Revoked t"
    "\<not> Expired t now" "kindOf presented = Some (tk_kind r)" "GetByID db (tk_user r) = Inr u" "Active u"
proof -
  from assms obtain kind where k: "kindOf presented = Some kind" by (auto simp: Authenticate_def split: option.splits)
  obtain t0 where t0: "tokenByHash db (sha presented) = Inr t0"
    using assms k by (auto simp: Authenticate_def split: sum.splits ident_err.splits)
  with assms k have rest: "t_kind t0 = kind" "\<not> Revoked t0" "\<not> Expired t0 now" "t = t0"
    "GetByID db (t_user t0) = Inr u" "Active u"
    by (auto simp: Authenticate_def split: if_splits)
  from t0 obtain r where r: "find (\<lambda>t. tk_hash t = sha presented) (d_tokens db) = Some r" "scanToken r = Inr t0"
    by (auto simp: tokenByHash_def split: option.splits)
  have "r \<in> set (d_tokens db)" "tk_hash r = sha presented" using r(1) by (auto simp: find_Some_iff)
  with that r(2) rest k scanToken_fields [OF r(2)] show thesis by auto
qed

lemma withdrawn_fails:
  assumes "withdrawn sha presented db" and "id_db_ok db"
  shows "Authenticate sha db now presented \<noteq> Inr (u, t)"
proof
  assume "Authenticate sha db now presented = Inr (u, t)"
  then obtain r where r: "r \<in> set (d_tokens db)" "tk_hash r = sha presented" "scanToken r = Inr t" "\<not> Revoked t"
    "GetByID db (tk_user r) = Inr u" "Active u" by (rule Authenticate_Inr)
  obtain t0 where t0: "t0 \<in> set (d_tokens db)" "tk_hash t0 = sha presented"
    "(\<exists>s. tk_revoked t0 = Some s \<and> read_time s \<noteq> Inr zero_time) \<or>
     (\<exists>u \<in> set (d_users db). ur_id u = tk_user t0 \<and> ur_state u \<noteq> StateActive)"
    using assms(1) by (auto simp: withdrawn_def)
  have same: "t0 = r" using token_by_hash [OF assms(2) t0(1) r(1)] t0(2) r(2) by simp
  have "read_null_time (tk_revoked r) = Inr (t_revoked t)" using scanToken_fields [OF r(3)] by simp
  then have "\<not> (\<exists>s. tk_revoked r = Some s \<and> read_time s \<noteq> Inr zero_time)"
    using r(4) by (auto simp: Revoked_def read_null_time_def)
  then obtain x where x: "x \<in> set (d_users db)" "ur_id x = tk_user r" "ur_state x \<noteq> StateActive"
    using t0(3) same by auto
  obtain y where y: "y \<in> set (d_users db)" "ur_id y = tk_user r" "scanUser y = Inr u"
    using r(5) by (auto simp: GetByID_def scan_one_def dest!: find_in split: option.splits)
  have "x = y" using same_id [OF assms(2) x(1) y(1)] x(2) y(2) by simp
  with x(3) y(3) r(6) show False by (auto simp: scanUser_def Active_def)
qed

text \<open>
  C18: Withdrawal is final.  Once a credential has been revoked, or its account suspended or deleted,
  presenting it authenticates nobody, at any instant, in any state that any sequence of committed
  mutations of the identity tables leads to.
\<close>

theorem withdrawal_is_final:
  assumes "id_db_ok db" and "withdrawn sha presented db" and "(id_step sha)\<^sup>*\<^sup>* db db'"
  shows "Authenticate sha db' now presented \<noteq> Inr (u, t)"
  using id_steps_ok [OF assms(3,1)] withdrawn_later [OF assms(2)] withdrawn_fails by blast

definition sample_sha64 :: "string \<Rightarrow> string" where
  "sample_sha64 s = take 64 (s @ replicate 64 (CHR ''0''))"

definition sample_user :: user_row where
  "sample_user = \<lparr>ur_id = ''usr_1'', ur_name = ''alice'', ur_email = None, ur_role = ''operator'', ur_state = ''active'',
     ur_seed = None, ur_step = None, ur_enrolled = None, ur_password = None, ur_created = ''2026-01-02T03:04:05.006Z''\<rparr>"

definition sample_token :: token_row where
  "sample_token = \<lparr>tk_id = ''tok_1'', tk_user = ''usr_1'', tk_kind = ''pt'', tk_hash = sample_sha64 ''nodary_pt_x'',
     tk_prefix = ''nodary_pt_x'', tk_name = None, tk_expires = None, tk_revoked = Some ''2026-02-02T03:04:05.006Z'',
     tk_used = None, tk_unattended = False, tk_created = ''2026-01-02T03:04:05.006Z''\<rparr>"

definition sample_id_db :: id_db where
  "sample_id_db = \<lparr>d_users = [sample_user], d_tokens = [sample_token], d_joins = []\<rparr>"

theorem withdrawal_is_final_witness:
  "\<exists>db'. Touch 5 ''tok_1'' sample_id_db = Inr db' \<and> (\<forall>u t. Authenticate sample_sha64 db' 7 ''nodary_pt_x'' \<noteq> Inr (u, t))"
proof -
  have ok: "id_db_ok sample_id_db"
    by (simp add: id_db_ok_def sample_id_db_def sample_user_def sample_token_def live_def user_row_ok_def has_prefix_def
        Roles_def RoleOperator_def StateActive_def StateDeleted_def)
  have "read_time ''2026-02-02T03:04:05.006Z'' \<noteq> Inr zero_time" by code_simp
  then have w: "withdrawn sample_sha64 ''nodary_pt_x'' sample_id_db"
    by (simp add: withdrawn_def sample_id_db_def sample_token_def)
  obtain db' where t: "Touch 5 ''tok_1'' sample_id_db = Inr db'" by (simp add: Touch_def)
  then have "(id_step sample_sha64)\<^sup>*\<^sup>* sample_id_db db'" by (blast intro: id_step.touch)
  from withdrawal_is_final [OF ok w this] t show ?thesis by blast
qed

section \<open>Withdrawing and issuing\<close>

lemma find_map_same: "(\<And>x. P (f x) = P x) \<Longrightarrow> find P (map f xs) = map_option f (find P xs)"
  by (induction xs) auto

lemma read_formatTime: "four_digit_year t \<Longrightarrow> read_time (formatTime t) = Inr (trunc_ms t)"
  by (simp add: read_time_def formatTime_def parse_format_ts)

lemma Suspend_withdraws:
  assumes "Suspend by name db = Inr (u, db', d)" and "id_db_ok db" and "t \<in> set (d_tokens db)" and "tk_user t = us_id u"
    and "tk_hash t = sha presented"
  shows "withdrawn sha presented db'"
proof -
  from assms(1) have p: "prepare by name StateSuspended db = Inr u" "writeState u StateSuspended db = Inr (db', d)"
    by (auto simp: Suspend_def)
  then obtain r where r: "r \<in> set (d_users db)" "ur_id r = us_id u"
    by (auto simp: prepare_def elim!: Get_row split: if_splits)
  have "db' = db\<lparr>d_users := map (\<lambda>r. if ur_id r = us_id u then r\<lparr>ur_state := StateSuspended\<rparr> else r) (d_users db)\<rparr>"
    using p(2) by (auto simp: writeState_def update_user_def Let_def split: if_splits)
  then have "t \<in> set (d_tokens db')" "r\<lparr>ur_state := StateSuspended\<rparr> \<in> set (d_users db')"
    using r assms(3) by (auto intro: rev_image_eqI)
  then show ?thesis unfolding withdrawn_def
    using r assms(4,5) by (intro bexI [of _ t] conjI disjI2 bexI [of _ "r\<lparr>ur_state := StateSuspended\<rparr>"])
      (auto simp: StateSuspended_def StateActive_def)
qed

lemma RevokeToken_withdraws:
  assumes "RevokeToken by now key db = Inr (t0, db', d)" and "t \<in> set (d_tokens db)" and "tk_id t = key"
    and "tk_hash t = sha presented" and "four_digit_year (truncateTime now)" and "trunc_ms (truncateTime now) \<noteq> zero_time"
  shows "withdrawn sha presented db'"
proof -
  have "db' = db\<lparr>d_tokens := map (\<lambda>r. if tk_id r = key then r\<lparr>tk_revoked := Some (formatTime (truncateTime now))\<rparr> else r)
       (d_tokens db)\<rparr>"
    by (rule RevokeToken_parts [OF assms(1)])
  moreover have "read_time (formatTime (truncateTime now)) \<noteq> Inr zero_time"
    using assms(5,6) by (simp add: read_formatTime)
  moreover from calculation(1) have "t\<lparr>tk_revoked := Some (formatTime (truncateTime now))\<rparr> \<in> set (d_tokens db')"
    using assms(2,3) by (auto intro: rev_image_eqI)
  ultimately show ?thesis unfolding withdrawn_def
    using assms(4) by (intro bexI [of _ "t\<lparr>tk_revoked := Some (formatTime (truncateTime now))\<rparr>"]) auto
qed

lemma trunc_ms_idem [simp]: "trunc_ms (trunc_ms t) = trunc_ms t"
  by (simp add: trunc_ms_def mod_diff_left_eq flip: mod_diff_left_eq)

lemma trunc_zero [simp]: "trunc_ms zero_time = zero_time"
  by (simp add: trunc_ms_def zero_time_def)

lemma truncateTime_trunc: "truncateTime t = trunc_ms t"
  by (simp add: truncateTime_def)

lemma four_digit_trunc [simp]: "four_digit_year (trunc_ms t) = four_digit_year t"
proof -
  have "trunc_ms t = t div 1000000 * 1000000" by (simp add: trunc_ms_def minus_mod_eq_mult_div)
  then show ?thesis by (simp add: four_digit_year_def)
qed

lemma read_nullableTime: "four_digit_year t \<Longrightarrow> read_null_time (nullableTime (trunc_ms t)) = Inr (trunc_ms t)"
  by (simp add: nullableTime_def read_null_time_def read_formatTime)

text \<open>
  A stored instant reads back.  What \<open>truncateTime\<close> keeps of an instant with a four digit year is
  what scanning the text that \<open>formatTime\<close> stores gives back, and comparing it against itself after the
  round trip finds no difference.
\<close>

theorem stored_instant_reads_back:
  assumes "four_digit_year t"
  shows "read_time (formatTime t) = Inr (truncateTime t) \<and>
    read_time (formatTime (truncateTime t)) = Inr (truncateTime t) \<and>
    read_null_time (nullableTime (truncateTime t)) = Inr (truncateTime t)"
  using assms by (simp add: read_formatTime read_nullableTime truncateTime_trunc)

theorem stored_instant_reads_back_witness:
  "read_time (formatTime 1767323045006789000) = Inr 1767323045006000000"
proof -
  have "four_digit_year 1767323045006789000" by code_simp
  from stored_instant_reads_back [OF this] show ?thesis by (simp add: truncateTime_trunc trunc_ms_def)
qed

lemma find_snoc: "(\<And>x. x \<in> set xs \<Longrightarrow> \<not> P x) \<Longrightarrow> P y \<Longrightarrow> find P (xs @ [y]) = Some y"
  by (induction xs) auto

lemma label_kept:
  assumes "name = [] \<or> checkEmail name = Inr ()"
  shows "null_text (nullable_text name) = name"
proof (cases "trim_space name = [] \<and> name \<noteq> []")
  case True
  then obtain c s where n: "name = c # s" by (cases name) auto
  have "is_space c"
  proof (rule ccontr)
    assume c: "\<not> is_space c"
    then have "trim_space name = rev (dropWhile is_space (rev s @ [c]))" by (simp add: n trim_space_def)
    then have "dropWhile is_space (rev s @ [c]) = []" using True by simp
    then have "\<forall>x \<in> set (rev s @ [c]). is_space x" by (simp only: dropWhile_eq_Nil_conv)
    with c show False by simp
  qed
  then have c: "(of_char c :: nat) \<le> 0x20" by (auto simp: is_space_def)
  then have "take_rune (bytes name) = Some (of_char c, bytes s)" by (simp add: n bytes_def)
  then have "of_char c \<in> set (runes (bytes name))" by (simp add: n bytes_def)
  then have "checkEmail name \<noteq> Inr ()" using c n by (auto simp: checkEmail_def blank_rune_def)
  with assms True show ?thesis by simp
qed (auto simp: nullable_text_def null_text_def)

lemma kindOf_minted: "kind \<in> set userKinds \<Longrightarrow> kindOf (Prefix kind @ b) = Some kind"
  by (auto simp: kindOf_def userKinds_def Kinds_def KindPersonal_def KindService_def KindJoin_def Prefix_def has_prefix_def)

lemma mint_checks_parts:
  assumes "mint_checks by now userName kind name expires db = Inr u"
  shows "Get db userName = Inr u" and "Active u" and "kind \<in> set userKinds"
    and "name = [] \<or> checkEmail name = Inr ()" and "expires = zero_time \<or> now < expires"
  using assms by (auto simp: mint_checks_def split: if_splits)

lemma MintToken_parts:
  assumes "MintToken sha secret rnd by now userName kind name expires un db = Inr ((t, plain), db', d)"
  obtains u b key where "mint_checks by now userName kind name expires db = Inr u" "plain = Prefix kind @ b"
    "t = minted key u kind plain name expires now un" "insert_token (minted_row (sha plain) t) db = Inr db'"
  using assms by (auto simp: MintToken_def mintSecret_def Let_def split: option.splits)

lemma GetByID_Get:
  assumes "Get db name = Inr u" and "id_db_ok db" and "d_users db' = d_users db"
  shows "GetByID db' (us_id u) = Inr u"
proof -
  from assms(1) obtain r where r: "r \<in> set (d_users db)" "scanUser r = Inr u" "us_id u = ur_id r" by (rule Get_row)
  obtain x where x: "find (\<lambda>x. ur_id x = us_id u) (d_users db) = Some x"
    using r by (cases "find (\<lambda>x. ur_id x = us_id u) (d_users db)") (auto simp: find_None_iff)
  from find_in [OF x] same_id [OF assms(2) _ r(1)] r(3) have "x = r" by auto
  with x r(2) assms(3) show ?thesis by (simp add: GetByID_def scan_one_def)
qed

lemma read_null_None: "read_null_time None = Inr zero_time"
  by (simp add: read_null_time_def)

lemma scan_minted:
  assumes "four_digit_year now" and "four_digit_year expires" and "name = [] \<or> checkEmail name = Inr ()"
  shows "scanToken (minted_row h (minted key u kind plain name expires now un)) = Inr (minted key u kind plain name expires now un)"
  using assms by (simp add: scanToken_def minted_row_def minted_def truncateTime_trunc read_nullableTime read_formatTime
      label_kept read_null_None)

text \<open>
  A minted credential signs in, until its date.  After \<open>MintToken\<close>, presenting the plaintext gives
  back the account and the very credential that was minted at every instant before its expiry, and
  from the expiry on it is refused as expired.
\<close>

theorem minted_credential_signs_in:
  assumes "id_db_ok db" and "MintToken sha secret rnd by now userName kind name expires un db = Inr ((t, plain), db', d)"
    and "0 \<le> now" and "four_digit_year now" and "four_digit_year expires"
  shows "\<exists>u. Get db userName = Inr u \<and> (\<forall>now'. Authenticate sha db' now' plain =
    (if expires \<noteq> zero_time \<and> trunc_ms expires \<le> now' then Inl (ErrTokenExpired (t_prefix t)) else Inr (u, t)))"
proof -
  obtain u b key where p: "mint_checks by now userName kind name expires db = Inr u" "plain = Prefix kind @ b"
    "t = minted key u kind plain name expires now un" "insert_token (minted_row (sha plain) t) db = Inr db'"
    by (rule MintToken_parts [OF assms(2)])
  note c = mint_checks_parts [OF p(1)]
  let ?r = "minted_row (sha plain) t"
  have db': "db' = db\<lparr>d_tokens := d_tokens db @ [?r]\<rparr>" and fresh: "\<And>x. x \<in> set (d_tokens db) \<Longrightarrow> tk_hash x \<noteq> sha plain"
    using p(4) by (auto simp: insert_token_def minted_row_def split: if_splits)
  have hash: "tk_hash ?r = sha plain" by (simp add: minted_row_def)
  have "scanToken ?r = Inr t" unfolding p(3) by (rule scan_minted [OF assms(4,5) c(4)])
  then have tok: "tokenByHash db' (sha plain) = Inr t"
    using find_snoc [of "d_tokens db" "\<lambda>t. tk_hash t = sha plain" ?r] fresh hash by (simp add: tokenByHash_def db')
  have fields: "t_kind t = kind" "t_user t = us_id u" "\<not> Revoked t" "t_expires t = trunc_ms expires"
    by (simp_all add: p(3) minted_def Revoked_def truncateTime_trunc)
  have "zero_time < trunc_ms expires" if "expires \<noteq> zero_time"
  proof -
    have "0 \<le> expires" using that c(5) assms(3) by simp
    then have "0 \<le> trunc_ms expires" by (simp add: trunc_ms_def minus_mod_eq_mult_div)
    then show ?thesis by (simp add: zero_time_def)
  qed
  then have ex: "Expired t now' \<longleftrightarrow> expires \<noteq> zero_time \<and> trunc_ms expires \<le> now'" for now'
    unfolding Expired_def fields by (cases "expires = zero_time") auto
  have "GetByID db' (us_id u) = Inr u" by (rule GetByID_Get [OF c(1) assms(1)]) (simp add: db')
  with tok fields c(2) kindOf_minted [OF c(3)] p(2) ex show ?thesis
    using c(1) by (intro exI [of _ u]) (simp add: Authenticate_def)
qed

theorem minted_credential_signs_in_witness:
  "\<exists>t plain db' d u. MintToken sample_sha64 (Some ''y'') (Some ''2'') ''admin'' 5 ''alice'' ''sk'' '''' zero_time False
      sample_id_db = Inr ((t, plain), db', d) \<and> Authenticate sample_sha64 db' 9 plain = Inr (u, t)"
proof -
  have ok: "id_db_ok sample_id_db"
    by (simp add: id_db_ok_def sample_id_db_def sample_user_def sample_token_def live_def user_row_ok_def has_prefix_def
        Roles_def RoleOperator_def StateActive_def StateDeleted_def)
  have "case MintToken sample_sha64 (Some ''y'') (Some ''2'') ''admin'' 5 ''alice'' ''sk'' '''' zero_time False sample_id_db
      of Inl e \<Rightarrow> False | Inr x \<Rightarrow> True" by code_simp
  then obtain t plain db' d where
    m: "MintToken sample_sha64 (Some ''y'') (Some ''2'') ''admin'' 5 ''alice'' ''sk'' '''' zero_time False sample_id_db
      = Inr ((t, plain), db', d)" by (auto split: sum.splits)
  have y: "four_digit_year 5" "four_digit_year zero_time" by code_simp+
  from minted_credential_signs_in [OF ok m _ y] m show ?thesis by auto
qed

section \<open>Join tokens\<close>

text \<open>A sequence of attempts to redeem; an attempt that fails changes nothing.\<close>

fun redemptions :: "(string \<Rightarrow> string) \<Rightarrow> (int \<times> string) list \<Rightarrow> id_db \<Rightarrow> bool list" where
  "redemptions sha [] db = []"
| "redemptions sha ((now, plaintext) # rest) db =
     (case RedeemJoinToken sha now plaintext db of
        Inl e \<Rightarrow> False # redemptions sha rest db
      | Inr (j, db', d) \<Rightarrow> True # redemptions sha rest db')"

lemma join_by_hash: "id_db_ok db \<Longrightarrow> x \<in> set (d_joins db) \<Longrightarrow> y \<in> set (d_joins db) \<Longrightarrow> jn_hash x = jn_hash y \<Longrightarrow> x = y"
  by (auto simp: id_db_ok_def distinct_map dest: inj_onD)

lemma find_join:
  assumes "id_db_ok db" and "r \<in> set (d_joins db)"
  shows "find (\<lambda>x. jn_hash x = jn_hash r) (d_joins db) = Some r"
proof -
  obtain x where "find (\<lambda>x. jn_hash x = jn_hash r) (d_joins db) = Some x"
    using assms(2) by (cases "find (\<lambda>x. jn_hash x = jn_hash r) (d_joins db)") (auto simp: find_None_iff)
  with find_in [OF this] join_by_hash [OF assms(1) _ assms(2)] show ?thesis by auto
qed

lemma redeem_spends:
  assumes ok: "id_db_ok db" and r: "r \<in> set (d_joins db)" and h: "jn_hash r = sha plain"
    and pre: "has_prefix plain (Prefix KindJoin)" and j: "scan_join r = Inr j"
  shows "spendable (sha plain) now r \<Longrightarrow> \<exists>j' d. RedeemJoinToken sha now plain db = Inr (j', spend_join (sha plain) now db, d) \<and>
      r\<lparr>jn_uses := jn_uses r - 1\<rparr> \<in> set (d_joins (spend_join (sha plain) now db))"
    and "\<not> spendable (sha plain) now r \<Longrightarrow> \<exists>e. RedeemJoinToken sha now plain db = Inl e"
proof -
  let ?h = "sha plain"
  let ?f = "\<lambda>r. if spendable ?h now r then r\<lparr>jn_uses := jn_uses r - 1\<rparr> else r"
  have found: "find (\<lambda>x. jn_hash x = ?h) (d_joins (spend_join ?h now db)) = Some (?f r)"
    using find_join [OF ok r] by (simp add: spend_join_def find_map_same h)
  have spent: "filter (spendable ?h now) (d_joins db) = [] \<longleftrightarrow> \<not> spendable ?h now r"
  proof
    assume "filter (spendable ?h now) (d_joins db) = []"
    then show "\<not> spendable ?h now r" using r by (auto simp: filter_empty_conv)
  next
    assume n: "\<not> spendable ?h now r"
    have "\<not> spendable ?h now x" if "x \<in> set (d_joins db)" for x
      using n join_by_hash [OF ok that r] h by (cases "jn_hash x = ?h") (auto simp: spendable_def)
    then show "filter (spendable ?h now) (d_joins db) = []" by (simp add: filter_empty_conv)
  qed
  have scan: "scan_join (?f r) = Inr (if spendable ?h now r then j\<lparr>j_uses := jn_uses r - 1\<rparr> else j)"
    using j by (auto simp: scan_join_def)
  show "\<exists>j' d. RedeemJoinToken sha now plain db = Inr (j', spend_join ?h now db, d) \<and>
      r\<lparr>jn_uses := jn_uses r - 1\<rparr> \<in> set (d_joins (spend_join ?h now db))" if s: "spendable ?h now r"
  proof -
    have "r\<lparr>jn_uses := jn_uses r - 1\<rparr> \<in> set (d_joins (spend_join ?h now db))"
      using r s by (auto simp: spend_join_def intro: rev_image_eqI)
    then show ?thesis using found spent scan s pre by (simp add: RedeemJoinToken_def Let_def)
  qed
  show "\<exists>e. RedeemJoinToken sha now plain db = Inl e" if s: "\<not> spendable ?h now r"
    using found spent scan s pre by (simp add: RedeemJoinToken_def Let_def)
qed

text \<open>
  C19: A join token is spent exactly.  However many enrollments present it and in whatever order they
  arrive, the number that succeed is the smaller of its uses left and the number of attempts that come
  before its expiry.
\<close>

theorem join_token_is_spent_exactly:
  assumes "id_db_ok db" and "r \<in> set (d_joins db)" and "jn_hash r = sha plain"
    and "has_prefix plain (Prefix KindJoin)" and "scan_join r = Inr j"
  shows "length (filter id (redemptions sha (map (\<lambda>now. (now, plain)) nows) db)) =
    min (nat (jn_uses r)) (length (filter (\<lambda>now. formatTime now < jn_expires r) nows))"
  using assms
proof (induction nows arbitrary: db r j)
  case Nil
  show ?case by simp
next
  case (Cons now nows)
  show ?case
  proof (cases "spendable (sha plain) now r")
    case True
    let ?db = "spend_join (sha plain) now db" and ?r = "r\<lparr>jn_uses := jn_uses r - 1\<rparr>"
    obtain j' d where s: "RedeemJoinToken sha now plain db = Inr (j', ?db, d)" "?r \<in> set (d_joins ?db)"
      using redeem_spends(1) [of db r sha plain j now, OF Cons.prems True] by blast
    have "scan_join ?r = Inr (j\<lparr>j_uses := jn_uses r - 1\<rparr>)" using Cons.prems(5) by (auto simp: scan_join_def)
    from Cons.IH [OF spend_join_ok(1) [OF Cons.prems(1)] s(2) _ Cons.prems(4) this] Cons.prems(3) True s(1)
    show ?thesis by (auto simp: spendable_def min_def nat_diff_distrib split: if_splits)
  next
    case False
    then obtain e where "RedeemJoinToken sha now plain db = Inl e" using redeem_spends(2) [of db r sha plain j now, OF Cons.prems] by blast
    with Cons.IH [OF Cons.prems] False Cons.prems(3) show ?thesis by (auto simp: spendable_def)
  qed
qed

definition sample_join :: join_row where
  "sample_join = \<lparr>jn_id = ''jt_1'', jn_hash = sample_sha64 ''nodary_jt_z'', jn_prefix = ''nodary_jt_z'', jn_uses = 2,
     jn_expires = ''2026-01-02T04:04:05.006Z'', jn_by = ''usr_1'', jn_created = ''2026-01-02T03:04:05.006Z''\<rparr>"

theorem join_token_is_spent_exactly_witness:
  "length (filter id (redemptions sample_sha64 (map (\<lambda>now. (now, ''nodary_jt_z'')) [0, 1, 2])
      (sample_id_db\<lparr>d_joins := [sample_join]\<rparr>))) = 2"
proof -
  have ok: "id_db_ok (sample_id_db\<lparr>d_joins := [sample_join]\<rparr>)"
    by (simp add: id_db_ok_def sample_id_db_def sample_user_def sample_token_def live_def user_row_ok_def has_prefix_def
        Roles_def RoleOperator_def StateActive_def StateDeleted_def sample_join_def)
  have "case scan_join sample_join of Inl e \<Rightarrow> False | Inr j \<Rightarrow> True" by code_simp
  then obtain j where j: "scan_join sample_join = Inr j" by (auto split: sum.splits)
  have h: "jn_hash sample_join = sample_sha64 ''nodary_jt_z''" "has_prefix ''nodary_jt_z'' (Prefix KindJoin)"
    by (simp_all add: sample_join_def has_prefix_def Prefix_def KindJoin_def)
  have t: "formatTime 0 < jn_expires sample_join" "formatTime 1 < jn_expires sample_join" "formatTime 2 < jn_expires sample_join"
    by code_simp+
  show ?thesis
    using join_token_is_spent_exactly [of _ sample_join sample_sha64 "''nodary_jt_z''" j "[0, 1, 2]", OF ok _ h j] t
    by (simp add: sample_join_def)
qed

end
