(* ===== verification/Secret.thy ===== *)
theory Secret
  imports Timestamps
begin

text \<open>
  \<^verbatim>\<open>internal/secret/secret.go\<close>: the key file, the keyring and the sealed format.  Bytes are
  \<^typ>\<open>string\<close>; SHA-256 (raw), HKDF and AES-GCM under the zero nonce are the functions of a
  \<open>crypto\<close> record.  I/O failures other than a missing file are not modelled.
\<close>

section \<open>Keys\<close>

record crypto =
  cr_sha :: "string \<Rightarrow> string"
  cr_hkdf :: "string \<Rightarrow> string \<Rightarrow> string \<Rightarrow> string"
  cr_seal :: "string \<Rightarrow> string \<Rightarrow> string \<Rightarrow> string"
  cr_open :: "string \<Rightarrow> string \<Rightarrow> string \<Rightarrow> string option"

datatype secret_err = ErrNotExist | ErrBadPermissions | ErrMalformedKey | ErrDuplicateKey | ErrUnknownKey string
  | ErrBadCiphertext | ErrNoRandom | ErrNotGenerated

definition keyBytes :: nat where "keyBytes = 32"
definition keyIDBytes :: nat where "keyIDBytes = 4"
definition saltBytes :: nat where "saltBytes = 24"
definition headerBytes :: nat where "headerBytes = 1 + keyIDBytes + saltBytes"
definition formatVersion :: char where "formatVersion = CHR 0x01"
definition keyIDInfo :: string where "keyIDInfo = ''nodary/secret/keyid/v1''"
definition subkeyInfo :: string where "subkeyInfo = ''nodary/secret/aead/v1''"

record keyMaterial =
  km_id :: string
  km_raw :: string

record Key =
  k_primary :: keyMaterial
  k_byID :: "(string \<times> keyMaterial) list"

text \<open>What \<open>Stat\<close> and a full read say of a key file, and whether systemd placed it as a credential.\<close>

record key_file =
  kf_regular :: bool
  kf_perm :: nat
  kf_owned :: bool
  kf_credential :: bool
  kf_body :: string

definition checkAccess :: "key_file \<Rightarrow> bool" where
  "checkAccess f =
     (if kf_credential f then kf_perm f mod 8 = 0
      else kf_perm f mod 64 = 0 \<and> kf_owned f)"

definition trim_newlines :: "string \<Rightarrow> string" where
  "trim_newlines s = rev (dropWhile (\<lambda>c. c = CHR 0x0D \<or> c = CHR 0x0A) (rev s))"

definition hex_chars :: "string \<Rightarrow> string" where
  "hex_chars s = concat (map (\<lambda>c. [char_of (hex_digit (of_char c div 16)), char_of (hex_digit (of_char c mod 16))]) s)"

fun hex_decode :: "string \<Rightarrow> string option" where
  "hex_decode [] = Some []"
| "hex_decode [c] = None"
| "hex_decode (c # d # s) =
     (case (hex_val (of_char c), hex_val (of_char d), hex_decode s) of
        (Some x, Some y, Some r) \<Rightarrow> Some (char_of (16 * x + y) # r)
      | _ \<Rightarrow> None)"

definition decodeKey :: "string \<Rightarrow> secret_err + string" where
  "decodeKey s =
     (if length s \<noteq> 2 * keyBytes then Inl ErrMalformedKey
      else if \<exists>c \<in> set s. 65 \<le> (of_char c :: nat) \<and> (of_char c :: nat) \<le> 70 then Inl ErrMalformedKey
      else (case hex_decode s of None \<Rightarrow> Inl ErrMalformedKey | Some m \<Rightarrow> Inr m))"

definition newKeyMaterial :: "crypto \<Rightarrow> string \<Rightarrow> secret_err + keyMaterial" where
  "newKeyMaterial c material =
     (if length material \<noteq> keyBytes then Inl ErrMalformedKey
      else Inr \<lparr>km_id = take keyIDBytes (cr_sha c (keyIDInfo @ material)), km_raw = material\<rparr>)"

definition readKey :: "crypto \<Rightarrow> key_file option \<Rightarrow> secret_err + keyMaterial" where
  "readKey c file =
     (case file of
        None \<Rightarrow> Inl ErrNotExist
      | Some f \<Rightarrow>
          if \<not> kf_regular f \<or> \<not> checkAccess f then Inl ErrBadPermissions
          else if length (kf_body f) < 2 * keyBytes \<or> 2 * keyBytes + 2 < length (kf_body f) then Inl ErrMalformedKey
          else sbind (decodeKey (trim_newlines (kf_body f))) (newKeyMaterial c))"

fun add_retired :: "crypto \<Rightarrow> Key \<Rightarrow> key_file option list \<Rightarrow> secret_err + Key" where
  "add_retired c k [] = Inr k"
| "add_retired c k (p # ps) =
     sbind (readKey c p) (\<lambda>r.
     if map_of (k_byID k) (km_id r) \<noteq> None then Inl ErrDuplicateKey
     else add_retired c (k\<lparr>k_byID := put (km_id r) r (k_byID k)\<rparr>) ps)"

definition Load :: "crypto \<Rightarrow> key_file option \<Rightarrow> key_file option list \<Rightarrow> secret_err + Key" where
  "Load c file retired =
     sbind (readKey c file) (\<lambda>p. add_retired c \<lparr>k_primary = p, k_byID = [(km_id p, p)]\<rparr> retired)"

text \<open>
  \<open>Create\<close>: \<open>file\<close> is what stands at the path when it starts, \<open>rival\<close> what another process linked
  there before this one's \<open>link\<close>, \<open>credential\<close> whether the path is a systemd credential.  The result
  comes with what stands at the path in the end.
\<close>

definition fresh_file :: "bool \<Rightarrow> string \<Rightarrow> key_file" where
  "fresh_file credential material =
     \<lparr>kf_regular = True, kf_perm = 256, kf_owned = True, kf_credential = credential,
      kf_body = hex_chars material @ [CHR 0x0A]\<rparr>"

definition Create :: "crypto \<Rightarrow> bool \<Rightarrow> string option \<Rightarrow> key_file option \<Rightarrow> key_file option \<Rightarrow>
    key_file option \<times> (secret_err + Key)" where
  "Create c credential rnd rival file =
     (case Load c file [] of
        Inr k \<Rightarrow> (file, Inr k)
      | Inl e \<Rightarrow>
          if e \<noteq> ErrNotExist then (file, Inl e)
          else (case rnd of
             None \<Rightarrow> (rival, Inl ErrNoRandom)
           | Some material \<Rightarrow>
               (case newKeyMaterial c material of
                  Inl e \<Rightarrow> (rival, Inl e)
                | Inr want \<Rightarrow>
                    (case rival of
                       Some f \<Rightarrow> (rival, Load c rival [])
                     | None \<Rightarrow>
                         (let f = Some (fresh_file credential material) in
                          (f, sbind (Load c f []) (\<lambda>k.
                            if km_id (k_primary k) \<noteq> km_id want then Inl ErrNotGenerated else Inr k)))))))"

section \<open>Sealing\<close>

definition subkey :: "crypto \<Rightarrow> keyMaterial \<Rightarrow> string \<Rightarrow> string" where
  "subkey c m salt = cr_hkdf c (km_raw m) salt subkeyInfo"

definition key_ID :: "Key \<Rightarrow> string" where "key_ID k = hex_chars (km_id (k_primary k))"

definition Knows :: "Key \<Rightarrow> string \<Rightarrow> bool" where
  "Knows k i =
     (case hex_decode i of None \<Rightarrow> False
      | Some raw \<Rightarrow> length raw = keyIDBytes \<and> map_of (k_byID k) raw \<noteq> None)"

definition be32 :: "nat \<Rightarrow> string" where
  "be32 n = [char_of (n div 2 ^ 24 mod 256), char_of (n div 2 ^ 16 mod 256), char_of (n div 2 ^ 8 mod 256), char_of (n mod 256)]"

definition additionalData :: "string \<Rightarrow> string \<Rightarrow> string \<Rightarrow> string" where
  "additionalData header kind i = header @ be32 (length kind) @ kind @ be32 (length i) @ i"

text \<open>\<open>salt\<close> is what \<open>rand.Read\<close> fills in, \<open>None\<close> when it fails.\<close>

definition Seal :: "crypto \<Rightarrow> Key \<Rightarrow> string option \<Rightarrow> string \<Rightarrow> string \<Rightarrow> string \<Rightarrow> secret_err + string" where
  "Seal c k rnd kind i plaintext =
     (case rnd of None \<Rightarrow> Inl ErrNoRandom
      | Some salt \<Rightarrow>
          (let header = [formatVersion] @ km_id (k_primary k) @ salt in
           Inr (header @ cr_seal c (subkey c (k_primary k) salt) plaintext (additionalData header kind i))))"

definition Open :: "crypto \<Rightarrow> Key \<Rightarrow> string \<Rightarrow> string \<Rightarrow> string \<Rightarrow> secret_err + string" where
  "Open c k kind i ciphertext =
     (if length ciphertext < headerBytes then Inl ErrBadCiphertext
      else if hd ciphertext \<noteq> formatVersion then Inl ErrBadCiphertext
      else
        (let want = take keyIDBytes (drop 1 ciphertext); header = take headerBytes ciphertext in
         case map_of (k_byID k) want of
           None \<Rightarrow> Inl (ErrUnknownKey want)
         | Some key \<Rightarrow>
             (case cr_open c (subkey c key (drop (1 + keyIDBytes) header)) (drop headerBytes ciphertext)
                     (additionalData header kind i) of
                None \<Rightarrow> Inl ErrBadCiphertext
              | Some p \<Rightarrow> if take keyIDBytes (drop 1 header) \<noteq> km_id key then Inl ErrBadCiphertext else Inr p)))"

section \<open>The key file\<close>

lemma hex_digit_less: "n < 16 \<Longrightarrow> hex_digit n < 256"
  by (auto simp: hex_digit_def)

lemma hex_digit_char [simp]: "n < 16 \<Longrightarrow> (of_char (char_of (hex_digit n) :: char) :: nat) = hex_digit n"
  using hex_digit_less [of n] by (simp add: of_char_of)

lemma hex_decode_chars [simp]: "hex_decode (hex_chars s) = Some s"
proof (induction s)
  case (Cons c s)
  have "(of_char c :: nat) div 16 < 16" "(of_char c :: nat) mod 16 < 16"
    using nat_of_char_less_256 [of c] by (simp_all add: less_mult_imp_div_less)
  moreover have "16 * ((of_char c :: nat) div 16) + of_char c mod 16 = of_char c" by simp
  moreover have "hex_digit n mod 256 = hex_digit n" if "n < 16" for n using hex_digit_less [OF that] by simp
  ultimately show ?case using Cons by (simp add: hex_chars_def hex_val_digit)
qed (simp add: hex_chars_def)

lemma length_hex_chars [simp]: "length (hex_chars s) = 2 * length s"
  by (induction s) (simp_all add: hex_chars_def)

lemma hex_chars_lower: "d \<in> set (hex_chars s) \<Longrightarrow> \<exists>n < 16. d = char_of (hex_digit n)"
proof -
  assume "d \<in> set (hex_chars s)"
  then obtain c where "d = char_of (hex_digit (of_char c div 16)) \<or> d = char_of (hex_digit (of_char c mod 16))"
    by (auto simp: hex_chars_def)
  moreover have "(of_char c :: nat) div 16 < 16" "(of_char c :: nat) mod 16 < 16"
    using nat_of_char_less_256 [of c] by (simp_all add: less_mult_imp_div_less)
  ultimately show ?thesis by blast
qed

lemma lower_facts:
  assumes "n < 16" and "d = char_of (hex_digit n)"
  shows "d \<noteq> CHR 0x0A" and "d \<noteq> CHR 0x0D" and "\<not> (65 \<le> (of_char d :: nat) \<and> (of_char d :: nat) \<le> 70)"
proof -
  have v: "(of_char d :: nat) = hex_digit n"
    using assms hex_digit_less [OF assms(1)] by simp
  then have "(of_char d :: nat) \<noteq> 10" "(of_char d :: nat) \<noteq> 13" using assms(1) by (auto simp: hex_digit_def)
  then show "d \<noteq> CHR 0x0A" "d \<noteq> CHR 0x0D" by auto
  show "\<not> (65 \<le> (of_char d :: nat) \<and> (of_char d :: nat) \<le> 70)" using v assms(1) by (auto simp: hex_digit_def)
qed

lemma trim_newlines_hex: "s \<noteq> [] \<Longrightarrow> trim_newlines (hex_chars s @ [CHR 0x0A]) = hex_chars s"
proof -
  assume "s \<noteq> []"
  then have "hex_chars s \<noteq> []" by (metis length_hex_chars length_0_conv mult_is_0 zero_neq_numeral)
  then obtain ys d where d: "hex_chars s = ys @ [d]" by (metis rev_exhaust)
  then have "d \<in> set (hex_chars s)" by simp
  from hex_chars_lower [OF this] lower_facts(1,2) show ?thesis by (auto simp: trim_newlines_def d)
qed

lemma readKey_fresh:
  assumes "length material = keyBytes"
  shows "readKey c (Some (fresh_file cred material)) = newKeyMaterial c material"
proof -
  have "material \<noteq> []" using assms by (auto simp: keyBytes_def)
  then have "decodeKey (trim_newlines (hex_chars material @ [CHR 0x0A])) = Inr material"
    using assms hex_chars_lower lower_facts(3) by (fastforce simp: decodeKey_def trim_newlines_hex)
  then show ?thesis using assms by (simp add: readKey_def fresh_file_def checkAccess_def keyBytes_def)
qed

lemma Load_fresh:
  assumes "length material = keyBytes"
  shows "Load c (Some (fresh_file cred material)) [] =
    Inr \<lparr>k_primary = \<lparr>km_id = take keyIDBytes (cr_sha c (keyIDInfo @ material)), km_raw = material\<rparr>,
         k_byID = [(take keyIDBytes (cr_sha c (keyIDInfo @ material)),
           \<lparr>km_id = take keyIDBytes (cr_sha c (keyIDInfo @ material)), km_raw = material\<rparr>)]\<rparr>"
  using assms by (simp add: Load_def readKey_fresh newKeyMaterial_def)

text \<open>
  C20: Creating a key never replaces one.  Whatever stood at the path is still there afterwards, and so
  is what another process linked in the meantime; a key that \<open>Create\<close> returns is the one that loading
  the file it leaves gives; and on an empty path with no rival it succeeds with the material it drew.
\<close>

theorem create_never_replaces:
  "(file \<noteq> None \<longrightarrow> fst (Create c cred rnd rival file) = file) \<and>
   (file = None \<and> rival \<noteq> None \<longrightarrow> fst (Create c cred rnd rival file) = rival) \<and>
   (snd (Create c cred rnd rival file) = Inr k \<longrightarrow> Load c (fst (Create c cred rnd rival file)) [] = Inr k) \<and>
   (length material = keyBytes \<longrightarrow> (\<exists>k. snd (Create c cred (Some material) None None) = Inr k \<and>
      km_raw (k_primary k) = material))"
proof (intro conjI impI)
  have none: "Load c None [] = Inl ErrNotExist" by (simp add: Load_def readKey_def)
  have exists: "Load c (Some f) [] \<noteq> Inl ErrNotExist" for f
    by (auto simp: Load_def readKey_def sbind_Inl_iff decodeKey_def newKeyMaterial_def split: if_splits option.splits)
  show "fst (Create c cred rnd rival file) = file" if "file \<noteq> None"
    using that exists by (auto simp: Create_def split: sum.splits)
  show "fst (Create c cred rnd rival file) = rival" if "file = None \<and> rival \<noteq> None"
    using that none by (auto simp: Create_def split: sum.splits option.splits)
  show "Load c (fst (Create c cred rnd rival file)) [] = Inr k" if "snd (Create c cred rnd rival file) = Inr k"
    using that by (auto simp: Create_def Let_def split: sum.splits option.splits if_splits)
  show "\<exists>k. snd (Create c cred (Some material) None None) = Inr k \<and> km_raw (k_primary k) = material"
    if "length material = keyBytes"
    using that none by (simp add: Create_def newKeyMaterial_def Load_fresh)
qed

definition sample_crypto :: crypto where
  "sample_crypto = \<lparr>cr_sha = (\<lambda>s. take 32 (rev s @ replicate 32 (CHR 0x00))), cr_hkdf = (\<lambda>k s i. k @ s @ i),
     cr_seal = (\<lambda>k p a. show_nat (length p) @ ''.'' @ p @ k @ a),
     cr_open = (\<lambda>k ct a. let n = takeWhile (\<lambda>x. x \<noteq> CHR ''.'') ct; p = take (read_nat n) (drop (length n + 1) ct) in
       if ct = show_nat (length p) @ ''.'' @ p @ k @ a then Some p else None)\<rparr>"

definition sample_material :: string where "sample_material = replicate 32 (CHR ''k'')"

theorem create_never_replaces_witness:
  "fst (Create sample_crypto False None None (Some (fresh_file False sample_material))) = Some (fresh_file False sample_material) \<and>
   fst (Create sample_crypto False None (Some (fresh_file False sample_material)) None) = Some (fresh_file False sample_material) \<and>
   (\<exists>k. Load sample_crypto (fst (Create sample_crypto False (Some sample_material) None None)) [] = Inr k)"
proof -
  have l: "length sample_material = keyBytes" by (simp add: sample_material_def keyBytes_def)
  obtain k where k: "snd (Create sample_crypto False (Some sample_material) None None) = Inr k"
    using create_never_replaces [of None sample_crypto False None None undefined sample_material] l by blast
  show ?thesis
    using create_never_replaces [of "Some (fresh_file False sample_material)" sample_crypto False None None k sample_material]
      create_never_replaces [of None sample_crypto False None "Some (fresh_file False sample_material)" k sample_material]
      create_never_replaces [of None sample_crypto False "Some sample_material" None k sample_material] k by blast
qed

section \<open>Sealed values\<close>

text \<open>A keyring as \<open>Load\<close> builds it: entries under their own identifiers, the primary among them.\<close>

definition keyring_ok :: "Key \<Rightarrow> bool" where
  "keyring_ok k \<longleftrightarrow> map_of (k_byID k) (km_id (k_primary k)) = Some (k_primary k) \<and>
     (\<forall>(i, m) \<in> set (k_byID k). km_id m = i \<and> length i = keyIDBytes)"

lemma newKeyMaterial_id:
  "(\<And>x. length (cr_sha c x) = 32) \<Longrightarrow> newKeyMaterial c m = Inr r \<Longrightarrow> length (km_id r) = keyIDBytes"
  by (auto simp: newKeyMaterial_def keyIDBytes_def split: if_splits)

lemma readKey_id: "(\<And>x. length (cr_sha c x) = 32) \<Longrightarrow> readKey c f = Inr r \<Longrightarrow> length (km_id r) = keyIDBytes"
  using newKeyMaterial_id [of c] by (auto simp: readKey_def split: option.splits if_splits)

lemma set_put: "set (put k v m) \<subseteq> insert (k, v) (set m)"
  by (induction k v m rule: put.induct) auto

lemma add_retired_ok:
  assumes "\<And>x. length (cr_sha c x) = 32" and "keyring_ok k" and "add_retired c k ps = Inr k'"
  shows "keyring_ok k' \<and> k_primary k' = k_primary k \<and>
    (\<forall>i m. map_of (k_byID k) i = Some m \<longrightarrow> map_of (k_byID k') i = Some m)"
  using assms(2,3)
proof (induction ps arbitrary: k)
  case (Cons p ps)
  then obtain r where r: "readKey c p = Inr r" "map_of (k_byID k) (km_id r) = None"
    "add_retired c (k\<lparr>k_byID := put (km_id r) r (k_byID k)\<rparr>) ps = Inr k'"
    by (auto split: if_splits)
  have "keyring_ok (k\<lparr>k_byID := put (km_id r) r (k_byID k)\<rparr>)"
    using Cons.prems(1) r(2) readKey_id [OF assms(1) r(1)] set_put [of "km_id r" r "k_byID k"]
    by (auto simp: keyring_ok_def)
  from Cons.IH [OF this r(3)] r(2) show ?case by (simp split: if_splits) (metis option.distinct(1))
qed auto

lemma Load_ok:
  assumes "\<And>x. length (cr_sha c x) = 32" and "Load c f ps = Inr k"
  shows "keyring_ok k"
proof -
  obtain p where p: "readKey c f = Inr p" "add_retired c \<lparr>k_primary = p, k_byID = [(km_id p, p)]\<rparr> ps = Inr k"
    using assms(2) by (auto simp: Load_def)
  have "keyring_ok \<lparr>k_primary = p, k_byID = [(km_id p, p)]\<rparr>"
    using readKey_id [OF assms(1) p(1)] by (simp add: keyring_ok_def)
  from add_retired_ok [OF assms(1) this p(2)] show ?thesis by simp
qed

lemma Open_Seal:
  assumes "keyring_ok k" and "length salt = saltBytes" and "map_of (k_byID k') (km_id (k_primary k)) = Some (k_primary k)"
    and "Seal c k (Some salt) kind i p = Inr ct"
  shows "Open c k' kind' i' ct =
    (case cr_open c (subkey c (k_primary k) salt)
        (cr_seal c (subkey c (k_primary k) salt) p (additionalData ([formatVersion] @ km_id (k_primary k) @ salt) kind i))
        (additionalData ([formatVersion] @ km_id (k_primary k) @ salt) kind' i') of
       None \<Rightarrow> Inl ErrBadCiphertext | Some q \<Rightarrow> Inr q)"
proof -
  have id4: "length (km_id (k_primary k)) = 4"
    using assms(1) map_of_SomeD by (fastforce simp: keyring_ok_def keyIDBytes_def)
  have "length ([formatVersion] @ km_id (k_primary k) @ salt) = headerBytes"
    using id4 assms(2) by (simp add: headerBytes_def keyIDBytes_def saltBytes_def)
  with assms(2-4) id4 show ?thesis
    by (auto simp: Open_def Seal_def Let_def headerBytes_def keyIDBytes_def saltBytes_def split: option.split)
qed

lemma be32_inj:
  assumes "m < 2 ^ 32" and "n < 2 ^ 32" and "be32 m = be32 n"
  shows "m = n"
proof -
  have digits: "x = (x div 256 div 256 div 256 mod 256) * 16777216 + (x div 256 div 256 mod 256) * 65536 +
      (x div 256 mod 256) * 256 + x mod 256" if "x < 2 ^ 32" for x :: nat
  proof -
    have "x div 256 div 256 div 256 = x div 16777216" by (simp flip: div_mult2_eq)
    then have "x div 256 div 256 div 256 < 256" using that by (simp add: less_mult_imp_div_less)
    then have t: "x div 256 div 256 div 256 mod 256 = x div 256 div 256 div 256" by simp
    have e: "x = 256 * (x div 256) + x mod 256" "x div 256 = 256 * (x div 256 div 256) + x div 256 mod 256"
      "x div 256 div 256 = 256 * (x div 256 div 256 div 256) + x div 256 div 256 mod 256"
      by (rule mult_div_mod_eq [symmetric])+
    show ?thesis unfolding t using e by linarith
  qed
  have "2 ^ 24 = (256 * 256 * 256 :: nat)" "2 ^ 16 = (256 * 256 :: nat)" "2 ^ 8 = (256 :: nat)" by simp_all
  then have b: "be32 x = [char_of (x div 256 div 256 div 256 mod 256), char_of (x div 256 div 256 mod 256),
      char_of (x div 256 mod 256), char_of (x mod 256)]" for x
    unfolding be32_def by (simp only: div_mult2_eq)
  have ch: "x mod 256 = y mod 256" if "(char_of (x mod 256) :: char) = char_of (y mod 256)" for x y :: nat
    using that by (metis of_char_of mod_mod_trivial)
  note e = assms(3) [unfolded b list.inject]
  have "m div 256 div 256 div 256 mod 256 = n div 256 div 256 div 256 mod 256" "m div 256 div 256 mod 256 = n div 256 div 256 mod 256"
    "m div 256 mod 256 = n div 256 mod 256" "m mod 256 = n mod 256"
    by (rule ch; use e in blast)+
  then show ?thesis using digits [OF assms(1)] digits [OF assms(2)] by metis
qed

lemma additionalData_inj:
  assumes "length kind < 2 ^ 32" and "length i < 2 ^ 32" and "length kind' < 2 ^ 32" and "length i' < 2 ^ 32"
    and "additionalData h kind i = additionalData h kind' i'"
  shows "kind = kind' \<and> i = i'"
proof -
  have len: "length (be32 n) = 4" for n by (simp add: be32_def)
  have e: "be32 (length kind) @ kind @ be32 (length i) @ i = be32 (length kind') @ kind' @ be32 (length i') @ i'"
    using assms(5) by (simp add: additionalData_def)
  then have "be32 (length kind) = be32 (length kind')" and
    r: "kind @ be32 (length i) @ i = kind' @ be32 (length i') @ i'"
    using len by (auto simp: append_eq_append_conv)
  then have "length kind = length kind'" using be32_inj assms(1,3) by blast
  with r len show ?thesis by (auto simp: append_eq_append_conv)
qed

text \<open>
  C21: A sealed value opens where it belongs and nowhere else.  What a loaded keyring seals opens again
  under every keyring that still holds its key, a retired one included, to the same plaintext.  If the
  cipher opens nothing under other additional data than it was sealed with, the value does not open
  for any other kind or row.
\<close>

theorem sealed_value_is_bound:
  assumes "\<And>x. length (cr_sha c x) = 32" and "\<And>s p a. cr_open c s (cr_seal c s p a) a = Some p"
    and "\<And>s p a a' q. cr_open c s (cr_seal c s p a) a' = Some q \<Longrightarrow> a' = a"
    and "Load c f ps = Inr k" and "length salt = saltBytes" and "Seal c k (Some salt) kind i p = Inr ct"
    and "map_of (k_byID k') (km_id (k_primary k)) = Some (k_primary k)"
  shows "Open c k' kind i ct = Inr p \<and>
    (\<forall>kind' i' q. length kind < 2 ^ 32 \<and> length i < 2 ^ 32 \<and> length kind' < 2 ^ 32 \<and> length i' < 2 ^ 32 \<and>
       Open c k' kind' i' ct = Inr q \<longrightarrow> kind' = kind \<and> i' = i \<and> q = p)"
proof (intro conjI allI impI)
  note opens = Open_Seal [OF Load_ok [OF assms(1,4)] assms(5,7,6)]
  show o: "Open c k' kind i ct = Inr p" unfolding opens assms(2) by simp
  fix kind' i' q
  assume a: "length kind < 2 ^ 32 \<and> length i < 2 ^ 32 \<and> length kind' < 2 ^ 32 \<and> length i' < 2 ^ 32 \<and>
       Open c k' kind' i' ct = Inr q"
  then have "additionalData ([formatVersion] @ km_id (k_primary k) @ salt) kind' i' =
      additionalData ([formatVersion] @ km_id (k_primary k) @ salt) kind i"
    unfolding opens using assms(3) by (auto split: option.splits)
  with a additionalData_inj show "kind' = kind" "i' = i" by metis+
  with a o show "q = p" by simp
qed

lemma takeWhile_digits: "takeWhile (\<lambda>x. x \<noteq> CHR ''.'') (show_nat n @ ''.'' @ r) = show_nat n"
proof -
  have "\<forall>x \<in> set (show_nat n). x \<noteq> CHR ''.''"
    using show_nat_digits [of n] by (auto simp: is_digit_def)
  then show ?thesis by (simp add: takeWhile_append)
qed

lemma sample_crypto_laws:
  "length (cr_sha sample_crypto x) = 32"
  "cr_open sample_crypto s (cr_seal sample_crypto s p a) a = Some p"
  "cr_open sample_crypto s (cr_seal sample_crypto s p a) a' = Some q \<Longrightarrow> a' = a"
  using takeWhile_digits [of "length p"]
  by (simp_all add: sample_crypto_def Let_def read_show_nat split: if_splits)

theorem sealed_value_is_bound_witness:
  "\<exists>k ct. Load sample_crypto (Some (fresh_file False sample_material)) [] = Inr k \<and>
     Seal sample_crypto k (Some (replicate saltBytes (CHR ''s''))) ''totp'' ''usr_1'' ''seed'' = Inr ct \<and>
     Open sample_crypto k ''totp'' ''usr_1'' ct = Inr ''seed'' \<and> Open sample_crypto k ''totp'' ''usr_2'' ct \<noteq> Inr ''seed''"
proof -
  have l: "length sample_material = keyBytes" by (simp add: sample_material_def keyBytes_def)
  obtain k where k: "Load sample_crypto (Some (fresh_file False sample_material)) [] = Inr k"
    using Load_fresh [OF l] by blast
  then have m: "map_of (k_byID k) (km_id (k_primary k)) = Some (k_primary k)"
    using Load_ok [OF sample_crypto_laws(1) k] by (simp add: keyring_ok_def)
  obtain ct where ct: "Seal sample_crypto k (Some (replicate saltBytes (CHR ''s''))) ''totp'' ''usr_1'' ''seed'' = Inr ct"
    by (simp add: Seal_def Let_def)
  have "length (replicate saltBytes (CHR ''s'')) = saltBytes" by simp
  have b: "Open sample_crypto k ''totp'' ''usr_1'' ct = Inr ''seed'' \<and>
      (\<forall>kind' i' q. length ''totp'' < 2 ^ 32 \<and> length ''usr_1'' < 2 ^ 32 \<and> length kind' < 2 ^ 32 \<and> length i' < 2 ^ 32 \<and>
        Open sample_crypto k kind' i' ct = Inr q \<longrightarrow> kind' = ''totp'' \<and> i' = ''usr_1'' \<and> q = ''seed'')"
    by (rule sealed_value_is_bound [OF sample_crypto_laws(1,2) _ k _ ct m]) (auto dest: sample_crypto_laws(3))
  from conjunct2 [OF b] have "Open sample_crypto k ''totp'' ''usr_2'' ct = Inr ''seed'' \<longrightarrow> ''usr_2'' = ''usr_1''"
    by (elim allE [where x = "''totp''"] allE [where x = "''usr_2''"] allE [where x = "''seed''"]) simp
  then have "Open sample_crypto k ''totp'' ''usr_2'' ct \<noteq> Inr ''seed''" by simp
  with k ct conjunct1 [OF b] show ?thesis by blast
qed

end
