(* ===== verification/FleetRoll.thy ===== *)
theory FleetRoll
  imports Fleet
begin

text \<open>
  A roll refined to a queue of replicas: whatever heartbeats, restarts and transitions interleave, the
  control plane offers exactly the replica at its head.
\<close>

section \<open>The operations that run beside a roll\<close>

datatype fleet_act =
    Beat string node_report int
  | Contact string string int int
  | Roll int string "Replica list"
  | Move int string string string
  | Reset int string string
  | Prune "string list"

fun fleet_run :: "id_db \<Rightarrow> fleet_act \<Rightarrow> fleet_db \<Rightarrow> ident_err + fleet_db" where
  "fleet_run idb (Beat name r seen) db = Heartbeat name r seen db"
| "fleet_run idb (Contact name agent protocol seen) db = Seen name agent protocol seen db"
| "fleet_run idb (Roll now roll rs) db = RequestRestart now roll rs db"
| "fleet_run idb (Move now name to who) db = Transition now name to who idb db"
| "fleet_run idb (Reset now model node) db = RequestStageReset now model node db"
| "fleet_run idb (Prune ids) db = Inr (foldl (\<lambda>d key. delete_deployment key d) db ids)"

inductive fleet_trace :: "id_db \<Rightarrow> fleet_db \<Rightarrow> fleet_act list \<Rightarrow> fleet_db \<Rightarrow> bool" for idb where
  stay: "fleet_trace idb db [] db"
| move: "fleet_run idb act db = Inr db1 \<Longrightarrow> fleet_trace idb db1 acts db2 \<Longrightarrow> fleet_trace idb db (act # acts) db2"

inductive_cases fleet_trace_NilE: "fleet_trace idb db [] db'"
inductive_cases fleet_trace_ConsE: "fleet_trace idb db (act # acts) db'"

section \<open>The abstract roll\<close>

definition replica_key :: "Replica \<Rightarrow> string \<times> string" where
  "replica_key r = (rp_node r, rp_id r)"

definition rows_of :: "string \<Rightarrow> fleet_db \<Rightarrow> restart_row list" where
  "rows_of roll db = filter (\<lambda>r. rs_roll r = roll) (f_restarts db)"

text \<open>The replicas of a roll still to be cycled, in order.\<close>

definition queue_of :: "string \<Rightarrow> fleet_db \<Rightarrow> (string \<times> string) list" where
  "queue_of roll db = map restart_key (sort_key rs_sequence (rows_of roll db))"

fun queue_step :: "fleet_act \<Rightarrow> (string \<times> string) list \<Rightarrow> (string \<times> string) list" where
  "queue_step (Beat name r seen) q = filter (\<lambda>(n, d). \<not> (n = name \<and> d \<in> set (nr_restart_done r))) q"
| "queue_step (Roll now roll rs) q = filter (\<lambda>k. k \<notin> replica_key ` set rs) q"
| "queue_step (Prune ids) q = filter (\<lambda>(n, d). d \<notin> set ids) q"
| "queue_step _ q = q"

fun other_roll :: "string \<Rightarrow> fleet_act \<Rightarrow> bool" where
  "other_roll roll (Roll now roll' rs) = (roll' \<noteq> roll)"
| "other_roll roll _ = True"

text \<open>What the control plane offers of a roll, over all nodes.\<close>

definition offered :: "string \<Rightarrow> fleet_db \<Rightarrow> (string \<times> string) list" where
  "offered roll db = map restart_key
     (filter (\<lambda>r. rs_deployment r \<in> set (OfferedRestarts (rs_node r) db)) (rows_of roll db))"

definition roll_ok :: "string \<Rightarrow> fleet_db \<Rightarrow> bool" where
  "roll_ok roll db \<longleftrightarrow> distinct (map restart_key (f_restarts db)) \<and> distinct (map rs_sequence (rows_of roll db))"

lemma mem_OfferedRestarts:
  "d \<in> set (OfferedRestarts node db) \<longleftrightarrow>
     (\<exists>r \<in> set (f_restarts db). rs_deployment r = d \<and> rs_node r = node \<and> \<not> held_back (f_restarts db) r)"
  by (auto simp: OfferedRestarts_def)

section \<open>The head of the queue\<close>

lemma sort_key_short: "length xs \<le> 1 \<Longrightarrow> sort_key f xs = xs"
  by (cases xs) auto

lemma filter_least_sorted:
  fixes f :: "'a \<Rightarrow> 'b::linorder"
  assumes "sorted (map f xs)" and "distinct (map f xs)"
  shows "filter (\<lambda>x. \<forall>y \<in> set xs. f x \<le> f y) xs = take 1 xs"
proof (cases xs)
  case (Cons x ys)
  have "filter (\<lambda>z. \<forall>y \<in> set xs. f z \<le> f y) ys = []"
  proof (rule filter_False, intro ballI notI)
    fix z assume z: "z \<in> set ys" "\<forall>y \<in> set xs. f z \<le> f y"
    with assms Cons have "f z = f x" by (auto intro: antisym)
    with z(1) have "f x \<in> f ` set ys" by (metis imageI)
    with assms(2) Cons show False by simp
  qed
  then show ?thesis using assms(1) Cons by auto
qed simp

lemma filter_least:
  fixes f :: "'a \<Rightarrow> 'b::linorder"
  assumes "distinct (map f xs)"
  shows "filter (\<lambda>x. \<forall>y \<in> set xs. f x \<le> f y) xs = take 1 (sort_key f xs)"
proof -
  let ?P = "\<lambda>x. \<forall>y \<in> set xs. f x \<le> f y"
  have d: "distinct (map f (sort_key f xs))"
    using assms by (metis distinct_map distinct_sort set_sort)
  have "sort_key f (filter ?P xs) = filter ?P (sort_key f xs)" by (simp add: filter_sort)
  also have "\<dots> = take 1 (sort_key f xs)"
    using filter_least_sorted [OF sorted_sort_key [of f xs] d] by simp
  finally have s: "sort_key f (filter ?P xs) = take 1 (sort_key f xs)" .
  then have "length (sort_key f (filter ?P xs)) \<le> 1" by (simp only: length_take)
  then have "sort_key f (filter ?P xs) = filter ?P xs" by (intro sort_key_short) (simp only: length_sort)
  with s show ?thesis by (simp only:)
qed

lemma offered_head:
  assumes "roll_ok roll db" and "roll \<noteq> []"
  shows "offered roll db = take 1 (queue_of roll db)"
proof -
  have d: "distinct (map restart_key (f_restarts db))" using assms(1) by (simp add: roll_ok_def)
  have "rs_deployment r \<in> set (OfferedRestarts (rs_node r) db) \<longleftrightarrow>
      (\<forall>e \<in> set (rows_of roll db). rs_sequence r \<le> rs_sequence e)" if r: "r \<in> set (rows_of roll db)" for r
  proof -
    have rr: "r \<in> set (f_restarts db)" "rs_roll r = roll" using r by (auto simp: rows_of_def)
    have "rs_deployment r \<in> set (OfferedRestarts (rs_node r) db) \<longleftrightarrow>
        (\<exists>x \<in> set (f_restarts db). restart_key x = restart_key r \<and> \<not> held_back (f_restarts db) x)"
      by (auto simp: mem_OfferedRestarts restart_key_def)
    also have "\<dots> \<longleftrightarrow> \<not> held_back (f_restarts db) r"
      using d rr(1) by (auto simp: distinct_map inj_on_def)
    also have "\<dots> \<longleftrightarrow> (\<forall>e \<in> set (rows_of roll db). rs_sequence r \<le> rs_sequence e)"
      using rr(2) assms(2) by (auto simp: held_back_def rows_of_def not_less)
    finally show ?thesis .
  qed
  then have "filter (\<lambda>r. rs_deployment r \<in> set (OfferedRestarts (rs_node r) db)) (rows_of roll db) =
      filter (\<lambda>r. \<forall>e \<in> set (rows_of roll db). rs_sequence r \<le> rs_sequence e) (rows_of roll db)"
    by (rule filter_cong [OF refl])
  also have "\<dots> = take 1 (sort_key rs_sequence (rows_of roll db))"
    using assms(1) by (intro filter_least) (simp add: roll_ok_def)
  finally show ?thesis by (simp add: offered_def queue_of_def take_map)
qed

section \<open>What each operation does to the restart rows\<close>

lemma clears_restarts:
  "f_restarts (foldl (\<lambda>d key. clear_restart name key d) db ks) =
     filter (\<lambda>r. \<not> (rs_node r = name \<and> rs_deployment r \<in> set ks)) (f_restarts db)"
  by (induction ks arbitrary: db) (auto simp: clear_restart_def delete_rows_def intro: filter_cong)

lemma clears_resets_restarts:
  "f_restarts (foldl (\<lambda>d model. clear_reset name model d) db ms) = f_restarts db"
  by (induction ms arbitrary: db) (simp_all add: clear_reset_def)

lemma record_node_restarts: "record_node name ts r db = Inr db' \<Longrightarrow> f_restarts db' = f_restarts db"
  by (auto simp: record_node_def)

lemma record_deployment_restarts:
  "record_deployment name ts d db = Inr db' \<Longrightarrow> f_restarts db' = f_restarts db"
  by (auto simp: record_deployment_def update_deployment_def split: if_splits)

lemma record_staging_restarts: "record_staging name ts s db = Inr db' \<Longrightarrow> f_restarts db' = f_restarts db"
  by (auto simp: record_staging_def split: if_splits)

lemma record_refusal_restarts: "record_refusal name ts rv kind f db = Inr db' \<Longrightarrow> f_restarts db' = f_restarts db"
  by (auto simp: record_refusal_def split: if_splits)

lemma record_refusals_restarts: "record_refusals name ts r db = Inr db' \<Longrightarrow> f_restarts db' = f_restarts db"
  by (auto simp: record_refusals_def clear_refusals_def
      dest!: each_preserves [where g = f_restarts, OF _ record_refusal_restarts])

lemma Heartbeat_restarts:
  assumes "Heartbeat name r seen db = Inr db'"
  shows "f_restarts db' = filter (\<lambda>x. \<not> (rs_node x = name \<and> rs_deployment x \<in> set (nr_restart_done r))) (f_restarts db)"
proof -
  obtain db1 db2 db3 where h: "record_node name (format_ts seen) r db = Inr db1"
    "each (record_deployment name (format_ts seen)) (nr_deployments r) db1 = Inr db2"
    "each (record_staging name (format_ts seen)) (nr_staging r) db2 = Inr db3"
    "record_refusals name (format_ts seen) r (foldl (\<lambda>d key. clear_restart name key d)
      (foldl (\<lambda>d model. clear_reset name model d) db3 (nr_reset_done r)) (nr_restart_done r)) = Inr db'"
    using assms by (auto simp: Heartbeat_def Let_def)
  have "f_restarts db3 = f_restarts db"
    using each_preserves [OF h(3), of f_restarts, OF record_staging_restarts]
      each_preserves [OF h(2), of f_restarts, OF record_deployment_restarts] record_node_restarts [OF h(1)] by simp
  with record_refusals_restarts [OF h(4)] show ?thesis by (simp add: clears_restarts clears_resets_restarts)
qed

lemma distinct_upsert:
  assumes "distinct (map key rows)" and "\<And>x. key (merge x r) = key x"
  shows "distinct (map key (upsert_row key merge r rows))"
proof -
  have "map key (map (\<lambda>x. if key x = key r then merge x r else x) rows) = map key rows"
    using assms(2) by simp
  with assms(1) show ?thesis by (auto simp: upsert_row_def simp del: map_map)
qed

lemma filter_upsert_other:
  assumes "rs_roll r \<noteq> roll"
  shows "filter (\<lambda>x. rs_roll x = roll) (upsert_row restart_key merge_restart r rows) =
     filter (\<lambda>x. rs_roll x = roll \<and> restart_key x \<noteq> restart_key r) rows"
proof -
  have "filter (\<lambda>x. rs_roll x = roll) (map (\<lambda>x. if restart_key x = restart_key r then merge_restart x r else x) rows) =
      filter (\<lambda>x. rs_roll x = roll \<and> restart_key x \<noteq> restart_key r) rows"
    using assms by (induction rows) (auto simp: merge_restart_def)
  moreover have "filter (\<lambda>x. rs_roll x = roll) rows = filter (\<lambda>x. rs_roll x = roll \<and> restart_key x \<noteq> restart_key r) rows"
    if "restart_key r \<notin> restart_key ` set rows"
    using that by (intro filter_cong refl) (metis image_eqI)
  ultimately show ?thesis using assms by (simp add: upsert_row_def)
qed

lemma request_one_rows:
  assumes "request_one ts roll' ir db = Inr db'"
  shows "distinct (map restart_key (f_restarts db)) \<Longrightarrow> distinct (map restart_key (f_restarts db'))"
    and "roll' \<noteq> roll \<Longrightarrow> rows_of roll db' = filter (\<lambda>x. restart_key x \<noteq> replica_key (snd ir)) (rows_of roll db)"
proof -
  from assms obtain r where r: "f_restarts db' = upsert_row restart_key merge_restart r (f_restarts db)"
    "rs_roll r = roll'" "restart_key r = replica_key (snd ir)"
    by (auto simp: request_one_def restart_key_def replica_key_def split: if_splits)
  show "distinct (map restart_key (f_restarts db'))" if "distinct (map restart_key (f_restarts db))"
    unfolding r(1) by (rule distinct_upsert [OF that]) (simp add: restart_key_def merge_restart_def)
  show "rows_of roll db' = filter (\<lambda>x. restart_key x \<noteq> replica_key (snd ir)) (rows_of roll db)" if "roll' \<noteq> roll"
    using filter_upsert_other [of r roll "f_restarts db"] that r by (simp add: rows_of_def conj_commute)
qed

lemma each_request_rows:
  assumes "each (request_one ts roll') irs db = Inr db'"
  shows "distinct (map restart_key (f_restarts db)) \<Longrightarrow> distinct (map restart_key (f_restarts db'))"
    and "roll' \<noteq> roll \<Longrightarrow>
      rows_of roll db' = filter (\<lambda>x. restart_key x \<notin> replica_key ` snd ` set irs) (rows_of roll db)"
  using assms
proof (induction irs arbitrary: db)
  case (Cons ir irs)
  {
    case 1
    then obtain db1 where s: "request_one ts roll' ir db = Inr db1" "each (request_one ts roll') irs db1 = Inr db'"
      by auto
    show ?case using Cons.IH(1) [OF request_one_rows(1) [OF s(1) 1(1)] s(2)] .
  next
    case 2
    then obtain db1 where s: "request_one ts roll' ir db = Inr db1" "each (request_one ts roll') irs db1 = Inr db'"
      by auto
    show ?case
      unfolding Cons.IH(2) [OF 2(1) s(2)] request_one_rows(2) [OF s(1) 2(1)] by (auto intro: filter_cong)
  }
qed simp_all

lemma RequestRestart_rows:
  assumes "RequestRestart now roll' rs db = Inr db'"
  shows "distinct (map restart_key (f_restarts db)) \<Longrightarrow> distinct (map restart_key (f_restarts db'))"
    and "roll' \<noteq> roll \<Longrightarrow> rows_of roll db' = filter (\<lambda>x. restart_key x \<notin> replica_key ` set rs) (rows_of roll db)"
proof -
  have "snd ` set (List.enumerate 0 rs) = set rs" by (metis list.set_map map_snd_enumerate)
  then have im: "replica_key ` snd ` set (List.enumerate 0 rs) = replica_key ` set rs" by simp
  note e = each_request_rows [OF assms [unfolded RequestRestart_def], unfolded im]
  show "distinct (map restart_key (f_restarts db'))" if "distinct (map restart_key (f_restarts db))"
    by (rule e(1) [OF that])
  show "rows_of roll db' = filter (\<lambda>x. restart_key x \<notin> replica_key ` set rs) (rows_of roll db)" if "roll' \<noteq> roll"
    by (rule e(2) [OF that])
qed

lemma deletes_restarts:
  "f_restarts (foldl (\<lambda>d key. delete_deployment key d) db ids) =
     filter (\<lambda>r. rs_deployment r \<notin> set ids) (f_restarts db)"
  by (induction ids arbitrary: db) (auto simp: delete_deployment_def delete_rows_def intro: filter_cong)

section \<open>The refinement\<close>

lemma queue_filter:
  assumes "rows_of roll db' = filter P (rows_of roll db)" and "\<And>r. r \<in> set (rows_of roll db) \<Longrightarrow> P r = Q (restart_key r)"
  shows "queue_of roll db' = filter Q (queue_of roll db)"
proof -
  have "filter P (rows_of roll db) = filter (Q \<circ> restart_key) (rows_of roll db)"
    using assms(2) by (intro filter_cong) auto
  then show ?thesis
    unfolding queue_of_def assms(1) filter_map by (simp add: filter_sort)
qed

lemma roll_ok_filter:
  assumes "rows_of roll db' = filter P (rows_of roll db)" and "distinct (map restart_key (f_restarts db'))"
    and "roll_ok roll db"
  shows "roll_ok roll db'"
  using assms by (auto simp: roll_ok_def distinct_map_filter)

text \<open>An operation that leaves the restart rows alone.\<close>

lemma same_restarts:
  "f_restarts db' = f_restarts db \<Longrightarrow> roll_ok roll db \<Longrightarrow> roll_ok roll db' \<and> queue_of roll db' = queue_of roll db"
  by (simp add: roll_ok_def queue_of_def rows_of_def)

lemma fleet_run_refines:
  assumes "fleet_run idb act db = Inr db'" and "other_roll roll act" and "roll_ok roll db"
  shows "roll_ok roll db' \<and> queue_of roll db' = queue_step act (queue_of roll db)"
proof (cases act)
  case (Beat name r seen)
  with assms(1) have h: "Heartbeat name r seen db = Inr db'" by simp
  note f = Heartbeat_restarts [OF h]
  let ?P = "\<lambda>x. \<not> (rs_node x = name \<and> rs_deployment x \<in> set (nr_restart_done r))"
  have rows: "rows_of roll db' = filter ?P (rows_of roll db)"
    unfolding rows_of_def f by (simp add: conj_commute)
  have "distinct (map restart_key (f_restarts db'))"
    using assms(3) f by (simp add: roll_ok_def distinct_map_filter)
  then have "roll_ok roll db'" by (rule roll_ok_filter [OF rows _ assms(3)])
  with queue_filter [OF rows, of "\<lambda>(n, d). \<not> (n = name \<and> d \<in> set (nr_restart_done r))"] Beat
  show ?thesis by (simp add: restart_key_def)
next
  case (Roll now roll' rs)
  with assms have h: "RequestRestart now roll' rs db = Inr db'" "roll' \<noteq> roll" by simp_all
  note rows = RequestRestart_rows(2) [OF h]
  have "distinct (map restart_key (f_restarts db'))"
    using RequestRestart_rows(1) [OF h(1)] assms(3) by (simp add: roll_ok_def)
  then have "roll_ok roll db'" by (rule roll_ok_filter [OF rows _ assms(3)])
  with queue_filter [OF rows, of "\<lambda>k. k \<notin> replica_key ` set rs"] Roll show ?thesis by simp
next
  case (Contact name agent protocol seen)
  with assms(1) have "Seen name agent protocol seen db = Inr db'" by simp
  then have "f_restarts db' = f_restarts db" unfolding Seen_def sbind_Inr_iff by (elim exE conjE) (simp only: sum.inject, hypsubst, simp)
  from same_restarts [OF this assms(3)] Contact show ?thesis by simp
next
  case (Move now name to who)
  with assms(1) have "f_restarts db' = f_restarts db" by (auto simp: Transition_def Let_def split: if_splits)
  from same_restarts [OF this assms(3)] Move show ?thesis by simp
next
  case (Reset now model node)
  with assms(1) have "f_restarts db' = f_restarts db" by (auto simp: RequestStageReset_def split: if_splits)
  from same_restarts [OF this assms(3)] Reset show ?thesis by simp
next
  case (Prune ids)
  with assms(1) have f: "f_restarts db' = filter (\<lambda>x. rs_deployment x \<notin> set ids) (f_restarts db)"
    by (simp add: deletes_restarts [symmetric])
  have rows: "rows_of roll db' = filter (\<lambda>x. rs_deployment x \<notin> set ids) (rows_of roll db)"
    unfolding rows_of_def f by (simp add: conj_commute)
  have "distinct (map restart_key (f_restarts db'))"
    using assms(3) f by (simp add: roll_ok_def distinct_map_filter)
  then have "roll_ok roll db'" by (rule roll_ok_filter [OF rows _ assms(3)])
  with queue_filter [OF rows, of "\<lambda>(n, d). d \<notin> set ids"] Prune show ?thesis by (simp add: restart_key_def)
qed

lemma fleet_trace_refines:
  "fleet_trace idb db acts db' \<Longrightarrow> list_all (other_roll roll) acts \<Longrightarrow> roll_ok roll db \<Longrightarrow>
     roll_ok roll db' \<and> queue_of roll db' = fold queue_step acts (queue_of roll db)"
proof (induction rule: fleet_trace.induct)
  case (move act db db1 acts db2)
  from fleet_run_refines [OF move(1)] move(3-5) show ?case by simp
qed simp

text \<open>A fresh roll has its replicas in order.\<close>

definition entries :: "string \<Rightarrow> fleet_db \<Rightarrow> ((string \<times> string) \<times> int) set" where
  "entries roll db = (\<lambda>x. (restart_key x, rs_sequence x)) ` set (rows_of roll db)"

lemma merge_restart_same: "restart_key x = restart_key r \<Longrightarrow> merge_restart x r = r"
  by (cases x; cases r) (simp add: merge_restart_def restart_key_def)

lemma set_upsert_restart:
  "set (upsert_row restart_key merge_restart r rows) = insert r {x \<in> set rows. restart_key x \<noteq> restart_key r}"
  by (auto simp: upsert_row_def merge_restart_same image_iff split: if_splits)

lemma request_one_entries:
  assumes "request_one ts roll (i, r) db = Inr db'" and "replica_key r \<notin> fst ` entries roll db"
  shows "entries roll db' = insert (replica_key r, int i) (entries roll db)"
proof -
  from assms(1) obtain x where x: "f_restarts db' = upsert_row restart_key merge_restart x (f_restarts db)"
    "rs_roll x = roll" "restart_key x = replica_key r" "rs_sequence x = int i"
    by (auto simp: request_one_def restart_key_def replica_key_def split: if_splits)
  have "set (rows_of roll db') = insert x {y \<in> set (rows_of roll db). restart_key y \<noteq> restart_key x}"
    using x(1,2) set_upsert_restart [of x "f_restarts db"] by (auto simp: rows_of_def)
  moreover have "{y \<in> set (rows_of roll db). restart_key y \<noteq> restart_key x} = set (rows_of roll db)"
    using assms(2) x(3) by (auto simp: entries_def image_image) (metis image_eqI)
  ultimately show ?thesis using x(3,4) by (simp add: entries_def)
qed

lemma each_request_entries:
  assumes "each (request_one ts roll) (List.enumerate k rs) db = Inr db'" and "distinct (map replica_key rs)"
    and "fst ` entries roll db \<inter> replica_key ` set rs = {}"
  shows "entries roll db' = entries roll db \<union> set (map (\<lambda>(i, r). (replica_key r, int i)) (List.enumerate k rs))"
  using assms
proof (induction rs arbitrary: k db)
  case (Cons r rs)
  from Cons.prems(1) obtain db1 where s: "request_one ts roll (k, r) db = Inr db1"
    "each (request_one ts roll) (List.enumerate (Suc k) rs) db1 = Inr db'" by auto
  have e: "entries roll db1 = insert (replica_key r, int k) (entries roll db)"
    using request_one_entries [OF s(1)] Cons.prems(3) by auto
  have "fst ` entries roll db1 \<inter> replica_key ` set rs = {}"
    using Cons.prems(2,3) e by auto
  from Cons.IH [OF s(2) _ this] Cons.prems(2) e show ?case by auto
qed simp

lemma fresh_roll_queue:
  assumes "RequestRestart now roll rs db = Inr db'" and "rows_of roll db = []"
    and "distinct (map restart_key (f_restarts db))" and "distinct (map replica_key rs)"
  shows "roll_ok roll db' \<and> queue_of roll db' = map replica_key rs"
proof -
  let ?rows = "rows_of roll db'" and ?n = "length rs"
  have en: "entries roll db' = set (map (\<lambda>(i, r). (replica_key r, int i)) (List.enumerate 0 rs))"
    using each_request_entries [OF assms(1) [unfolded RequestRestart_def] assms(4)] assms(2)
    by (simp add: entries_def)
  have ent: "(restart_key x, rs_sequence x) \<in> entries roll db'" if "x \<in> set ?rows" for x
    using that by (simp add: entries_def)
  have key: "nat (rs_sequence x) < ?n \<and> rs_sequence x = int (nat (rs_sequence x)) \<and>
      restart_key x = replica_key (rs ! nat (rs_sequence x))" if "x \<in> set ?rows" for x
    using ent [OF that] en by (auto simp: in_set_enumerate_eq)
  have pk: "distinct (map restart_key (f_restarts db'))" using RequestRestart_rows(1) [OF assms(1,3)] .
  then have dr: "distinct (map restart_key ?rows)" unfolding rows_of_def by (rule distinct_map_filter)
  have "inj_on rs_sequence (set ?rows)"
  proof (rule inj_onI)
    fix x y assume xy: "x \<in> set ?rows" "y \<in> set ?rows" "rs_sequence x = rs_sequence y"
    with key have "restart_key x = restart_key y" by metis
    with xy dr show "x = y" by (auto simp: distinct_map dest: inj_onD)
  qed
  with dr have ds: "distinct (map rs_sequence ?rows)" by (simp add: distinct_map)
  have "rs_sequence ` set ?rows = snd ` entries roll db'" by (simp add: entries_def image_image)
  also have "\<dots> = set (map int [0 ..< ?n])" unfolding en by (force simp: in_set_enumerate_eq image_iff)
  finally have ss: "rs_sequence ` set ?rows = set (map int [0 ..< ?n])" .
  have seqs: "map rs_sequence (sort_key rs_sequence ?rows) = map int [0 ..< ?n]"
  proof (rule sorted_distinct_set_unique)
    show "distinct (map rs_sequence (sort_key rs_sequence ?rows))"
      using ds by (metis distinct_map distinct_sort set_sort)
    show "sorted (map int [0 ..< ?n])" by (simp add: sorted_iff_nth_mono)
    show "distinct (map int [0 ..< ?n])" by (simp add: distinct_map)
    show "set (map rs_sequence (sort_key rs_sequence ?rows)) = set (map int [0 ..< ?n])"
      using ss by simp
  qed simp
  have "queue_of roll db' = map (\<lambda>i. replica_key (rs ! nat i)) (map rs_sequence (sort_key rs_sequence ?rows))"
    using key by (auto simp: queue_of_def)
  also have "\<dots> = map replica_key rs" unfolding seqs by (auto intro: nth_equalityI)
  finally show ?thesis using pk ds by (simp add: roll_ok_def)
qed

text \<open>
  C35: A roll refines a queue: after it is written, and whatever other operations of the control plane run in
  between, what is offered of it over the whole fleet is the first replica of its order that no node has
  reported as done and no later roll has taken over, and nothing else.
\<close>

theorem roll_offers_one_at_a_time:
  assumes "RequestRestart now roll rs db = Inr db1" and "roll \<noteq> []" and "rows_of roll db = []"
    and "distinct (map restart_key (f_restarts db))" and "distinct (map replica_key rs)"
    and "fleet_trace idb db1 acts db2" and "list_all (other_roll roll) acts"
  shows "offered roll db2 = take 1 (fold queue_step acts (map replica_key rs))"
  using fresh_roll_queue [OF assms(1,3,4,5)] fleet_trace_refines [OF assms(6,7)] offered_head [OF _ assms(2)] by metis

text \<open>A model with one serving replica on each of two nodes.\<close>

definition two_nodes :: fleet_db where
  "two_nodes = empty_fleet\<lparr>f_nodes := [sample_node, sample_node\<lparr>nd_name := ''n2''\<rparr>],
     f_deployments := [sample_deployment ''d1'' ''n1'', sample_deployment ''d2'' ''n2'']\<rparr>"

definition done_report :: "string list \<Rightarrow> node_report" where
  "done_report ds = sample_report\<lparr>nr_deployments := [], nr_out_of_policy := [], nr_restart_done := ds\<rparr>"

definition two_replicas :: "Replica list" where
  "two_replicas = [\<lparr>rp_id = ''d1'', rp_node = ''n1'', rp_state = ''ready''\<rparr>,
     \<lparr>rp_id = ''d2'', rp_node = ''n2'', rp_state = ''ready''\<rparr>]"

lemmas fleet_eval = two_nodes_def empty_fleet_def sample_node_def sample_deployment_def two_replicas_def
  RequestRestart_def request_one_def node_exists_def upsert_row_def restart_key_def rows_of_def
  replica_key_def

theorem roll_offers_one_at_a_time_witness:
  "\<exists>db1 db2. RequestRestart 0 ''a'' two_replicas two_nodes = Inr db1 \<and>
     fleet_trace \<lparr>d_users = [], d_tokens = [], d_joins = []\<rparr> db1 [Beat ''n1'' (done_report [''d1'']) 0] db2 \<and>
     offered ''a'' db2 = [(''n2'', ''d2'')]"
proof -
  obtain db1 where r: "RequestRestart 0 ''a'' two_replicas two_nodes = Inr db1"
    by (simp add: fleet_eval)
  then have "\<exists>db2. Heartbeat ''n1'' (done_report [''d1'']) 0 db1 = Inr db2"
    by (auto simp: fleet_eval Heartbeat_def Let_def done_report_def sample_report_def record_node_def update_rows_def
        node_check_def observe_node_def nullOr_def record_refusals_def)
  then obtain db2 where "Heartbeat ''n1'' (done_report [''d1'']) 0 db1 = Inr db2" ..
  then have t: "fleet_trace \<lparr>d_users = [], d_tokens = [], d_joins = []\<rparr> db1 [Beat ''n1'' (done_report [''d1'']) 0] db2"
    by (auto intro: fleet_trace.intros)
  have "offered ''a'' db2 = [(''n2'', ''d2'')]"
    using roll_offers_one_at_a_time [OF r _ _ _ _ t] by (simp add: fleet_eval done_report_def)
  with r t show ?thesis by blast
qed

section \<open>Two restarts of one model\<close>

















end
