(* ===== verification/Spec2Isabelle.thy ===== *)
theory Spec2Isabelle
  imports CanonicalStable GatewayProps AgentPlanProps ReconcileProps AuditCompare AuditLog Retention Throttle IdentityProps Secret FleetRoll
begin

text \<open>
  A verification development for nodary, a control plane and node agent that serve language models on a
  company's own machines: the append-only audit chain, the canonical encoding its hashes are taken over, the
  accounts and credentials, the gateway every inference request passes, the fleet the control plane keeps, and
  the agent that brings a node to its desired state.

  Conventions.  Strings are byte strings (\<^typ>\<open>string\<close>), Go maps are association lists with distinct keys or
  partial functions, an error is the left summand of a sum, a panic is a value of its own, and a transaction that
  fails returns no state.  A table is the list of its rows in a record of tables, and the constraints of the
  migrations are checks of the operation that meets them.  What is outside the repository is an argument of the
  definitions that use it: SHA-256 in lowercase hex (\<open>sha\<close>), randomness, the clock, the AEAD, the file system,
  systemctl, the data plane, the time zones.  The theorems are over all values of these, under the named
  hypotheses they state.

  Shared theories.  \<open>Prelude\<close> holds results and their sequencing, decimal numbers and the parts of \<^verbatim>\<open>strings\<close> and
  \<^verbatim>\<open>sort\<close>; \<open>HashChain\<close> the interface of a chain of hashed records; \<open>Timestamps\<close> reading a stored instant;
  \<open>Float64\<close> the rounding of Go's floating-point arithmetic; \<open>Json\<close> and \<open>JsonDecode\<close> the grammar and the typed
  decoding of \<^verbatim>\<open>encoding/json\<close>; \<open>FleetTables\<close> the tables of the fleet (\<^verbatim>\<open>internal/store/migrations\<close>).

  \<^verbatim>\<open>internal/canonical\<close>.  \<open>Utf\<close> (string.go), \<open>Numbers\<close> (number.go), \<open>Canonical\<close> and \<open>CanonicalParse\<close>
  (canonical.go, value.go) are the code.  \<open>Framing\<close> shows that the canonical bytes of an object determine its
  members; \<open>FloatText\<close> that every finite double has a text, found within the seventeen digits that are tried,
  and that the text reads back to it; \<open>CanonicalReads\<close> and \<open>CanonicalStable\<close> that canonicalizing twice is
  canonicalizing once.  The parser recurses with fuel, twice the length of the document and two more, and is
  proved never to run out of it on any input.  Every other recursion is structural or has a measure.

  \<^verbatim>\<open>internal/audit\<close>.  \<open>AuditRecord\<close> (record.go), \<open>AuditChain\<close> (chain.go), \<open>AuditVerify\<close> and \<open>AuditCompare\<close>
  (verify.go), \<open>AuditDelivery\<close> (sink.go, httpsink.go, syslogsink.go) and \<open>AuditLog\<close> (log.go, over WriteTx of
  \<^verbatim>\<open>internal/store\<close>).  \<open>AuditChain\<close> interprets \<open>HashChain\<close> on the record hash, so that two histories with one
  last hash are equal or exhibit a collision.  Verification is proved sound and complete within its reorder
  window; appending keeps the chain; Act keeps it under any mutation that does.  \<open>Retention\<close>
  (\<^verbatim>\<open>internal/retention\<close>) cuts only a prefix and records the cut.

  \<^verbatim>\<open>internal/identity\<close>, \<^verbatim>\<open>internal/secret\<close>.  \<open>Identity\<close> (role.go, user.go, token.go, principal.go) with
  \<open>IdentityProps\<close>: an invariant of the tables, withdrawal for good, and join tokens spent exactly.  \<open>Secret\<close>: the
  key file and its creation under a race, the keyring and the sealed format.

  \<^verbatim>\<open>internal/gateway\<close>.  \<open>Throttle\<close> (throttle.go): limits, buckets and slots; the buckets are an interpretation of
  the interface \<open>token_bucket\<close>, and their amounts are rationals rounded after each operation as binary64 rounds.
  \<open>Gateway\<close> (gateway.go, proxy.go, errors.go) is one inference request from its credential to its reply, over
  the tables and the throttle; \<open>GatewayProps\<close> shows who reaches the data plane, that slots come back, and what is
  metered.

  \<^verbatim>\<open>internal/fleet\<close>, \<^verbatim>\<open>internal/observed\<close>.  \<open>Observed\<close> is the heartbeat and the usage rows, and shows that a
  heartbeat decides nothing.  \<open>Fleet\<close> (fleet.go, transition.go, staging.go) is the listing, the lifecycle of a
  node, staging requests and restarts, and the deletion of a deployment when the configuration is pruned;
  \<open>FleetRoll\<close> refines a rolling restart to a queue.

  \<^verbatim>\<open>internal/backend\<close>, \<^verbatim>\<open>internal/agent\<close>.  \<open>Backend\<close> (backend.go, capability.go, silicon.go) and \<open>Derive\<close>
  (derive.go, pinned.go, report.go); \<open>NodeConfig\<close> (node.go, guardrail.go) with the maintenance window as one
  interval a week; \<open>Staging\<close> (staging.go), the weights and their manifest on disk; \<open>AgentPlan\<close> (plan.go,
  prepare.go), the plan a node makes of its desired state, and \<open>UnitFile\<close> (unit.go), the template its units
  fill; \<open>AgentPlanProps\<close>: one verdict for each deployment, no card in two units, the limits kept.  \<open>Reconcile\<close>
  (reconcile.go) is the loop that brings a host to the plan; \<open>ReconcileProps\<close> shows what it may start and stop,
  that it reaches the plan, and that it leaves a converged host alone.

  Not modelled: the command line, the HTTP routes of the control plane and of the agent, which decode a request,
  call what is modelled and encode the answer; the store's migrations and connection handling; the application
  of a configuration (\<^verbatim>\<open>internal/config\<close>) but for what its prune deletes of a roll; passwords, key binding and
  setup; downloads and builds; bundles, releases, backups, installation and attestation; the user interface.
  They are input and output, or lie beside the decisions verified here.
\<close>

end
